(* ===== verification/Kernel_Prelude.thy ===== *)
theory Kernel_Prelude
  imports Main "HOL-Library.Word" "HOL-Library.Product_Lexorder"
begin

text \<open>
  Shared vocabulary of the development: the machine integers of the Rust sources, Rust's
  \<open>Result\<close>, the checked and saturating integer operations the kernel uses, ordered maps in the
  shape of \<open>alloc::collections::BTreeMap\<close>, the replay of a sequence of operations, and the
  generic lemmas the component theories rest on.

  Conventions. A Rust method that takes \<open>&mut self\<close> becomes a function from the old state to a
  pair of its \<open>Result\<close> and the new state: the code may change the state before it returns an
  error, and the model keeps those writes. A method that takes \<open>&self\<close> returns its \<open>Result\<close>
  only. Unchecked \<open>+\<close>, \<open>-\<close> and \<open>*\<close> on machine integers wrap, as a release build does.
\<close>

unbundle bit_operations_syntax

named_theorems checked_simps \<open>characterisations of the checked integer operations\<close>
named_theorems cap_simps \<open>capability checks written out on the fields of the handle\<close>


section \<open>Machine integers\<close>

type_synonym u8 = "8 word"
type_synonym u16 = "16 word"
type_synonym u32 = "32 word"
type_synonym u64 = "64 word"

definition checked_add :: "'a::len word \<Rightarrow> 'a word \<Rightarrow> 'a word option" where
  "checked_add a b = (if unat a + unat b < 2 ^ LENGTH('a) then Some (a + b) else None)"

definition checked_sub :: "'a::len word \<Rightarrow> 'a word \<Rightarrow> 'a word option" where
  "checked_sub a b = (if b \<le> a then Some (a - b) else None)"

definition checked_mul :: "'a::len word \<Rightarrow> 'a word \<Rightarrow> 'a word option" where
  "checked_mul a b = (if unat a * unat b < 2 ^ LENGTH('a) then Some (a * b) else None)"

definition saturating_add :: "'a::len word \<Rightarrow> 'a word \<Rightarrow> 'a word" where
  "saturating_add a b = (case checked_add a b of Some c \<Rightarrow> c | None \<Rightarrow> - 1)"

definition saturating_mul :: "'a::len word \<Rightarrow> 'a word \<Rightarrow> 'a word" where
  "saturating_mul a b = (case checked_mul a b of Some c \<Rightarrow> c | None \<Rightarrow> - 1)"

lemma checked_add_eq_Some [checked_simps]:
  "checked_add a b = Some c \<longleftrightarrow> unat a + unat b < 2 ^ LENGTH('a) \<and> c = (a + b :: 'a::len word)"
  by (auto simp: checked_add_def)

lemma checked_add_eq_None [checked_simps]:
  "checked_add a b = None \<longleftrightarrow> 2 ^ LENGTH('a) \<le> unat a + unat (b :: 'a::len word)"
  by (auto simp: checked_add_def)

lemma checked_add_unat:
  "checked_add a b = Some c \<Longrightarrow> unat c = unat a + unat (b :: 'a::len word)"
  by (auto simp: checked_add_def unat_word_ariths split: if_splits)

lemma unat_add_no_wrap:
  "unat a + unat b < 2 ^ LENGTH('a) \<Longrightarrow> unat (a + b :: 'a::len word) = unat a + unat b"
  by (simp add: unat_word_ariths)

lemma unat_mul_no_wrap:
  "unat a * unat b < 2 ^ LENGTH('a) \<Longrightarrow> unat (a * b :: 'a::len word) = unat a * unat b"
  by (simp add: unat_word_ariths)

lemma checked_mul_eq_Some [checked_simps]:
  "checked_mul a b = Some c \<longleftrightarrow> unat a * unat b < 2 ^ LENGTH('a) \<and> c = (a * b :: 'a::len word)"
  by (auto simp: checked_mul_def)

lemma checked_mul_eq_None [checked_simps]:
  "checked_mul a b = None \<longleftrightarrow> 2 ^ LENGTH('a) \<le> unat a * unat (b :: 'a::len word)"
  by (auto simp: checked_mul_def)

lemma checked_sub_eq_Some [checked_simps]:
  "checked_sub a b = Some c \<longleftrightarrow> b \<le> a \<and> c = (a - b :: 'a::len word)"
  by (auto simp: checked_sub_def)

lemma checked_sub_eq_None [checked_simps]:
  "checked_sub a b = None \<longleftrightarrow> a < (b :: 'a::len word)"
  by (auto simp: checked_sub_def)

lemma unat_sub_no_wrap: "b \<le> a \<Longrightarrow> unat (a - b :: 'a::len word) = unat a - unat b"
  by (rule unat_sub)

lemma unat_plus_one:
  "checked_add a 1 = Some c \<Longrightarrow> unat c = Suc (unat (a :: 'a::len word))"
  by (auto dest: checked_add_unat)

lemma checked_inc_greater: "checked_add a 1 = Some c \<Longrightarrow> a < (c :: 'a::len word)"
  by (drule unat_plus_one) (simp add: word_less_nat_alt)

lemma unat_lt_exp: "unat (a :: 'a::len word) < 2 ^ LENGTH('a)"
  by (rule unsigned_less)

lemma unat_minus_one_eq: "unat (- 1 :: 'a::len word) = 2 ^ LENGTH('a) - 1"
  by (simp add: unsigned_minus_1_eq_mask mask_eq_exp_minus_1)

lemma checked_inc_None_iff: "checked_add a 1 = None \<longleftrightarrow> a = (- 1 :: 'a::len word)"
proof
  assume "checked_add a 1 = None"
  then have "2 ^ LENGTH('a) \<le> unat a + 1" by (simp add: checked_simps)
  then have "unat a = 2 ^ LENGTH('a) - 1" using unat_lt_exp [of a] by linarith
  then show "a = - 1" by (simp add: word_unat_eq_iff unat_minus_one_eq)
next
  assume "a = - 1"
  then show "checked_add a 1 = None" by (simp add: checked_simps unat_minus_one_eq)
qed

lemma saturating_add_unat:
  "unat (saturating_add a b) = min (unat a + unat b) (2 ^ LENGTH('a) - 1)" for a b :: "'a::len word"
proof (cases "checked_add a b")
  case None
  then have "2 ^ LENGTH('a) \<le> unat a + unat b" by (simp add: checked_simps)
  with None show ?thesis by (simp add: saturating_add_def unat_minus_one_eq)
next
  case (Some c)
  then show ?thesis
    using unat_lt_exp [of c] by (simp add: saturating_add_def checked_add_unat [OF Some])
qed

lemma saturating_mul_unat:
  "unat (saturating_mul a b) = min (unat a * unat b) (2 ^ LENGTH('a) - 1)" for a b :: "'a::len word"
proof (cases "checked_mul a b")
  case None
  then have "2 ^ LENGTH('a) \<le> unat a * unat b" by (simp add: checked_simps)
  with None show ?thesis by (simp add: saturating_mul_def unat_minus_one_eq)
next
  case (Some c)
  then have "unat c = unat a * unat b" and "unat a * unat b < 2 ^ LENGTH('a)"
    by (auto simp: checked_simps unat_mul_no_wrap)
  then show ?thesis using Some by (simp add: saturating_mul_def)
qed


section \<open>Rust's Result\<close>

datatype ('a, 'e) result = Ok 'a | Err 'e

fun is_Ok :: "('a, 'e) result \<Rightarrow> bool" where
  "is_Ok (Ok _) = True"
| "is_Ok (Err _) = False"

lemma is_Ok_iff: "is_Ok r \<longleftrightarrow> (\<exists>x. r = Ok x)"
  by (cases r) auto


text \<open>Case analysis on the outcome of a state-changing operation.\<close>

lemma outcome_cases:
  assumes "\<And>x s'. p = (Ok x, s') \<Longrightarrow> P s'" and "\<And>e s'. p = (Err e, s') \<Longrightarrow> P s'"
  shows "P (snd p)"
proof (cases p)
  case (Pair r s')
  then show ?thesis using assms by (cases r) auto
qed


lemma outcome_preserves:
  assumes "I s" "R s s" and "\<And>x t. p = (Ok x, t) \<Longrightarrow> I t \<and> R s t" and "\<And>e t. p = (Err e, t) \<Longrightarrow> t = s"
  shows "I (snd p) \<and> R s (snd p)"
  using assms by (cases p; cases "fst p") auto


text \<open>Rust's \<open>?\<close> in a method that changes its state: an error returns at once, with the state as it is.\<close>

definition try_then :: "('a, 'e) result \<Rightarrow> 's \<Rightarrow> ('a \<Rightarrow> ('b, 'e) result \<times> 's) \<Rightarrow> ('b, 'e) result \<times> 's" where
  "try_then r s k = (case r of Err e \<Rightarrow> (Err e, s) | Ok v \<Rightarrow> k v)"

lemma try_then_simps [simp]:
  "try_then (Ok v) s k = k v"
  "try_then (Err e) s k = (Err e, s)"
  by (simp_all add: try_then_def)

lemma try_then_OkE:
  assumes "try_then r s k = (Ok w, s')"
  obtains v where "r = Ok v" "k v = (Ok w, s')"
  using assms by (cases r) auto

text \<open>\<open>ok_or\<close>: an option as a result.\<close>

definition ok_or :: "'a option \<Rightarrow> 'e \<Rightarrow> ('a, 'e) result" where
  "ok_or x e = (case x of None \<Rightarrow> Err e | Some v \<Rightarrow> Ok v)"

lemma ok_or_simps [simp]: "ok_or (Some v) e = Ok v" "ok_or None e = Err e"
  by (simp_all add: ok_or_def)

lemma ok_or_Ok_iff [simp]: "ok_or x e = Ok v \<longleftrightarrow> x = Some v"
  by (cases x) auto



section \<open>Sequences of operations\<close>

text \<open>
  A component is driven by a sequence of calls. \<open>replay\<close> runs such a sequence; the locale
  \<open>op_machine\<close> says what a component has to show about one call so that an invariant and a
  two-state relation (what may change between now and later) hold for whole sequences.
\<close>

definition replay :: "('s \<Rightarrow> 'op \<Rightarrow> 's) \<Rightarrow> 's \<Rightarrow> 'op list \<Rightarrow> 's" where
  "replay step s ops = foldl step s ops"

lemma replay_Nil [simp]: "replay step s [] = s"
  by (simp add: replay_def)

lemma replay_Cons [simp]: "replay step s (a # ops) = replay step (step s a) ops"
  by (simp add: replay_def)

lemma replay_append: "replay step s (xs @ ys) = replay step (replay step s xs) ys"
  by (simp add: replay_def)

locale op_machine =
  fixes step :: "'s \<Rightarrow> 'op \<Rightarrow> 's"
    and inv :: "'s \<Rightarrow> bool"
    and evolves :: "'s \<Rightarrow> 's \<Rightarrow> bool"
  assumes inv_step: "inv s \<Longrightarrow> inv (step s a)"
    and evolves_refl: "evolves s s"
    and evolves_trans: "evolves s t \<Longrightarrow> evolves t u \<Longrightarrow> evolves s u"
    and evolves_step: "inv s \<Longrightarrow> evolves s (step s a)"
begin

lemma inv_replay: "inv s \<Longrightarrow> inv (replay step s ops)"
  by (induction ops arbitrary: s) (auto intro: inv_step)

lemma evolves_replay: "inv s \<Longrightarrow> evolves s (replay step s ops)"
proof (induction ops arbitrary: s)
  case Nil
  then show ?case by (simp add: evolves_refl)
next
  case (Cons a ops)
  then show ?case
    using evolves_step [of s a] inv_step [of s a] by (auto intro: evolves_trans)
qed

end


section \<open>Bounded queues\<close>

text \<open>
  The contract of a bounded first-in first-out queue with fail-closed \<open>push\<close> and \<open>pop\<close>, and
  what a client may rely on: elements leave in the order in which they entered.
\<close>

fun push_all :: "('q \<Rightarrow> 'a \<Rightarrow> 'r \<times> 'q) \<Rightarrow> 'q \<Rightarrow> 'a list \<Rightarrow> 'q" where
  "push_all push q [] = q"
| "push_all push q (x # xs) = push_all push (snd (push q x)) xs"

fun pop_many :: "('q \<Rightarrow> 'r \<times> 'q) \<Rightarrow> nat \<Rightarrow> 'q \<Rightarrow> 'r list \<times> 'q" where
  "pop_many pop 0 q = ([], q)"
| "pop_many pop (Suc n) q =
     (let (r, q') = pop q; (rs, q'') = pop_many pop n q' in (r # rs, q''))"

locale bounded_fifo =
  fixes push :: "'q \<Rightarrow> 'a \<Rightarrow> (unit, 'e) result \<times> 'q"
    and pop :: "'q \<Rightarrow> ('a, 'e) result \<times> 'q"
    and contents :: "'q \<Rightarrow> 'a list"
    and capacity :: "'q \<Rightarrow> nat"
    and inv :: "'q \<Rightarrow> bool"
  assumes push_room: "inv q \<Longrightarrow> length (contents q) < capacity q \<Longrightarrow>
        \<exists>q'. push q x = (Ok (), q') \<and> inv q' \<and> contents q' = contents q @ [x] \<and> capacity q' = capacity q"
    and push_full: "inv q \<Longrightarrow> length (contents q) = capacity q \<Longrightarrow> \<exists>e. push q x = (Err e, q)"
    and pop_some: "inv q \<Longrightarrow> contents q = x # xs \<Longrightarrow>
        \<exists>q'. pop q = (Ok x, q') \<and> inv q' \<and> contents q' = xs \<and> capacity q' = capacity q"
    and pop_none: "inv q \<Longrightarrow> contents q = [] \<Longrightarrow> \<exists>e. pop q = (Err e, q)"
    and within: "inv q \<Longrightarrow> length (contents q) \<le> capacity q"
begin

lemma push_all_contents:
  "inv q \<Longrightarrow> length (contents q) + length xs \<le> capacity q \<Longrightarrow>
   inv (push_all push q xs) \<and> contents (push_all push q xs) = contents q @ xs
   \<and> capacity (push_all push q xs) = capacity q"
proof (induction xs arbitrary: q)
  case (Cons x xs)
  then obtain q' where "push q x = (Ok (), q')" "inv q'" "contents q' = contents q @ [x]"
    "capacity q' = capacity q"
    using push_room [of q x] by auto
  then show ?case using Cons.IH [of q'] Cons.prems by simp
qed simp

lemma pop_many_contents:
  "inv q \<Longrightarrow> contents q = xs @ ys \<Longrightarrow>
   fst (pop_many pop (length xs) q) = map Ok xs \<and> inv (snd (pop_many pop (length xs) q))
   \<and> contents (snd (pop_many pop (length xs) q)) = ys"
proof (induction xs arbitrary: q)
  case (Cons x xs)
  then obtain q' where "pop q = (Ok x, q')" "inv q'" "contents q' = xs @ ys"
    using pop_some [of q x "xs @ ys"] by auto
  then show ?case using Cons.IH [of q'] by (simp add: split_beta)
qed simp

lemma fifo_order:
  assumes "inv q" "length (contents q) + length xs \<le> capacity q"
  shows "fst (pop_many pop (length (contents q) + length xs) (push_all push q xs))
       = map Ok (contents q @ xs)"
  using pop_many_contents [of "push_all push q xs" "contents q @ xs" "[]"]
    push_all_contents [OF assms] by simp

end


section \<open>Ordered maps\<close>

text \<open>
  A \<open>BTreeMap\<close> is the list of its entries in ascending key order. Look-up, insertion and
  removal have their usual laws on every list; the order matters to the operations that iterate,
  and those use the invariant \<open>bt_wf\<close>.
\<close>

type_synonym ('k, 'v) btmap = "('k \<times> 'v) list"

fun bt_get :: "('k::linorder, 'v) btmap \<Rightarrow> 'k \<Rightarrow> 'v option" where
  "bt_get [] k = None"
| "bt_get (e # m) k = (if fst e = k then Some (snd e) else bt_get m k)"

fun bt_insert :: "'k::linorder \<Rightarrow> 'v \<Rightarrow> ('k, 'v) btmap \<Rightarrow> ('k, 'v) btmap" where
  "bt_insert k v [] = [(k, v)]"
| "bt_insert k v (e # m) =
     (if fst e < k then e # bt_insert k v m
      else if fst e = k then (k, v) # m
      else (k, v) # e # m)"

definition bt_remove :: "'k::linorder \<Rightarrow> ('k, 'v) btmap \<Rightarrow> ('k, 'v) btmap" where
  "bt_remove k m = filter (\<lambda>e. fst e \<noteq> k) m"

definition bt_contains :: "('k::linorder, 'v) btmap \<Rightarrow> 'k \<Rightarrow> bool" where
  "bt_contains m k = (bt_get m k \<noteq> None)"

definition bt_wf :: "('k::linorder, 'v) btmap \<Rightarrow> bool" where
  "bt_wf m = sorted_wrt (<) (map fst m)"

lemma bt_get_insert [simp]:
  "bt_get (bt_insert k v m) k' = (if k' = k then Some v else bt_get m k')"
  by (induction m) auto

lemma bt_get_remove [simp]:
  "bt_get (bt_remove k m) k' = (if k' = k then None else bt_get m k')"
  by (induction m) (auto simp: bt_remove_def)

lemma bt_get_insert_fun: "bt_get (bt_insert k v m) = (bt_get m)(k \<mapsto> v)"
  by (rule ext) simp

lemma bt_get_remove_fun: "bt_get (bt_remove k m) = (bt_get m)(k := None)"
  by (rule ext) simp

lemma bt_remove_Nil [simp]: "bt_remove k [] = []"
  by (simp add: bt_remove_def)

lemma bt_remove_Cons [simp]:
  "bt_remove k (e # m) = (if fst e = k then bt_remove k m else e # bt_remove k m)"
  by (simp add: bt_remove_def)

lemma bt_contains_insert [simp]:
  "bt_contains (bt_insert k v m) k' \<longleftrightarrow> k' = k \<or> bt_contains m k'"
  by (auto simp: bt_contains_def)

lemma bt_contains_remove [simp]:
  "bt_contains (bt_remove k m) k' \<longleftrightarrow> k' \<noteq> k \<and> bt_contains m k'"
  by (auto simp: bt_contains_def)

lemma bt_contains_Nil [simp]: "\<not> bt_contains [] k"
  by (simp add: bt_contains_def)

lemma bt_get_in_set: "bt_get m k = Some v \<Longrightarrow> (k, v) \<in> set m"
  by (induction m) (auto split: if_splits)

lemma bt_get_None_iff: "bt_get m k = None \<longleftrightarrow> k \<notin> fst ` set m"
  by (induction m) auto

lemma bt_contains_iff: "bt_contains m k \<longleftrightarrow> k \<in> fst ` set m"
  by (simp add: bt_contains_def bt_get_None_iff)

lemma bt_wf_Nil [simp]: "bt_wf []"
  by (simp add: bt_wf_def)

lemma bt_wf_Cons: "bt_wf (e # m) \<longleftrightarrow> (\<forall>x\<in>set m. fst e < fst x) \<and> bt_wf m"
  by (simp add: bt_wf_def)

lemma bt_wf_append:
  "bt_wf (m @ n) \<longleftrightarrow> bt_wf m \<and> bt_wf n \<and> (\<forall>x\<in>set m. \<forall>y\<in>set n. fst x < fst y)"
  by (simp add: bt_wf_def sorted_wrt_append)

lemma bt_wf_distinct: "bt_wf m \<Longrightarrow> distinct (map fst m)"
  by (induction m) (auto simp: bt_wf_Cons)

lemma bt_get_of_mem: "bt_wf m \<Longrightarrow> (k, v) \<in> set m \<Longrightarrow> bt_get m k = Some v"
  by (induction m) (force simp: bt_wf_Cons)+

lemma bt_get_Some_iff: "bt_wf m \<Longrightarrow> bt_get m k = Some v \<longleftrightarrow> (k, v) \<in> set m"
  using bt_get_in_set bt_get_of_mem by metis

lemma set_bt_remove: "set (bt_remove k m) = {e \<in> set m. fst e \<noteq> k}"
  by (simp add: bt_remove_def)

lemma set_bt_insert_keys: "fst ` set (bt_insert k v m) = insert k (fst ` set m)"
  by (induction m) auto

lemma set_bt_insert:
  "bt_wf m \<Longrightarrow> set (bt_insert k v m) = insert (k, v) {e \<in> set m. fst e \<noteq> k}"
proof (induction m)
  case (Cons e m)
  then have "\<forall>x\<in>set m. fst e < fst x" and "set (bt_insert k v m) = insert (k, v) {x \<in> set m. fst x \<noteq> k}"
    by (auto simp: bt_wf_Cons)
  then show ?case by (cases e) (auto simp: less_le)
qed simp

lemma bt_wf_insert [simp]: "bt_wf m \<Longrightarrow> bt_wf (bt_insert k v m)"
proof (induction m)
  case (Cons e m)
  then show ?case
    using set_bt_insert_keys [of k v m] by (fastforce simp: bt_wf_Cons)
qed (simp add: bt_wf_Cons)

lemma bt_wf_remove [simp]: "bt_wf m \<Longrightarrow> bt_wf (bt_remove k m)"
  by (induction m) (auto simp: bt_wf_Cons set_bt_remove)

text \<open>A property of all entries, and the operations that keep it.\<close>

definition bt_all :: "('k::linorder \<Rightarrow> 'v \<Rightarrow> bool) \<Rightarrow> ('k, 'v) btmap \<Rightarrow> bool" where
  "bt_all P m = (\<forall>k v. bt_get m k = Some v \<longrightarrow> P k v)"

lemma bt_allD: "bt_all P m \<Longrightarrow> bt_get m k = Some v \<Longrightarrow> P k v"
  by (simp add: bt_all_def)

lemma bt_allI: "(\<And>k v. bt_get m k = Some v \<Longrightarrow> P k v) \<Longrightarrow> bt_all P m"
  by (simp add: bt_all_def)

lemma bt_all_Nil [simp]: "bt_all P []"
  by (simp add: bt_all_def)

lemma bt_all_insert [intro]: "bt_all P m \<Longrightarrow> P k v \<Longrightarrow> bt_all P (bt_insert k v m)"
  by (auto simp: bt_all_def)

lemma bt_all_remove [intro]: "bt_all P m \<Longrightarrow> bt_all P (bt_remove k m)"
  by (auto simp: bt_all_def)

lemma bt_all_mono: "bt_all P m \<Longrightarrow> (\<And>k v. P k v \<Longrightarrow> Q k v) \<Longrightarrow> bt_all Q m"
  by (auto simp: bt_all_def)

lemma strict_sorted_last_max:
  "(x::'a::linorder) \<in> set xs \<Longrightarrow> sorted_wrt (<) xs \<Longrightarrow> x \<le> last xs"
  by (induction xs) (auto intro: less_imp_le)

text \<open>
  The contract of an ordered map, and what its clients derive from it. The kernel components
  use it through the interpretation \<open>bt\<close> on the entry lists above.
\<close>

locale ordered_map =
  fixes get :: "'m \<Rightarrow> 'k::linorder \<Rightarrow> 'v option"
    and insert_at :: "'k \<Rightarrow> 'v \<Rightarrow> 'm \<Rightarrow> 'm"
    and remove_at :: "'k \<Rightarrow> 'm \<Rightarrow> 'm"
    and entries :: "'m \<Rightarrow> ('k \<times> 'v) list"
    and wf :: "'m \<Rightarrow> bool"
  assumes law_insert: "get (insert_at k v m) k' = (if k' = k then Some v else get m k')"
    and law_remove: "get (remove_at k m) k' = (if k' = k then None else get m k')"
    and law_entries: "wf m \<Longrightarrow> get m k = Some v \<longleftrightarrow> (k, v) \<in> set (entries m)"
    and law_ascending: "wf m \<Longrightarrow> sorted_wrt (<) (map fst (entries m))"
    and law_wf_insert: "wf m \<Longrightarrow> wf (insert_at k v m)"
    and law_wf_remove: "wf m \<Longrightarrow> wf (remove_at k m)"
begin

lemma remove_undoes_insert:
  "get m k = None \<Longrightarrow> get (remove_at k (insert_at k v m)) = get m"
  by (rule ext) (auto simp: law_insert law_remove)

lemma insert_after_remove:
  "get (insert_at k v (remove_at k m)) = get (insert_at k v m)"
  by (rule ext) (auto simp: law_insert law_remove)

lemma inserts_commute:
  "k \<noteq> k' \<Longrightarrow> get (insert_at k v (insert_at k' v' m)) = get (insert_at k' v' (insert_at k v m))"
  by (rule ext) (auto simp: law_insert)

lemma entries_insert:
  assumes "wf m"
  shows "set (entries (insert_at k v m)) = insert (k, v) {e \<in> set (entries m). fst e \<noteq> k}"
proof -
  have "(a, b) \<in> set (entries (insert_at k v m))
      \<longleftrightarrow> (a, b) \<in> insert (k, v) {e \<in> set (entries m). fst e \<noteq> k}" for a b
    using law_entries [OF assms] law_entries [OF law_wf_insert [OF assms], of k v a b]
    by (cases "a = k") (auto simp: law_insert)
  then show ?thesis by auto
qed

lemma last_entry_is_greatest:
  assumes "wf m" "get m k = Some v"
  shows "k \<le> fst (last (entries m))"
proof -
  from assms have mem: "(k, v) \<in> set (entries m)" by (simp add: law_entries)
  then have ne: "entries m \<noteq> []" by auto
  from mem have "k \<in> set (map fst (entries m))" by force
  then have "k \<le> last (map fst (entries m))"
    using law_ascending [OF assms(1)] by (rule strict_sorted_last_max)
  then show ?thesis using ne by (simp add: last_map)
qed

end

interpretation bt: ordered_map bt_get bt_insert bt_remove "\<lambda>m. m" bt_wf
  by unfold_locales (auto simp: bt_get_Some_iff bt_wf_def [symmetric])

end
