(* ===== verification/Kernel_Storage.thy ===== *)
theory Kernel_Storage
  imports Kernel_Prelude "HOL-Library.Multiset"
begin

text \<open>
  The allocation-free containers of \<open>thermite-kernel/src/storage.rs\<close>. An array \<open>[T; N]\<close> is a list
  of length \<open>N\<close>; the constant parameter is that length. \<open>usize\<close> lengths and indices are natural
  numbers: every index the code computes is below \<open>2 * N\<close>, and an array's length is far below the
  range of \<open>usize\<close>. The vector refines a list, the map a finite map, the ring a bounded first-in
  first-out queue, and the bitmap a set of bit numbers.
\<close>

datatype StorageError = OutOfBounds | Full | Empty | DuplicateKey | MissingKey


section \<open>FixedVec\<close>

record 'a FixedVec =
  fv_values :: "'a list"
  fv_len :: nat

definition FixedVec_new :: "nat \<Rightarrow> 'a \<Rightarrow> 'a FixedVec" where
  "FixedVec_new n d = \<lparr>fv_values = replicate n d, fv_len = 0\<rparr>"

definition FixedVec_capacity :: "'a FixedVec \<Rightarrow> nat" where
  "FixedVec_capacity v = length (fv_values v)"

definition FixedVec_get :: "'a FixedVec \<Rightarrow> nat \<Rightarrow> ('a, StorageError) result" where
  "FixedVec_get v i = (if i \<ge> fv_len v then Err OutOfBounds else Ok (fv_values v ! i))"

definition FixedVec_set ::
  "'a FixedVec \<Rightarrow> nat \<Rightarrow> 'a \<Rightarrow> (unit, StorageError) result \<times> 'a FixedVec" where
  "FixedVec_set v i x =
     (if i \<ge> fv_len v then (Err OutOfBounds, v)
      else (Ok (), v\<lparr>fv_values := (fv_values v)[i := x]\<rparr>))"

definition FixedVec_push :: "'a FixedVec \<Rightarrow> 'a \<Rightarrow> (unit, StorageError) result \<times> 'a FixedVec" where
  "FixedVec_push v x =
     (if fv_len v = length (fv_values v) then (Err Full, v)
      else (Ok (), v\<lparr>fv_values := (fv_values v)[fv_len v := x], fv_len := fv_len v + 1\<rparr>))"

definition FixedVec_pop :: "'a FixedVec \<Rightarrow> ('a, StorageError) result \<times> 'a FixedVec" where
  "FixedVec_pop v =
     (if fv_len v = 0 then (Err Empty, v)
      else (Ok (fv_values v ! (fv_len v - 1)), v\<lparr>fv_len := fv_len v - 1\<rparr>))"

definition FixedVec_as_slice :: "'a FixedVec \<Rightarrow> 'a list" where
  "FixedVec_as_slice v = take (fv_len v) (fv_values v)"

definition FixedVec_inv :: "'a FixedVec \<Rightarrow> bool" where
  "FixedVec_inv v = (fv_len v \<le> length (fv_values v))"


section \<open>FixedMap\<close>

record ('k, 'v) FixedMap =
  fm_entries :: "('k \<times> 'v) option list"
  fm_len :: nat

definition FixedMap_new :: "nat \<Rightarrow> ('k, 'v) FixedMap" where
  "FixedMap_new n = \<lparr>fm_entries = replicate n None, fm_len = 0\<rparr>"

text \<open>\<open>entries.iter().flatten()\<close>.\<close>

definition fm_flatten :: "('k \<times> 'v) option list \<Rightarrow> ('k \<times> 'v) list" where
  "fm_flatten es = List.map_filter (\<lambda>e. e) es"

definition FixedMap_insert ::
  "('k, 'v) FixedMap \<Rightarrow> 'k \<Rightarrow> 'v \<Rightarrow> (unit, StorageError) result \<times> ('k, 'v) FixedMap" where
  "FixedMap_insert m k v =
     (if list_ex (\<lambda>e. fst e = k) (fm_flatten (fm_entries m)) then (Err DuplicateKey, m)
      else if fm_len m = length (fm_entries m) then (Err Full, m)
      else (Ok (), m\<lparr>fm_entries := (fm_entries m)[fm_len m := Some (k, v)], fm_len := fm_len m + 1\<rparr>))"

definition FixedMap_get :: "('k, 'v) FixedMap \<Rightarrow> 'k \<Rightarrow> ('v, StorageError) result" where
  "FixedMap_get m k =
     (case find (\<lambda>e. fst e = k) (fm_flatten (fm_entries m)) of
        Some e \<Rightarrow> Ok (snd e)
      | None \<Rightarrow> Err MissingKey)"

text \<open>\<open>Iterator::position\<close>: the index of the first element that satisfies the predicate.\<close>

fun position :: "('a \<Rightarrow> bool) \<Rightarrow> 'a list \<Rightarrow> nat option" where
  "position p [] = None"
| "position p (x # xs) = (if p x then Some 0 else map_option Suc (position p xs))"

definition FixedMap_remove ::
  "('k, 'v) FixedMap \<Rightarrow> 'k \<Rightarrow> ('v, StorageError) result \<times> ('k, 'v) FixedMap" where
  "FixedMap_remove m k =
     (case position (\<lambda>e. case e of Some (stored, _) \<Rightarrow> stored = k | None \<Rightarrow> False)
             (take (fm_len m) (fm_entries m)) of
        None \<Rightarrow> (Err MissingKey, m)
      | Some i \<Rightarrow>
          (case fm_entries m ! i of
             None \<Rightarrow> (Err MissingKey, m)
           | Some (_, v) \<Rightarrow>
               let last = fm_len m - 1;
                   es = (fm_entries m)[i := fm_entries m ! last];
                   es' = es[last := None]
               in (Ok v, m\<lparr>fm_entries := es', fm_len := last\<rparr>)))"

text \<open>The occupied prefix holds entries with distinct keys, the rest of the array is empty.\<close>

definition FixedMap_inv :: "('k, 'v) FixedMap \<Rightarrow> bool" where
  "FixedMap_inv m =
     (\<exists>xs. fm_entries m = map Some xs @ replicate (length (fm_entries m) - fm_len m) None \<and>
           length xs = fm_len m \<and> distinct (map fst xs))"

definition FixedMap_abs :: "('k, 'v) FixedMap \<Rightarrow> 'k \<Rightarrow> 'v option" where
  "FixedMap_abs m = map_of (fm_flatten (fm_entries m))"


section \<open>Bitmap\<close>

record Bitmap =
  bm_words :: "u64 list"

definition Bitmap_new :: "nat \<Rightarrow> Bitmap" where
  "Bitmap_new n = \<lparr>bm_words = replicate n 0\<rparr>"

definition Bitmap_set :: "Bitmap \<Rightarrow> nat \<Rightarrow> bool \<Rightarrow> (unit, StorageError) result \<times> Bitmap" where
  "Bitmap_set b i value =
     (let word = i div 64 in
      if word \<ge> length (bm_words b) then (Err OutOfBounds, b)
      else
        let mask = push_bit (i mod 64) 1;
            w = bm_words b ! word
        in (Ok (), b\<lparr>bm_words := (bm_words b)[word := (if value then w OR mask else w AND NOT mask)]\<rparr>))"

definition Bitmap_get :: "Bitmap \<Rightarrow> nat \<Rightarrow> (bool, StorageError) result" where
  "Bitmap_get b i =
     (let word = i div 64 in
      if word \<ge> length (bm_words b) then Err OutOfBounds
      else Ok (bm_words b ! word AND push_bit (i mod 64) 1 \<noteq> 0))"

text \<open>\<open>u64::trailing_zeros\<close>: the number of zero bits below the lowest set bit, 64 for zero.\<close>

fun tz_from :: "nat \<Rightarrow> u64 \<Rightarrow> nat" where
  "tz_from 0 w = 0"
| "tz_from (Suc n) w = (if odd w then 0 else Suc (tz_from n (drop_bit 1 w)))"

definition trailing_zeros :: "u64 \<Rightarrow> nat" where
  "trailing_zeros w = tz_from 64 w"

fun first_clear_from :: "nat \<Rightarrow> u64 list \<Rightarrow> nat option" where
  "first_clear_from index [] = None"
| "first_clear_from index (w # ws) =
     (if w = - 1 then first_clear_from (Suc index) ws
      else Some (index * 64 + trailing_zeros (NOT w)))"

definition Bitmap_first_clear :: "Bitmap \<Rightarrow> nat option" where
  "Bitmap_first_clear b = first_clear_from 0 (bm_words b)"


section \<open>RingBuffer\<close>

record 'a RingBuffer =
  rb_values :: "'a list"
  rb_head :: nat
  rb_len :: nat

definition RingBuffer_new :: "nat \<Rightarrow> 'a \<Rightarrow> 'a RingBuffer" where
  "RingBuffer_new n d = \<lparr>rb_values = replicate n d, rb_head = 0, rb_len = 0\<rparr>"

definition RingBuffer_push :: "'a RingBuffer \<Rightarrow> 'a \<Rightarrow> (unit, StorageError) result \<times> 'a RingBuffer" where
  "RingBuffer_push r x =
     (let n = length (rb_values r) in
      if rb_len r = n \<or> n = 0 then (Err Full, r)
      else
        let tail = (rb_head r + rb_len r) mod n
        in (Ok (), r\<lparr>rb_values := (rb_values r)[tail := x], rb_len := rb_len r + 1\<rparr>))"

definition RingBuffer_pop :: "'a RingBuffer \<Rightarrow> ('a, StorageError) result \<times> 'a RingBuffer" where
  "RingBuffer_pop r =
     (let n = length (rb_values r) in
      if rb_len r = 0 \<or> n = 0 then (Err Empty, r)
      else (Ok (rb_values r ! rb_head r),
            r\<lparr>rb_head := (rb_head r + 1) mod n, rb_len := rb_len r - 1\<rparr>))"

definition RingBuffer_inv :: "'a RingBuffer \<Rightarrow> bool" where
  "RingBuffer_inv r =
     (rb_len r \<le> length (rb_values r) \<and> (rb_values r \<noteq> [] \<longrightarrow> rb_head r < length (rb_values r)))"

text \<open>The queue a ring stands for: its \<open>len\<close> elements from \<open>head\<close> on, around the end.\<close>

definition RingBuffer_abs :: "'a RingBuffer \<Rightarrow> 'a list" where
  "RingBuffer_abs r =
     map (\<lambda>i. rb_values r ! ((rb_head r + i) mod length (rb_values r))) [0..<rb_len r]"

section \<open>FixedVec refines a list\<close>

lemma FixedVec_slice_length: "FixedVec_inv v \<Longrightarrow> length (FixedVec_as_slice v) = fv_len v"
  by (simp add: FixedVec_inv_def FixedVec_as_slice_def)

lemma FixedVec_get_abs:
  "FixedVec_inv v \<Longrightarrow> FixedVec_get v i =
     (if i < length (FixedVec_as_slice v) then Ok (FixedVec_as_slice v ! i) else Err OutOfBounds)"
  by (simp add: FixedVec_get_def FixedVec_slice_length) (simp add: FixedVec_as_slice_def)

lemma FixedVec_set_abs:
  "FixedVec_inv v \<Longrightarrow> FixedVec_inv (snd (FixedVec_set v i x)) \<and>
     FixedVec_as_slice (snd (FixedVec_set v i x)) = (FixedVec_as_slice v)[i := x]"
  by (auto simp: FixedVec_set_def FixedVec_inv_def FixedVec_as_slice_def take_update_swap
      list_update_beyond)

lemma FixedVec_push_abs:
  assumes "FixedVec_inv v"
  shows "FixedVec_inv (snd (FixedVec_push v x)) \<and>
    (if length (FixedVec_as_slice v) = FixedVec_capacity v then FixedVec_push v x = (Err Full, v)
     else fst (FixedVec_push v x) = Ok () \<and>
          FixedVec_as_slice (snd (FixedVec_push v x)) = FixedVec_as_slice v @ [x])"
  using assms
  by (auto simp: FixedVec_push_def FixedVec_inv_def FixedVec_capacity_def FixedVec_as_slice_def
      take_Suc_conv_app_nth)

lemma FixedVec_pop_abs:
  assumes "FixedVec_inv v"
  shows "FixedVec_inv (snd (FixedVec_pop v)) \<and>
    (case rev (FixedVec_as_slice v) of
       [] \<Rightarrow> FixedVec_pop v = (Err Empty, v)
     | x # xs \<Rightarrow> fst (FixedVec_pop v) = Ok x \<and> FixedVec_as_slice (snd (FixedVec_pop v)) = rev xs)"
proof (cases "fv_len v")
  case 0
  then show ?thesis using assms by (simp add: FixedVec_pop_def FixedVec_as_slice_def)
next
  case (Suc n)
  then have "FixedVec_as_slice v = take n (fv_values v) @ [fv_values v ! n]"
    using assms by (simp add: FixedVec_as_slice_def FixedVec_inv_def take_Suc_conv_app_nth)
  then show ?thesis
    using assms Suc by (simp add: FixedVec_pop_def FixedVec_inv_def FixedVec_as_slice_def)
qed


section \<open>FixedMap refines a finite map\<close>

lemma fm_flatten_simps [simp]:
  "fm_flatten [] = []"
  "fm_flatten (None # es) = fm_flatten es"
  "fm_flatten (Some e # es) = e # fm_flatten es"
  by (simp_all add: fm_flatten_def List.map_filter_simps)

lemma fm_flatten_append [simp]: "fm_flatten (es @ fs) = fm_flatten es @ fm_flatten fs"
  by (induction es) (auto simp: fm_flatten_def List.map_filter_simps split: option.splits)

lemma fm_flatten_packed [simp]: "fm_flatten (map Some xs) = xs"
  by (induction xs) auto

lemma fm_flatten_empty [simp]: "fm_flatten (replicate n None) = []"
  by (induction n) auto

lemma find_fst_map_of:
  "map_option snd (find (\<lambda>e. fst e = k) xs) = map_of xs k"
  by (induction xs) auto

lemma FixedMap_get_abs:
  "FixedMap_get m k = (case FixedMap_abs m k of Some v \<Rightarrow> Ok v | None \<Rightarrow> Err MissingKey)"
  using find_fst_map_of [of k "fm_flatten (fm_entries m)", symmetric]
  by (simp add: FixedMap_get_def FixedMap_abs_def split: option.splits)

lemma FixedMap_invE:
  assumes "FixedMap_inv m"
  obtains xs n where "m = \<lparr>fm_entries = map Some xs @ replicate n None, fm_len = length xs\<rparr>"
    "distinct (map fst xs)"
  using assms by (cases m) (auto simp: FixedMap_inv_def)

lemma FixedMap_packed_inv:
  "distinct (map fst xs) \<Longrightarrow>
   FixedMap_inv \<lparr>fm_entries = map Some xs @ replicate n None, fm_len = length xs\<rparr>"
  by (auto simp: FixedMap_inv_def)

lemma FixedMap_packed_abs:
  "FixedMap_abs \<lparr>fm_entries = map Some xs @ replicate n None, fm_len = l\<rparr> = map_of xs"
  by (simp add: FixedMap_abs_def)

lemma map_of_snoc: "k \<notin> fst ` set xs \<Longrightarrow> map_of (xs @ [(k, v)]) = (map_of xs)(k \<mapsto> v)"
  by (induction xs) (auto simp: fun_eq_iff)

lemma FixedMap_insert_packed:
  "FixedMap_insert \<lparr>fm_entries = map Some xs @ replicate n None, fm_len = length xs\<rparr> k v =
     (if k \<in> fst ` set xs
        then (Err DuplicateKey, \<lparr>fm_entries = map Some xs @ replicate n None, fm_len = length xs\<rparr>)
      else if n = 0
        then (Err Full, \<lparr>fm_entries = map Some xs @ replicate n None, fm_len = length xs\<rparr>)
      else (Ok (), \<lparr>fm_entries = map Some (xs @ [(k, v)]) @ replicate (n - 1) None,
                    fm_len = length (xs @ [(k, v)])\<rparr>))"
proof (cases n)
  case (Suc n')
  have "(map Some xs @ replicate n None)[length xs := Some (k, v)]
      = map Some (xs @ [(k, v)]) @ replicate n' None"
    by (simp add: Suc list_update_append)
  then show ?thesis
    by (auto simp: FixedMap_insert_def list_ex_iff Suc image_iff)
qed (auto simp: FixedMap_insert_def list_ex_iff image_iff)

lemma FixedMap_insert_abs:
  assumes "FixedMap_inv m"
  shows "FixedMap_inv (snd (FixedMap_insert m k v)) \<and>
    (case fst (FixedMap_insert m k v) of
       Ok _ \<Rightarrow> FixedMap_abs m k = None \<and> fm_len m < length (fm_entries m) \<and>
              FixedMap_abs (snd (FixedMap_insert m k v)) = (FixedMap_abs m)(k \<mapsto> v)
     | Err e \<Rightarrow> snd (FixedMap_insert m k v) = m \<and>
         (if FixedMap_abs m k \<noteq> None then e = DuplicateKey
          else e = Full \<and> fm_len m = length (fm_entries m)))"
proof -
  obtain xs n where m: "m = \<lparr>fm_entries = map Some xs @ replicate n None, fm_len = length xs\<rparr>"
    and d: "distinct (map fst xs)"
    using assms by (rule FixedMap_invE)
  have "map_of (xs @ [(k, v)]) = (map_of xs)(k \<mapsto> v)" if "k \<notin> fst ` set xs"
    using that by (rule map_of_snoc)
  moreover have "FixedMap_inv \<lparr>fm_entries = map Some (xs @ [(k, v)]) @ replicate (n - 1) None,
      fm_len = length (xs @ [(k, v)])\<rparr>" if "k \<notin> fst ` set xs"
    using that d by (intro FixedMap_packed_inv) auto
  moreover have abs: "FixedMap_abs m = map_of xs" "length (fm_entries m) = length xs + n"
    "fm_len m = length xs"
    by (simp_all add: m FixedMap_packed_abs)
  moreover note FixedMap_insert_packed [of xs n k v, folded m]
  ultimately show ?thesis
    using assms by (auto simp: FixedMap_packed_abs map_of_eq_None_iff
        simp del: map_append append_assoc map_of_append)
qed

lemma position_Some:
  "position p xs = Some i \<Longrightarrow> i < length xs \<and> p (xs ! i)"
  by (induction xs arbitrary: i) (auto split: if_splits)

lemma position_None: "position p xs = None \<longleftrightarrow> (\<forall>x\<in>set xs. \<not> p x)"
  by (induction xs) auto

text \<open>Overwriting an element with the last one and dropping the last removes that element.\<close>

lemma mset_swap_remove:
  assumes "i < length xs"
  shows "mset (butlast (xs[i := last xs])) = mset xs - {#xs ! i#}"
proof -
  from assms have "xs \<noteq> []" by auto
  then obtain ys l where xs: "xs = ys @ [l]" by (metis append_butlast_last_id)
  show ?thesis
  proof (cases "i < length ys")
    case True
    then have "ys ! i \<in># mset ys" by simp
    then show ?thesis using True
      by (simp add: xs list_update_append nth_append butlast_append mset_update)
  next
    case False
    with assms show ?thesis by (simp add: xs list_update_append nth_append)
  qed
qed

lemma swap_remove_keys:
  assumes "i < length xs" "distinct (map fst xs)"
  shows "distinct (map fst (butlast (xs[i := last xs])))"
    and "map_of (butlast (xs[i := last xs])) = (map_of xs)(fst (xs ! i) := None)"
proof -
  let ?ys = "butlast (xs[i := last xs])"
  have m: "mset ?ys + {#xs ! i#} = mset xs"
    using assms(1) by (simp add: mset_swap_remove)
  then have "mset (map fst (xs ! i # ?ys)) = mset (map fst xs)"
    by (metis add_mset_add_single mset.simps(2) mset_map)
  then have d: "distinct (map fst (xs ! i # ?ys))"
    using assms(2) by (metis mset_eq_imp_distinct_iff)
  then show "distinct (map fst ?ys)" by simp
  have s: "set xs = insert (xs ! i) (set ?ys)"
    using arg_cong [OF m, of set_mset] by simp
  have "map_of xs = map_of (xs ! i # ?ys)"
    using assms(2) d s by (intro map_of_inject_set [THEN iffD2]) auto
  moreover have "map_of ?ys (fst (xs ! i)) = None"
    using d by (auto simp: map_of_eq_None_iff)
  ultimately show "map_of ?ys = (map_of xs)(fst (xs ! i) := None)"
    by (cases "xs ! i") auto
qed

lemma clear_last_packed:
  "zs \<noteq> [] \<Longrightarrow> (map Some zs @ replicate n None)[length zs - 1 := None]
     = map Some (butlast zs) @ replicate (Suc n) None"
  by (cases zs rule: rev_cases) (simp_all add: list_update_append)

lemma FixedMap_remove_abs:
  assumes "FixedMap_inv m"
  shows "FixedMap_inv (snd (FixedMap_remove m k)) \<and>
    (case FixedMap_abs m k of
       None \<Rightarrow> FixedMap_remove m k = (Err MissingKey, m)
     | Some v \<Rightarrow> fst (FixedMap_remove m k) = Ok v \<and>
         FixedMap_abs (snd (FixedMap_remove m k)) = (FixedMap_abs m)(k := None))"
proof -
  obtain xs n where m: "m = \<lparr>fm_entries = map Some xs @ replicate n None, fm_len = length xs\<rparr>"
    and d: "distinct (map fst xs)"
    using assms by (rule FixedMap_invE)
  let ?p = "\<lambda>e. case e of Some (stored, _) \<Rightarrow> stored = k | None \<Rightarrow> False"
  show ?thesis
  proof (cases "position ?p (map Some xs)")
    case None
    then have "map_of xs k = None"
      by (auto simp: position_None map_of_eq_None_iff)
    then show ?thesis using None assms by (simp add: m FixedMap_remove_def FixedMap_packed_abs)
  next
    case (Some i)
    from position_Some [OF this] have i: "i < length xs" "fst (xs ! i) = k"
      by (cases "xs ! i"; simp)+
    then have hit: "map_of xs k = Some (snd (xs ! i))"
      using d by (metis map_of_is_SomeI nth_mem prod.collapse)
    let ?ys = "butlast (xs[i := last xs])"
    have ne: "xs \<noteq> []" using i by auto
    have "(map Some xs @ replicate n None)[i := (map Some xs @ replicate n None) ! (length xs - 1)]
        = map Some (xs[i := last xs]) @ replicate n None"
      using i ne by (simp add: list_update_append nth_append map_update last_conv_nth)
    moreover have "(map Some (xs[i := last xs]) @ replicate n None)[length xs - 1 := None]
        = map Some ?ys @ replicate (Suc n) None"
      using ne by (simp add: clear_last_packed [where zs = "xs[i := last xs]", simplified])
    ultimately have "FixedMap_remove m k
        = (Ok (snd (xs ! i)), \<lparr>fm_entries = map Some ?ys @ replicate (Suc n) None, fm_len = length ?ys\<rparr>)"
      using Some i by (simp add: m FixedMap_remove_def nth_append Let_def split: prod.splits)
    then show ?thesis
      using swap_remove_keys [OF i(1) d] hit i
        FixedMap_packed_inv [OF swap_remove_keys(1) [OF i(1) d], of "Suc n"]
      by (simp add: m FixedMap_packed_abs FixedMap_packed_inv del: replicate_Suc)
  qed
qed

section \<open>RingBuffer is a bounded queue\<close>

lemma ring_slots_distinct:
  assumes "i < j" "j < n"
  shows "(h + i) mod n \<noteq> (h + j) mod (n::nat)"
proof
  assume "(h + i) mod n = (h + j) mod n"
  then have "n dvd (h + j) - (h + i)" using assms(1) by (metis mod_eq_dvd_iff_nat nat_add_left_cancel_le less_imp_le)
  then have "n dvd j - i" by simp
  with assms show False by (auto dest: dvd_imp_le)
qed

lemma RingBuffer_push_abs:
  assumes "RingBuffer_inv r" "rb_len r < length (rb_values r)"
  shows "fst (RingBuffer_push r x) = Ok ()" "RingBuffer_inv (snd (RingBuffer_push r x))"
    "RingBuffer_abs (snd (RingBuffer_push r x)) = RingBuffer_abs r @ [x]"
    "length (rb_values (snd (RingBuffer_push r x))) = length (rb_values r)"
proof -
  let ?n = "length (rb_values r)" and ?h = "rb_head r"
  have n: "rb_values r \<noteq> []" using assms(2) by auto
  have "(?h + rb_len r) mod ?n \<noteq> (?h + i) mod ?n" if "i < rb_len r" for i
    using ring_slots_distinct [OF that assms(2)] by metis
  then show "RingBuffer_abs (snd (RingBuffer_push r x)) = RingBuffer_abs r @ [x]"
    using assms n by (auto simp: RingBuffer_push_def RingBuffer_abs_def Let_def)
  show "fst (RingBuffer_push r x) = Ok ()" "RingBuffer_inv (snd (RingBuffer_push r x))"
    "length (rb_values (snd (RingBuffer_push r x))) = length (rb_values r)"
    using assms n by (simp_all add: RingBuffer_push_def RingBuffer_inv_def Let_def)
qed

lemma RingBuffer_pop_abs:
  assumes "RingBuffer_inv r" "RingBuffer_abs r = x # xs"
  shows "fst (RingBuffer_pop r) = Ok x" "RingBuffer_inv (snd (RingBuffer_pop r))"
    "RingBuffer_abs (snd (RingBuffer_pop r)) = xs"
    "length (rb_values (snd (RingBuffer_pop r))) = length (rb_values r)"
proof -
  let ?n = "length (rb_values r)" and ?h = "rb_head r"
  obtain l where l: "rb_len r = Suc l"
    using assms(2) by (cases "rb_len r") (auto simp: RingBuffer_abs_def)
  then have n: "?h < ?n" "rb_values r \<noteq> []" using assms(1) by (auto simp: RingBuffer_inv_def)
  have split: "[0..<rb_len r] = 0 # map Suc [0..<l]"
    by (simp add: l upt_conv_Cons map_Suc_upt del: upt_Suc)
  have x: "x = rb_values r ! ?h" and
    xs: "xs = map (\<lambda>i. rb_values r ! ((?h + Suc i) mod ?n)) [0..<l]"
    using assms(2) n by (auto simp: RingBuffer_abs_def split comp_def)
  show "fst (RingBuffer_pop r) = Ok x" by (simp add: RingBuffer_pop_def x l n Let_def)
  show "RingBuffer_abs (snd (RingBuffer_pop r)) = xs"
    using n by (simp add: RingBuffer_pop_def RingBuffer_abs_def Let_def l xs mod_add_left_eq)
  show "RingBuffer_inv (snd (RingBuffer_pop r))"
    "length (rb_values (snd (RingBuffer_pop r))) = length (rb_values r)"
    using assms(1) n by (auto simp: RingBuffer_pop_def RingBuffer_inv_def Let_def)
qed

lemma RingBuffer_abs_length: "length (RingBuffer_abs r) = rb_len r"
  by (simp add: RingBuffer_abs_def)

interpretation ring: bounded_fifo RingBuffer_push RingBuffer_pop RingBuffer_abs
  "\<lambda>r. length (rb_values r)" RingBuffer_inv
proof unfold_locales
  fix q :: "'a RingBuffer" and x
  assume "RingBuffer_inv q" "length (RingBuffer_abs q) < length (rb_values q)"
  then show "\<exists>q'. RingBuffer_push q x = (Ok (), q') \<and> RingBuffer_inv q'
      \<and> RingBuffer_abs q' = RingBuffer_abs q @ [x] \<and> length (rb_values q') = length (rb_values q)"
    using RingBuffer_push_abs [of q x]
    by (intro exI [of _ "snd (RingBuffer_push q x)"]) (simp add: RingBuffer_abs_length prod_eq_iff)
next
  fix q :: "'a RingBuffer" and x xs
  assume "RingBuffer_inv q" "RingBuffer_abs q = x # xs"
  then show "\<exists>q'. RingBuffer_pop q = (Ok x, q') \<and> RingBuffer_inv q'
      \<and> RingBuffer_abs q' = xs \<and> length (rb_values q') = length (rb_values q)"
    using RingBuffer_pop_abs [of q x xs]
    by (intro exI [of _ "snd (RingBuffer_pop q)"]) (simp add: prod_eq_iff)
next
  fix q :: "'a RingBuffer"
  assume "RingBuffer_abs q = []"
  then have "rb_len q = 0" using RingBuffer_abs_length [of q] by simp
  then show "\<exists>e. RingBuffer_pop q = (Err e, q)" by (simp add: RingBuffer_pop_def Let_def)
qed (auto simp: RingBuffer_push_def RingBuffer_abs_length RingBuffer_inv_def Let_def)



section \<open>FixedMap and Bitmap: properties\<close>

text \<open>
  C4: the fixed-capacity map refines a finite map. From a well-formed array, \<open>get\<close> is look-up;
  \<open>insert\<close> of a new key with room extends the map by exactly that key, and otherwise reports
  \<open>DuplicateKey\<close> (key present) or \<open>Full\<close> and changes nothing; \<open>remove\<close> returns the stored value
  and deletes exactly that key although it moves the last entry into the gap, and reports
  \<open>MissingKey\<close> for an absent key. All three keep the array well-formed.
\<close>

theorem fixed_map_refines:
  assumes "FixedMap_inv m"
  shows "FixedMap_get m k = (case FixedMap_abs m k of Some v \<Rightarrow> Ok v | None \<Rightarrow> Err MissingKey)
    \<and> (FixedMap_inv (snd (FixedMap_insert m k v)) \<and>
       (case fst (FixedMap_insert m k v) of
          Ok _ \<Rightarrow> FixedMap_abs m k = None \<and> fm_len m < length (fm_entries m) \<and>
                 FixedMap_abs (snd (FixedMap_insert m k v)) = (FixedMap_abs m)(k \<mapsto> v)
        | Err e \<Rightarrow> snd (FixedMap_insert m k v) = m \<and>
            (if FixedMap_abs m k \<noteq> None then e = DuplicateKey
             else e = Full \<and> fm_len m = length (fm_entries m))))
    \<and> (FixedMap_inv (snd (FixedMap_remove m k)) \<and>
       (case FixedMap_abs m k of
          None \<Rightarrow> FixedMap_remove m k = (Err MissingKey, m)
        | Some w \<Rightarrow> fst (FixedMap_remove m k) = Ok w \<and>
            FixedMap_abs (snd (FixedMap_remove m k)) = (FixedMap_abs m)(k := None)))"
  using FixedMap_get_abs [of m k] FixedMap_insert_abs [OF assms, of k v]
    FixedMap_remove_abs [OF assms, of k] by (intro conjI) blast+

definition demo_map :: "(nat, nat) FixedMap" where
  "demo_map = \<lparr>fm_entries = [Some (1, 10), Some (2, 20), Some (3, 30), None], fm_len = 3\<rparr>"

lemma demo_map_inv: "FixedMap_inv demo_map"
  using FixedMap_packed_inv [of "[(1, 10), (2, 20), (3 :: nat, 30 :: nat)]" 1]
  by (simp add: demo_map_def numeral_3_eq_3)

theorem fixed_map_refines_witness:
  "fst (FixedMap_remove demo_map 1) = Ok 10 \<and>
   FixedMap_abs (snd (FixedMap_remove demo_map 1)) = (FixedMap_abs demo_map)(1 := None) \<and>
   FixedMap_abs demo_map 1 = Some 10"
proof -
  have "FixedMap_abs demo_map 1 = Some 10" by (simp add: demo_map_def FixedMap_abs_def)
  then show ?thesis using fixed_map_refines [OF demo_map_inv, of 1 0] by simp
qed

lemma tz_from_spec:
  "(\<exists>j<n. bit w j) \<Longrightarrow> tz_from n w < n \<and> bit w (tz_from n w) \<and> (\<forall>j<tz_from n w. \<not> bit w j)"
proof (induction n arbitrary: w)
  case (Suc n)
  show ?case
  proof (cases "odd w")
    case True
    then show ?thesis by (simp add: bit_0)
  next
    case False
    then have even: "\<not> bit w 0" by (simp add: bit_0)
    from Suc.prems obtain j where "j < Suc n" "bit w j" by auto
    with even obtain i where "i < n" "bit (drop_bit 1 w) i"
      by (cases j) (auto simp: bit_drop_bit_eq)
    then have "tz_from n (drop_bit 1 w) < n \<and> bit (drop_bit 1 w) (tz_from n (drop_bit 1 w))
        \<and> (\<forall>j<tz_from n (drop_bit 1 w). \<not> bit (drop_bit 1 w) j)"
      by (intro Suc.IH) auto
    then show ?thesis using False even
      by (auto simp: bit_drop_bit_eq less_Suc_eq_0_disj)
  qed
qed simp

text \<open>Bit \<open>i\<close> of a bitmap, as \<open>Bitmap_get\<close> reads it.\<close>

lemma Bitmap_get_bit:
  "i < 64 * length (bm_words b) \<Longrightarrow> Bitmap_get b i = Ok (bit (bm_words b ! (i div 64)) (i mod 64))"
  "64 * length (bm_words b) \<le> i \<Longrightarrow> Bitmap_get b i = Err OutOfBounds"
proof -
  assume i: "i < 64 * length (bm_words b)"
  have "w AND push_bit (i mod 64) 1 \<noteq> 0 \<longleftrightarrow> bit w (i mod 64)" for w :: u64
    by (simp add: and_exp_eq_0_iff_not_bit push_bit_eq_mult)
  moreover have "i div 64 < length (bm_words b)" using i by (simp add: div_less_iff_less_mult mult.commute)
  ultimately show "Bitmap_get b i = Ok (bit (bm_words b ! (i div 64)) (i mod 64))"
    by (simp add: Bitmap_get_def Let_def)
qed (simp add: Bitmap_get_def Let_def less_eq_div_iff_mult_less_eq mult.commute)

lemma Bitmap_set_words:
  assumes "i < 64 * length (bm_words b)"
  shows "fst (Bitmap_set b i v) = Ok ()"
    and "length (bm_words (snd (Bitmap_set b i v))) = length (bm_words b)"
    and "bit (bm_words (snd (Bitmap_set b i v)) ! (j div 64)) (j mod 64)
       = (if j = i then v else bit (bm_words b ! (j div 64)) (j mod 64))"
proof -
  have w: "i div 64 < length (bm_words b)"
    using assms by (simp add: div_less_iff_less_mult mult.commute)
  have same: "j div 64 = i div 64 \<and> j mod 64 = i mod 64 \<longleftrightarrow> j = i"
    by (metis div_mult_mod_eq)
  show "fst (Bitmap_set b i v) = Ok ()"
    and "length (bm_words (snd (Bitmap_set b i v))) = length (bm_words b)"
    using w by (simp_all add: Bitmap_set_def Let_def)
  show "bit (bm_words (snd (Bitmap_set b i v)) ! (j div 64)) (j mod 64)
       = (if j = i then v else bit (bm_words b ! (j div 64)) (j mod 64))"
    using w same
    by (cases "j div 64 = i div 64")
       (auto simp: Bitmap_set_def Let_def bit_or_iff bit_and_iff bit_not_iff bit_exp_iff
        push_bit_eq_mult)
qed

lemma first_clear_from_spec:
  "(case first_clear_from n ws of
      None \<Rightarrow> \<forall>w\<in>set ws. w = - 1
    | Some i \<Rightarrow> \<exists>k. i = 64 * n + k \<and> k < 64 * length ws \<and> \<not> bit (ws ! (k div 64)) (k mod 64) \<and>
        (\<forall>j<k. bit (ws ! (j div 64)) (j mod 64)))"
proof (induction ws arbitrary: n)
  case (Cons w ws)
  show ?case
  proof (cases "w = - 1")
    case True
    have shift: "(w # ws) ! (j div 64) = ws ! ((j - 64) div 64)" "j mod 64 = (j - 64) mod 64"
      if "64 \<le> j" for j
      using that by (simp_all add: le_div_geq le_mod_geq)
    have low: "bit ((w # ws) ! (j div 64)) (j mod 64)" if "j < 64" for j
      using that True by simp
    show ?thesis
    proof (cases "first_clear_from (Suc n) ws")
      case None
      then show ?thesis using Cons.IH [of "Suc n"] True by simp
    next
      case (Some i)
      then obtain k where k: "i = 64 * Suc n + k" "k < 64 * length ws"
        "\<not> bit (ws ! (k div 64)) (k mod 64)" "\<forall>j<k. bit (ws ! (j div 64)) (j mod 64)"
        using Cons.IH [of "Suc n"] by auto
      have "bit ((w # ws) ! (j div 64)) (j mod 64)" if "j < 64 + k" for j
        using low [of j] shift [of j] k(4) that by (cases "j < 64") auto
      with k True Some shift [of "64 + k"] show ?thesis
        by (auto intro!: exI [of _ "64 + k"])
    qed
  next
    case False
    then obtain j where j: "\<not> bit w j" "j < 64"
      using bit_word_eqI [of w "- 1"] by auto
    let ?k = "trailing_zeros (NOT w)"
    have "\<exists>i<64. bit (NOT w) i" using j by (auto simp: bit_not_iff)
    from tz_from_spec [OF this] have k: "?k < 64" "\<not> bit w ?k" "\<forall>i<?k. bit w i"
      by (auto simp: trailing_zeros_def bit_not_iff)
    then show ?thesis using False
      by (auto intro!: exI [of _ ?k])
  qed
qed simp

text \<open>
  The bitmap is an exact set of bit numbers. In range, \<open>set\<close> succeeds and afterwards \<open>get\<close>
  returns the written value at that bit and the old one at every other; \<open>first_clear\<close> returns
  the least bit that reads as clear, and \<open>None\<close> exactly when every bit in range reads as set.
\<close>

lemma bitmap_exact:
  shows "(i < 64 * length (bm_words b) \<longrightarrow> fst (Bitmap_set b i v) = Ok () \<and>
           Bitmap_get (snd (Bitmap_set b i v)) j = (if j = i then Ok v else Bitmap_get b j))
       \<and> (case Bitmap_first_clear b of
            Some k \<Rightarrow> Bitmap_get b k = Ok False \<and> (\<forall>j<k. Bitmap_get b j = Ok True)
          | None \<Rightarrow> \<forall>j<64 * length (bm_words b). Bitmap_get b j = Ok True)"
proof (intro conjI impI)
  assume i: "i < 64 * length (bm_words b)"
  show "fst (Bitmap_set b i v) = Ok ()" by (rule Bitmap_set_words(1) [OF i])
  show "Bitmap_get (snd (Bitmap_set b i v)) j = (if j = i then Ok v else Bitmap_get b j)"
    using i Bitmap_set_words(2,3) [OF i, of v]
    by (cases "j < 64 * length (bm_words b)") (auto simp: Bitmap_get_bit)
next
  show "case Bitmap_first_clear b of
            Some k \<Rightarrow> Bitmap_get b k = Ok False \<and> (\<forall>j<k. Bitmap_get b j = Ok True)
          | None \<Rightarrow> \<forall>j<64 * length (bm_words b). Bitmap_get b j = Ok True"
  proof (cases "first_clear_from 0 (bm_words b)")
    case None
    have "bm_words b ! (j div 64) = - 1" if "j < 64 * length (bm_words b)" for j
    proof -
      from that have "j div 64 < length (bm_words b)"
        by (simp add: div_less_iff_less_mult mult.commute)
      then show ?thesis
        using first_clear_from_spec [where n = 0 and ws = "bm_words b"] None by simp
    qed
    then show ?thesis using None by (simp add: Bitmap_first_clear_def Bitmap_get_bit)
  next
    case (Some k)
    then show ?thesis
      using first_clear_from_spec [where n = 0 and ws = "bm_words b"]
      by (auto simp: Bitmap_first_clear_def Bitmap_get_bit)
  qed
qed

theorem bitmap_exact_witness:
  "Bitmap_get (snd (Bitmap_set (Bitmap_new 2) 70 True)) 70 = Ok True
   \<and> fst (Bitmap_set (Bitmap_new 2) 70 True) = Ok ()"
  using bitmap_exact [of 70 "Bitmap_new 2" True 70] by (simp add: Bitmap_new_def)

end
