(* ===== verification/Kernel_Smp.thy ===== *)
theory Kernel_Smp
  imports Kernel_Prelude
begin

text \<open>
  The processor lifecycle, inter-processor interrupt epochs and TLB shootdown epochs of
  \<open>thermite-kernel/src/smp.rs\<close>. A \<open>BTreeSet\<open>CpuId\<close>\<close> is a set of 16-bit identifiers, so it is
  always finite. The lemmas give the lifecycle as a rank that only grows, and the meaning of a
  completed shootdown: every processor that was online when it began has acknowledged it.
\<close>

type_synonym CpuId = u16
type_synonym IpiEpoch = u64
type_synonym ShootdownEpoch = u64

datatype CpuFailure = NoStack | NoLocalStorage | StartupTimeout | DescriptorInstall | InterruptController

datatype CpuLifecycle = Discovered | Prepared | Starting | Online | Failed CpuFailure

record CpuSet =
  members :: "CpuId set"

definition CpuSet_from_ids :: "CpuId list \<Rightarrow> CpuSet" where
  "CpuSet_from_ids ids = \<lparr>members = set ids\<rparr>"

definition CpuSet_contains :: "CpuSet \<Rightarrow> CpuId \<Rightarrow> bool" where
  "CpuSet_contains s cpu = (cpu \<in> members s)"

definition CpuSet_len :: "CpuSet \<Rightarrow> nat" where
  "CpuSet_len s = card (members s)"

definition CpuSet_iter :: "CpuSet \<Rightarrow> CpuId list" where
  "CpuSet_iter s = sorted_list_of_set (members s)"

datatype SmpError =
    DuplicateCpu | UnknownCpu | IllegalTransition | CpuNotOnline | EpochOverflow | UnknownEpoch
  | ForeignCpu | DuplicateAcknowledgement | StaleEpoch | Incomplete

record PendingEpoch =
  targets :: CpuSet
  acknowledgements :: "CpuId set"

record SmpState =
  cpus :: "(CpuId, CpuLifecycle) btmap"
  next_ipi_epoch :: IpiEpoch
  next_shootdown_epoch :: ShootdownEpoch
  ipis :: "(IpiEpoch, PendingEpoch) btmap"
  shootdowns :: "(ShootdownEpoch, PendingEpoch) btmap"

definition SmpState_new :: SmpState where
  "SmpState_new = \<lparr>cpus = [], next_ipi_epoch = 0, next_shootdown_epoch = 0, ipis = [], shootdowns = []\<rparr>"


section \<open>Operations\<close>

text \<open>\<open>discover\<close> inserts before it looks at the displaced value.\<close>

definition discover :: "SmpState \<Rightarrow> CpuId \<Rightarrow> (unit, SmpError) result \<times> SmpState" where
  "discover s cpu =
     (let s' = s\<lparr>cpus := bt_insert cpu Discovered (cpus s)\<rparr>
      in if bt_get (cpus s) cpu \<noteq> None then (Err DuplicateCpu, s') else (Ok (), s'))"

fun legal_edge :: "CpuLifecycle \<Rightarrow> CpuLifecycle \<Rightarrow> bool" where
  "legal_edge Discovered Prepared = True"
| "legal_edge Prepared Starting = True"
| "legal_edge Starting Online = True"
| "legal_edge Prepared (Failed _) = True"
| "legal_edge Starting (Failed _) = True"
| "legal_edge _ _ = False"

definition transition :: "SmpState \<Rightarrow> CpuId \<Rightarrow> CpuLifecycle \<Rightarrow> (unit, SmpError) result \<times> SmpState" where
  "transition s cpu next =
     (case bt_get (cpus s) cpu of
        None \<Rightarrow> (Err UnknownCpu, s)
      | Some current \<Rightarrow>
          if \<not> legal_edge current next then (Err IllegalTransition, s)
          else (Ok (), s\<lparr>cpus := bt_insert cpu next (cpus s)\<rparr>))"

definition lifecycle :: "SmpState \<Rightarrow> CpuId \<Rightarrow> CpuLifecycle option" where
  "lifecycle s cpu = bt_get (cpus s) cpu"

definition smp_online :: "SmpState \<Rightarrow> CpuSet" where
  "smp_online s = CpuSet_from_ids (map fst (filter (\<lambda>e. snd e = Online) (cpus s)))"

definition validate_online_targets :: "SmpState \<Rightarrow> CpuSet \<Rightarrow> (unit, SmpError) result" where
  "validate_online_targets s ts =
     (if \<exists>cpu\<in>members ts. bt_get (cpus s) cpu \<noteq> Some Online then Err CpuNotOnline else Ok ())"

definition begin_ipi :: "SmpState \<Rightarrow> CpuSet \<Rightarrow> (IpiEpoch, SmpError) result \<times> SmpState" where
  "begin_ipi s ts =
     (case validate_online_targets s ts of
        Err e \<Rightarrow> (Err e, s)
      | Ok _ \<Rightarrow>
          (case checked_add (next_ipi_epoch s) 1 of
             None \<Rightarrow> (Err EpochOverflow, s)
           | Some epoch \<Rightarrow>
               (Ok epoch, s\<lparr>next_ipi_epoch := epoch,
                  ipis := bt_insert epoch \<lparr>targets = ts, acknowledgements = {}\<rparr> (ipis s)\<rparr>)))"

text \<open>\<open>keys().next_back()\<close> is the greatest pending epoch: the last key of the map.\<close>

definition acknowledge ::
  "(u64, PendingEpoch) btmap \<Rightarrow> u64 \<Rightarrow> CpuId \<Rightarrow> (bool, SmpError) result \<times> (u64, PendingEpoch) btmap" where
  "acknowledge pending epoch cpu =
     (if pending = [] then (Err UnknownEpoch, pending)
      else if epoch < fst (last pending) then (Err StaleEpoch, pending)
      else
        (case bt_get pending epoch of
           None \<Rightarrow> (Err UnknownEpoch, pending)
         | Some entry \<Rightarrow>
             if \<not> CpuSet_contains (targets entry) cpu then (Err ForeignCpu, pending)
             else if cpu \<in> acknowledgements entry then (Err DuplicateAcknowledgement, pending)
             else
               let entry' = entry\<lparr>acknowledgements := insert cpu (acknowledgements entry)\<rparr>
               in (Ok (acknowledgements entry' = members (targets entry')),
                   bt_insert epoch entry' pending)))"

definition acknowledge_ipi ::
  "SmpState \<Rightarrow> IpiEpoch \<Rightarrow> CpuId \<Rightarrow> (bool, SmpError) result \<times> SmpState" where
  "acknowledge_ipi s epoch cpu =
     (let (r, p) = acknowledge (ipis s) epoch cpu in (r, s\<lparr>ipis := p\<rparr>))"

definition begin_shootdown :: "SmpState \<Rightarrow> (ShootdownEpoch, SmpError) result \<times> SmpState" where
  "begin_shootdown s =
     (let ts = smp_online s in
      case checked_add (next_shootdown_epoch s) 1 of
        None \<Rightarrow> (Err EpochOverflow, s)
      | Some epoch \<Rightarrow>
          (Ok epoch, s\<lparr>next_shootdown_epoch := epoch,
             shootdowns := bt_insert epoch \<lparr>targets = ts, acknowledgements = {}\<rparr> (shootdowns s)\<rparr>))"

definition acknowledge_shootdown ::
  "SmpState \<Rightarrow> ShootdownEpoch \<Rightarrow> CpuId \<Rightarrow> (bool, SmpError) result \<times> SmpState" where
  "acknowledge_shootdown s epoch cpu =
     (let (r, p) = acknowledge (shootdowns s) epoch cpu in (r, s\<lparr>shootdowns := p\<rparr>))"

definition complete_shootdown ::
  "SmpState \<Rightarrow> ShootdownEpoch \<Rightarrow> (unit, SmpError) result \<times> SmpState" where
  "complete_shootdown s epoch =
     (case bt_get (shootdowns s) epoch of
        None \<Rightarrow> (Err UnknownEpoch, s)
      | Some pending \<Rightarrow>
          if acknowledgements pending \<noteq> members (targets pending) then (Err Incomplete, s)
          else (Ok (), s\<lparr>shootdowns := bt_remove epoch (shootdowns s)\<rparr>))"

datatype smp_op =
    SDiscover CpuId
  | STransition CpuId CpuLifecycle
  | SBeginIpi CpuSet
  | SAckIpi IpiEpoch CpuId
  | SBeginShootdown
  | SAckShootdown ShootdownEpoch CpuId
  | SComplete ShootdownEpoch

fun smp_step :: "SmpState \<Rightarrow> smp_op \<Rightarrow> SmpState" where
  "smp_step s (SDiscover cpu) = snd (discover s cpu)"
| "smp_step s (STransition cpu next) = snd (transition s cpu next)"
| "smp_step s (SBeginIpi ts) = snd (begin_ipi s ts)"
| "smp_step s (SAckIpi epoch cpu) = snd (acknowledge_ipi s epoch cpu)"
| "smp_step s SBeginShootdown = snd (begin_shootdown s)"
| "smp_step s (SAckShootdown epoch cpu) = snd (acknowledge_shootdown s epoch cpu)"
| "smp_step s (SComplete epoch) = snd (complete_shootdown s epoch)"

section \<open>Lifecycle\<close>

text \<open>The lifecycle as a step relation: one rule per edge the code accepts.\<close>

inductive cpu_edge :: "CpuLifecycle \<Rightarrow> CpuLifecycle \<Rightarrow> bool" where
  prepare: "cpu_edge Discovered Prepared"
| start: "cpu_edge Prepared Starting"
| come_online: "cpu_edge Starting Online"
| fail_prepared: "cpu_edge Prepared (Failed f)"
| fail_starting: "cpu_edge Starting (Failed f)"

inductive_cases edge_from_online: "cpu_edge Online l"
inductive_cases edge_from_failed: "cpu_edge (Failed f) l"
inductive_simps cpu_edge_iff: "cpu_edge a b"

lemma legal_edge_iff: "legal_edge a b \<longleftrightarrow> cpu_edge a b"
  by (cases a; cases b) (auto simp: cpu_edge_iff)

fun lifecycle_rank :: "CpuLifecycle \<Rightarrow> nat" where
  "lifecycle_rank Discovered = 0"
| "lifecycle_rank Prepared = 1"
| "lifecycle_rank Starting = 2"
| "lifecycle_rank Online = 3"
| "lifecycle_rank (Failed _) = 3"

lemma cpu_edge_rank: "cpu_edge a b \<Longrightarrow> lifecycle_rank a < lifecycle_rank b"
  by (auto simp: cpu_edge_iff)

lemma cpu_path_terminal: "cpu_edge\<^sup>*\<^sup>* a b \<Longrightarrow> lifecycle_rank a = 3 \<Longrightarrow> b = a"
proof (induction rule: rtranclp_induct)
  case (step b c)
  then show ?case using cpu_edge_rank [of b c] by (cases c) auto
qed simp

lemma cpus_untouched [simp]:
  "cpus (snd (begin_ipi s ts)) = cpus s"
  "cpus (snd (acknowledge_ipi s e c)) = cpus s"
  "cpus (snd (begin_shootdown s)) = cpus s"
  "cpus (snd (acknowledge_shootdown s e c)) = cpus s"
  "cpus (snd (complete_shootdown s e)) = cpus s"
  by (auto simp: begin_ipi_def acknowledge_ipi_def begin_shootdown_def acknowledge_shootdown_def
      complete_shootdown_def Let_def split: option.splits result.splits prod.splits)

lemma smp_step_lifecycle:
  assumes "lifecycle s cpu = Some l" and "a \<noteq> SDiscover cpu"
  shows "\<exists>l'. lifecycle (smp_step s a) cpu = Some l' \<and> cpu_edge\<^sup>*\<^sup>* l l'"
proof (cases a)
  case (STransition c to)
  then show ?thesis
    using assms by (auto simp: lifecycle_def transition_def legal_edge_iff split: option.splits)
next
  case (SDiscover c)
  with assms show ?thesis by (auto simp: lifecycle_def discover_def Let_def)
qed (use assms in \<open>auto simp: lifecycle_def\<close>)


definition demo_smp :: SmpState where
  "demo_smp = \<lparr>cpus = [(0, Online), (1, Starting)], next_ipi_epoch = 0, next_shootdown_epoch = 0,
               ipis = [], shootdowns = []\<rparr>"



section \<open>Epochs\<close>

text \<open>Every pending epoch was handed out, so the next one is new.\<close>

definition pending_ok :: "u64 \<Rightarrow> u64 \<Rightarrow> PendingEpoch \<Rightarrow> bool" where
  "pending_ok newest e p = (e \<le> newest \<and> acknowledgements p \<subseteq> members (targets p))"

definition epochs_ok :: "(u64, PendingEpoch) btmap \<Rightarrow> u64 \<Rightarrow> bool" where
  "epochs_ok pending newest = (bt_wf pending \<and> bt_all (pending_ok newest) pending)"

definition smp_inv :: "SmpState \<Rightarrow> bool" where
  "smp_inv s = (bt_wf (cpus s) \<and> epochs_ok (ipis s) (next_ipi_epoch s) \<and>
     epochs_ok (shootdowns s) (next_shootdown_epoch s))"

lemma acknowledge_OkE:
  assumes "acknowledge pending epoch cpu = (Ok done, pending')"
  obtains p where "bt_get pending epoch = Some p" "cpu \<in> members (targets p)"
    "cpu \<notin> acknowledgements p"
    "pending' = bt_insert epoch (p\<lparr>acknowledgements := insert cpu (acknowledgements p)\<rparr>) pending"
    "done \<longleftrightarrow> insert cpu (acknowledgements p) = members (targets p)"
  using assms
  by (auto simp: acknowledge_def Let_def CpuSet_contains_def split: if_splits option.splits)

lemma acknowledge_Err: "acknowledge pending epoch cpu = (Err e, pending') \<Longrightarrow> pending' = pending"
  by (auto simp: acknowledge_def Let_def split: if_splits option.splits)

text \<open>One shape for both: acknowledging changes at most the addressed entry, by one member.\<close>

lemma acknowledge_shape:
  "snd (acknowledge pending epoch cpu) = pending \<or>
   (\<exists>p. bt_get pending epoch = Some p \<and> cpu \<in> members (targets p) \<and>
      snd (acknowledge pending epoch cpu)
        = bt_insert epoch (p\<lparr>acknowledgements := insert cpu (acknowledgements p)\<rparr>) pending)"
  by (auto simp: acknowledge_def Let_def CpuSet_contains_def split: option.splits)

lemma epochs_ok_begin:
  assumes "epochs_ok pending newest" "checked_add newest 1 = Some e"
  shows "epochs_ok (bt_insert e \<lparr>targets = ts, acknowledgements = {}\<rparr> pending) e"
proof -
  have "bt_all (pending_ok e) pending"
    using assms(1) checked_inc_greater [OF assms(2)]
    by (auto simp: epochs_ok_def pending_ok_def elim!: bt_all_mono)
  then show ?thesis using assms(1) by (auto simp: epochs_ok_def pending_ok_def)
qed

lemma epochs_ok_ack:
  assumes "epochs_ok pending newest"
  shows "epochs_ok (snd (acknowledge pending e c)) newest"
proof -
  have "pending_ok newest e (p\<lparr>acknowledgements := insert c (acknowledgements p)\<rparr>)"
    if "bt_get pending e = Some p" "c \<in> members (targets p)" for p
    using that bt_allD [of "pending_ok newest" pending e p] assms
    by (auto simp: pending_ok_def epochs_ok_def)
  then show ?thesis
    using acknowledge_shape [of pending e c] assms by (auto simp: epochs_ok_def)
qed

lemma epochs_ok_remove: "epochs_ok pending newest \<Longrightarrow> epochs_ok (bt_remove e pending) newest"
  by (auto simp: epochs_ok_def)

lemma acknowledge_fields:
  "snd (acknowledge_ipi s e c) = s\<lparr>ipis := snd (acknowledge (ipis s) e c)\<rparr>"
  "snd (acknowledge_shootdown s e c) = s\<lparr>shootdowns := snd (acknowledge (shootdowns s) e c)\<rparr>"
  by (simp_all add: acknowledge_ipi_def acknowledge_shootdown_def split_beta)

lemma smp_inv_step:
  assumes "smp_inv s"
  shows "smp_inv (smp_step s a)"
  using assms
  by (cases a)
     (auto simp: smp_inv_def begin_ipi_def begin_shootdown_def acknowledge_fields
        discover_def transition_def complete_shootdown_def Let_def
        split: option.splits result.splits
        intro: epochs_ok_begin epochs_ok_remove epochs_ok_ack)

lemma smp_inv_new: "smp_inv SmpState_new"
  by (simp add: smp_inv_def SmpState_new_def epochs_ok_def)

text \<open>
  What later states look like for one shootdown epoch that has been handed out: it is gone, or
  it has its original targets and only acknowledgements that were made by calls in between.
\<close>

definition shootdown_track :: "ShootdownEpoch \<Rightarrow> CpuSet \<Rightarrow> smp_op list \<Rightarrow> SmpState \<Rightarrow> bool" where
  "shootdown_track e ts ops s =
     (e \<le> next_shootdown_epoch s \<and>
      (\<forall>p. bt_get (shootdowns s) e = Some p \<longrightarrow>
         targets p = ts \<and> (\<forall>c\<in>acknowledgements p. SAckShootdown e c \<in> set ops)))"

lemma shootdowns_untouched [simp]:
  "shootdowns (snd (discover s c)) = shootdowns s"
  "shootdowns (snd (transition s c l)) = shootdowns s"
  "shootdowns (snd (begin_ipi s ts)) = shootdowns s"
  "next_shootdown_epoch (snd (discover s c)) = next_shootdown_epoch s"
  "next_shootdown_epoch (snd (transition s c l)) = next_shootdown_epoch s"
  "next_shootdown_epoch (snd (begin_ipi s ts)) = next_shootdown_epoch s"
  by (auto simp: begin_ipi_def discover_def transition_def Let_def
      split: option.splits result.splits)

lemma shootdown_track_extend:
  assumes "shootdown_track e ts ops s" and "next_shootdown_epoch s \<le> next_shootdown_epoch s'"
    and "\<And>p. bt_get (shootdowns s') e = Some p \<Longrightarrow> bt_get (shootdowns s) e = Some p \<or>
        (\<exists>q c. a = SAckShootdown e c \<and> bt_get (shootdowns s) e = Some q \<and>
           p = q\<lparr>acknowledgements := insert c (acknowledgements q)\<rparr>)"
  shows "shootdown_track e ts (ops @ [a]) s'"
  unfolding shootdown_track_def
proof (intro conjI allI impI ballI)
  show "e \<le> next_shootdown_epoch s'"
    using assms(1,2) by (auto simp: shootdown_track_def)
  fix p
  assume p: "bt_get (shootdowns s') e = Some p"
  have old: "targets q = ts \<and> (\<forall>c\<in>acknowledgements q. SAckShootdown e c \<in> set ops)"
    if "bt_get (shootdowns s) e = Some q" for q
    using assms(1) that by (simp add: shootdown_track_def)
  from assms(3) [OF p] have new: "targets p = ts \<and>
      (\<forall>c\<in>acknowledgements p. SAckShootdown e c \<in> set (ops @ [a]))"
  proof (elim disjE exE conjE)
    assume "bt_get (shootdowns s) e = Some p"
    from old [OF this] show ?thesis by simp
  next
    fix q c
    assume "a = SAckShootdown e c" "bt_get (shootdowns s) e = Some q"
      "p = q\<lparr>acknowledgements := insert c (acknowledgements q)\<rparr>"
    with old [of q] show ?thesis by simp
  qed
  from new show "targets p = ts" ..
  from new show "SAckShootdown e c \<in> set (ops @ [a])" if "c \<in> acknowledgements p" for c
    using that by blast
qed

lemma begin_shootdown_grows:
  "snd (begin_shootdown s) = s \<or>
   (\<exists>n t. next_shootdown_epoch s < n \<and> snd (begin_shootdown s)
      = s\<lparr>next_shootdown_epoch := n, shootdowns := bt_insert n t (shootdowns s)\<rparr>)"
proof (cases "checked_add (next_shootdown_epoch s) 1")
  case (Some n)
  then show ?thesis
    using checked_inc_greater [OF Some] by (auto simp: begin_shootdown_def Let_def)
qed (simp add: begin_shootdown_def Let_def)

lemma begin_shootdown_pending:
  assumes "bt_get (shootdowns (snd (begin_shootdown s))) e = Some p" "e \<le> next_shootdown_epoch s"
  shows "bt_get (shootdowns s) e = Some p"
  using begin_shootdown_grows [of s] assms by (elim disjE exE conjE) (simp_all split: if_splits)

lemma begin_shootdown_epoch:
  "next_shootdown_epoch s \<le> next_shootdown_epoch (snd (begin_shootdown s))"
  using begin_shootdown_grows [of s] by (elim disjE exE conjE) simp_all

lemma shootdown_track_step:
  assumes "shootdown_track e ts ops s"
  shows "shootdown_track e ts (ops @ [a]) (smp_step s a)"
proof (rule shootdown_track_extend [OF assms])
  show "next_shootdown_epoch s \<le> next_shootdown_epoch (smp_step s a)"
    by (cases a) (auto simp: acknowledge_fields complete_shootdown_def begin_shootdown_epoch
        split: option.splits)
  have e: "e \<le> next_shootdown_epoch s" using assms by (simp add: shootdown_track_def)
  fix p
  assume p: "bt_get (shootdowns (smp_step s a)) e = Some p"
  then show "bt_get (shootdowns s) e = Some p \<or>
        (\<exists>q c. a = SAckShootdown e c \<and> bt_get (shootdowns s) e = Some q \<and>
           p = q\<lparr>acknowledgements := insert c (acknowledgements q)\<rparr>)"
  proof (cases a)
    case SBeginShootdown
    then show ?thesis using begin_shootdown_pending [OF _ e] p by simp
  next
    case (SAckShootdown e' c)
    then show ?thesis using acknowledge_shape [of "shootdowns s" e' c] p
      by (cases "e' = e") (auto simp: acknowledge_fields)
  next
    case (SComplete e')
    then show ?thesis using p
      by (auto simp: complete_shootdown_def split: option.splits if_splits)
  qed (simp_all add: acknowledge_fields)
qed

lemma shootdown_track_replay:
  "shootdown_track e ts [] s \<Longrightarrow> shootdown_track e ts ops (replay smp_step s ops)"
  by (induction ops rule: rev_induct) (auto simp: replay_append dest: shootdown_track_step)

lemma online_members: "lifecycle s cpu = Some Online \<Longrightarrow> cpu \<in> members (smp_online s)"
  by (force simp: lifecycle_def smp_online_def CpuSet_from_ids_def dest: bt_get_in_set)

text \<open>
  C6: a TLB shootdown completes only when everybody took part. If \<open>begin_shootdown\<close> hands out
  epoch \<open>e\<close> and, after any further calls, \<open>complete_shootdown e\<close> succeeds, then every processor
  that was online when the shootdown began has acknowledged epoch \<open>e\<close> by a call in between.
\<close>

theorem shootdown_completes_only_after_all_acks:
  assumes "begin_shootdown s = (Ok e, s')"
    and "complete_shootdown (replay smp_step s' ops) e = (Ok u, s'')"
    and "lifecycle s cpu = Some Online"
  shows "SAckShootdown e cpu \<in> set ops"
proof -
  have "shootdown_track e (smp_online s) [] s'"
    using assms(1) by (auto simp: begin_shootdown_def shootdown_track_def Let_def split: option.splits)
  then have t: "shootdown_track e (smp_online s) ops (replay smp_step s' ops)"
    by (rule shootdown_track_replay)
  from assms(2) obtain p where "bt_get (shootdowns (replay smp_step s' ops)) e = Some p"
    "acknowledgements p = members (targets p)"
    by (auto simp: complete_shootdown_def split: option.splits if_splits)
  with t online_members [OF assms(3)] show ?thesis by (auto simp: shootdown_track_def)
qed

theorem shootdown_completes_only_after_all_acks_witness:
  "fst (begin_shootdown demo_smp) = Ok 1 \<and>
   fst (complete_shootdown (replay smp_step (snd (begin_shootdown demo_smp)) [SAckShootdown 1 0]) 1)
     = Ok () \<and> SAckShootdown 1 0 \<in> set [SAckShootdown 1 0]"
proof -
  have b: "begin_shootdown demo_smp = (Ok 1, snd (begin_shootdown demo_smp))"
    by (simp add: begin_shootdown_def demo_smp_def checked_add_def Let_def)
  have c: "complete_shootdown (replay smp_step (snd (begin_shootdown demo_smp)) [SAckShootdown 1 0]) 1
      = (Ok (), snd (complete_shootdown
            (replay smp_step (snd (begin_shootdown demo_smp)) [SAckShootdown 1 0]) 1))"
    by (simp add: begin_shootdown_def demo_smp_def checked_add_def Let_def acknowledge_fields
        acknowledge_def complete_shootdown_def smp_online_def CpuSet_from_ids_def CpuSet_contains_def)
  have "lifecycle demo_smp 0 = Some Online" by (simp add: lifecycle_def demo_smp_def)
  from shootdown_completes_only_after_all_acks [OF b c this] b c show ?thesis by (metis fst_conv)
qed

end
