(* ===== verification/Kernel_Sync.thy ===== *)
theory Kernel_Sync
  imports Kernel_Smp
begin

text \<open>
  The synchronisation primitives of \<open>thermite-kernel/src/sync.rs\<close>: the ticket lock, the once
  cell, the bounded multi-producer queue and the generation barrier. The lemmas show that the
  lock is handed over in the order of the tickets, that the queue is a bounded first-in first-out
  queue whose counters balance, and that a barrier generation advances only after everybody
  arrived.
\<close>

datatype SyncError =
    TicketOverflow | UnknownTicket | OutOfOrderRelease | AlreadyInitialized | Uninitialized
  | QueueFull | QueueEmpty | DuplicateParticipant | ForeignParticipant | StaleGeneration
  | GenerationOverflow


section \<open>Ticket lock\<close>

record LockGuard =
  ticket :: u64

record TicketLock =
  lk_next :: u64
  lk_owner :: u64
  lk_outstanding :: "u64 set"

definition TicketLock_new :: TicketLock where
  "TicketLock_new = \<lparr>lk_next = 0, lk_owner = 0, lk_outstanding = {}\<rparr>"

definition lock_enqueue :: "TicketLock \<Rightarrow> (u64, SyncError) result \<times> TicketLock" where
  "lock_enqueue l =
     (let t = lk_next l in
      case checked_add (lk_next l) 1 of
        None \<Rightarrow> (Err TicketOverflow, l)
      | Some n \<Rightarrow> (Ok t, l\<lparr>lk_next := n, lk_outstanding := insert t (lk_outstanding l)\<rparr>))"

definition lock_acquire :: "TicketLock \<Rightarrow> u64 \<Rightarrow> (LockGuard, SyncError) result" where
  "lock_acquire l t =
     (if t \<notin> lk_outstanding l then Err UnknownTicket
      else if t \<noteq> lk_owner l then Err OutOfOrderRelease
      else Ok \<lparr>ticket = t\<rparr>)"

text \<open>The ticket is removed before the owner counter is advanced.\<close>

definition lock_release :: "TicketLock \<Rightarrow> LockGuard \<Rightarrow> (unit, SyncError) result \<times> TicketLock" where
  "lock_release l guard =
     (if ticket guard \<noteq> lk_owner l \<or> ticket guard \<notin> lk_outstanding l
      then (Err OutOfOrderRelease, l)
      else
        let l' = l\<lparr>lk_outstanding := lk_outstanding l - {ticket guard}\<rparr> in
        case checked_add (lk_owner l) 1 of
          None \<Rightarrow> (Err TicketOverflow, l')
        | Some n \<Rightarrow> (Ok (), l'\<lparr>lk_owner := n\<rparr>))"


section \<open>Once cell\<close>

record 'a OnceCell =
  oc_value :: "'a option"

definition OnceCell_new :: "'a OnceCell" where
  "OnceCell_new = \<lparr>oc_value = None\<rparr>"

definition once_get :: "'a OnceCell \<Rightarrow> ('a, SyncError) result" where
  "once_get c = (case oc_value c of None \<Rightarrow> Err Uninitialized | Some v \<Rightarrow> Ok v)"

definition once_initialize :: "'a OnceCell \<Rightarrow> 'a \<Rightarrow> ('a, SyncError) result \<times> 'a OnceCell" where
  "once_initialize c v =
     (if oc_value c \<noteq> None then (Err AlreadyInitialized, c)
      else let c' = c\<lparr>oc_value := Some v\<rparr> in (once_get c', c'))"


section \<open>Bounded multi-producer queue\<close>

record 'a BoundedMpsc =
  mq_capacity :: nat
  mq_queue :: "(CpuId \<times> 'a) list"
  mq_pushes :: "(CpuId, u64) btmap"
  mq_pops :: u64

definition BoundedMpsc_new :: "nat \<Rightarrow> 'a BoundedMpsc" where
  "BoundedMpsc_new cap = \<lparr>mq_capacity = cap, mq_queue = [], mq_pushes = [], mq_pops = 0\<rparr>"

definition mpsc_push ::
  "'a BoundedMpsc \<Rightarrow> CpuId \<Rightarrow> 'a \<Rightarrow> (unit, SyncError) result \<times> 'a BoundedMpsc" where
  "mpsc_push q producer v =
     (if length (mq_queue q) = mq_capacity q then (Err QueueFull, q)
      else
        let n = (case bt_get (mq_pushes q) producer of None \<Rightarrow> 0 | Some k \<Rightarrow> k)
        in (Ok (), q\<lparr>mq_queue := mq_queue q @ [(producer, v)],
                    mq_pushes := bt_insert producer (n + 1) (mq_pushes q)\<rparr>))"

definition mpsc_pop :: "'a BoundedMpsc \<Rightarrow> (CpuId \<times> 'a, SyncError) result \<times> 'a BoundedMpsc" where
  "mpsc_pop q =
     (case mq_queue q of
        [] \<Rightarrow> (Err QueueEmpty, q)
      | v # rest \<Rightarrow> (Ok v, q\<lparr>mq_queue := rest, mq_pops := saturating_add (mq_pops q) 1\<rparr>))"

definition mpsc_len :: "'a BoundedMpsc \<Rightarrow> nat" where
  "mpsc_len q = length (mq_queue q)"

definition mpsc_is_empty :: "'a BoundedMpsc \<Rightarrow> bool" where
  "mpsc_is_empty q = (mq_queue q = [])"

definition accounting_holds :: "'a BoundedMpsc \<Rightarrow> bool" where
  "accounting_holds q =
     (sum_list (map snd (mq_pushes q))
        = saturating_add (mq_pops q) (of_nat (length (mq_queue q))))"


section \<open>Generation barrier\<close>

record Barrier =
  br_participants :: CpuSet
  br_arrived :: "CpuId set"
  br_generation :: u64

definition Barrier_new :: "CpuSet \<Rightarrow> Barrier" where
  "Barrier_new ps = \<lparr>br_participants = ps, br_arrived = {}, br_generation = 0\<rparr>"

definition barrier_arrive ::
  "Barrier \<Rightarrow> CpuId \<Rightarrow> u64 \<Rightarrow> (bool, SyncError) result \<times> Barrier" where
  "barrier_arrive b cpu g =
     (if g \<noteq> br_generation b then (Err StaleGeneration, b)
      else if \<not> CpuSet_contains (br_participants b) cpu then (Err ForeignParticipant, b)
      else if cpu \<in> br_arrived b then (Err DuplicateParticipant, b)
      else
        let b' = b\<lparr>br_arrived := insert cpu (br_arrived b)\<rparr>
        in (Ok (card (br_arrived b') = CpuSet_len (br_participants b')), b'))"

definition barrier_advance :: "Barrier \<Rightarrow> (u64, SyncError) result \<times> Barrier" where
  "barrier_advance b =
     (if card (br_arrived b) \<noteq> CpuSet_len (br_participants b) then (Err ForeignParticipant, b)
      else
        case checked_add (br_generation b) 1 of
          None \<Rightarrow> (Err GenerationOverflow, b)
        | Some g \<Rightarrow> (Ok g, b\<lparr>br_generation := g, br_arrived := {}\<rparr>))"


section \<open>The ticket lock serves in order\<close>

datatype lock_op = LEnqueue | LRelease LockGuard

fun lock_step :: "TicketLock \<Rightarrow> lock_op \<Rightarrow> TicketLock" where
  "lock_step l LEnqueue = snd (lock_enqueue l)"
| "lock_step l (LRelease g) = snd (lock_release l g)"

text \<open>The tickets handed out, and the tickets whose release succeeded, in the order of the calls.\<close>

fun lock_issued :: "TicketLock \<Rightarrow> lock_op list \<Rightarrow> u64 list" where
  "lock_issued l [] = []"
| "lock_issued l (a # ops) =
     (case a of
        LEnqueue \<Rightarrow> (case fst (lock_enqueue l) of Ok t \<Rightarrow> [t] | Err _ \<Rightarrow> [])
      | LRelease _ \<Rightarrow> []) @ lock_issued (lock_step l a) ops"

fun lock_served :: "TicketLock \<Rightarrow> lock_op list \<Rightarrow> u64 list" where
  "lock_served l [] = []"
| "lock_served l (a # ops) =
     (case a of
        LEnqueue \<Rightarrow> []
      | LRelease g \<Rightarrow> (case fst (lock_release l g) of Ok _ \<Rightarrow> [ticket g] | Err _ \<Rightarrow> []))
     @ lock_served (lock_step l a) ops"

definition lock_inv :: "TicketLock \<Rightarrow> bool" where
  "lock_inv l = (lk_owner l \<le> lk_next l \<and> lk_outstanding l = {lk_owner l..<lk_next l})"

definition lock_evolves :: "TicketLock \<Rightarrow> TicketLock \<Rightarrow> bool" where
  "lock_evolves l l' = (lk_next l \<le> lk_next l' \<and> lk_owner l \<le> lk_owner l')"

text \<open>The words from \<open>a\<close> up to and without \<open>b\<close>, in ascending order.\<close>

definition tickets :: "u64 \<Rightarrow> u64 \<Rightarrow> u64 list" where
  "tickets a b = map of_nat [unat a..<unat b]"

lemma word_interval_extend:
  assumes "checked_add n 1 = Some m" "a \<le> n"
  shows "insert n {a..<n} = {a..<m}"
  using unat_plus_one [OF assms(1)] assms(2)
  by (auto simp: word_less_nat_alt word_le_nat_alt word_unat_eq_iff)

lemma word_interval_shrink:
  assumes "checked_add n 1 = Some m"
  shows "{n..<k} - {n} = {m..<k}"
  using unat_plus_one [OF assms]
  by (auto simp: word_less_nat_alt word_le_nat_alt word_unat_eq_iff)

lemma below_has_successor: "(a::u64) < b \<Longrightarrow> \<exists>c. checked_add a 1 = Some c \<and> c \<le> b"
proof (cases "checked_add a 1")
  case (Some c)
  assume "a < b"
  then show ?thesis using Some unat_plus_one [OF Some] by (simp add: word_less_nat_alt word_le_nat_alt)
next
  case None
  moreover assume "a < b"
  ultimately show ?thesis by (simp add: checked_inc_None_iff)
qed

lemma tickets_Cons:
  assumes "checked_add a 1 = Some c" "c \<le> b"
  shows "tickets a b = a # tickets c b"
  using unat_plus_one [OF assms(1)] assms(2)
  by (simp add: tickets_def word_le_nat_alt upt_conv_Cons)

lemma tickets_same [simp]: "tickets a a = []"
  by (simp add: tickets_def)

lemma tickets_split:
  "a \<le> b \<Longrightarrow> b \<le> c \<Longrightarrow> tickets a c = tickets a b @ tickets b c"
  using upt_add_eq_append [of "unat a" "unat b" "unat c - unat b"]
  by (simp add: tickets_def word_le_nat_alt)

lemma lock_enqueue_cases:
  assumes "lock_inv l"
  obtains (full) "lock_enqueue l = (Err TicketOverflow, l)"
  | (issued) n where "checked_add (lk_next l) 1 = Some n"
      "lock_enqueue l = (Ok (lk_next l), l\<lparr>lk_next := n, lk_outstanding := {lk_owner l..<n}\<rparr>)"
proof (cases "checked_add (lk_next l) 1")
  case None
  then show ?thesis using full by (simp add: lock_enqueue_def Let_def)
next
  case (Some n)
  then show ?thesis
    using issued assms word_interval_extend [OF Some, of "lk_owner l"]
    by (simp add: lock_enqueue_def lock_inv_def Let_def)
qed

lemma lock_release_cases:
  assumes "lock_inv l"
  obtains (refused) "lock_release l g = (Err OutOfOrderRelease, l)"
      "ticket g \<noteq> lk_owner l \<or> lk_owner l = lk_next l"
  | (released) n where "checked_add (lk_owner l) 1 = Some n" "n \<le> lk_next l" "ticket g = lk_owner l"
      "lock_release l g = (Ok (), l\<lparr>lk_owner := n, lk_outstanding := {n..<lk_next l}\<rparr>)"
proof (cases "ticket g = lk_owner l \<and> lk_owner l < lk_next l")
  case True
  then obtain n where n: "checked_add (lk_owner l) 1 = Some n" "n \<le> lk_next l"
    using below_has_successor by blast
  then show ?thesis
    using released assms True word_interval_shrink [OF n(1), of "lk_next l"]
    by (simp add: lock_release_def lock_inv_def Let_def)
next
  case False
  then show ?thesis using refused assms by (auto simp: lock_release_def lock_inv_def)
qed

lemma lock_step_ok:
  assumes "lock_inv l"
  shows "lock_inv (lock_step l a) \<and> lock_evolves l (lock_step l a)"
proof (cases a)
  case LEnqueue
  from assms show ?thesis
    by (cases rule: lock_enqueue_cases)
       (use assms LEnqueue checked_inc_greater in
         \<open>fastforce simp: lock_inv_def lock_evolves_def\<close>)+
next
  case (LRelease g)
  from assms show ?thesis
    by (cases rule: lock_release_cases [of l g])
       (use assms LRelease checked_inc_greater in
         \<open>fastforce simp: lock_inv_def lock_evolves_def\<close>)+
qed

interpretation lock: op_machine lock_step lock_inv lock_evolves
  by unfold_locales (auto simp: lock_step_ok, auto simp: lock_evolves_def)

lemma lock_issued_tickets:
  "lock_inv l \<Longrightarrow> lock_issued l ops = tickets (lk_next l) (lk_next (replay lock_step l ops))"
proof (induction ops arbitrary: l)
  case (Cons a ops)
  let ?l = "replay lock_step (lock_step l a) ops"
  have inv: "lock_inv (lock_step l a)" and up: "lk_next (lock_step l a) \<le> lk_next ?l"
    using lock_step_ok [OF Cons.prems] lock.evolves_replay [of "lock_step l a" ops]
    by (auto simp: lock_evolves_def)
  note IH = Cons.IH [OF inv]
  show ?case
  proof (cases a)
    case LEnqueue
    from Cons.prems show ?thesis
      by (cases rule: lock_enqueue_cases) (use IH up LEnqueue in \<open>simp_all add: tickets_Cons\<close>)
  next
    case (LRelease g)
    from Cons.prems show ?thesis
      by (cases rule: lock_release_cases [of l g]) (use IH LRelease in simp_all)
  qed
qed simp

lemma lock_served_tickets:
  "lock_inv l \<Longrightarrow> lock_served l ops = tickets (lk_owner l) (lk_owner (replay lock_step l ops))"
proof (induction ops arbitrary: l)
  case (Cons a ops)
  let ?l = "replay lock_step (lock_step l a) ops"
  have inv: "lock_inv (lock_step l a)" and up: "lk_owner (lock_step l a) \<le> lk_owner ?l"
    using lock_step_ok [OF Cons.prems] lock.evolves_replay [of "lock_step l a" ops]
    by (auto simp: lock_evolves_def)
  note IH = Cons.IH [OF inv]
  show ?case
  proof (cases a)
    case LEnqueue
    from Cons.prems show ?thesis
      by (cases rule: lock_enqueue_cases) (use IH LEnqueue in simp_all)
  next
    case (LRelease g)
    from Cons.prems show ?thesis
      by (cases rule: lock_release_cases [of l g]) (use IH up LRelease in \<open>simp_all add: tickets_Cons\<close>)
  qed
qed simp

lemma lock_inv_new: "lock_inv TicketLock_new"
  by (simp add: lock_inv_def TicketLock_new_def)

lemma lock_acquire_iff:
  "lock_inv l \<Longrightarrow> is_Ok (lock_acquire l t) \<longleftrightarrow> t = lk_owner l \<and> lk_owner l \<noteq> lk_next l"
  by (auto simp: lock_acquire_def lock_inv_def)

text \<open>
  C7: the ticket lock serves its tickets strictly in the order in which it issued them. After any
  sequence of calls on a new lock, the tickets released are the first ones issued, in the same
  order, all issued tickets are distinct, and \<open>acquire\<close> admits exactly one ticket: the oldest one
  issued and not yet released (none, when all of them are).
\<close>

theorem ticket_lock_serves_in_order:
  "\<exists>waiting. lock_issued TicketLock_new ops = lock_served TicketLock_new ops @ waiting
     \<and> distinct (lock_issued TicketLock_new ops)
     \<and> {t. is_Ok (lock_acquire (replay lock_step TicketLock_new ops) t)} = set (take 1 waiting)"
proof -
  let ?l = "replay lock_step TicketLock_new ops"
  have inv: "lock_inv ?l" by (rule lock.inv_replay [OF lock_inv_new])
  have all: "lock_issued TicketLock_new ops = tickets 0 (lk_next ?l)"
    and served: "lock_served TicketLock_new ops = tickets 0 (lk_owner ?l)"
    using lock_issued_tickets [OF lock_inv_new] lock_served_tickets [OF lock_inv_new]
    by (simp_all add: TicketLock_new_def)
  have le: "lk_owner ?l \<le> lk_next ?l" using inv by (simp add: lock_inv_def)
  have "distinct (tickets 0 (lk_next ?l))"
    by (auto simp: tickets_def distinct_map inj_on_def word_unat_eq_iff unat_of_nat
        dest!: less_trans [OF _ unat_lt_exp [of "lk_next ?l"]])
  moreover have "set (take 1 (tickets (lk_owner ?l) (lk_next ?l)))
      = (if lk_owner ?l = lk_next ?l then {} else {lk_owner ?l})"
    using le below_has_successor [of "lk_owner ?l" "lk_next ?l"]
    by (auto simp: tickets_Cons order_less_le)
  moreover have "{t. is_Ok (lock_acquire ?l t)}
      = (if lk_owner ?l = lk_next ?l then {} else {lk_owner ?l})"
    by (auto simp: lock_acquire_iff [OF inv])
  ultimately show ?thesis
    using tickets_split [of 0 "lk_owner ?l" "lk_next ?l"] le all served by auto
qed


section \<open>The queue\<close>

text \<open>The bounded queue meets the queue contract, each element carrying its producer.\<close>

definition mpsc_push_pair ::
  "'a BoundedMpsc \<Rightarrow> CpuId \<times> 'a \<Rightarrow> (unit, SyncError) result \<times> 'a BoundedMpsc" where
  "mpsc_push_pair q e = mpsc_push q (fst e) (snd e)"

interpretation mpsc: bounded_fifo mpsc_push_pair mpsc_pop mq_queue mq_capacity
  "\<lambda>q. length (mq_queue q) \<le> mq_capacity q"
  by unfold_locales (auto simp: mpsc_push_pair_def mpsc_push_def mpsc_pop_def Let_def)

datatype 'a mpsc_op = QPush CpuId 'a | QPop

fun mpsc_step :: "'a BoundedMpsc \<Rightarrow> 'a mpsc_op \<Rightarrow> 'a BoundedMpsc" where
  "mpsc_step q (QPush c v) = snd (mpsc_push q c v)"
| "mpsc_step q QPop = snd (mpsc_pop q)"

lemma sum_list_bt_insert:
  "sum_list (map snd (bt_insert k v m)) =
   sum_list (map snd m) - (case bt_get m k of None \<Rightarrow> 0 | Some x \<Rightarrow> x) + v"
  if "bt_wf m" for v :: "'a::len word"
  using that
  by (induction m) (auto simp: bt_wf_Cons split: option.splits dest!: bt_get_in_set)

text \<open>
  The counters against the history: with \<open>n\<close> successful pushes and \<open>k\<close> successful pops, the push
  counters sum up to \<open>n\<close> modulo \<open>2\<^sup>6\<^sup>4\<close> and the pop counter is \<open>k\<close>, as long as fewer than
  \<open>2\<^sup>6\<^sup>4\<close> calls were made.
\<close>

definition mpsc_counts :: "'a BoundedMpsc \<Rightarrow> nat \<Rightarrow> bool" where
  "mpsc_counts q calls =
     (bt_wf (mq_pushes q) \<and> unat (mq_pops q) + length (mq_queue q) \<le> calls \<and>
      sum_list (map snd (mq_pushes q)) = mq_pops q + of_nat (length (mq_queue q)))"

lemma mpsc_counts_push:
  assumes "mpsc_counts q n"
  shows "mpsc_counts (snd (mpsc_push q c v)) (Suc n)"
  using assms
  by (auto simp: mpsc_counts_def mpsc_push_def Let_def sum_list_bt_insert split: option.splits)

lemma mpsc_counts_pop:
  assumes "mpsc_counts q n" "n < 2 ^ 64"
  shows "mpsc_counts (snd (mpsc_pop q)) (Suc n)"
proof (cases "mq_queue q")
  case (Cons e rest)
  then have "checked_add (mq_pops q) 1 = Some (mq_pops q + 1)"
    using assms by (simp add: mpsc_counts_def checked_simps)
  with assms Cons unat_plus_one [OF this] show ?thesis
    by (auto simp: mpsc_counts_def mpsc_pop_def saturating_add_def)
qed (use assms in \<open>simp add: mpsc_counts_def mpsc_pop_def\<close>)

lemma mpsc_counts_replay:
  "mpsc_counts q n \<Longrightarrow> n + length ops < 2 ^ 64 \<Longrightarrow> mpsc_counts (replay mpsc_step q ops) (n + length ops)"
proof (induction ops arbitrary: q n)
  case (Cons a ops)
  then have "mpsc_counts (mpsc_step q a) (Suc n)"
    by (cases a) (auto intro: mpsc_counts_push mpsc_counts_pop)
  then show ?case using Cons.IH [of "mpsc_step q a" "Suc n"] Cons.prems by simp
qed simp

lemma accounting_of_counts: "mpsc_counts q n \<Longrightarrow> n < 2 ^ 64 \<Longrightarrow> accounting_holds q"
  by (auto simp: mpsc_counts_def accounting_holds_def saturating_add_def checked_add_def
      unat_of_nat split: option.splits if_splits)

text \<open>
  C8: the multi-producer queue is a bounded first-in first-out queue with balanced books. Within
  the capacity, the elements pushed come out in the order of the pushes, each with its producer;
  and after fewer than \<open>2\<^sup>6\<^sup>4\<close> calls on a new queue the code's own \<open>accounting_holds\<close> is true.
\<close>

theorem mpsc_fifo_and_accounting:
  "(length xs \<le> cap \<longrightarrow>
      fst (pop_many mpsc_pop (length xs) (push_all mpsc_push_pair (BoundedMpsc_new cap) xs)) = map Ok xs)
   \<and> (length ops < 2 ^ 64 \<longrightarrow> accounting_holds (replay mpsc_step (BoundedMpsc_new cap) ops))"
proof (intro conjI impI)
  assume "length xs \<le> cap"
  then show "fst (pop_many mpsc_pop (length xs) (push_all mpsc_push_pair (BoundedMpsc_new cap) xs))
      = map Ok xs"
    using mpsc.fifo_order [of "BoundedMpsc_new cap" xs] by (simp add: BoundedMpsc_new_def)
next
  assume "length ops < 2 ^ 64"
  moreover have "mpsc_counts (BoundedMpsc_new cap) 0"
    by (simp add: mpsc_counts_def BoundedMpsc_new_def)
  ultimately show "accounting_holds (replay mpsc_step (BoundedMpsc_new cap) ops)"
    using mpsc_counts_replay [of "BoundedMpsc_new cap" 0 ops] accounting_of_counts by fastforce
qed

theorem mpsc_fifo_and_accounting_witness:
  "fst (pop_many mpsc_pop (Suc (Suc 0)) (push_all mpsc_push_pair (BoundedMpsc_new 2) [(1, ''a''), (0, ''b'')]))
     = [Ok (1, ''a''), Ok (0, ''b'')]
   \<and> accounting_holds (replay mpsc_step (BoundedMpsc_new 1) [QPush 0 ''a'', QPush 1 ''b'', QPop])"
proof
  show "fst (pop_many mpsc_pop (Suc (Suc 0))
      (push_all mpsc_push_pair (BoundedMpsc_new 2) [(1, ''a''), (0, ''b'')])) = [Ok (1, ''a''), Ok (0, ''b'')]"
    using conjunct1 [OF mpsc_fifo_and_accounting [of "[(1, ''a''), (0, ''b'')]" 2]]
    by (simp del: push_all.simps pop_many.simps)
  show "accounting_holds (replay mpsc_step (BoundedMpsc_new 1) [QPush 0 ''a'', QPush 1 ''b'', QPop])"
    using mpsc_fifo_and_accounting [of "[]" 1 "[QPush 0 ''a'', QPush 1 ''b'', QPop]"] by simp
qed


section \<open>The once cell\<close>

lemma once_cell_keeps_first:
  assumes "once_initialize c v = (Ok w, c')"
  shows "w = v" "once_get c' = Ok v" "once_initialize c' u = (Err AlreadyInitialized, c')"
  using assms by (auto simp: once_initialize_def once_get_def Let_def split: if_splits)


section \<open>The barrier\<close>

datatype barrier_op = BArrive CpuId u64 | BAdvance

fun barrier_step :: "Barrier \<Rightarrow> barrier_op \<Rightarrow> Barrier" where
  "barrier_step b (BArrive c g) = snd (barrier_arrive b c g)"
| "barrier_step b BAdvance = snd (barrier_advance b)"

text \<open>Only participants arrive, and whoever has arrived did so by a call for this generation.\<close>

definition barrier_track :: "CpuSet \<Rightarrow> barrier_op list \<Rightarrow> Barrier \<Rightarrow> bool" where
  "barrier_track ps ops b =
     (br_participants b = ps \<and> br_arrived b \<subseteq> members ps \<and>
      (\<forall>c\<in>br_arrived b. BArrive c (br_generation b) \<in> set ops))"

lemma barrier_track_step:
  "barrier_track ps ops b \<Longrightarrow> barrier_track ps (ops @ [a]) (barrier_step b a)"
  by (cases a)
     (auto simp: barrier_track_def barrier_arrive_def barrier_advance_def Let_def
        CpuSet_contains_def split: option.splits)

lemma barrier_track_replay:
  "barrier_track ps ops (replay barrier_step (Barrier_new ps) ops)"
proof (induction ops rule: rev_induct)
  case (snoc a ops)
  then show ?case using barrier_track_step [OF snoc] by (simp add: replay_append)
qed (simp add: barrier_track_def Barrier_new_def)

text \<open>
  A barrier generation advances only after every participant arrived in it. If, after any
  calls on a new barrier, \<open>advance\<close> succeeds, then each participant has made an \<open>arrive\<close> call for
  the generation that ends, that generation is the one before the returned one, and nobody has
  arrived in the new generation yet.
\<close>

lemma barrier_waits_for_everyone:
  assumes "barrier_advance (replay barrier_step (Barrier_new ps) ops) = (Ok g, b)"
    and "CpuSet_contains ps cpu"
  shows "BArrive cpu (g - 1) \<in> set ops \<and> br_generation b = g \<and> br_arrived b = {}"
proof -
  let ?b = "replay barrier_step (Barrier_new ps) ops"
  have t: "barrier_track ps ops ?b" by (rule barrier_track_replay)
  from assms(1) have eq: "card (br_arrived ?b) = card (members ps)"
    and g: "checked_add (br_generation ?b) 1 = Some g" and b: "br_generation b = g" "br_arrived b = {}"
    using t by (auto simp: barrier_advance_def barrier_track_def CpuSet_len_def
        split: if_splits option.splits)
  have "br_arrived ?b = members ps"
    using t eq card_subset_eq [of "members ps" "br_arrived ?b"] by (simp add: barrier_track_def)
  moreover have "br_generation ?b = g - 1" using g by (auto simp: checked_simps)
  ultimately show ?thesis using t assms(2) b by (auto simp: barrier_track_def CpuSet_contains_def)
qed

lemma barrier_waits_for_everyone_example:
  "fst (barrier_advance (replay barrier_step (Barrier_new \<lparr>members = {0, 1}\<rparr>)
          [BArrive 1 0, BArrive 0 0])) = Ok 1
   \<and> BArrive 0 0 \<in> set [BArrive 1 0, BArrive 0 0]"
proof -
  let ?b = "replay barrier_step (Barrier_new \<lparr>members = {0, 1}\<rparr>) [BArrive 1 0, BArrive 0 0]"
  have "barrier_advance ?b = (Ok 1, snd (barrier_advance ?b))"
    by (simp add: Barrier_new_def barrier_arrive_def barrier_advance_def CpuSet_contains_def
        CpuSet_len_def Let_def checked_add_def)
  from barrier_waits_for_everyone [OF this, of 0] this show ?thesis
    by (metis CpuSet.select_convs(1) CpuSet_contains_def diff_self fst_conv insertI1)
qed

end
