(* ===== verification/Kernel_Scheduler.thy ===== *)
theory Kernel_Scheduler
  imports Kernel_Smp
begin

text \<open>
  The work-stealing scheduler of \<open>thermite-kernel/src/scheduler.rs\<close>: run queues and the current
  task per processor, the task table, dispatch with stealing, yield, block, wake and exit. The
  lemmas tie the code's own check \<open>invariant_holds\<close> to a readable invariant, show that every
  operation keeps it as long as no generation counter overflows, and that dispatch is work
  conserving.
\<close>

type_synonym TaskId = u32

datatype TaskState = Runnable | Running CpuId | Blocked | Exited "32 word"

record Task =
  tk_state :: TaskState
  tk_generation :: u64

datatype SchedulerError =
    UnknownCpu | DuplicateTask | UnknownTask | WrongState | ForeignCpu | DuplicateQueueEntry
  | GenerationOverflow

record Scheduler =
  sc_queues :: "(CpuId, TaskId list) btmap"
  sc_tasks :: "(TaskId, Task) btmap"
  sc_current :: "(CpuId, TaskId option) btmap"
  sc_dispatches :: u64
  sc_steals :: u64

definition with_online_cpus :: "CpuSet \<Rightarrow> Scheduler" where
  "with_online_cpus cs =
     \<lparr>sc_queues = map (\<lambda>cpu. (cpu, [])) (CpuSet_iter cs), sc_tasks = [],
      sc_current = map (\<lambda>cpu. (cpu, None)) (CpuSet_iter cs), sc_dispatches = 0, sc_steals = 0\<rparr>"


section \<open>Operations\<close>

definition create_task :: "Scheduler \<Rightarrow> TaskId \<Rightarrow> CpuId \<Rightarrow> (unit, SchedulerError) result \<times> Scheduler" where
  "create_task s task cpu =
     (case bt_get (sc_queues s) cpu of
        None \<Rightarrow> (Err SchedulerError.UnknownCpu, s)
      | Some queue \<Rightarrow>
          if bt_contains (sc_tasks s) task then (Err DuplicateTask, s)
          else (Ok (), s\<lparr>sc_tasks := bt_insert task \<lparr>tk_state = Runnable, tk_generation = 0\<rparr> (sc_tasks s),
                         sc_queues := bt_insert cpu (queue @ [task]) (sc_queues s)\<rparr>))"

text \<open>
  \<open>max_by_key\<close> with the key \<open>(queue.len(), Reverse(cpu))\<close>: the longest queue, and among the
  longest the lowest processor. The keys of a map differ, so the key has no ties.
\<close>

definition steal_better :: "CpuId \<times> TaskId list \<Rightarrow> CpuId \<times> TaskId list \<Rightarrow> bool" where
  "steal_better a b \<longleftrightarrow>
     length (snd b) < length (snd a) \<or> length (snd b) = length (snd a) \<and> fst a < fst b"

fun max_by_key :: "(CpuId \<times> TaskId list) list \<Rightarrow> (CpuId \<times> TaskId list) option" where
  "max_by_key [] = None"
| "max_by_key (e # es) =
     (case max_by_key es of
        None \<Rightarrow> Some e
      | Some m \<Rightarrow> if steal_better e m then Some e else Some m)"

definition steal_victim :: "Scheduler \<Rightarrow> CpuId \<Rightarrow> CpuId option" where
  "steal_victim s requester =
     (case max_by_key (filter (\<lambda>e. fst e \<noteq> requester) (sc_queues s)) of
        None \<Rightarrow> None
      | Some (cpu, queue) \<Rightarrow> if queue \<noteq> [] then Some cpu else None)"

definition steal :: "Scheduler \<Rightarrow> CpuId \<Rightarrow> (TaskId option, SchedulerError) result \<times> Scheduler" where
  "steal s requester =
     (case steal_victim s requester of
        None \<Rightarrow> (Ok None, s)
      | Some victim \<Rightarrow>
          (case bt_get (sc_queues s) victim of
             None \<Rightarrow> (Err SchedulerError.UnknownCpu, s)
           | Some queue \<Rightarrow>
               if queue = [] then (Ok None, s)
               else (Ok (Some (last queue)),
                     s\<lparr>sc_queues := bt_insert victim (butlast queue) (sc_queues s),
                       sc_steals := saturating_add (sc_steals s) 1\<rparr>)))"

text \<open>What \<open>dispatch\<close> takes: the front of the local queue, or else a stolen task.\<close>

definition pick_task :: "Scheduler \<Rightarrow> CpuId \<Rightarrow> (TaskId option, SchedulerError) result \<times> Scheduler" where
  "pick_task s cpu =
     (case bt_get (sc_queues s) cpu of
        None \<Rightarrow> (Err SchedulerError.UnknownCpu, s)
      | Some (task # rest) \<Rightarrow> (Ok (Some task), s\<lparr>sc_queues := bt_insert cpu rest (sc_queues s)\<rparr>)
      | Some [] \<Rightarrow> steal s cpu)"

definition dispatch :: "Scheduler \<Rightarrow> CpuId \<Rightarrow> (TaskId option, SchedulerError) result \<times> Scheduler" where
  "dispatch s cpu =
     (case bt_get (sc_current s) cpu of
        None \<Rightarrow> (Err SchedulerError.UnknownCpu, s)
      | Some (Some _) \<Rightarrow> (Err WrongState, s)
      | Some None \<Rightarrow>
          (case pick_task s cpu of
             (Err e, s1) \<Rightarrow> (Err e, s1)
           | (Ok None, s1) \<Rightarrow> (Ok None, s1)
           | (Ok (Some task), s1) \<Rightarrow>
               (case bt_get (sc_tasks s1) task of
                  None \<Rightarrow> (Err UnknownTask, s1)
                | Some record \<Rightarrow>
                    if tk_state record \<noteq> Runnable then (Err WrongState, s1)
                    else
                      let s2 = s1\<lparr>sc_tasks := bt_insert task (record\<lparr>tk_state := Running cpu\<rparr>) (sc_tasks s1)\<rparr>
                      in (Ok (Some task),
                          s2\<lparr>sc_current := bt_insert cpu (Some task) (sc_current s2),
                             sc_dispatches := saturating_add (sc_dispatches s2) 1\<rparr>))))"

text \<open>
  \<open>yield_current\<close>, \<open>block_current\<close> and \<open>exit_current\<close> all begin by taking the current task; what
  follows the state test differs. The current slot is already empty when a later step fails.
\<close>

definition take_current ::
  "Scheduler \<Rightarrow> CpuId \<Rightarrow> (Scheduler \<Rightarrow> TaskId \<Rightarrow> Task \<Rightarrow> (TaskId, SchedulerError) result \<times> Scheduler) \<Rightarrow>
   (TaskId, SchedulerError) result \<times> Scheduler" where
  "take_current s cpu k =
     (case bt_get (sc_current s) cpu of
        None \<Rightarrow> (Err SchedulerError.UnknownCpu, s)
      | Some None \<Rightarrow> (Err WrongState, s)
      | Some (Some task) \<Rightarrow>
          let s1 = s\<lparr>sc_current := bt_insert cpu None (sc_current s)\<rparr> in
          (case bt_get (sc_tasks s1) task of
             None \<Rightarrow> (Err UnknownTask, s1)
           | Some record \<Rightarrow>
               if tk_state record \<noteq> Running cpu then (Err SchedulerError.ForeignCpu, s1)
               else k s1 task record))"

definition yield_current :: "Scheduler \<Rightarrow> CpuId \<Rightarrow> (TaskId, SchedulerError) result \<times> Scheduler" where
  "yield_current s cpu = take_current s cpu (\<lambda>s1 task record.
     (case checked_add (tk_generation record) 1 of
        None \<Rightarrow> (Err SchedulerError.GenerationOverflow, s1)
      | Some g \<Rightarrow>
          let s2 = s1\<lparr>sc_tasks := bt_insert task \<lparr>tk_state = Runnable, tk_generation = g\<rparr> (sc_tasks s1)\<rparr> in
          (case bt_get (sc_queues s2) cpu of
             None \<Rightarrow> (Err SchedulerError.UnknownCpu, s2)
           | Some queue \<Rightarrow>
               (Ok task, s2\<lparr>sc_queues := bt_insert cpu (queue @ [task]) (sc_queues s2)\<rparr>))))"

definition block_current :: "Scheduler \<Rightarrow> CpuId \<Rightarrow> (TaskId, SchedulerError) result \<times> Scheduler" where
  "block_current s cpu = take_current s cpu (\<lambda>s1 task record.
     (Ok task, s1\<lparr>sc_tasks := bt_insert task (record\<lparr>tk_state := Blocked\<rparr>) (sc_tasks s1)\<rparr>))"

definition exit_current ::
  "Scheduler \<Rightarrow> CpuId \<Rightarrow> 32 word \<Rightarrow> (TaskId, SchedulerError) result \<times> Scheduler" where
  "exit_current s cpu exit_code = take_current s cpu (\<lambda>s1 task record.
     (Ok task, s1\<lparr>sc_tasks := bt_insert task (record\<lparr>tk_state := Exited exit_code\<rparr>) (sc_tasks s1)\<rparr>))"

definition wake :: "Scheduler \<Rightarrow> TaskId \<Rightarrow> CpuId \<Rightarrow> (unit, SchedulerError) result \<times> Scheduler" where
  "wake s task cpu =
     (case bt_get (sc_queues s) cpu of
        None \<Rightarrow> (Err SchedulerError.UnknownCpu, s)
      | Some queue \<Rightarrow>
          (case bt_get (sc_tasks s) task of
             None \<Rightarrow> (Err UnknownTask, s)
           | Some record \<Rightarrow>
               if tk_state record \<noteq> Blocked then (Err WrongState, s)
               else if task \<in> set queue then (Err DuplicateQueueEntry, s)
               else (Ok (), s\<lparr>sc_tasks := bt_insert task (record\<lparr>tk_state := Runnable\<rparr>) (sc_tasks s),
                              sc_queues := bt_insert cpu (queue @ [task]) (sc_queues s)\<rparr>)))"

definition task_state :: "Scheduler \<Rightarrow> TaskId \<Rightarrow> TaskState option" where
  "task_state s task = map_option tk_state (bt_get (sc_tasks s) task)"


section \<open>The code's own invariant check\<close>

text \<open>
  \<open>invariant_holds\<close> walks over the queues with the set \<open>seen\<close> of the tasks met so far; \<open>None\<close>
  below stands for \<open>return false\<close>.
\<close>

fun check_queue :: "Scheduler \<Rightarrow> TaskId list \<Rightarrow> TaskId set \<Rightarrow> TaskId set option" where
  "check_queue s [] seen = Some seen"
| "check_queue s (task # queue) seen =
     (if task \<in> seen \<or> task_state s task \<noteq> Some Runnable then None
      else check_queue s queue (insert task seen))"

definition check_current :: "Scheduler \<Rightarrow> CpuId \<Rightarrow> TaskId set \<Rightarrow> TaskId set option" where
  "check_current s cpu seen =
     (case bt_get (sc_current s) cpu of
        Some (Some task) \<Rightarrow>
          if task \<in> seen \<or> task_state s task \<noteq> Some (Running cpu) then None
          else Some (insert task seen)
      | _ \<Rightarrow> Some seen)"

fun check_queues :: "Scheduler \<Rightarrow> (CpuId, TaskId list) btmap \<Rightarrow> TaskId set \<Rightarrow> TaskId set option" where
  "check_queues s [] seen = Some seen"
| "check_queues s (e # es) seen =
     (case check_queue s (snd e) seen of
        None \<Rightarrow> None
      | Some seen1 \<Rightarrow>
          (case check_current s (fst e) seen1 of
             None \<Rightarrow> None
           | Some seen2 \<Rightarrow> check_queues s es seen2))"

fun is_parked :: "TaskState \<Rightarrow> bool" where
  "is_parked Blocked = True"
| "is_parked (Exited _) = True"
| "is_parked _ = False"

definition invariant_holds :: "Scheduler \<Rightarrow> bool" where
  "invariant_holds s =
     (case check_queues s (sc_queues s) {} of
        None \<Rightarrow> False
      | Some seen \<Rightarrow> list_all (\<lambda>e. is_parked (tk_state (snd e)) \<or> fst e \<in> seen) (sc_tasks s))"

datatype sched_op =
    TCreate TaskId CpuId
  | TDispatch CpuId
  | TYield CpuId
  | TBlock CpuId
  | TWake TaskId CpuId
  | TExit CpuId "32 word"

fun sched_step :: "Scheduler \<Rightarrow> sched_op \<Rightarrow> Scheduler" where
  "sched_step s (TCreate task cpu) = snd (create_task s task cpu)"
| "sched_step s (TDispatch cpu) = snd (dispatch s cpu)"
| "sched_step s (TYield cpu) = snd (yield_current s cpu)"
| "sched_step s (TBlock cpu) = snd (block_current s cpu)"
| "sched_step s (TWake task cpu) = snd (wake s task cpu)"
| "sched_step s (TExit cpu exit_code) = snd (exit_current s cpu exit_code)"

section \<open>The invariant in terms of the three maps\<close>

text \<open>
  Tasks in a queue are runnable, in one place of one queue, and every runnable task is in a
  queue; a task is the current one of a processor exactly when its state says so; the queues and
  the current slots belong to the same processors.
\<close>

definition placement ::
  "(CpuId \<Rightarrow> TaskId list option) \<Rightarrow> (TaskId \<Rightarrow> TaskState option) \<Rightarrow> (CpuId \<Rightarrow> TaskId option option) \<Rightarrow> bool" where
  "placement q st cur \<longleftrightarrow>
     (\<forall>c. q c = None \<longleftrightarrow> cur c = None) \<and>
     (\<forall>c xs. q c = Some xs \<longrightarrow> distinct xs) \<and>
     (\<forall>c xs t. q c = Some xs \<and> t \<in> set xs \<longrightarrow> st t = Some Runnable) \<and>
     (\<forall>c d xs ys t. q c = Some xs \<and> q d = Some ys \<and> t \<in> set xs \<and> t \<in> set ys \<longrightarrow> c = d) \<and>
     (\<forall>t. st t = Some Runnable \<longrightarrow> (\<exists>c xs. q c = Some xs \<and> t \<in> set xs)) \<and>
     (\<forall>c t. cur c = Some (Some t) \<longleftrightarrow> st t = Some (Running c))"

lemma placementD:
  assumes "placement q st cur"
  shows "q c = None \<longleftrightarrow> cur c = None"
    and "q c = Some xs \<Longrightarrow> distinct xs"
    and "q c = Some xs \<Longrightarrow> t \<in> set xs \<Longrightarrow> st t = Some Runnable"
    and "q c = Some xs \<Longrightarrow> q d = Some ys \<Longrightarrow> t \<in> set xs \<Longrightarrow> t \<in> set ys \<Longrightarrow> c = d"
    and "st t = Some Runnable \<Longrightarrow> \<exists>c xs. q c = Some xs \<and> t \<in> set xs"
    and "cur c = Some (Some t) \<longleftrightarrow> st t = Some (Running c)"
  using assms unfolding placement_def by blast+

text \<open>Three moves cover all operations: into a queue, from a queue to a processor, off a processor.\<close>

lemma placement_enqueue:
  assumes p: "placement q st cur" and "q c = Some xs"
    and "st t \<noteq> Some Runnable" "\<And>d. st t \<noteq> Some (Running d)"
  shows "placement (q(c \<mapsto> xs @ [t])) (st(t \<mapsto> Runnable)) cur"
proof -
  have fresh: "t \<notin> set ys" if "q d = Some ys" for d ys
    using placementD(3) [OF p that] assms(3) by auto
  have idle: "cur d \<noteq> Some (Some t)" for d using placementD(6) [OF p] assms(4) by simp
  have runnable: "\<exists>d ys. (q(c \<mapsto> xs @ [t])) d = Some ys \<and> u \<in> set ys" if "u \<noteq> t" "st u = Some Runnable" for u
  proof -
    from placementD(5) [OF p that(2)] obtain d ys where "q d = Some ys" "u \<in> set ys" by blast
    then show ?thesis using assms(2) by (cases "d = c") auto
  qed
  show ?thesis unfolding placement_def
  proof (intro conjI allI impI)
    show "\<exists>d ys. (q(c \<mapsto> xs @ [t])) d = Some ys \<and> u \<in> set ys"
      if "(st(t \<mapsto> Runnable)) u = Some Runnable" for u
      using that runnable [of u] by (cases "u = t") auto
    show "(q(c \<mapsto> xs @ [t])) d = None \<longleftrightarrow> cur d = None" for d
      using placementD(1) [OF p, of d] assms(2) by (cases "d = c") simp_all
  qed (use placementD(2-4,6) [OF p] fresh idle assms(2) in \<open>auto split: if_splits\<close>)
qed

lemma placement_start:
  assumes p: "placement q st cur" and "q c = Some xs" "t \<in> set xs" "cur d = Some None"
    and ys: "distinct ys" "set ys = set xs - {t}"
  shows "placement (q(c \<mapsto> ys)) (st(t \<mapsto> Running d)) (cur(d \<mapsto> Some t))"
proof -
  have st: "st t = Some Runnable" using placementD(3) [OF p assms(2,3)] .
  have elsewhere: "t \<notin> set zs" if "q e = Some zs" "e \<noteq> c" for e zs
    using placementD(4) [OF p that(1) assms(2)] assms(3) that(2) by auto
  have runnable: "\<exists>e zs. (q(c \<mapsto> ys)) e = Some zs \<and> u \<in> set zs" if "u \<noteq> t" "st u = Some Runnable" for u
  proof -
    from placementD(5) [OF p that(2)] obtain e zs where "q e = Some zs" "u \<in> set zs" by blast
    then show ?thesis using assms(2) ys that(1) by (cases "e = c") auto
  qed
  have idle: "cur e \<noteq> Some (Some t)" for e using placementD(6) [OF p] st by simp
  have free: "st u \<noteq> Some (Running d)" for u using placementD(6) [OF p, of d u] assms(4) by simp
  show ?thesis unfolding placement_def
  proof (intro conjI allI impI)
    show "\<exists>e zs. (q(c \<mapsto> ys)) e = Some zs \<and> u \<in> set zs"
      if "(st(t \<mapsto> Running d)) u = Some Runnable" for u
      using that runnable [of u] by (cases "u = t") auto
    show "(q(c \<mapsto> ys)) e = None \<longleftrightarrow> (cur(d \<mapsto> Some t)) e = None" for e
      using placementD(1) [OF p, of e] placementD(1) [OF p, of c] placementD(1) [OF p, of d] assms(2,4)
      by (cases "e = c"; cases "e = d") simp_all
    show "(cur(d \<mapsto> Some t)) e = Some (Some u) \<longleftrightarrow> (st(t \<mapsto> Running d)) u = Some (Running e)" for e u
      using placementD(6) [OF p, of e u] idle [of e] free [of u] by auto
    show "e = f" if "(q(c \<mapsto> ys)) e = Some us \<and> (q(c \<mapsto> ys)) f = Some vs \<and> u \<in> set us \<and> u \<in> set vs"
      for e f us vs u
      using that placementD(4) [OF p, of e _ f] assms(2) ys by (auto split: if_splits)
    show "(st(t \<mapsto> Running d)) u = Some Runnable" if "(q(c \<mapsto> ys)) e = Some zs \<and> u \<in> set zs" for e zs u
      using that placementD(3) [OF p, of e _ u] elsewhere [of e] assms(2) ys by (auto split: if_splits)
  qed (use placementD(2) [OF p] ys(1) in \<open>auto split: if_splits\<close>)
qed

lemma placement_park:
  assumes p: "placement q st cur" and "cur c = Some (Some t)" and "is_parked X"
  shows "placement q (st(t \<mapsto> X)) (cur(c \<mapsto> None))"
proof -
  have st: "st t = Some (Running c)" using placementD(6) [OF p] assms(2) by simp
  have X: "X \<noteq> Runnable" "X \<noteq> Running d" for d using assms(3) by auto
  have unqueued: "t \<notin> set xs" if "q d = Some xs" for d xs using placementD(3) [OF p that] st by auto
  show ?thesis unfolding placement_def
  proof (intro conjI allI impI)
    show "(cur(c \<mapsto> None)) d = Some (Some u) \<longleftrightarrow> (st(t \<mapsto> X)) u = Some (Running d)" for d u
      using placementD(6) [OF p, of d u] placementD(6) [OF p, of c u] assms(2) st X by auto
    show "\<exists>d xs. q d = Some xs \<and> u \<in> set xs" if "(st(t \<mapsto> X)) u = Some Runnable" for u
      using that X placementD(5) [OF p, of u] by (auto split: if_splits)
    show "(st(t \<mapsto> X)) u = Some Runnable" if "q d = Some xs \<and> u \<in> set xs" for d xs u
      using that placementD(3) [OF p, of d xs u] unqueued [of d xs] by auto
  qed (use placementD(1,2,4) [OF p] assms(2) in \<open>auto split: if_splits\<close>)
qed

section \<open>The code's check decides the invariant\<close>

definition sched_wf :: "Scheduler \<Rightarrow> bool" where
  "sched_wf s = (bt_wf (sc_queues s) \<and> bt_wf (sc_tasks s) \<and>
     (\<forall>c. bt_get (sc_queues s) c = None \<longleftrightarrow> bt_get (sc_current s) c = None))"

definition placed :: "Scheduler \<Rightarrow> bool" where
  "placed s = placement (bt_get (sc_queues s)) (task_state s) (bt_get (sc_current s))"

definition running_on :: "Scheduler \<Rightarrow> CpuId \<Rightarrow> TaskId list" where
  "running_on s cpu = (case bt_get (sc_current s) cpu of Some (Some task) \<Rightarrow> [task] | _ \<Rightarrow> [])"

definition slots :: "Scheduler \<Rightarrow> CpuId \<times> TaskId list \<Rightarrow> TaskId list" where
  "slots s e = snd e @ running_on s (fst e)"

definition slots_ok :: "Scheduler \<Rightarrow> CpuId \<times> TaskId list \<Rightarrow> bool" where
  "slots_ok s e =
     ((\<forall>t\<in>set (snd e). task_state s t = Some Runnable) \<and>
      (\<forall>t\<in>set (running_on s (fst e)). task_state s t = Some (Running (fst e))))"

lemma check_queue_eq:
  "check_queue s queue seen =
     (if distinct queue \<and> set queue \<inter> seen = {} \<and> (\<forall>t\<in>set queue. task_state s t = Some Runnable)
      then Some (set queue \<union> seen) else None)"
  by (induction queue arbitrary: seen) auto

lemma check_current_eq:
  "check_current s cpu seen =
     (if set (running_on s cpu) \<inter> seen = {} \<and>
         (\<forall>t\<in>set (running_on s cpu). task_state s t = Some (Running cpu))
      then Some (set (running_on s cpu) \<union> seen) else None)"
  by (auto simp: check_current_def running_on_def split: option.splits)

lemma distinct_running_on [simp]: "distinct (running_on s cpu)"
  by (simp add: running_on_def split: option.splits)

lemma check_queues_eq:
  "check_queues s es seen =
     (if distinct (concat (map (slots s) es)) \<and> set (concat (map (slots s) es)) \<inter> seen = {} \<and>
         (\<forall>e\<in>set es. slots_ok s e)
      then Some (set (concat (map (slots s) es)) \<union> seen) else None)"
proof (induction es arbitrary: seen)
  case (Cons e es)
  have "check_queues s (e # es) seen =
      (if distinct (slots s e) \<and> set (slots s e) \<inter> seen = {} \<and> slots_ok s e
       then check_queues s es (set (slots s e) \<union> seen) else None)"
    by (auto simp: check_queue_eq check_current_eq slots_def slots_ok_def Un_ac)
  then show ?case by (simp add: Cons.IH) (auto simp: Un_ac)
qed simp

lemma distinct_concat_keys:
  assumes "bt_wf m"
  shows "distinct (concat (map f m)) \<longleftrightarrow> (\<forall>e\<in>set m. distinct (f e)) \<and>
     (\<forall>e\<in>set m. \<forall>e'\<in>set m. fst e \<noteq> fst e' \<longrightarrow> set (f e) \<inter> set (f e') = {})"
  using assms
proof (induction m)
  case (Cons e m)
  then have "fst e \<noteq> fst x" if "x \<in> set m" for x using that by (auto simp: bt_wf_Cons)
  with Cons show ?case
    by (simp add: bt_wf_Cons) (blast dest: bt_wf_distinct)
qed simp

lemma running_on_iff: "t \<in> set (running_on s cpu) \<longleftrightarrow> bt_get (sc_current s) cpu = Some (Some t)"
  by (auto simp: running_on_def split: option.splits)

lemma invariant_holds_eq:
  "invariant_holds s \<longleftrightarrow> distinct (concat (map (slots s) (sc_queues s))) \<and>
     (\<forall>e\<in>set (sc_queues s). slots_ok s e) \<and>
     (\<forall>e\<in>set (sc_tasks s). is_parked (tk_state (snd e)) \<or>
        (\<exists>q\<in>set (sc_queues s). fst e \<in> set (slots s q)))"
  by (auto simp: invariant_holds_def check_queues_eq list_all_iff)

lemma task_state_mem:
  "sched_wf s \<Longrightarrow> task_state s t = Some x \<longleftrightarrow> (\<exists>r. (t, r) \<in> set (sc_tasks s) \<and> tk_state r = x)"
  by (auto simp: task_state_def sched_wf_def bt_get_Some_iff)

lemma placed_imp_invariant_holds:
  assumes wf: "sched_wf s" and p: "placed s"
  shows "invariant_holds s"
proof -
  note pD = placementD [OF p [unfolded placed_def]]
  have q: "bt_get (sc_queues s) (fst e) = Some (snd e)" if "e \<in> set (sc_queues s)" for e
    using that wf bt_get_of_mem [of "sc_queues s" "fst e" "snd e"] by (simp add: sched_wf_def)
  have st: "task_state s t = Some Runnable \<and> t \<in> set (snd e) \<or> task_state s t = Some (Running (fst e))"
    if "e \<in> set (sc_queues s)" "t \<in> set (slots s e)" for e t
    using that q [OF that(1)] pD(3,6) by (auto simp: slots_def running_on_iff)
  have "distinct (slots s e)" if "e \<in> set (sc_queues s)" for e
    using pD(2,3,6) q [OF that] by (fastforce simp: slots_def running_on_iff)
  moreover have "set (slots s e) \<inter> set (slots s e') = {}"
    if "e \<in> set (sc_queues s)" "e' \<in> set (sc_queues s)" "fst e \<noteq> fst e'" for e e'
    using st [OF that(1)] st [OF that(2)] pD(4) [OF q [OF that(1)] q [OF that(2)]] that(3) by fastforce
  moreover have "slots_ok s e" if "e \<in> set (sc_queues s)" for e
    using q [OF that] pD(3,6) by (auto simp: slots_ok_def running_on_iff)
  moreover have "is_parked (tk_state (snd e)) \<or> (\<exists>q\<in>set (sc_queues s). fst e \<in> set (slots s q))"
    if e: "e \<in> set (sc_tasks s)" for e
  proof (cases "tk_state (snd e)")
    case Runnable
    then have "task_state s (fst e) = Some Runnable" using e task_state_mem [OF wf] by force
    then obtain c xs where "bt_get (sc_queues s) c = Some xs" "fst e \<in> set xs" using pD(5) by blast
    then show ?thesis by (force simp: slots_def dest: bt_get_in_set)
  next
    case (Running c)
    then have "task_state s (fst e) = Some (Running c)" using e task_state_mem [OF wf] by force
    then have cur: "bt_get (sc_current s) c = Some (Some (fst e))" using pD(6) by simp
    then obtain xs where "(c, xs) \<in> set (sc_queues s)"
      using pD(1) [of c] by (cases "bt_get (sc_queues s) c") (auto dest: bt_get_in_set)
    then show ?thesis using cur running_on_iff by (force simp: slots_def)
  qed simp_all
  ultimately show ?thesis
    using wf by (simp add: invariant_holds_eq distinct_concat_keys sched_wf_def)
qed

lemma invariant_holds_imp_placed:
  assumes wf: "sched_wf s" and inv: "invariant_holds s"
  shows "placed s"
proof -
  have bt: "bt_wf (sc_queues s)" using wf by (simp add: sched_wf_def)
  note I = inv [unfolded invariant_holds_eq distinct_concat_keys [OF bt]]
  have q: "(c, xs) \<in> set (sc_queues s)" if "bt_get (sc_queues s) c = Some xs" for c xs
    using that by (rule bt_get_in_set)
  have qd: "\<exists>xs. (c, xs) \<in> set (sc_queues s)" if "bt_get (sc_current s) c = Some v" for c v
    using that wf q [of c] by (cases "bt_get (sc_queues s) c") (auto simp: sched_wf_def)
  have ok: "slots_ok s e" if "e \<in> set (sc_queues s)" for e using I that by blast
  have here: "c = d" if "(c, xs) \<in> set (sc_queues s)" "(d, ys) \<in> set (sc_queues s)"
    "t \<in> set xs" "t \<in> set ys" for c d xs ys t
    using I that by (fastforce simp: slots_def)
  have found: "\<exists>e\<in>set (sc_queues s). t \<in> set (slots s e)"
    if "task_state s t = Some x" "\<not> is_parked x" for t x
    using I that task_state_mem [OF wf] by fastforce
  have run: "bt_get (sc_current s) c = Some (Some t)" if r: "task_state s t = Some (Running c)" for c t
  proof -
    obtain e where e: "e \<in> set (sc_queues s)" "t \<in> set (slots s e)" using found [OF r] by auto
    then show ?thesis using ok [OF e(1)] r
      by (auto simp: slots_def slots_ok_def running_on_iff [symmetric])
  qed
  show ?thesis unfolding placed_def placement_def
  proof (intro conjI allI impI)
    show "\<exists>c xs. bt_get (sc_queues s) c = Some xs \<and> t \<in> set xs" if r: "task_state s t = Some Runnable" for t
    proof -
      obtain e where e: "e \<in> set (sc_queues s)" "t \<in> set (slots s e)" using found [OF r] by auto
      then have "t \<in> set (snd e)" using ok [OF e(1)] r by (auto simp: slots_def slots_ok_def)
      then show ?thesis using e(1) bt by (metis bt_get_of_mem prod.collapse)
    qed
    show "bt_get (sc_current s) c = Some (Some t) \<longleftrightarrow> task_state s t = Some (Running c)" for c t
      using run qd ok by (fastforce simp: slots_ok_def running_on_iff)
    show "distinct xs" if "bt_get (sc_queues s) c = Some xs" for c xs
      using I q [OF that] by (fastforce simp: slots_def)
    show "task_state s t = Some Runnable" if "bt_get (sc_queues s) c = Some xs \<and> t \<in> set xs" for c xs t
      using that ok q by (fastforce simp: slots_ok_def)
    show "c = d" if "bt_get (sc_queues s) c = Some xs \<and> bt_get (sc_queues s) d = Some ys \<and>
        t \<in> set xs \<and> t \<in> set ys" for c d xs ys t
      using that here [of c xs d ys t] q by blast
  qed (use wf in \<open>auto simp: sched_wf_def\<close>)
qed

section \<open>Every operation keeps the invariant\<close>

text \<open>\<open>sched_inv n\<close>: the invariant, with all generation counters at most \<open>n\<close>.\<close>

definition sched_inv :: "nat \<Rightarrow> Scheduler \<Rightarrow> bool" where
  "sched_inv n s = (sched_wf s \<and> placed s \<and> bt_all (\<lambda>_ r. unat (tk_generation r) \<le> n) (sc_tasks s))"

lemma task_state_insert [simp]:
  "task_state (s\<lparr>sc_tasks := bt_insert t r m\<rparr>) = (\<lambda>u. map_option tk_state (bt_get m u))(t \<mapsto> tk_state r)"
  by (rule ext) (simp add: task_state_def)

lemma task_state_fold: "(\<lambda>u. map_option tk_state (bt_get (sc_tasks s) u)) = task_state s"
  by (rule ext) (simp add: task_state_def)

lemma task_state_cong [simp]:
  "task_state (s\<lparr>sc_queues := qs\<rparr>) = task_state s"
  "task_state (s\<lparr>sc_current := cs\<rparr>) = task_state s"
  "task_state (s\<lparr>sc_dispatches := d\<rparr>) = task_state s"
  "task_state (s\<lparr>sc_steals := d\<rparr>) = task_state s"
  by (rule ext, simp add: task_state_def)+

lemmas placed_simps = placed_def bt_get_insert_fun task_state_fold

lemma placed_domains: "placed s \<Longrightarrow> bt_get (sc_queues s) c = None \<longleftrightarrow> bt_get (sc_current s) c = None"
  unfolding placed_def by (rule placementD(1))

lemma sched_invI:
  assumes "placed s" "bt_wf (sc_queues s)" "bt_wf (sc_tasks s)"
    "bt_all (\<lambda>_ r. unat (tk_generation r) \<le> n) (sc_tasks s)"
  shows "sched_inv n s"
  using assms placed_domains [OF assms(1)] by (auto simp: sched_inv_def sched_wf_def)

lemma sched_inv_mono: "sched_inv n s \<Longrightarrow> n \<le> m \<Longrightarrow> sched_inv m s"
  unfolding sched_inv_def by (auto elim!: bt_all_mono)

lemma sched_invD:
  assumes "sched_inv n s"
  shows "placed s" "bt_wf (sc_queues s)" "bt_wf (sc_tasks s)" "sched_wf s"
    "bt_all (\<lambda>_ r. unat (tk_generation r) \<le> n) (sc_tasks s)"
  using assms by (auto simp: sched_inv_def sched_wf_def)

lemma task_state_lookup: "bt_get (sc_tasks s) t = Some r \<Longrightarrow> task_state s t = Some (tk_state r)"
  by (simp add: task_state_def)

lemma create_task_inv:
  assumes "sched_inv n s"
  shows "sched_inv n (snd (create_task s t c))"
proof (cases "\<exists>xs. bt_get (sc_queues s) c = Some xs \<and> \<not> bt_contains (sc_tasks s) t")
  case True
  then obtain xs where q: "bt_get (sc_queues s) c = Some xs" and new: "\<not> bt_contains (sc_tasks s) t" by blast
  then have "task_state s t = None" by (simp add: task_state_def bt_contains_def)
  with placement_enqueue [of _ _ _ c xs t] sched_invD(1) [OF assms] q
  have "placed (snd (create_task s t c))"
    using new by (simp add: create_task_def placed_simps)
  then show ?thesis using q new sched_invD(2,3,5) [OF assms]
    by (intro sched_invI) (auto simp: create_task_def)
qed (use assms in \<open>auto simp: create_task_def split: option.splits\<close>)

lemma wake_inv:
  assumes "sched_inv n s"
  shows "sched_inv n (snd (wake s t c))"
proof (cases "is_Ok (fst (wake s t c))")
  case True
  then obtain xs r where w: "bt_get (sc_queues s) c = Some xs" "bt_get (sc_tasks s) t = Some r"
    "tk_state r = Blocked" "t \<notin> set xs"
    by (auto simp: wake_def split: option.splits if_splits)
  with placement_enqueue [of _ _ _ c xs t] sched_invD(1) [OF assms] task_state_lookup [OF w(2)]
  have "placed (snd (wake s t c))" by (simp add: wake_def placed_simps)
  then show ?thesis using w sched_invD(2,3,5) [OF assms] bt_allD [OF sched_invD(5) [OF assms] w(2)]
    by (intro sched_invI) (auto simp: wake_def)
qed (use assms in \<open>auto simp: wake_def split: option.splits\<close>)

text \<open>The victim is a longest queue of another processor, the lowest one among the longest.\<close>

lemma max_by_key_None [simp]: "max_by_key es = None \<longleftrightarrow> es = []"
  by (cases es) (auto split: option.splits)

lemma max_by_key_Some:
  "max_by_key es = Some m \<Longrightarrow> m \<in> set es \<and> (\<forall>e\<in>set es. \<not> steal_better e m)"
proof (induction es arbitrary: m)
  case (Cons e es)
  show ?case
  proof (cases "max_by_key es")
    case None
    then show ?thesis using Cons.prems by (auto simp: steal_better_def)
  next
    case (Some k)
    then show ?thesis using Cons.IH [OF Some] Cons.prems
      by (auto simp: steal_better_def split: if_splits)
  qed
qed simp

definition best_victim :: "Scheduler \<Rightarrow> CpuId \<Rightarrow> CpuId \<Rightarrow> TaskId list \<Rightarrow> bool" where
  "best_victim s cpu v xs \<longleftrightarrow> v \<noteq> cpu \<and> bt_get (sc_queues s) v = Some xs \<and> xs \<noteq> [] \<and>
     (\<forall>c ys. c \<noteq> cpu \<and> bt_get (sc_queues s) c = Some ys \<longrightarrow>
        length ys < length xs \<or> length ys = length xs \<and> v \<le> c)"

lemma steal_victim_Some:
  assumes "bt_wf (sc_queues s)" "steal_victim s cpu = Some v"
  shows "\<exists>xs. best_victim s cpu v xs"
proof -
  from assms(2) obtain xs where m: "max_by_key (filter (\<lambda>e. fst e \<noteq> cpu) (sc_queues s)) = Some (v, xs)"
    and ne: "xs \<noteq> []"
    by (auto simp: steal_victim_def split: option.splits if_splits)
  have mem: "(v, xs) \<in> set (sc_queues s)" "v \<noteq> cpu" using max_by_key_Some [OF m] by auto
  have "length ys < length xs \<or> length ys = length xs \<and> v \<le> c"
    if "c \<noteq> cpu" "bt_get (sc_queues s) c = Some ys" for c ys
    using max_by_key_Some [OF m] that bt_get_in_set [OF that(2)]
    by (fastforce simp: steal_better_def not_less)
  then show ?thesis using mem ne assms(1) by (auto simp: best_victim_def bt_get_Some_iff)
qed

lemma steal_victim_None:
  assumes "steal_victim s cpu = None" "bt_get (sc_queues s) c = Some ys" "c \<noteq> cpu"
  shows "ys = []"
proof -
  have mem: "(c, ys) \<in> set (filter (\<lambda>e. fst e \<noteq> cpu) (sc_queues s))"
    using bt_get_in_set [OF assms(2)] assms(3) by simp
  then obtain v where m: "max_by_key (filter (\<lambda>e. fst e \<noteq> cpu) (sc_queues s)) = Some (v, [])"
    using assms(1) by (cases "max_by_key (filter (\<lambda>e. fst e \<noteq> cpu) (sc_queues s))")
      (auto simp: steal_victim_def split: prod.splits if_splits simp del: set_filter)
  show ?thesis using max_by_key_Some [OF m] mem by (fastforce simp: steal_better_def)
qed

lemma pick_task_cases:
  assumes "bt_wf (sc_queues s)" "bt_get (sc_queues s) cpu = Some local"
  obtains (none) "pick_task s cpu = (Ok None, s)" "\<And>c ys. bt_get (sc_queues s) c = Some ys \<Longrightarrow> ys = []"
  | (own) t rest where "local = t # rest"
      "pick_task s cpu = (Ok (Some t), s\<lparr>sc_queues := bt_insert cpu rest (sc_queues s)\<rparr>)"
  | (stolen) v xs where "local = []" "best_victim s cpu v xs"
      "pick_task s cpu = (Ok (Some (last xs)), s\<lparr>sc_queues := bt_insert v (butlast xs) (sc_queues s),
          sc_steals := saturating_add (sc_steals s) 1\<rparr>)"
proof (cases local)
  case (Cons t rest)
  then show ?thesis using own assms(2) by (simp add: pick_task_def)
next
  case Nil
  then have pick: "pick_task s cpu = steal s cpu" using assms(2) by (simp add: pick_task_def)
  show ?thesis
  proof (cases "steal_victim s cpu")
    case None
    then have "ys = []" if "bt_get (sc_queues s) c = Some ys" for c ys
      using steal_victim_None [OF None that] that assms(2) Nil by (cases "c = cpu") auto
    then show ?thesis using none None pick by (simp add: steal_def)
  next
    case (Some v)
    then obtain xs where b: "best_victim s cpu v xs" using steal_victim_Some [OF assms(1)] by blast
    then show ?thesis using stolen [OF Nil b] Some pick by (simp add: steal_def best_victim_def)
  qed
qed

lemma dispatch_start:
  assumes "sched_inv n s" "bt_get (sc_current s) cpu = Some None"
    and q: "bt_get (sc_queues s) c = Some xs" "t \<in> set xs" "distinct ys" "set ys = set xs - {t}"
    and pick: "pick_task s cpu = (Ok (Some t), s\<lparr>sc_queues := bt_insert c ys (sc_queues s), sc_steals := k\<rparr>)"
  shows "fst (dispatch s cpu) = Ok (Some t)" "sched_inv n (snd (dispatch s cpu))"
    "task_state s t = Some Runnable" "task_state (snd (dispatch s cpu)) t = Some (Running cpu)"
proof -
  note inv = sched_invD [OF assms(1)]
  show st: "task_state s t = Some Runnable"
    using placementD(3) [OF inv(1) [unfolded placed_def] q(1,2)] .
  then obtain r where r: "bt_get (sc_tasks s) t = Some r" "tk_state r = Runnable"
    by (auto simp: task_state_def)
  have d: "dispatch s cpu = (Ok (Some t),
      s\<lparr>sc_queues := bt_insert c ys (sc_queues s), sc_steals := k,
        sc_tasks := bt_insert t (r\<lparr>tk_state := Running cpu\<rparr>) (sc_tasks s),
        sc_current := bt_insert cpu (Some t) (sc_current s),
        sc_dispatches := saturating_add (sc_dispatches s) 1\<rparr>)"
    using assms(2) pick r by (simp add: dispatch_def Let_def)
  then show "fst (dispatch s cpu) = Ok (Some t)" by simp
  have "placed (snd (dispatch s cpu))"
    using placement_start [OF inv(1) [unfolded placed_def] q(1,2) assms(2) q(3,4)]
    by (simp add: d placed_simps)
  then show "sched_inv n (snd (dispatch s cpu))"
    using inv bt_allD [OF inv(5) r(1)] by (intro sched_invI) (auto simp: d)
  show "task_state (snd (dispatch s cpu)) t = Some (Running cpu)" by (simp add: d)
qed

lemma queue_of_current:
  assumes "placed s" "bt_get (sc_current s) cpu = Some x"
  obtains xs where "bt_get (sc_queues s) cpu = Some xs"
  using assms placed_domains [OF assms(1), of cpu] by (cases "bt_get (sc_queues s) cpu") auto

text \<open>What an idle processor gets, in one statement used by both theorems below.\<close>

lemma dispatch_idle:
  assumes "sched_inv n s" "bt_get (sc_current s) cpu = Some None" "bt_get (sc_queues s) cpu = Some local"
  shows "dispatch s cpu = (Ok None, s) \<and> (\<forall>c ys. bt_get (sc_queues s) c = Some ys \<longrightarrow> ys = []) \<or>
    (\<exists>t. fst (dispatch s cpu) = Ok (Some t) \<and> sched_inv n (snd (dispatch s cpu)) \<and>
       task_state s t = Some Runnable \<and> task_state (snd (dispatch s cpu)) t = Some (Running cpu) \<and>
       (if local \<noteq> [] then t = hd local else \<exists>v xs. best_victim s cpu v xs \<and> t = last xs))"
  using sched_invD(2) [OF assms(1)] assms(3)
proof (cases rule: pick_task_cases)
  case none
  then show ?thesis using assms(2) by (auto simp: dispatch_def)
next
  case (own t rest)
  have "distinct (t # rest)"
    using placementD(2) [OF sched_invD(1) [OF assms(1), unfolded placed_def] assms(3)] own by simp
  then have ys: "t \<in> set local" "distinct rest" "set rest = set local - {t}" using own(1) by auto
  have "pick_task s cpu = (Ok (Some t), s\<lparr>sc_queues := bt_insert cpu rest (sc_queues s), sc_steals := sc_steals s\<rparr>)"
    using own(2) by simp
  from dispatch_start [OF assms(1,2,3) ys this] own(1) show ?thesis by simp
next
  case (stolen v xs)
  then have v: "bt_get (sc_queues s) v = Some xs" "xs \<noteq> []" by (auto simp: best_victim_def)
  then have "distinct (butlast xs @ [last xs])"
    using placementD(2) [OF sched_invD(1) [OF assms(1), unfolded placed_def] v(1)] by simp
  moreover have "set xs = insert (last xs) (set (butlast xs))"
    using v(2) by (metis append_butlast_last_id insert_is_Un list.simps(15) rotate1.simps(2) set_rotate1)
  ultimately have ys: "last xs \<in> set xs" "distinct (butlast xs)" "set (butlast xs) = set xs - {last xs}"
    by auto
  from dispatch_start [OF assms(1,2) v(1) ys stolen(3)] stolen(1,2) show ?thesis by auto
qed

lemma dispatch_inv:
  assumes "sched_inv n s"
  shows "sched_inv n (snd (dispatch s cpu))"
proof (cases "bt_get (sc_current s) cpu = Some None")
  case True
  obtain xs where "bt_get (sc_queues s) cpu = Some xs"
    using queue_of_current [OF sched_invD(1) [OF assms] True] .
  from dispatch_idle [OF assms True this] assms show ?thesis by auto
qed (use assms in \<open>auto simp: dispatch_def split: option.splits\<close>)

text \<open>Taking the current task of a processor, under the invariant.\<close>

lemma take_current_placed:
  assumes "placed s"
  obtains (none) e where "\<And>k. take_current s cpu k = (Err e, s)"
  | (some) t r where "bt_get (sc_current s) cpu = Some (Some t)" "bt_get (sc_tasks s) t = Some r"
      "tk_state r = Running cpu"
      "\<And>k. take_current s cpu k = k (s\<lparr>sc_current := bt_insert cpu None (sc_current s)\<rparr>) t r"
proof (cases "\<exists>t. bt_get (sc_current s) cpu = Some (Some t)")
  case True
  then obtain t where t: "bt_get (sc_current s) cpu = Some (Some t)" by blast
  then have "task_state s t = Some (Running cpu)"
    using placementD(6) [OF assms [unfolded placed_def]] by simp
  then obtain r where "bt_get (sc_tasks s) t = Some r" "tk_state r = Running cpu"
    by (auto simp: task_state_def)
  then show ?thesis using some t by (simp add: take_current_def Let_def)
next
  case False
  then have "bt_get (sc_current s) cpu = None \<or> bt_get (sc_current s) cpu = Some None"
    by (metis not_None_eq)
  then show ?thesis
    using none [of SchedulerError.UnknownCpu] none [of WrongState] by (auto simp: take_current_def)
qed

lemma park_inv:
  assumes "sched_inv n s" "is_parked X"
  shows "sched_inv n (snd (take_current s cpu (\<lambda>s1 task record.
     (Ok task, s1\<lparr>sc_tasks := bt_insert task (record\<lparr>tk_state := X\<rparr>) (sc_tasks s1)\<rparr>))))"
  using sched_invD(1) [OF assms(1)]
proof (cases rule: take_current_placed [of s cpu])
  case (some t r)
  let ?s = "snd (take_current s cpu (\<lambda>s1 task record.
     (Ok task, s1\<lparr>sc_tasks := bt_insert task (record\<lparr>tk_state := X\<rparr>) (sc_tasks s1)\<rparr>)))"
  have "placed ?s"
    using placement_park [OF sched_invD(1) [OF assms(1), unfolded placed_def] some(1) assms(2)] some
    by (simp add: placed_simps)
  then show ?thesis
    using sched_invD [OF assms(1)] bt_allD [OF sched_invD(5) [OF assms(1)] some(2)] some
    by (intro sched_invI) auto
qed (use assms in simp)

lemma yield_inv:
  assumes "sched_inv n s" "Suc n < 2 ^ 64"
  shows "sched_inv (Suc n) (snd (yield_current s cpu))"
  using sched_invD(1) [OF assms(1)]
proof (cases rule: take_current_placed [of s cpu])
  case (none e)
  then show ?thesis using sched_inv_mono [OF assms(1)] by (simp add: yield_current_def)
next
  case (some t r)
  note p = sched_invD(1) [OF assms(1), unfolded placed_def]
  obtain xs where q: "bt_get (sc_queues s) cpu = Some xs"
    using queue_of_current [OF sched_invD(1) [OF assms(1)] some(1)] .
  have le: "unat (tk_generation r) \<le> n" using bt_allD [OF sched_invD(5) [OF assms(1)] some(2)] .
  then have "unat (tk_generation r) + 1 < 2 ^ 64" using assms(2) by simp
  then obtain g where g': "checked_add (tk_generation r) 1 = Some g" by (simp add: checked_add_def)
  with le have g: "checked_add (tk_generation r) 1 = Some g" "unat g \<le> Suc n"
    by (simp_all add: unat_plus_one [OF g'])
  have y: "snd (yield_current s cpu) = s\<lparr>sc_current := bt_insert cpu None (sc_current s),
      sc_tasks := bt_insert t \<lparr>tk_state = Runnable, tk_generation = g\<rparr> (sc_tasks s),
      sc_queues := bt_insert cpu (xs @ [t]) (sc_queues s)\<rparr>"
    using some q g by (simp add: yield_current_def Let_def)
  have "placed (snd (yield_current s cpu))"
    using placement_enqueue [OF placement_park [OF p some(1), of Blocked] q, of t]
    by (simp add: y placed_simps)
  moreover have "bt_all (\<lambda>_ r. unat (tk_generation r) \<le> Suc n) (sc_tasks s)"
    using sched_invD(5) [OF assms(1)] by (rule bt_all_mono) simp
  ultimately show ?thesis
    using sched_invD(2,3) [OF assms(1)] g(2) by (intro sched_invI) (auto simp: y)
qed

lemma sched_inv_step:
  assumes "sched_inv n s" "Suc n < 2 ^ 64"
  shows "sched_inv (Suc n) (sched_step s a)"
proof (cases a)
  case (TYield cpu)
  then show ?thesis using yield_inv [OF assms] by simp
qed (use sched_inv_mono [of n _ "Suc n"] assms(1) park_inv [OF assms(1)] in
  \<open>auto simp: create_task_inv wake_inv dispatch_inv block_current_def exit_current_def\<close>)

lemma sched_inv_replay:
  "sched_inv n s \<Longrightarrow> n + length ops < 2 ^ 64 \<Longrightarrow> sched_inv (n + length ops) (replay sched_step s ops)"
proof (induction ops arbitrary: s n)
  case (Cons a ops)
  then show ?case using Cons.IH [OF sched_inv_step [OF Cons.prems(1), of a]] by simp
qed simp

lemma with_online_cpus_inv: "sched_inv 0 (with_online_cpus cs)"
proof -
  have get: "bt_get (map (\<lambda>cpu. (cpu, v)) cs) c = (if c \<in> set cs then Some v else None)"
    for v :: 'v and cs :: "CpuId list" and c
    by (induction cs) auto
  have "placed (with_online_cpus cs)"
    by (simp add: placed_def placement_def with_online_cpus_def get task_state_def)
  then show ?thesis
    by (intro sched_invI) (auto simp: with_online_cpus_def bt_wf_def CpuSet_iter_def comp_def)
qed

text \<open>
  C9: the scheduler keeps its own consistency check. From any set of processors, after any
  fewer than \<open>2\<^sup>6\<^sup>4\<close> calls (failed calls included), \<open>invariant_holds\<close> answers true: every
  runnable task is in exactly one place of exactly one queue, every running task is the current
  task of its processor, and nothing else is queued or current.
\<close>

theorem scheduler_keeps_invariant:
  assumes "length ops < 2 ^ 64"
  shows "invariant_holds (replay sched_step (with_online_cpus cs) ops)"
  using sched_inv_replay [OF with_online_cpus_inv, of ops cs] assms
    placed_imp_invariant_holds [OF sched_invD(4,1)]
  by auto

theorem scheduler_keeps_invariant_witness:
  "invariant_holds (replay sched_step (with_online_cpus \<lparr>members = {0, 1}\<rparr>)
     [TCreate 7 0, TDispatch 1, TYield 1, TDispatch 0, TBlock 0, TWake 7 1])"
  using scheduler_keeps_invariant [of "[TCreate 7 0, TDispatch 1, TYield 1, TDispatch 0, TBlock 0, TWake 7 1]"]
  by simp

text \<open>
  C10: dispatch is work conserving and never loses a task. In a reachable state an idle
  processor's \<open>dispatch\<close> succeeds; it answers that there is nothing to run exactly when no task is
  runnable; otherwise the task it returns was runnable and now runs there, and it is the front of
  the local queue or, when that is empty, the back of the longest other queue (the lowest
  processor among equals).
\<close>

theorem dispatch_work_conserving:
  assumes "s = replay sched_step (with_online_cpus cs) ops" "length ops < 2 ^ 64"
    and "bt_get (sc_current s) cpu = Some None"
  shows "\<exists>r local. fst (dispatch s cpu) = Ok r \<and> bt_get (sc_queues s) cpu = Some local \<and>
    (case r of
       None \<Rightarrow> (\<forall>t. task_state s t \<noteq> Some Runnable)
     | Some t \<Rightarrow> task_state s t = Some Runnable \<and> task_state (snd (dispatch s cpu)) t = Some (Running cpu) \<and>
         (if local \<noteq> [] then t = hd local else \<exists>v xs. best_victim s cpu v xs \<and> t = last xs))"
proof -
  have inv: "sched_inv (length ops) s"
    using sched_inv_replay [OF with_online_cpus_inv, of ops cs] assms(1,2) by simp
  obtain local where local: "bt_get (sc_queues s) cpu = Some local"
    using queue_of_current [OF sched_invD(1) [OF inv] assms(3)] .
  have "task_state s t \<noteq> Some Runnable" if "\<forall>c ys. bt_get (sc_queues s) c = Some ys \<longrightarrow> ys = []" for t
    using placementD(5) [OF sched_invD(1) [OF inv, unfolded placed_def], of t] that by fastforce
  with dispatch_idle [OF inv assms(3) local] local show ?thesis by auto
qed

theorem dispatch_work_conserving_witness:
  "fst (dispatch (replay sched_step (with_online_cpus \<lparr>members = {0, 1}\<rparr>) [TCreate 7 0]) 1) = Ok (Some 7)"
proof -
  let ?s = "replay sched_step (with_online_cpus \<lparr>members = {0, 1}\<rparr>) [TCreate 7 0]"
  have s: "sc_current ?s = [(0, None), (1, None)]" "sc_queues ?s = [(0, [7]), (1, [])]"
    by (simp_all add: with_online_cpus_def CpuSet_iter_def create_task_def)
  then have "bt_get (sc_current ?s) 1 = Some None" by simp
  from dispatch_work_conserving [OF refl _ this] obtain r where
    r: "fst (dispatch ?s 1) = Ok r" and
    t: "\<forall>t. r = Some t \<longrightarrow> (\<exists>v xs. best_victim ?s 1 v xs \<and> t = last xs)" and
    n: "r = None \<longrightarrow> task_state ?s 7 \<noteq> Some Runnable"
    using s by (auto split: option.splits)
  have "task_state ?s 7 = Some Runnable"
    by (simp add: with_online_cpus_def CpuSet_iter_def create_task_def task_state_def)
  with n t obtain v xs where "best_victim ?s 1 v xs" "r = Some (last xs)" by (cases r) auto
  then have "r = Some 7" using s by (auto simp: best_victim_def split: if_splits)
  with r show ?thesis by simp
qed

text \<open>
  The bound on the number of calls is needed: when the generation counter of the current task is
  at its maximum, \<open>yield_current\<close> fails after it has already emptied the current slot, and the
  task is left running nowhere.
\<close>

definition demo_worn_scheduler :: Scheduler where
  "demo_worn_scheduler = \<lparr>sc_queues = [(0, [])], sc_tasks = [(7, \<lparr>tk_state = Running 0, tk_generation = - 1\<rparr>)],
     sc_current = [(0, Some 7)], sc_dispatches = 0, sc_steals = 0\<rparr>"

lemma yield_overflow_breaks_invariant:
  "invariant_holds demo_worn_scheduler
   \<and> fst (yield_current demo_worn_scheduler 0) = Err SchedulerError.GenerationOverflow
   \<and> \<not> invariant_holds (snd (yield_current demo_worn_scheduler 0))"
  by (simp add: demo_worn_scheduler_def invariant_holds_def yield_current_def take_current_def
      check_current_def task_state_def checked_inc_None_iff [THEN iffD2] Let_def)

end
