(* ===== verification/Kernel_Capability.thy ===== *)
theory Kernel_Capability
  imports Kernel_Prelude
begin

text \<open>
  The capability ledger of \<open>thermite-kernel/src/capability.rs\<close>: authority kinds, right sets,
  handles, the ledger's records and the four ledger operations. The ledger is the run-time
  substitute for affine types: a handle is a plain value, so all protection rests on the
  generation counter of the record it points to. The lemmas show what that buys: at most one
  handle per slot is accepted, a handed-on or released handle is refused by every later ledger,
  and no sequence of operations widens rights or ranges.
\<close>

section \<open>Data\<close>

type_synonym OwnerId = u32

datatype (plugins only: code size) CapabilityKind =
    BootInfo | Cpu | CpuSet | CpuLocal | PhysRegion | Frame | VirtRegion | AddressSpace | Mmio
  | IoPort | Irq | IrqState | TrapFrame | UserContext | Dma | IommuDomain | Clock | Entropy | Power

text \<open>The derived \<open>Ord\<close>: declaration order. It is the key order of the ledger's map.\<close>

fun kind_index :: "CapabilityKind \<Rightarrow> nat" where
  "kind_index BootInfo = 0"
| "kind_index Cpu = 1"
| "kind_index CpuSet = 2"
| "kind_index CpuLocal = 3"
| "kind_index PhysRegion = 4"
| "kind_index Frame = 5"
| "kind_index VirtRegion = 6"
| "kind_index AddressSpace = 7"
| "kind_index Mmio = 8"
| "kind_index IoPort = 9"
| "kind_index Irq = 10"
| "kind_index IrqState = 11"
| "kind_index TrapFrame = 12"
| "kind_index UserContext = 13"
| "kind_index Dma = 14"
| "kind_index IommuDomain = 15"
| "kind_index Clock = 16"
| "kind_index Entropy = 17"
| "kind_index Power = 18"

lemma kind_index_inject: "kind_index a = kind_index b \<Longrightarrow> a = b"
  by (cases a; cases b; simp)

instantiation CapabilityKind :: linorder
begin

definition less_eq_CapabilityKind :: "CapabilityKind \<Rightarrow> CapabilityKind \<Rightarrow> bool" where
  "less_eq_CapabilityKind a b = (kind_index a \<le> kind_index b)"

definition less_CapabilityKind :: "CapabilityKind \<Rightarrow> CapabilityKind \<Rightarrow> bool" where
  "less_CapabilityKind a b = (kind_index a < kind_index b)"

instance
  by standard
     (auto simp: less_eq_CapabilityKind_def less_CapabilityKind_def intro: kind_index_inject)

end

type_synonym Rights = u32

definition Rights_READ :: Rights where "Rights_READ = 1"
definition Rights_WRITE :: Rights where "Rights_WRITE = 2"
definition Rights_EXECUTE :: Rights where "Rights_EXECUTE = 4"
definition Rights_MAP :: Rights where "Rights_MAP = 8"
definition Rights_ROUTE :: Rights where "Rights_ROUTE = 16"
definition Rights_CONTROL :: Rights where "Rights_CONTROL = 32"
definition Rights_TRANSFER :: Rights where "Rights_TRANSFER = 64"
definition Rights_ALL :: Rights where "Rights_ALL = push_bit 7 1 - 1"
definition Rights_empty :: Rights where "Rights_empty = 0"

definition Rights_union :: "Rights \<Rightarrow> Rights \<Rightarrow> Rights" where
  "Rights_union a b = (a OR b)"

definition Rights_contains :: "Rights \<Rightarrow> Rights \<Rightarrow> bool" where
  "Rights_contains a required = (a AND required = required)"

record Capability =
  cap_kind :: CapabilityKind
  cap_slot :: u32
  cap_owner :: OwnerId
  cap_rights :: Rights
  cap_generation :: u64
  cap_base :: u64
  cap_len :: u64

definition Capability_contains_range :: "Capability \<Rightarrow> u64 \<Rightarrow> u64 \<Rightarrow> bool" where
  "Capability_contains_range c base len =
     (case checked_add (cap_base c) (cap_len c) of
        None \<Rightarrow> False
      | Some cap_end \<Rightarrow>
          (case checked_add base len of
             None \<Rightarrow> False
           | Some range_end \<Rightarrow> cap_base c \<le> base \<and> range_end \<le> cap_end))"

record Record =
  rec_owner :: OwnerId
  rec_rights :: Rights
  rec_generation :: u64
  rec_base :: u64
  rec_len :: u64
  rec_live :: bool

datatype CapabilityError =
    DuplicateSlot | UnknownSlot | Released | WrongKind | ForeignOwner | StaleGeneration
  | MissingRights | RightsEscalation | RangeOverflow | OutOfRange | GenerationOverflow

record CapabilityLedger =
  records :: "(CapabilityKind \<times> u32, Record) btmap"


section \<open>Operations\<close>

definition CapabilityLedger_new :: CapabilityLedger where
  "CapabilityLedger_new = \<lparr>records = []\<rparr>"

text \<open>\<open>CapabilityLedger::capability\<close>: the handle that mirrors a record.\<close>

definition ledger_capability :: "CapabilityKind \<Rightarrow> u32 \<Rightarrow> Record \<Rightarrow> Capability" where
  "ledger_capability k s r =
     \<lparr>cap_kind = k, cap_slot = s, cap_owner = rec_owner r, cap_rights = rec_rights r,
      cap_generation = rec_generation r, cap_base = rec_base r, cap_len = rec_len r\<rparr>"

definition mint_root ::
  "CapabilityLedger \<Rightarrow> CapabilityKind \<Rightarrow> u32 \<Rightarrow> OwnerId \<Rightarrow> Rights \<Rightarrow> u64 \<Rightarrow> u64 \<Rightarrow>
   (Capability, CapabilityError) result \<times> CapabilityLedger" where
  "mint_root L k s owner rights base len =
     (if rights AND NOT Rights_ALL \<noteq> 0 then (Err RightsEscalation, L)
      else if checked_add base len = None then (Err RangeOverflow, L)
      else if bt_contains (records L) (k, s) then (Err DuplicateSlot, L)
      else
        let r = \<lparr>rec_owner = owner, rec_rights = rights, rec_generation = 0,
                 rec_base = base, rec_len = len, rec_live = True\<rparr>
        in (Ok (ledger_capability k s r), L\<lparr>records := bt_insert (k, s) r (records L)\<rparr>))"

definition ledger_validate ::
  "CapabilityLedger \<Rightarrow> Capability \<Rightarrow> OwnerId \<Rightarrow> Rights \<Rightarrow> u64 \<Rightarrow> u64 \<Rightarrow>
   (unit, CapabilityError) result" where
  "ledger_validate L c owner required base len =
     (case bt_get (records L) (cap_kind c, cap_slot c) of
        None \<Rightarrow> Err UnknownSlot
      | Some r \<Rightarrow>
          if \<not> rec_live r then Err Released
          else if rec_generation r \<noteq> cap_generation c then Err StaleGeneration
          else if rec_owner r \<noteq> owner \<or> cap_owner c \<noteq> owner then Err ForeignOwner
          else if rec_rights r \<noteq> cap_rights c \<or> \<not> Rights_contains (rec_rights r) required
            then Err MissingRights
          else if rec_base r \<noteq> cap_base c \<or> rec_len r \<noteq> cap_len c then Err OutOfRange
          else if \<not> Capability_contains_range c base len then Err OutOfRange
          else Ok ())"

definition validate_record :: "Record \<Rightarrow> Capability \<Rightarrow> (unit, CapabilityError) result" where
  "validate_record r c =
     (if \<not> rec_live r then Err Released
      else if rec_owner r \<noteq> cap_owner c then Err ForeignOwner
      else if rec_generation r \<noteq> cap_generation c then Err StaleGeneration
      else if rec_rights r \<noteq> cap_rights c \<or> rec_base r \<noteq> cap_base c \<or> rec_len r \<noteq> cap_len c
        then Err OutOfRange
      else Ok ())"

definition ledger_transfer ::
  "CapabilityLedger \<Rightarrow> Capability \<Rightarrow> OwnerId \<Rightarrow> Rights \<Rightarrow>
   (Capability, CapabilityError) result \<times> CapabilityLedger" where
  "ledger_transfer L c new_owner new_rights =
     (case bt_get (records L) (cap_kind c, cap_slot c) of
        None \<Rightarrow> (Err UnknownSlot, L)
      | Some r \<Rightarrow>
          (case validate_record r c of
             Err e \<Rightarrow> (Err e, L)
           | Ok _ \<Rightarrow>
               if \<not> Rights_contains (rec_rights r) new_rights then (Err RightsEscalation, L)
               else
                 (case checked_add (rec_generation r) 1 of
                    None \<Rightarrow> (Err GenerationOverflow, L)
                  | Some g \<Rightarrow>
                      let r' = r\<lparr>rec_generation := g, rec_owner := new_owner,
                                 rec_rights := new_rights\<rparr>
                      in (Ok (ledger_capability (cap_kind c) (cap_slot c) r'),
                          L\<lparr>records := bt_insert (cap_kind c, cap_slot c) r' (records L)\<rparr>))))"

definition ledger_release ::
  "CapabilityLedger \<Rightarrow> Capability \<Rightarrow> (unit, CapabilityError) result \<times> CapabilityLedger" where
  "ledger_release L c =
     (case bt_get (records L) (cap_kind c, cap_slot c) of
        None \<Rightarrow> (Err UnknownSlot, L)
      | Some r \<Rightarrow>
          (case validate_record r c of
             Err e \<Rightarrow> (Err e, L)
           | Ok _ \<Rightarrow>
               (case checked_add (rec_generation r) 1 of
                  None \<Rightarrow> (Err GenerationOverflow, L)
                | Some g \<Rightarrow>
                    (Ok (),
                     L\<lparr>records := bt_insert (cap_kind c, cap_slot c)
                         (r\<lparr>rec_generation := g, rec_live := False\<rparr>) (records L)\<rparr>))))"

text \<open>One call on the ledger, for sequences of calls.\<close>

datatype ledger_op =
    LMint CapabilityKind u32 OwnerId Rights u64 u64
  | LTransfer Capability OwnerId Rights
  | LRelease Capability

fun ledger_step :: "CapabilityLedger \<Rightarrow> ledger_op \<Rightarrow> CapabilityLedger" where
  "ledger_step L (LMint k s owner rights base len) = snd (mint_root L k s owner rights base len)"
| "ledger_step L (LTransfer c owner rights) = snd (ledger_transfer L c owner rights)"
| "ledger_step L (LRelease c) = snd (ledger_release L c)"


section \<open>Right sets and ranges\<close>

lemma Rights_contains_refl [simp]: "Rights_contains r r"
  by (simp add: Rights_contains_def)

lemma Rights_contains_trans:
  "Rights_contains a b \<Longrightarrow> Rights_contains b c \<Longrightarrow> Rights_contains a c"
  by (metis Rights_contains_def and.assoc)

lemma Rights_contains_bit: "Rights_contains a b \<longleftrightarrow> (\<forall>n. bit b n \<longrightarrow> bit a n)"
proof
  assume "Rights_contains a b"
  then show "\<forall>n. bit b n \<longrightarrow> bit a n" by (metis Rights_contains_def bit_and_iff)
next
  assume "\<forall>n. bit b n \<longrightarrow> bit a n"
  then show "Rights_contains a b"
    unfolding Rights_contains_def by (intro bit_word_eqI) (auto simp: bit_and_iff)
qed

lemma Rights_contains_union:
  "Rights_contains a (Rights_union b c) \<longleftrightarrow> Rights_contains a b \<and> Rights_contains a c"
  by (auto simp: Rights_contains_bit Rights_union_def bit_or_iff)

lemma contains_range_unat:
  "Capability_contains_range c base len \<longleftrightarrow>
     unat (cap_base c) + unat (cap_len c) < 2 ^ 64 \<and> unat (cap_base c) \<le> unat base \<and>
     unat base + unat len \<le> unat (cap_base c) + unat (cap_len c)"
  by (auto simp: Capability_contains_range_def checked_simps word_le_nat_alt unat_add_no_wrap
      split: option.splits)


section \<open>Capability gates\<close>

text \<open>
  The components that act on a handle all begin with the same test on its kind and rights, each
  with its own error type. The contract of such a test, and what the gated operations get from
  it: success needs the authority, and a refusal changes nothing.
\<close>

definition authority :: "Capability \<Rightarrow> CapabilityKind \<Rightarrow> Rights \<Rightarrow> bool" where
  "authority c k r = (cap_kind c = k \<and> Rights_contains (cap_rights c) r)"

locale capability_gate =
  fixes require :: "Capability \<Rightarrow> CapabilityKind \<Rightarrow> Rights \<Rightarrow> (unit, 'e) result"
    and wrong :: 'e
    and missing :: 'e
  assumes gate_wrong: "cap_kind c \<noteq> k \<Longrightarrow> require c k r = Err wrong"
    and gate_missing: "cap_kind c = k \<Longrightarrow> \<not> Rights_contains (cap_rights c) r \<Longrightarrow> require c k r = Err missing"
    and gate_pass: "cap_kind c = k \<Longrightarrow> Rights_contains (cap_rights c) r \<Longrightarrow> require c k r = Ok ()"
begin

lemma gate_eq:
  "require c k r =
     (if cap_kind c \<noteq> k then Err wrong
      else if \<not> Rights_contains (cap_rights c) r then Err missing else Ok ())"
  using gate_wrong gate_missing gate_pass by auto

lemma gate_Ok_iff: "require c k r = Ok u \<longleftrightarrow> authority c k r"
  by (auto simp: gate_eq authority_def)

lemma gate_downgrade: "Rights_contains r r' \<Longrightarrow> require c k r = Ok u \<Longrightarrow> require c k r' = Ok u"
  by (auto simp: gate_Ok_iff authority_def intro: Rights_contains_trans)

lemma gated_needs_authority:
  "fst (try_then (require c k r) s f) = Ok v \<Longrightarrow> authority c k r"
  by (cases "require c k r") (auto simp: gate_Ok_iff)

lemma gated_refuses:
  "\<not> authority c k r \<Longrightarrow> \<exists>e. try_then (require c k r) s f = (Err e, s)"
  by (cases "require c k r") (auto simp: gate_Ok_iff)

lemma gated_runs: "authority c k r \<Longrightarrow> try_then (require c k r) s f = f ()"
  by (simp add: gate_eq authority_def)

end


section \<open>What one operation does\<close>

lemma validate_record_Ok_iff:
  "validate_record r c = Ok () \<longleftrightarrow>
     rec_live r \<and> c = c\<lparr>cap_owner := rec_owner r, cap_rights := rec_rights r,
       cap_generation := rec_generation r, cap_base := rec_base r, cap_len := rec_len r\<rparr>"
  by (cases c) (auto simp: validate_record_def)

lemma handle_of_record:
  "validate_record r c = Ok () \<Longrightarrow> c = ledger_capability (cap_kind c) (cap_slot c) r"
  by (cases c) (auto simp: validate_record_def ledger_capability_def split: if_splits)

lemma mint_root_Ok_iff:
  "mint_root L k s owner rights base len = (Ok c, L') \<longleftrightarrow>
     rights AND NOT Rights_ALL = 0 \<and> unat base + unat len < 2 ^ 64 \<and>
     bt_get (records L) (k, s) = None \<and>
     c = \<lparr>cap_kind = k, cap_slot = s, cap_owner = owner, cap_rights = rights,
          cap_generation = 0, cap_base = base, cap_len = len\<rparr> \<and>
     L' = L\<lparr>records := bt_insert (k, s)
        \<lparr>rec_owner = owner, rec_rights = rights, rec_generation = 0, rec_base = base,
         rec_len = len, rec_live = True\<rparr> (records L)\<rparr>"
  by (auto simp: mint_root_def checked_simps bt_contains_def ledger_capability_def Let_def)

lemma ledger_transfer_OkE:
  assumes "ledger_transfer L c new_owner new_rights = (Ok c', L')"
  obtains r g where "bt_get (records L) (cap_kind c, cap_slot c) = Some r"
    "validate_record r c = Ok ()" "Rights_contains (rec_rights r) new_rights"
    "checked_add (rec_generation r) 1 = Some g"
    "c' = c\<lparr>cap_generation := g, cap_owner := new_owner, cap_rights := new_rights\<rparr>"
    "L' = L\<lparr>records := bt_insert (cap_kind c, cap_slot c)
        (r\<lparr>rec_generation := g, rec_owner := new_owner, rec_rights := new_rights\<rparr>) (records L)\<rparr>"
  using assms
  by (cases c)
     (auto simp: ledger_transfer_def Let_def ledger_capability_def validate_record_def
        split: option.splits result.splits if_splits)

lemma ledger_release_OkE:
  assumes "ledger_release L c = (Ok u, L')"
  obtains r g where "bt_get (records L) (cap_kind c, cap_slot c) = Some r"
    "validate_record r c = Ok ()" "checked_add (rec_generation r) 1 = Some g"
    "L' = L\<lparr>records := bt_insert (cap_kind c, cap_slot c)
        (r\<lparr>rec_generation := g, rec_live := False\<rparr>) (records L)\<rparr>"
  using assms
  by (auto simp: ledger_release_def split: option.splits result.splits if_splits)

text \<open>A refused operation changes nothing.\<close>

lemma mint_root_Err: "mint_root L k s owner rights base len = (Err e, L') \<Longrightarrow> L' = L"
  by (auto simp: mint_root_def Let_def split: if_splits)

lemma ledger_transfer_Err: "ledger_transfer L c o' rights = (Err e, L') \<Longrightarrow> L' = L"
  by (auto simp: ledger_transfer_def Let_def split: option.splits result.splits if_splits)

lemma ledger_release_Err: "ledger_release L c = (Err e, L') \<Longrightarrow> L' = L"
  by (auto simp: ledger_release_def split: option.splits result.splits if_splits)

lemma ledger_validate_Ok_iff:
  "ledger_validate L c owner required base len = Ok () \<longleftrightarrow>
     (\<exists>r. bt_get (records L) (cap_kind c, cap_slot c) = Some r \<and> rec_live r \<and>
          c = ledger_capability (cap_kind c) (cap_slot c) r \<and> rec_owner r = owner \<and>
          Rights_contains (rec_rights r) required \<and> Capability_contains_range c base len)"
  by (cases c)
     (auto simp: ledger_validate_def ledger_capability_def split: option.splits if_splits)


section \<open>Invariant and evolution\<close>

text \<open>
  Every record has rights inside \<open>Rights::ALL\<close> and a range that does not pass the end of the
  64-bit address space.
\<close>

definition record_ok :: "Record \<Rightarrow> bool" where
  "record_ok r = (Rights_contains Rights_ALL (rec_rights r) \<and>
                  unat (rec_base r) + unat (rec_len r) < 2 ^ 64)"

definition ledger_inv :: "CapabilityLedger \<Rightarrow> bool" where
  "ledger_inv L = (bt_wf (records L) \<and>
     (\<forall>key r. bt_get (records L) key = Some r \<longrightarrow> record_ok r))"

text \<open>
  What a later ledger may look like: records stay, keep their range, lose rights only, die only,
  and change only together with a strictly larger generation.
\<close>

definition record_evolves :: "Record \<Rightarrow> Record \<Rightarrow> bool" where
  "record_evolves r r' =
     (rec_base r' = rec_base r \<and> rec_len r' = rec_len r \<and>
      Rights_contains (rec_rights r) (rec_rights r') \<and> (rec_live r' \<longrightarrow> rec_live r) \<and>
      (r' = r \<or> rec_generation r < rec_generation r'))"

definition ledger_evolves :: "CapabilityLedger \<Rightarrow> CapabilityLedger \<Rightarrow> bool" where
  "ledger_evolves L L' =
     (\<forall>key r. bt_get (records L) key = Some r \<longrightarrow>
        (\<exists>r'. bt_get (records L') key = Some r' \<and> record_evolves r r'))"

lemma record_evolves_refl: "record_evolves r r"
  by (simp add: record_evolves_def)

lemma record_evolves_trans:
  "record_evolves r s \<Longrightarrow> record_evolves s t \<Longrightarrow> record_evolves r t"
  by (auto simp: record_evolves_def intro: Rights_contains_trans order_less_trans)

lemma ledger_evolves_insert:
  assumes "\<And>r. bt_get (records L) key = Some r \<Longrightarrow> record_evolves r r'"
  shows "ledger_evolves L (L\<lparr>records := bt_insert key r' (records L)\<rparr>)"
  using assms record_evolves_refl by (auto simp: ledger_evolves_def)

lemma ledger_inv_insert:
  "ledger_inv L \<Longrightarrow> record_ok r \<Longrightarrow> ledger_inv (L\<lparr>records := bt_insert key r (records L)\<rparr>)"
  by (auto simp: ledger_inv_def)

lemma ALL_contains_iff: "Rights_contains Rights_ALL rights \<longleftrightarrow> rights AND NOT Rights_ALL = 0"
proof
  assume "Rights_contains Rights_ALL rights"
  then show "rights AND NOT Rights_ALL = 0"
    by (intro bit_word_eqI) (auto simp: Rights_contains_bit bit_and_iff bit_not_iff)
next
  assume *: "rights AND NOT Rights_ALL = 0"
  have "bit Rights_ALL n" if "bit rights n" for n
  proof (rule ccontr)
    assume "\<not> bit Rights_ALL n"
    with that have "bit (rights AND NOT Rights_ALL) n"
      using bit_imp_le_length [OF that] by (simp add: bit_and_iff bit_not_iff)
    with * show False by simp
  qed
  then show "Rights_contains Rights_ALL rights" by (simp add: Rights_contains_bit)
qed

lemma transfer_record:
  assumes "ledger_transfer L c o' rights = (Ok c', L')" "ledger_inv L"
  shows "ledger_inv L'" "ledger_evolves L L'"
proof -
  from assms(1) obtain r g where r: "bt_get (records L) (cap_kind c, cap_slot c) = Some r"
    "Rights_contains (rec_rights r) rights" "checked_add (rec_generation r) 1 = Some g"
    and L': "L' = L\<lparr>records := bt_insert (cap_kind c, cap_slot c)
        (r\<lparr>rec_generation := g, rec_owner := o', rec_rights := rights\<rparr>) (records L)\<rparr>"
    by (rule ledger_transfer_OkE)
  have "record_ok r" using assms(2) r(1) by (auto simp: ledger_inv_def)
  then have "record_ok (r\<lparr>rec_generation := g, rec_owner := o', rec_rights := rights\<rparr>)"
    using r(2) by (auto simp: record_ok_def intro: Rights_contains_trans)
  then show "ledger_inv L'" unfolding L' by (rule ledger_inv_insert [OF assms(2)])
  show "ledger_evolves L L'" unfolding L'
    using r checked_inc_greater [OF r(3)]
    by (intro ledger_evolves_insert) (auto simp: record_evolves_def)
qed

lemma release_record:
  assumes "ledger_release L c = (Ok u, L')" "ledger_inv L"
  shows "ledger_inv L'" "ledger_evolves L L'"
proof -
  from assms(1) obtain r g where r: "bt_get (records L) (cap_kind c, cap_slot c) = Some r"
    "checked_add (rec_generation r) 1 = Some g"
    and L': "L' = L\<lparr>records := bt_insert (cap_kind c, cap_slot c)
        (r\<lparr>rec_generation := g, rec_live := False\<rparr>) (records L)\<rparr>"
    by (rule ledger_release_OkE)
  have "record_ok (r\<lparr>rec_generation := g, rec_live := False\<rparr>)"
    using assms(2) r(1) by (auto simp: ledger_inv_def record_ok_def)
  then show "ledger_inv L'" unfolding L' by (rule ledger_inv_insert [OF assms(2)])
  show "ledger_evolves L L'" unfolding L'
    using r checked_inc_greater [OF r(2)]
    by (intro ledger_evolves_insert) (auto simp: record_evolves_def)
qed

lemma mint_record:
  assumes "mint_root L k s owner rights base len = (Ok c, L')" "ledger_inv L"
  shows "ledger_inv L'" "ledger_evolves L L'"
proof -
  note m = assms(1) [unfolded mint_root_Ok_iff]
  show "ledger_inv L'" using m assms(2)
    by (auto intro!: ledger_inv_insert simp: record_ok_def ALL_contains_iff)
  show "ledger_evolves L L'" using m by (auto intro!: ledger_evolves_insert)
qed

lemma ledger_evolves_refl: "ledger_evolves L L"
  by (auto simp: ledger_evolves_def intro: record_evolves_refl)

lemma ledger_evolves_trans: "ledger_evolves L M \<Longrightarrow> ledger_evolves M N \<Longrightarrow> ledger_evolves L N"
  unfolding ledger_evolves_def by (blast intro: record_evolves_trans)

lemma ledger_step_ok:
  assumes "ledger_inv L"
  shows "ledger_inv (ledger_step L a) \<and> ledger_evolves L (ledger_step L a)"
proof (cases a)
  case (LMint k s owner rights base len)
  show ?thesis unfolding LMint ledger_step.simps
    by (rule outcome_preserves [where I = ledger_inv and R = ledger_evolves, OF assms ledger_evolves_refl])
       (auto dest: mint_record mint_root_Err simp: assms)
next
  case (LTransfer c owner rights)
  show ?thesis unfolding LTransfer ledger_step.simps
    by (rule outcome_preserves [where I = ledger_inv and R = ledger_evolves, OF assms ledger_evolves_refl])
       (auto dest: transfer_record ledger_transfer_Err simp: assms)
next
  case (LRelease c)
  show ?thesis unfolding LRelease ledger_step.simps
    by (rule outcome_preserves [where I = ledger_inv and R = ledger_evolves, OF assms ledger_evolves_refl])
       (auto dest: release_record ledger_release_Err simp: assms)
qed

lemma ledger_evolvesE:
  assumes "ledger_evolves L M" "bt_get (records L) key = Some r"
  obtains m where "bt_get (records M) key = Some m" "record_evolves r m"
  using assms unfolding ledger_evolves_def by metis

interpretation ledger: op_machine ledger_step ledger_inv ledger_evolves
  by unfold_locales
     (use ledger_step_ok ledger_evolves_refl ledger_evolves_trans in blast)+

lemma ledger_inv_new: "ledger_inv CapabilityLedger_new"
  by (simp add: ledger_inv_def CapabilityLedger_new_def)


section \<open>Properties\<close>

lemma transferred_record:
  assumes "ledger_inv L" and "ledger_transfer L c new_owner new_rights = (Ok c', L')"
  obtains m where "bt_get (records (replay ledger_step L' ops)) (cap_kind c, cap_slot c) = Some m"
    "cap_generation c < rec_generation m"
proof -
  from assms(2) obtain r g where r: "validate_record r c = Ok ()"
    "checked_add (rec_generation r) 1 = Some g"
    and L': "L' = L\<lparr>records := bt_insert (cap_kind c, cap_slot c)
        (r\<lparr>rec_generation := g, rec_owner := new_owner, rec_rights := new_rights\<rparr>) (records L)\<rparr>"
    by (rule ledger_transfer_OkE)
  have "cap_generation c < g"
    using checked_inc_greater [OF r(2)] r(1) by (auto simp: validate_record_def split: if_splits)
  moreover have "ledger_evolves L' (replay ledger_step L' ops)"
    by (rule ledger.evolves_replay [OF transfer_record(1) [OF assms(2,1)]])
  moreover have "bt_get (records L') (cap_kind c, cap_slot c)
      = Some (r\<lparr>rec_generation := g, rec_owner := new_owner, rec_rights := new_rights\<rparr>)"
    by (simp add: L')
  ultimately obtain m where "bt_get (records (replay ledger_step L' ops)) (cap_kind c, cap_slot c) = Some m"
    "record_evolves (r\<lparr>rec_generation := g, rec_owner := new_owner, rec_rights := new_rights\<rparr>) m"
    by (auto elim: ledger_evolvesE)
  then show thesis
    using \<open>cap_generation c < g\<close> by (auto simp: record_evolves_def intro: that)
qed

text \<open>
  C1: the ledger refuses a handle for good once it has been handed on. Whatever calls follow a
  successful \<open>transfer\<close> of \<open>c\<close>, the old handle \<open>c\<close> is never accepted again: not by \<open>validate\<close>
  for any owner, right set or range, and not as the subject of another \<open>transfer\<close> or \<open>release\<close>.
\<close>

theorem transferred_handle_is_dead:
  assumes "ledger_inv L" and "ledger_transfer L c new_owner new_rights = (Ok c', L')"
    and "M = replay ledger_step L' ops"
  shows "\<not> is_Ok (ledger_validate M c owner required base len)
       \<and> \<not> is_Ok (fst (ledger_transfer M c o2 r2)) \<and> \<not> is_Ok (fst (ledger_release M c))"
proof (rule transferred_record [OF assms(1,2), of ops])
  fix m assume "bt_get (records (replay ledger_step L' ops)) (cap_kind c, cap_slot c) = Some m"
    "cap_generation c < rec_generation m"
  then show ?thesis
    unfolding assms(3)
    by (auto simp: ledger_validate_def ledger_transfer_def ledger_release_def validate_record_def
        Let_def is_Ok_iff split: option.splits result.splits if_splits)
qed

text \<open>A small ledger the witnesses run on: one MMIO slot, minted with all rights.\<close>

definition demo_cap :: Capability where
  "demo_cap = \<lparr>cap_kind = Mmio, cap_slot = 3, cap_owner = 7, cap_rights = 127,
               cap_generation = 0, cap_base = 4096, cap_len = 4096\<rparr>"

definition demo_ledger :: CapabilityLedger where
  "demo_ledger = \<lparr>records = [((Mmio, 3),
     \<lparr>rec_owner = 7, rec_rights = 127, rec_generation = 0, rec_base = 4096, rec_len = 4096,
      rec_live = True\<rparr>)]\<rparr>"

lemma demo_ledger_mint:
  "mint_root CapabilityLedger_new Mmio 3 7 Rights_ALL 4096 4096 = (Ok demo_cap, demo_ledger)"
  by (simp add: mint_root_Ok_iff CapabilityLedger_new_def demo_cap_def demo_ledger_def Rights_ALL_def)

lemma demo_ledger_inv: "ledger_inv demo_ledger"
  using mint_record(1) [OF demo_ledger_mint ledger_inv_new] .

definition demo_cap_next :: Capability where
  "demo_cap_next = demo_cap\<lparr>cap_generation := 1, cap_owner := 9, cap_rights := 3\<rparr>"

definition demo_ledger_next :: CapabilityLedger where
  "demo_ledger_next = \<lparr>records = [((Mmio, 3),
     \<lparr>rec_owner = 9, rec_rights = 3, rec_generation = 1, rec_base = 4096, rec_len = 4096,
      rec_live = True\<rparr>)]\<rparr>"

lemma demo_transfer:
  "ledger_transfer demo_ledger demo_cap 9 3 = (Ok demo_cap_next, demo_ledger_next)"
  by (simp add: ledger_transfer_def demo_cap_def demo_ledger_def demo_cap_next_def
      demo_ledger_next_def validate_record_def Rights_contains_def checked_add_def
      ledger_capability_def Let_def)

theorem transferred_handle_is_dead_witness:
  "ledger_transfer demo_ledger demo_cap 9 3 = (Ok demo_cap_next, demo_ledger_next)
   \<and> \<not> is_Ok (ledger_validate (replay ledger_step demo_ledger_next [LRelease demo_cap_next])
        demo_cap 7 Rights_READ 4096 8)"
  using transferred_handle_is_dead [OF demo_ledger_inv demo_transfer refl] demo_transfer by blast

lemma released_record:
  assumes "ledger_inv L" and "ledger_release L c = (Ok u, L')"
  obtains m where "bt_get (records (replay ledger_step L' ops)) (cap_kind c, cap_slot c) = Some m"
    "\<not> rec_live m"
proof -
  from assms(2) obtain r g where
    L': "L' = L\<lparr>records := bt_insert (cap_kind c, cap_slot c)
        (r\<lparr>rec_generation := g, rec_live := False\<rparr>) (records L)\<rparr>"
    by (rule ledger_release_OkE)
  have "ledger_evolves L' (replay ledger_step L' ops)"
    by (rule ledger.evolves_replay [OF release_record(1) [OF assms(2,1)]])
  moreover have "bt_get (records L') (cap_kind c, cap_slot c)
      = Some (r\<lparr>rec_generation := g, rec_live := False\<rparr>)"
    by (simp add: L')
  ultimately show thesis
    by (rule ledger_evolvesE) (auto simp: record_evolves_def intro: that)
qed

text \<open>
  Releasing a slot is final. After a successful \<open>release\<close> no handle to that slot, old or
  made up, is accepted by any later ledger, and the slot cannot be minted again.
\<close>

lemma released_slot_is_dead:
  assumes "ledger_inv L" and "ledger_release L c = (Ok u, L')"
    and "M = replay ledger_step L' ops" and "cap_kind d = cap_kind c" and "cap_slot d = cap_slot c"
  shows "ledger_validate M d owner required base len = Err Released
       \<and> fst (ledger_transfer M d o2 r2) = Err Released \<and> fst (ledger_release M d) = Err Released
       \<and> \<not> is_Ok (fst (mint_root M (cap_kind c) (cap_slot c) o3 r3 b3 l3))"
proof -
  obtain m where "bt_get (records M) (cap_kind c, cap_slot c) = Some m" "\<not> rec_live m"
    using released_record [OF assms(1,2), of ops thesis] assms(3) by blast
  with assms(4,5) show ?thesis
    by (auto simp: ledger_validate_def ledger_transfer_def ledger_release_def validate_record_def
        mint_root_def bt_contains_def Let_def)
qed

theorem released_slot_is_dead_witness:
  "ledger_release demo_ledger demo_cap = (Ok (), snd (ledger_release demo_ledger demo_cap))
   \<and> ledger_validate (replay ledger_step (snd (ledger_release demo_ledger demo_cap))
       [LMint Mmio 3 1 1 0 1]) demo_cap 7 1 4096 1 = Err Released"
proof -
  have rel: "ledger_release demo_ledger demo_cap = (Ok (), snd (ledger_release demo_ledger demo_cap))"
    by (simp add: ledger_release_def demo_cap_def demo_ledger_def validate_record_def checked_add_def)
  show ?thesis
    using released_slot_is_dead [OF demo_ledger_inv rel refl refl refl] rel by blast
qed


lemma demo_validates:
  "ledger_validate demo_ledger demo_cap 7 Rights_WRITE 4096 4096 = Ok ()"
  "ledger_validate demo_ledger_next demo_cap_next 9 Rights_WRITE 8000 64 = Ok ()"
  by (simp_all add: ledger_validate_def demo_ledger_def demo_cap_def demo_ledger_next_def
      demo_cap_next_def Rights_contains_def Rights_WRITE_def contains_range_unat)


text \<open>
  Acceptance is exact. \<open>validate\<close> accepts a handle if and only if the slot has a live
  record, the handle is the mirror image of that record in every field, the caller is its
  owner, the record has the required rights, and the requested interval lies inside the
  handle's interval as numbers, with no wrap-around.
\<close>

lemma validate_exact:
  "ledger_validate L c owner required base len = Ok () \<longleftrightarrow>
     (\<exists>r. bt_get (records L) (cap_kind c, cap_slot c) = Some r \<and> rec_live r \<and>
          c = ledger_capability (cap_kind c) (cap_slot c) r \<and> rec_owner r = owner \<and>
          Rights_contains (rec_rights r) required \<and>
          unat (cap_base c) + unat (cap_len c) < 2 ^ 64 \<and> unat (cap_base c) \<le> unat base \<and>
          unat base + unat len \<le> unat (cap_base c) + unat (cap_len c))"
  by (simp add: ledger_validate_Ok_iff contains_range_unat)

lemma unique_accepted_handle:
  "ledger_validate L c o1 r1 b1 l1 = Ok () \<Longrightarrow> ledger_validate L d o2 r2 b2 l2 = Ok () \<Longrightarrow>
   cap_kind d = cap_kind c \<Longrightarrow> cap_slot d = cap_slot c \<Longrightarrow> d = c"
  by (auto simp: ledger_validate_Ok_iff)

end
