(* ===== verification/Kernel_Irq.thy ===== *)
theory Kernel_Irq
  imports Kernel_Capability Kernel_Smp
begin

text \<open>
  The interrupt controller of \<open>thermite-kernel/src/irq.rs\<close>: the local interrupt state of each
  processor with its save and restore tokens, the vector routes, delivery and end of interrupt.
  The lemmas show that a token restores exactly the state it saved and works once, and that an
  end of interrupt is accepted only for a delivered vector.
\<close>

record IrqStateToken =
  tok_cpu :: CpuId
  tok_generation :: u64
  tok_was_enabled :: bool

record LocalIrqState =
  li_enabled :: bool
  li_generation :: u64
  li_outstanding :: bool

record IrqRoute =
  rt_cpu :: CpuId
  rt_vector :: u8
  rt_masked :: bool

datatype IrqError =
    WrongCapability | MissingRights | UnknownCpu | NestedDisable | ForeignCpu | StaleGeneration
  | AlreadyRestored | GenerationOverflow | InvalidVector | UnknownRoute | DuplicateRoute
  | SpuriousAcknowledgement

record IrqController =
  ic_locals :: "(CpuId, LocalIrqState) btmap"
  ic_routes :: "(u8, IrqRoute) btmap"
  ic_in_service :: "(CpuId \<times> u8, bool) btmap"


section \<open>Operations\<close>

definition IrqController_new :: IrqController where
  "IrqController_new = \<lparr>ic_locals = [], ic_routes = [], ic_in_service = []\<rparr>"

definition irq_require :: "Capability \<Rightarrow> CapabilityKind \<Rightarrow> Rights \<Rightarrow> (unit, IrqError) result" where
  "irq_require c k r =
     (if cap_kind c \<noteq> k then Err WrongCapability
      else if \<not> Rights_contains (cap_rights c) r then Err IrqError.MissingRights
      else Ok ())"

text \<open>\<open>add_cpu\<close> and \<open>route\<close> insert before they look at the displaced value.\<close>

definition irq_add_cpu :: "IrqController \<Rightarrow> CpuId \<Rightarrow> (unit, IrqError) result \<times> IrqController" where
  "irq_add_cpu s cpu =
     (let s' = s\<lparr>ic_locals := bt_insert cpu
                   \<lparr>li_enabled = True, li_generation = 0, li_outstanding = False\<rparr> (ic_locals s)\<rparr>
      in if bt_get (ic_locals s) cpu \<noteq> None then (Err IrqError.UnknownCpu, s') else (Ok (), s'))"

definition save_disable ::
  "IrqController \<Rightarrow> CpuId \<Rightarrow> Capability \<Rightarrow> (IrqStateToken, IrqError) result \<times> IrqController" where
  "save_disable s cpu local =
     try_then (irq_require local CpuLocal Rights_CONTROL) s (\<lambda>_.
     try_then (ok_or (bt_get (ic_locals s) cpu) IrqError.UnknownCpu) s (\<lambda>state.
       if li_outstanding state then (Err NestedDisable, s)
       else try_then (ok_or (checked_add (li_generation state) 1) IrqError.GenerationOverflow) s (\<lambda>g.
         (Ok \<lparr>tok_cpu = cpu, tok_generation = g, tok_was_enabled = li_enabled state\<rparr>,
          s\<lparr>ic_locals := bt_insert cpu
              \<lparr>li_enabled = False, li_generation = g, li_outstanding = True\<rparr> (ic_locals s)\<rparr>))))"

definition restore ::
  "IrqController \<Rightarrow> CpuId \<Rightarrow> Capability \<Rightarrow> IrqStateToken \<Rightarrow> (unit, IrqError) result \<times> IrqController" where
  "restore s cpu local token =
     try_then (irq_require local CpuLocal Rights_CONTROL) s (\<lambda>_.
       if tok_cpu token \<noteq> cpu then (Err IrqError.ForeignCpu, s)
       else try_then (ok_or (bt_get (ic_locals s) cpu) IrqError.UnknownCpu) s (\<lambda>state.
         if tok_generation token \<noteq> li_generation state then (Err IrqError.StaleGeneration, s)
         else if \<not> li_outstanding state then (Err AlreadyRestored, s)
         else (Ok (), s\<lparr>ic_locals := bt_insert cpu
                (state\<lparr>li_enabled := tok_was_enabled token, li_outstanding := False\<rparr>) (ic_locals s)\<rparr>)))"

definition irq_route ::
  "IrqController \<Rightarrow> Capability \<Rightarrow> u8 \<Rightarrow> CpuId \<Rightarrow> (unit, IrqError) result \<times> IrqController" where
  "irq_route s c vector cpu =
     try_then (irq_require c CapabilityKind.Irq Rights_ROUTE) s (\<lambda>_.
       if vector < 32 then (Err InvalidVector, s)
       else if \<not> bt_contains (ic_locals s) cpu then (Err IrqError.UnknownCpu, s)
       else
         let s' = s\<lparr>ic_routes := bt_insert vector
                      \<lparr>rt_cpu = cpu, rt_vector = vector, rt_masked = False\<rparr> (ic_routes s)\<rparr>
         in if bt_get (ic_routes s) vector \<noteq> None then (Err DuplicateRoute, s') else (Ok (), s'))"

definition set_masked :: "IrqController \<Rightarrow> u8 \<Rightarrow> bool \<Rightarrow> (unit, IrqError) result \<times> IrqController" where
  "set_masked s vector masked =
     try_then (ok_or (bt_get (ic_routes s) vector) UnknownRoute) s (\<lambda>r.
       (Ok (), s\<lparr>ic_routes := bt_insert vector (r\<lparr>rt_masked := masked\<rparr>) (ic_routes s)\<rparr>))"

definition irq_deliver :: "IrqController \<Rightarrow> u8 \<Rightarrow> (CpuId, IrqError) result \<times> IrqController" where
  "irq_deliver s vector =
     try_then (ok_or (bt_get (ic_routes s) vector) UnknownRoute) s (\<lambda>r.
       if rt_masked r then (Err UnknownRoute, s)
       else (Ok (rt_cpu r),
             s\<lparr>ic_in_service := bt_insert (rt_cpu r, vector) True (ic_in_service s)\<rparr>))"

definition end_of_interrupt ::
  "IrqController \<Rightarrow> CpuId \<Rightarrow> u8 \<Rightarrow> (unit, IrqError) result \<times> IrqController" where
  "end_of_interrupt s cpu vector =
     (let s' = s\<lparr>ic_in_service := bt_remove (cpu, vector) (ic_in_service s)\<rparr>
      in if bt_get (ic_in_service s) (cpu, vector) \<noteq> Some True
         then (Err SpuriousAcknowledgement, s') else (Ok (), s'))"

definition interrupts_enabled :: "IrqController \<Rightarrow> CpuId \<Rightarrow> bool option" where
  "interrupts_enabled s cpu = map_option li_enabled (bt_get (ic_locals s) cpu)"

interpretation irq_gate: capability_gate irq_require WrongCapability IrqError.MissingRights
  by unfold_locales (auto simp: irq_require_def)

datatype irq_op =
    IAddCpu CpuId
  | ISave CpuId Capability
  | IRestore CpuId Capability IrqStateToken
  | IRoute Capability u8 CpuId
  | IMask u8 bool
  | IDeliver u8
  | IEoi CpuId u8

fun irq_step :: "IrqController \<Rightarrow> irq_op \<Rightarrow> IrqController" where
  "irq_step s (IAddCpu cpu) = snd (irq_add_cpu s cpu)"
| "irq_step s (ISave cpu c) = snd (save_disable s cpu c)"
| "irq_step s (IRestore cpu c t) = snd (restore s cpu c t)"
| "irq_step s (IRoute c v cpu) = snd (irq_route s c v cpu)"
| "irq_step s (IMask v m) = snd (set_masked s v m)"
| "irq_step s (IDeliver v) = snd (irq_deliver s v)"
| "irq_step s (IEoi cpu v) = snd (end_of_interrupt s cpu v)"


section \<open>Save and restore\<close>

lemma save_disable_OkE:
  assumes "save_disable s cpu c = (Ok t, s')"
  obtains l g where "authority c CpuLocal Rights_CONTROL" "bt_get (ic_locals s) cpu = Some l"
    "\<not> li_outstanding l" "checked_add (li_generation l) 1 = Some g"
    "t = \<lparr>tok_cpu = cpu, tok_generation = g, tok_was_enabled = li_enabled l\<rparr>"
    "s' = s\<lparr>ic_locals := bt_insert cpu
       \<lparr>li_enabled = False, li_generation = g, li_outstanding = True\<rparr> (ic_locals s)\<rparr>"
  using assms
  by (auto simp: save_disable_def irq_gate.gate_Ok_iff elim!: try_then_OkE split: if_splits)

lemma restore_OkE:
  assumes "restore s cpu c t = (Ok u, s')"
  obtains l where "authority c CpuLocal Rights_CONTROL" "tok_cpu t = cpu"
    "bt_get (ic_locals s) cpu = Some l" "tok_generation t = li_generation l" "li_outstanding l"
    "s' = s\<lparr>ic_locals := bt_insert cpu
       (l\<lparr>li_enabled := tok_was_enabled t, li_outstanding := False\<rparr>) (ic_locals s)\<rparr>"
  using assms
  by (auto simp: restore_def irq_gate.gate_Ok_iff elim!: try_then_OkE split: if_splits)

lemma save_disable_Err: "save_disable s cpu c = (Err e, s') \<Longrightarrow> s' = s"
  by (auto simp: save_disable_def try_then_def split: result.splits if_splits)

lemma restore_Err: "restore s cpu c t = (Err e, s') \<Longrightarrow> s' = s"
  by (auto simp: restore_def try_then_def split: result.splits if_splits)

lemma locals_untouched [simp]:
  "ic_locals (snd (irq_route s c v cpu)) = ic_locals s"
  "ic_locals (snd (set_masked s v m)) = ic_locals s"
  "ic_locals (snd (irq_deliver s v)) = ic_locals s"
  "ic_locals (snd (end_of_interrupt s cpu v)) = ic_locals s"
  by (auto simp: irq_route_def set_masked_def irq_deliver_def end_of_interrupt_def try_then_def Let_def
      split: result.splits)

text \<open>
  The fate of the token of generation \<open>g\<close>: it is live while interrupts are off on its account, and
  spent once it was restored or a later token was taken.
\<close>

definition token_live :: "u64 \<Rightarrow> LocalIrqState \<Rightarrow> bool" where
  "token_live g l = (l = \<lparr>li_enabled = False, li_generation = g, li_outstanding = True\<rparr>)"

definition token_spent :: "u64 \<Rightarrow> LocalIrqState \<Rightarrow> bool" where
  "token_spent g l = (g < li_generation l \<or> g = li_generation l \<and> \<not> li_outstanding l)"

definition token_state :: "IrqController \<Rightarrow> CpuId \<Rightarrow> (LocalIrqState \<Rightarrow> bool) \<Rightarrow> bool" where
  "token_state s cpu P = (\<exists>l. bt_get (ic_locals s) cpu = Some l \<and> P l)"

lemma save_local:
  assumes "bt_get (ic_locals s) cpu = Some l"
  shows "\<exists>l'. bt_get (ic_locals (snd (save_disable s d c))) cpu = Some l' \<and>
     (l' = l \<or> \<not> li_outstanding l \<and> li_generation l < li_generation l')"
proof (cases "save_disable s d c")
  case (Pair r s')
  show ?thesis
  proof (cases r)
    case (Ok t)
    with Pair have "save_disable s d c = (Ok t, s')" by simp
    then show ?thesis
      by (rule save_disable_OkE) (use assms Pair checked_inc_greater in \<open>cases "d = cpu"; fastforce\<close>)
  qed (use Pair save_disable_Err [of s d c] assms in auto)
qed

lemma restore_local:
  assumes "bt_get (ic_locals s) cpu = Some l"
  shows "\<exists>l'. bt_get (ic_locals (snd (restore s d c t))) cpu = Some l' \<and>
     (l' = l \<or> li_generation l' = li_generation l \<and> \<not> li_outstanding l')"
proof (cases "restore s d c t")
  case (Pair r s')
  show ?thesis
  proof (cases r)
    case (Ok u)
    with Pair have "restore s d c t = (Ok u, s')" by simp
    then show ?thesis
      by (rule restore_OkE) (use assms Pair in \<open>cases "d = cpu"; auto\<close>)
  qed (use Pair restore_Err [of s d c] assms in auto)
qed

text \<open>How any other call changes the local state of one processor.\<close>

lemma irq_step_local:
  assumes "bt_get (ic_locals s) cpu = Some l" "a \<noteq> IAddCpu cpu"
  shows "\<exists>l'. bt_get (ic_locals (irq_step s a)) cpu = Some l' \<and>
     (l' = l \<or> \<not> li_outstanding l \<and> li_generation l < li_generation l'
        \<or> li_generation l' = li_generation l \<and> \<not> li_outstanding l')"
proof (cases a)
  case (ISave d c)
  then show ?thesis using save_local [OF assms(1), of d c] by auto
next
  case (IRestore d c t)
  then show ?thesis using restore_local [OF assms(1), of d c t] by auto
qed (use assms in \<open>auto simp: irq_add_cpu_def Let_def\<close>)

lemma token_spent_replay:
  "token_state s cpu (token_spent g) \<Longrightarrow> IAddCpu cpu \<notin> set ops \<Longrightarrow>
   token_state (replay irq_step s ops) cpu (token_spent g)"
proof (induction ops arbitrary: s)
  case (Cons a ops)
  then obtain l where l: "bt_get (ic_locals s) cpu = Some l" "token_spent g l"
    by (auto simp: token_state_def)
  have "token_state (irq_step s a) cpu (token_spent g)"
    using irq_step_local [OF l(1), of a] l(2) Cons.prems(2) order_less_trans [of g "li_generation l"]
    by (auto simp: token_state_def token_spent_def)
  then show ?case using Cons by simp
qed simp

lemma token_live_replay:
  "token_state s cpu (token_live g) \<Longrightarrow> IAddCpu cpu \<notin> set ops \<Longrightarrow>
   token_state (replay irq_step s ops) cpu (\<lambda>l. token_live g l \<or> token_spent g l)"
proof (induction ops arbitrary: s)
  case (Cons a ops)
  then obtain l where l: "bt_get (ic_locals s) cpu = Some l" "token_live g l"
    by (auto simp: token_state_def)
  obtain l' where l': "bt_get (ic_locals (irq_step s a)) cpu = Some l'" "token_live g l' \<or> token_spent g l'"
    using irq_step_local [OF l(1), of a] l(2) Cons.prems(2)
    by (auto simp: token_live_def token_spent_def)
  show ?case
  proof (cases "token_live g l'")
    case True
    then show ?thesis using Cons l' by (simp add: token_state_def)
  next
    case False
    then have "token_state (irq_step s a) cpu (token_spent g)" using l' by (simp add: token_state_def)
    then show ?thesis
      using token_spent_replay [of "irq_step s a" cpu g ops] Cons.prems(2) by (auto simp: token_state_def)
  qed
qed (auto simp: token_state_def)

text \<open>
  A saved interrupt state is restored exactly once and exactly as it was. If
  \<open>save_disable\<close> hands out a token and, after any calls other than registering the processor
  again, \<open>restore\<close> accepts it, then interrupts were off until then, the state afterwards is the
  one before the save, and no later call accepts the token again.
\<close>

lemma irq_token_restores_once:
  assumes "save_disable s cpu c = (Ok t, s1)" "IAddCpu cpu \<notin> set ops" "s2 = replay irq_step s1 ops"
    and "restore s2 cpu c' t = (Ok u, s3)" "IAddCpu cpu \<notin> set later"
  shows "interrupts_enabled s2 cpu = Some False
       \<and> interrupts_enabled s3 cpu = interrupts_enabled s cpu
       \<and> \<not> is_Ok (fst (restore (replay irq_step s3 later) cpu c'' t))"
proof -
  from assms(1) obtain l g where l: "bt_get (ic_locals s) cpu = Some l"
    and t: "t = \<lparr>tok_cpu = cpu, tok_generation = g, tok_was_enabled = li_enabled l\<rparr>"
    and s1: "s1 = s\<lparr>ic_locals := bt_insert cpu
       \<lparr>li_enabled = False, li_generation = g, li_outstanding = True\<rparr> (ic_locals s)\<rparr>"
    by (rule save_disable_OkE)
  have "token_state s1 cpu (token_live g)" by (simp add: s1 token_state_def token_live_def)
  from token_live_replay [OF this assms(2)] obtain m where
    m: "bt_get (ic_locals s2) cpu = Some m" "token_live g m \<or> token_spent g m"
    by (auto simp: assms(3) token_state_def)
  from assms(4) obtain k where k: "bt_get (ic_locals s2) cpu = Some k" "tok_generation t = li_generation k"
    "li_outstanding k" and s3: "s3 = s2\<lparr>ic_locals := bt_insert cpu
       (k\<lparr>li_enabled := tok_was_enabled t, li_outstanding := False\<rparr>) (ic_locals s2)\<rparr>"
    by (rule restore_OkE)
  have live: "token_live g k" using m k t by (auto simp: token_spent_def)
  have "token_state s3 cpu (token_spent g)"
    using live by (simp add: s3 token_state_def token_spent_def token_live_def)
  from token_spent_replay [OF this assms(5)] obtain n where
    "bt_get (ic_locals (replay irq_step s3 later)) cpu = Some n" "token_spent g n"
    by (auto simp: token_state_def)
  then have "\<not> is_Ok (fst (restore (replay irq_step s3 later) cpu c'' t))"
    by (auto simp: restore_def try_then_def token_spent_def t split: result.splits)
  then show ?thesis using l live k(1) by (simp add: interrupts_enabled_def s3 token_live_def t)
qed

definition demo_cpu_cap :: Capability where
  "demo_cpu_cap = \<lparr>cap_kind = CpuLocal, cap_slot = 0, cap_owner = 0, cap_rights = 127,
                   cap_generation = 0, cap_base = 0, cap_len = 0\<rparr>"

definition demo_irq :: IrqController where
  "demo_irq = snd (irq_add_cpu IrqController_new 2)"

lemma demo_irq_save:
  "save_disable demo_irq 2 demo_cpu_cap =
     (Ok \<lparr>tok_cpu = 2, tok_generation = 1, tok_was_enabled = True\<rparr>, snd (save_disable demo_irq 2 demo_cpu_cap))"
  by (simp add: save_disable_def demo_irq_def irq_add_cpu_def IrqController_new_def irq_require_def
      demo_cpu_cap_def Rights_contains_def Rights_CONTROL_def checked_add_def Let_def)

lemma irq_token_restores_once_example:
  "let s1 = snd (save_disable demo_irq 2 demo_cpu_cap);
       t = \<lparr>tok_cpu = 2, tok_generation = 1, tok_was_enabled = True\<rparr>;
       s3 = snd (restore s1 2 demo_cpu_cap t)
   in restore s1 2 demo_cpu_cap t = (Ok (), s3) \<and> interrupts_enabled s1 2 = Some False
      \<and> interrupts_enabled s3 2 = interrupts_enabled demo_irq 2
      \<and> \<not> is_Ok (fst (restore (replay irq_step s3 [ISave 2 demo_cpu_cap]) 2 demo_cpu_cap t))"
proof -
  let ?s1 = "snd (save_disable demo_irq 2 demo_cpu_cap)"
  let ?t = "\<lparr>tok_cpu = 2, tok_generation = 1, tok_was_enabled = True\<rparr>"
  have r: "restore ?s1 2 demo_cpu_cap ?t = (Ok (), snd (restore ?s1 2 demo_cpu_cap ?t))"
    by (simp add: restore_def save_disable_def demo_irq_def irq_add_cpu_def IrqController_new_def
        irq_require_def demo_cpu_cap_def Rights_contains_def Rights_CONTROL_def checked_add_def Let_def)
  show ?thesis unfolding Let_def
    using irq_token_restores_once [OF demo_irq_save, of "[]" ?s1 demo_cpu_cap "()" _ "[ISave 2 demo_cpu_cap]" demo_cpu_cap, OF _ _ r] r
    by simp
qed


section \<open>Routes and delivery\<close>

text \<open>Routes only carry vectors from 32 up, under their own vector, to registered processors.\<close>

definition irq_inv :: "IrqController \<Rightarrow> bool" where
  "irq_inv s = bt_all (\<lambda>v r. 32 \<le> v \<and> rt_vector r = v \<and> bt_contains (ic_locals s) (rt_cpu r)) (ic_routes s)"

definition irq_evolves :: "IrqController \<Rightarrow> IrqController \<Rightarrow> bool" where
  "irq_evolves s s' = (\<forall>cpu. bt_contains (ic_locals s) cpu \<longrightarrow> bt_contains (ic_locals s') cpu)"

lemma irq_evolves_step: "irq_evolves s (irq_step s a)"
proof -
  have "bt_contains (ic_locals (irq_step s a)) cpu" if "bt_contains (ic_locals s) cpu" for cpu
  proof (cases "a = IAddCpu cpu")
    case True
    then show ?thesis by (simp add: irq_add_cpu_def Let_def)
  next
    case False
    from that obtain l where "bt_get (ic_locals s) cpu = Some l" by (auto simp: bt_contains_def)
    from irq_step_local [OF this False] show ?thesis by (auto simp: bt_contains_def)
  qed
  then show ?thesis by (simp add: irq_evolves_def)
qed

lemma irq_step_routes:
  assumes "irq_inv s"
  shows "bt_all (\<lambda>v r. 32 \<le> v \<and> rt_vector r = v \<and> bt_contains (ic_locals s) (rt_cpu r)) (ic_routes (irq_step s a))"
proof (cases a)
  case (IRoute c v cpu)
  then show ?thesis using assms
    by (auto simp: irq_inv_def irq_route_def try_then_def Let_def not_less split: result.splits)
next
  case (IMask v m)
  show ?thesis
  proof (cases "bt_get (ic_routes s) v")
    case (Some r)
    then show ?thesis using IMask assms bt_allD [OF assms [unfolded irq_inv_def] Some]
      by (auto simp: irq_inv_def set_masked_def)
  qed (use IMask assms in \<open>simp add: irq_inv_def set_masked_def\<close>)
next
  case (ISave cpu c)
  then show ?thesis using assms
    by (auto simp: irq_inv_def save_disable_def try_then_def split: result.splits)
next
  case (IRestore cpu c t)
  then show ?thesis using assms
    by (auto simp: irq_inv_def restore_def try_then_def split: result.splits)
qed (use assms in \<open>auto simp: irq_inv_def irq_add_cpu_def irq_deliver_def end_of_interrupt_def
       try_then_def Let_def split: result.splits\<close>)

lemma irq_inv_step: "irq_inv s \<Longrightarrow> irq_inv (irq_step s a)"
  using irq_step_routes [of s a] irq_evolves_step [of s a]
  unfolding irq_inv_def irq_evolves_def by (auto elim: bt_all_mono)

interpretation irq: op_machine irq_step irq_inv irq_evolves
  by unfold_locales (auto simp: irq_inv_step irq_evolves_step, auto simp: irq_evolves_def)

lemma deliver_OkE:
  assumes "irq_deliver s v = (Ok cpu, s')"
  obtains r where "bt_get (ic_routes s) v = Some r" "\<not> rt_masked r" "rt_cpu r = cpu"
    "s' = s\<lparr>ic_in_service := bt_insert (cpu, v) True (ic_in_service s)\<rparr>"
  using assms by (auto simp: irq_deliver_def elim!: try_then_OkE split: if_splits)

lemma in_service_untouched [simp]:
  "ic_in_service (snd (irq_add_cpu s cpu)) = ic_in_service s"
  "ic_in_service (snd (save_disable s cpu c)) = ic_in_service s"
  "ic_in_service (snd (restore s cpu c t)) = ic_in_service s"
  "ic_in_service (snd (irq_route s c v cpu)) = ic_in_service s"
  "ic_in_service (snd (set_masked s v m)) = ic_in_service s"
  by (auto simp: irq_add_cpu_def save_disable_def restore_def irq_route_def set_masked_def
      try_then_def Let_def split: result.splits)

lemma in_service_history:
  assumes "bt_get (ic_in_service (replay irq_step IrqController_new ops)) (cpu, v) = Some b"
  shows "\<exists>before after. ops = before @ IDeliver v # after \<and> IEoi cpu v \<notin> set after \<and>
     fst (irq_deliver (replay irq_step IrqController_new before) v) = Ok cpu"
  using assms
proof (induction ops rule: rev_induct)
  case (snoc a ops)
  let ?s = "replay irq_step IrqController_new ops"
  show ?case
  proof (cases "a = IDeliver v \<and> fst (irq_deliver ?s v) = Ok cpu")
    case True
    then show ?thesis by (intro exI [of _ ops] exI [of _ "[]"]) simp
  next
    case False
    with snoc.prems have "bt_get (ic_in_service ?s) (cpu, v) = Some b \<and> a \<noteq> IEoi cpu v"
      by (cases a) (auto simp: replay_append irq_deliver_def end_of_interrupt_def try_then_def Let_def
          split: result.splits if_splits)
    with snoc.IH obtain before after where "ops = before @ IDeliver v # after" "IEoi cpu v \<notin> set (after @ [a])"
      "fst (irq_deliver (replay irq_step IrqController_new before) v) = Ok cpu" by auto
    then show ?thesis by (intro exI [of _ before] exI [of _ "after @ [a]"]) simp
  qed
qed (simp add: IrqController_new_def)

text \<open>
  An end of interrupt answers one delivery. When, after any calls on a new controller,
  \<open>end_of_interrupt\<close> succeeds for a processor and a vector, that vector was delivered to that
  processor earlier and has not been acknowledged since; it is an external vector (32 or more),
  and the processor is registered.
\<close>

lemma eoi_answers_one_delivery:
  assumes "end_of_interrupt (replay irq_step IrqController_new ops) cpu v = (Ok u, s')"
  shows "\<exists>before after. ops = before @ IDeliver v # after \<and> IEoi cpu v \<notin> set after
     \<and> fst (irq_deliver (replay irq_step IrqController_new before) v) = Ok cpu
     \<and> 32 \<le> v \<and> bt_contains (ic_locals (replay irq_step IrqController_new ops)) cpu"
proof -
  have "bt_get (ic_in_service (replay irq_step IrqController_new ops)) (cpu, v) = Some True"
    using assms by (auto simp: end_of_interrupt_def Let_def split: if_splits)
  from in_service_history [OF this] obtain before after where
    h: "ops = before @ IDeliver v # after" "IEoi cpu v \<notin> set after"
    "fst (irq_deliver (replay irq_step IrqController_new before) v) = Ok cpu" by blast
  let ?s = "replay irq_step IrqController_new before"
  have "irq_inv IrqController_new" by (simp add: irq_inv_def IrqController_new_def)
  then have inv: "irq_inv ?s" by (rule irq.inv_replay)
  from h(3) have "irq_deliver ?s v = (Ok cpu, snd (irq_deliver ?s v))" by (simp add: prod_eq_iff)
  then obtain r where "bt_get (ic_routes ?s) v = Some r" "rt_cpu r = cpu" by (rule deliver_OkE)
  with inv have "32 \<le> v" "bt_contains (ic_locals ?s) cpu" by (auto simp: irq_inv_def bt_all_def)
  then show ?thesis
    using h irq.evolves_replay [OF inv, of "IDeliver v # after"] by (auto simp: irq_evolves_def replay_append)
qed

definition demo_irq_cap :: Capability where
  "demo_irq_cap = demo_cpu_cap\<lparr>cap_kind := CapabilityKind.Irq\<rparr>"

lemma eoi_answers_one_delivery_example:
  "let s = replay irq_step IrqController_new [IAddCpu 2, IRoute demo_irq_cap 40 2, IDeliver 40]
   in fst (end_of_interrupt s 2 40) = Ok () \<and> bt_contains (ic_locals s) 2"
proof -
  let ?s = "replay irq_step IrqController_new [IAddCpu 2, IRoute demo_irq_cap 40 2, IDeliver 40]"
  have e: "end_of_interrupt ?s 2 40 = (Ok (), snd (end_of_interrupt ?s 2 40))"
    by (simp add: end_of_interrupt_def irq_deliver_def irq_route_def irq_add_cpu_def IrqController_new_def
        irq_require_def demo_irq_cap_def demo_cpu_cap_def Rights_contains_def Rights_ROUTE_def bt_contains_def Let_def)
  from eoi_answers_one_delivery [OF e] e show ?thesis unfolding Let_def by (metis fst_conv)
qed

end
