(* ===== verification/Kernel_Services.thy ===== *)
theory Kernel_Services
  imports Kernel_Capability Kernel_Smp
begin

text \<open>
  The platform services of \<open>thermite-kernel/src/services.rs\<close>: the monotone clock and its
  per-processor deadlines, the entropy source and the terminal power state. The lemmas show
  what may and may not change over any sequence of calls, when a deadline is due, and that the
  xorshift generator never reaches its fixed point zero.
\<close>

record Instant =
  in_ticks :: u64
  in_scale_numerator :: u64
  in_scale_denominator :: u64
  in_error_ticks :: u64

datatype TerminalState = Running | Reboot | PowerOff | Halt

datatype ServiceError =
    WrongCapability | MissingRights | ClockWentBackward | InvalidScale | DeadlineInPast | NoDeadline
  | EntropyUnavailable | BufferTooLarge | AlreadyTerminal

record PlatformServices =
  ps_now :: u64
  ps_scale_numerator :: u64
  ps_scale_denominator :: u64
  ps_error_ticks :: u64
  ps_deadlines :: "(CpuId, u64) btmap"
  ps_entropy_state :: u64
  ps_entropy_healthy :: bool
  ps_terminal :: TerminalState


section \<open>Operations\<close>

definition service_require :: "Capability \<Rightarrow> CapabilityKind \<Rightarrow> Rights \<Rightarrow> (unit, ServiceError) result" where
  "service_require c k r =
     (if cap_kind c \<noteq> k then Err WrongCapability
      else if \<not> Rights_contains (cap_rights c) r then Err ServiceError.MissingRights
      else Ok ())"

definition PlatformServices_new :: "u64 \<Rightarrow> u64 \<Rightarrow> (PlatformServices, ServiceError) result" where
  "PlatformServices_new numerator denominator =
     (if numerator = 0 \<or> denominator = 0 then Err InvalidScale
      else Ok \<lparr>ps_now = 0, ps_scale_numerator = numerator, ps_scale_denominator = denominator,
               ps_error_ticks = 0, ps_deadlines = [], ps_entropy_state = 0x6a09e667f3bcc909,
               ps_entropy_healthy = True, ps_terminal = Running\<rparr>)"

definition update_clock ::
  "PlatformServices \<Rightarrow> u64 \<Rightarrow> u64 \<Rightarrow> (unit, ServiceError) result \<times> PlatformServices" where
  "update_clock s ticks error_ticks =
     (if ticks < ps_now s then (Err ClockWentBackward, s)
      else (Ok (), s\<lparr>ps_now := ticks, ps_error_ticks := error_ticks\<rparr>))"

definition read_clock :: "PlatformServices \<Rightarrow> Capability \<Rightarrow> (Instant, ServiceError) result" where
  "read_clock s c =
     (case service_require c Clock Rights_READ of
        Err e \<Rightarrow> Err e
      | Ok _ \<Rightarrow> Ok \<lparr>in_ticks = ps_now s, in_scale_numerator = ps_scale_numerator s,
                     in_scale_denominator = ps_scale_denominator s, in_error_ticks = ps_error_ticks s\<rparr>)"

definition arm_deadline ::
  "PlatformServices \<Rightarrow> Capability \<Rightarrow> CpuId \<Rightarrow> u64 \<Rightarrow> (unit, ServiceError) result \<times> PlatformServices" where
  "arm_deadline s c cpu deadline =
     try_then (service_require c Clock Rights_CONTROL) s (\<lambda>_.
       if deadline \<le> ps_now s then (Err DeadlineInPast, s)
       else (Ok (), s\<lparr>ps_deadlines := bt_insert cpu deadline (ps_deadlines s)\<rparr>))"

definition cancel_deadline ::
  "PlatformServices \<Rightarrow> Capability \<Rightarrow> CpuId \<Rightarrow> (u64, ServiceError) result \<times> PlatformServices" where
  "cancel_deadline s c cpu =
     try_then (service_require c Clock Rights_CONTROL) s (\<lambda>_.
     try_then (ok_or (bt_get (ps_deadlines s) cpu) NoDeadline) s (\<lambda>d.
       (Ok d, s\<lparr>ps_deadlines := bt_remove cpu (ps_deadlines s)\<rparr>)))"

definition due :: "PlatformServices \<Rightarrow> CpuId list" where
  "due s = map fst (filter (\<lambda>e. snd e \<le> ps_now s) (ps_deadlines s))"

definition set_entropy_health :: "PlatformServices \<Rightarrow> bool \<Rightarrow> PlatformServices" where
  "set_entropy_health s healthy = s\<lparr>ps_entropy_healthy := healthy\<rparr>"

definition xorshift :: "u64 \<Rightarrow> u64" where
  "xorshift x0 =
     (let x1 = x0 XOR push_bit 13 x0;
          x2 = x1 XOR drop_bit 7 x1
      in x2 XOR push_bit 17 x2)"

text \<open>The loop over the output buffer: each byte is the low byte of the next state.\<close>

fun entropy_bytes :: "u64 \<Rightarrow> u8 list \<Rightarrow> u8 list \<times> u64" where
  "entropy_bytes x [] = ([], x)"
| "entropy_bytes x (_ # out) =
     (let x' = xorshift x; (bs, y) = entropy_bytes x' out in (ucast x' # bs, y))"

text \<open>The \<open>Ok\<close> value is the new content of the buffer; an error leaves the buffer as it was.\<close>

definition fill_entropy ::
  "PlatformServices \<Rightarrow> Capability \<Rightarrow> u8 list \<Rightarrow> (u8 list, ServiceError) result \<times> PlatformServices" where
  "fill_entropy s c out =
     try_then (service_require c Entropy Rights_READ) s (\<lambda>_.
       if \<not> ps_entropy_healthy s then (Err EntropyUnavailable, s)
       else if 4096 < length out then (Err BufferTooLarge, s)
       else let (bs, x) = entropy_bytes (ps_entropy_state s) out
            in (Ok bs, s\<lparr>ps_entropy_state := x\<rparr>))"

definition set_terminal ::
  "PlatformServices \<Rightarrow> Capability \<Rightarrow> TerminalState \<Rightarrow> (unit, ServiceError) result \<times> PlatformServices" where
  "set_terminal s c state =
     try_then (service_require c Power Rights_CONTROL) s (\<lambda>_.
       if ps_terminal s \<noteq> Running \<or> state = Running then (Err AlreadyTerminal, s)
       else (Ok (), s\<lparr>ps_terminal := state\<rparr>))"

interpretation service_gate: capability_gate service_require WrongCapability ServiceError.MissingRights
  by unfold_locales (auto simp: service_require_def)

datatype service_op =
    PUpdateClock u64 u64
  | PArm Capability CpuId u64
  | PCancel Capability CpuId
  | PHealth bool
  | PEntropy Capability "u8 list"
  | PTerminal Capability TerminalState

fun service_step :: "PlatformServices \<Rightarrow> service_op \<Rightarrow> PlatformServices" where
  "service_step s (PUpdateClock t e) = snd (update_clock s t e)"
| "service_step s (PArm c cpu d) = snd (arm_deadline s c cpu d)"
| "service_step s (PCancel c cpu) = snd (cancel_deadline s c cpu)"
| "service_step s (PHealth h) = set_entropy_health s h"
| "service_step s (PEntropy c out) = snd (fill_entropy s c out)"
| "service_step s (PTerminal c t) = snd (set_terminal s c t)"


section \<open>The entropy generator\<close>

lemma xor_push_bit_eq_0:
  assumes "x XOR push_bit (Suc k) x = (0 :: 'a::len word)"
  shows "x = 0"
proof (rule bit_word_eqI)
  have eq: "x = push_bit (Suc k) x" using assms by (metis xor_self_eq xor.right_neutral xor.assoc)
  fix n
  assume "n < LENGTH('a)"
  have "\<not> bit x n"
  proof (induction n rule: less_induct)
    case (less n)
    have "bit x n \<longleftrightarrow> bit (push_bit (Suc k) x) n" using eq by (rule arg_cong)
    also have "\<dots> \<longrightarrow> Suc k \<le> n \<and> bit x (n - Suc k)" by (simp only: bit_push_bit_iff) simp
    finally show ?case using less [of "n - Suc k"] by linarith
  qed
  then show "bit x n \<longleftrightarrow> bit 0 n" by simp
qed

lemma xor_drop_bit_eq_0:
  assumes "x XOR drop_bit (Suc k) x = (0 :: 'a::len word)"
  shows "x = 0"
proof (rule bit_word_eqI)
  have eq: "x = drop_bit (Suc k) x" using assms by (metis xor_self_eq xor.right_neutral xor.assoc)
  fix n
  assume "n < LENGTH('a)"
  have step: "bit x n \<longleftrightarrow> bit x (Suc k + n)" for n
    by (metis eq bit_drop_bit_eq comp_apply)
  have "\<not> bit x n"
  proof (induction "LENGTH('a) - n" arbitrary: n rule: less_induct)
    case less
    show ?case
    proof (cases "n < LENGTH('a)")
      case True
      then show ?thesis using less [of "Suc k + n"] step [of n] by simp
    qed (use bit_imp_le_length [of x n] in auto)
  qed
  then show "bit x n \<longleftrightarrow> bit 0 n" by simp
qed

lemma xorshift_nonzero:
  assumes "x \<noteq> 0"
  shows "xorshift x \<noteq> 0"
proof -
  have "x XOR push_bit 13 x \<noteq> 0" using assms xor_push_bit_eq_0 [where k = 12, of x] by auto
  then have "(x XOR push_bit 13 x) XOR drop_bit 7 (x XOR push_bit 13 x) \<noteq> 0"
    using xor_drop_bit_eq_0 [where k = 6, of "x XOR push_bit 13 x"] by auto
  then show ?thesis unfolding xorshift_def Let_def
    using xor_push_bit_eq_0 [where k = 16, of "(x XOR push_bit 13 x) XOR drop_bit 7 (x XOR push_bit 13 x)"] by auto
qed

lemma entropy_bytes_state: "x \<noteq> 0 \<Longrightarrow> snd (entropy_bytes x out) \<noteq> 0"
  by (induction out arbitrary: x) (auto simp: Let_def split_beta xorshift_nonzero)

lemma entropy_bytes_length [simp]: "length (fst (entropy_bytes x out)) = length out"
  by (induction out arbitrary: x) (auto simp: Let_def split_beta)


section \<open>What changes over time\<close>

definition service_inv :: "PlatformServices \<Rightarrow> bool" where
  "service_inv s = (bt_wf (ps_deadlines s) \<and> ps_entropy_state s \<noteq> 0 \<and>
     ps_scale_numerator s \<noteq> 0 \<and> ps_scale_denominator s \<noteq> 0)"

definition service_evolves :: "PlatformServices \<Rightarrow> PlatformServices \<Rightarrow> bool" where
  "service_evolves s s' =
     (ps_now s \<le> ps_now s' \<and> (ps_terminal s \<noteq> Running \<longrightarrow> ps_terminal s' = ps_terminal s) \<and>
      ps_scale_numerator s' = ps_scale_numerator s \<and> ps_scale_denominator s' = ps_scale_denominator s)"

lemma service_step_ok:
  assumes "service_inv s"
  shows "service_inv (service_step s a) \<and> service_evolves s (service_step s a)"
proof (cases a)
  case (PEntropy c out)
  then show ?thesis using assms entropy_bytes_state [of "ps_entropy_state s" out]
    by (auto simp: service_inv_def service_evolves_def fill_entropy_def try_then_def
        split: result.splits prod.splits)
qed (use assms in \<open>auto simp: service_inv_def service_evolves_def update_clock_def arm_deadline_def
       cancel_deadline_def set_entropy_health_def set_terminal_def try_then_def split: result.splits\<close>)

lemma service_evolves_order:
  "service_evolves s s"
  "service_evolves s t \<Longrightarrow> service_evolves t u \<Longrightarrow> service_evolves s u"
  by (auto simp: service_evolves_def)

interpretation services: op_machine service_step service_inv service_evolves
  by unfold_locales (use service_step_ok service_evolves_order in blast)+

lemma PlatformServices_new_inv: "PlatformServices_new p q = Ok s \<Longrightarrow> service_inv s"
  by (auto simp: PlatformServices_new_def service_inv_def split: if_splits)

text \<open>
  Time and power only move forward, and randomness never degenerates. From a newly created
  service block, between any two moments of any sequence of calls, the clock does not go back, the
  tick scale is fixed and non-zero, a terminal power state is final, and the entropy generator's
  state is never zero.
\<close>

lemma services_only_move_forward:
  assumes "PlatformServices_new p q = Ok s0" and "s1 = replay service_step s0 ops"
    and "s2 = replay service_step s1 later"
  shows "ps_now s1 \<le> ps_now s2 \<and> ps_scale_numerator s2 = p \<and> ps_scale_denominator s2 = q
     \<and> p \<noteq> 0 \<and> q \<noteq> 0 \<and> (ps_terminal s1 \<noteq> Running \<longrightarrow> ps_terminal s2 = ps_terminal s1)
     \<and> ps_entropy_state s2 \<noteq> 0"
proof -
  note inv0 = PlatformServices_new_inv [OF assms(1)]
  have inv1: "service_inv s1" unfolding assms(2) by (rule services.inv_replay [OF inv0])
  have "service_inv s2" unfolding assms(3) by (rule services.inv_replay [OF inv1])
  moreover have "service_evolves s0 s1" unfolding assms(2) by (rule services.evolves_replay [OF inv0])
  moreover have "service_evolves s1 s2" unfolding assms(3) by (rule services.evolves_replay [OF inv1])
  moreover have "ps_scale_numerator s0 = p" "ps_scale_denominator s0 = q"
    using assms(1) by (auto simp: PlatformServices_new_def split: if_splits)
  ultimately show ?thesis by (auto simp: service_inv_def service_evolves_def)
qed

definition demo_power_cap :: Capability where
  "demo_power_cap = \<lparr>cap_kind = Power, cap_slot = 0, cap_owner = 0, cap_rights = 127,
                     cap_generation = 0, cap_base = 0, cap_len = 0\<rparr>"

definition demo_services :: PlatformServices where
  "demo_services = \<lparr>ps_now = 0, ps_scale_numerator = 1, ps_scale_denominator = 1000,
     ps_error_ticks = 0, ps_deadlines = [], ps_entropy_state = 0x6a09e667f3bcc909,
     ps_entropy_healthy = True, ps_terminal = Running\<rparr>"

lemma services_only_move_forward_example:
  "PlatformServices_new 1 1000 = Ok demo_services \<and>
   (let s1 = replay service_step demo_services [PUpdateClock 5 0, PTerminal demo_power_cap Halt];
        s2 = replay service_step s1 [PUpdateClock 3 0, PTerminal demo_power_cap Reboot]
    in ps_now s1 \<le> ps_now s2 \<and> ps_terminal s1 = Halt \<and> ps_terminal s2 = Halt)"
proof -
  have n: "PlatformServices_new 1 1000 = Ok demo_services"
    by (simp add: PlatformServices_new_def demo_services_def)
  have t: "ps_terminal (replay service_step demo_services [PUpdateClock 5 0, PTerminal demo_power_cap Halt]) = Halt"
    by (simp add: demo_services_def update_clock_def set_terminal_def service_require_def demo_power_cap_def
        Rights_contains_def Rights_CONTROL_def)
  show ?thesis unfolding Let_def
    using services_only_move_forward [OF n refl refl,
        of "[PUpdateClock 5 0, PTerminal demo_power_cap Halt]"
           "[PUpdateClock 3 0, PTerminal demo_power_cap Reboot]"] n t
    by (metis TerminalState.distinct(5))
qed


section \<open>Deadlines\<close>

lemma due_iff:
  "service_inv s \<Longrightarrow> cpu \<in> set (due s) \<longleftrightarrow> (\<exists>d. bt_get (ps_deadlines s) cpu = Some d \<and> d \<le> ps_now s)"
  by (force simp: due_def service_inv_def bt_get_Some_iff)

definition touches_deadline :: "CpuId \<Rightarrow> service_op \<Rightarrow> bool" where
  "touches_deadline cpu a = ((\<exists>c d. a = PArm c cpu d) \<or> (\<exists>c. a = PCancel c cpu))"

lemma deadline_kept:
  "\<not> touches_deadline cpu a \<Longrightarrow>
   bt_get (ps_deadlines (service_step s a)) cpu = bt_get (ps_deadlines s) cpu"
  by (cases a) (auto simp: touches_deadline_def update_clock_def arm_deadline_def cancel_deadline_def
      set_entropy_health_def fill_entropy_def set_terminal_def try_then_def split: result.splits prod.splits)

text \<open>
  A deadline is due exactly when its time has come. After a successful \<open>arm_deadline\<close> the
  processor is not due, and after any calls that neither arm nor cancel that processor's deadline it
  is due if and only if the clock has reached the deadline.
\<close>

lemma deadline_due_exactly:
  assumes "service_inv s" "arm_deadline s c cpu d = (Ok u, s1)"
    and "list_all (\<lambda>a. \<not> touches_deadline cpu a) ops"
  shows "cpu \<notin> set (due s1) \<and>
    (cpu \<in> set (due (replay service_step s1 ops)) \<longleftrightarrow> d \<le> ps_now (replay service_step s1 ops))"
proof -
  have s1: "bt_get (ps_deadlines s1) cpu = Some d" "\<not> d \<le> ps_now s1"
    using assms(2) by (auto simp: arm_deadline_def elim!: try_then_OkE split: if_splits)
  have inv: "service_inv s1"
    using services.inv_step [OF assms(1), of "PArm c cpu d"] assms(2) by simp
  have "bt_get (ps_deadlines (replay service_step s1 ops)) cpu = Some d"
    using assms(3) s1(1) by (induction ops arbitrary: s1) (auto simp: deadline_kept)
  then show ?thesis using due_iff [OF inv] due_iff [OF services.inv_replay [OF inv]] s1 by auto
qed

lemma deadline_due_exactly_example:
  "let c = demo_power_cap\<lparr>cap_kind := Clock\<rparr>; s1 = snd (arm_deadline demo_services c 3 10)
   in fst (arm_deadline demo_services c 3 10) = Ok () \<and> 3 \<notin> set (due s1)
      \<and> 3 \<in> set (due (replay service_step s1 [PUpdateClock 10 0]))"
proof -
  let ?c = "demo_power_cap\<lparr>cap_kind := Clock\<rparr>"
  let ?s1 = "snd (arm_deadline demo_services ?c 3 10)"
  have a: "arm_deadline demo_services ?c 3 10 = (Ok (), ?s1)"
    by (simp add: arm_deadline_def demo_services_def service_require_def demo_power_cap_def
        Rights_contains_def Rights_CONTROL_def)
  have i: "service_inv demo_services" by (simp add: service_inv_def demo_services_def)
  have "ps_now (replay service_step ?s1 [PUpdateClock 10 0]) = 10"
    by (simp add: arm_deadline_def demo_services_def service_require_def demo_power_cap_def
        Rights_contains_def Rights_CONTROL_def update_clock_def)
  then show ?thesis unfolding Let_def
    using deadline_due_exactly [OF i a, of "[PUpdateClock 10 0]"] a
    by (auto simp: touches_deadline_def prod_eq_iff)
qed

end
