(* ===== verification/Kernel_Device.thy ===== *)
theory Kernel_Device
  imports Kernel_Capability
begin

text \<open>
  The device bus of \<open>thermite-kernel/src/device.rs\<close>: memory-mapped and port accesses of one, two,
  four and eight bytes in little-endian order, behind the capability and range test, and the
  barrier epoch. The lemmas show that a read returns what was last written there, that accesses
  leave every other byte alone and that the overflow branch of a port write is never taken.
\<close>

datatype DeviceWidth = U8 | U16 | U32 | U64

fun width_bytes :: "DeviceWidth \<Rightarrow> u64" where
  "width_bytes U8 = 1"
| "width_bytes U16 = 2"
| "width_bytes U32 = 4"
| "width_bytes U64 = 8"

fun width_mask :: "DeviceWidth \<Rightarrow> u64" where
  "width_mask U8 = 0xff"
| "width_mask U16 = 0xffff"
| "width_mask U32 = 0xffffffff"
| "width_mask U64 = - 1"

datatype DeviceBarrier = Compiler | ReadBarrier | WriteBarrier | FullBarrier

datatype DeviceError =
    WrongCapability | MissingRights | OutOfRange | Misaligned | UnsupportedWidth | RangeOverflow

record DeviceBus =
  db_mmio :: "(u64, u8) btmap"
  db_pio :: "(u16, u8) btmap"
  db_barrier_epoch :: u64


section \<open>Operations\<close>

definition DeviceBus_new :: DeviceBus where
  "DeviceBus_new = \<lparr>db_mmio = [], db_pio = [], db_barrier_epoch = 0\<rparr>"

definition device_validate_range ::
  "Capability \<Rightarrow> CapabilityKind \<Rightarrow> Rights \<Rightarrow> u64 \<Rightarrow> DeviceWidth \<Rightarrow> (unit, DeviceError) result" where
  "device_validate_range c k r address width =
     (if cap_kind c \<noteq> k then Err WrongCapability
      else if \<not> Rights_contains (cap_rights c) r then Err DeviceError.MissingRights
      else if address mod width_bytes width \<noteq> 0 then Err Misaligned
      else if \<not> Capability_contains_range c address (width_bytes width) then Err DeviceError.OutOfRange
      else Ok ())"

text \<open>A missing byte reads as zero. The index runs over \<open>0..width.bytes()\<close>.\<close>

definition byte_or_zero :: "('a::len word, u8) btmap \<Rightarrow> 'a word \<Rightarrow> u8" where
  "byte_or_zero m a = (case bt_get m a of None \<Rightarrow> 0 | Some b \<Rightarrow> b)"

definition read_bytes :: "(u64, u8) btmap \<Rightarrow> u64 \<Rightarrow> DeviceWidth \<Rightarrow> u64" where
  "read_bytes m address width =
     foldl (\<lambda>v i. v OR push_bit (i * 8) (ucast (byte_or_zero m (address + of_nat i))))
       0 [0..<unat (width_bytes width)]"

definition write_bytes :: "(u64, u8) btmap \<Rightarrow> u64 \<Rightarrow> DeviceWidth \<Rightarrow> u64 \<Rightarrow> (u64, u8) btmap" where
  "write_bytes m address width v =
     foldl (\<lambda>m i. bt_insert (address + of_nat i) (ucast (drop_bit (i * 8) v AND 0xff)) m)
       m [0..<unat (width_bytes width)]"

definition read_port_bytes :: "(u16, u8) btmap \<Rightarrow> u16 \<Rightarrow> DeviceWidth \<Rightarrow> u64" where
  "read_port_bytes m port width =
     foldl (\<lambda>v i. v OR push_bit (i * 8) (ucast (byte_or_zero m (saturating_add port (of_nat i)))))
       0 [0..<unat (width_bytes width)]"

definition mmio_read :: "DeviceBus \<Rightarrow> Capability \<Rightarrow> u64 \<Rightarrow> DeviceWidth \<Rightarrow> (u64, DeviceError) result" where
  "mmio_read s c address width =
     (case device_validate_range c Mmio Rights_READ address width of
        Err e \<Rightarrow> Err e
      | Ok _ \<Rightarrow> Ok (read_bytes (db_mmio s) address width AND width_mask width))"

definition mmio_write ::
  "DeviceBus \<Rightarrow> Capability \<Rightarrow> u64 \<Rightarrow> DeviceWidth \<Rightarrow> u64 \<Rightarrow> (unit, DeviceError) result \<times> DeviceBus" where
  "mmio_write s c address width v =
     try_then (device_validate_range c Mmio Rights_WRITE address width) s (\<lambda>_.
       (Ok (), s\<lparr>db_mmio := write_bytes (db_mmio s) address width v\<rparr>))"

definition pio_read :: "DeviceBus \<Rightarrow> Capability \<Rightarrow> u16 \<Rightarrow> DeviceWidth \<Rightarrow> (u32, DeviceError) result" where
  "pio_read s c port width =
     (if width = U64 then Err UnsupportedWidth
      else
        (case device_validate_range c IoPort Rights_READ (ucast port) width of
           Err e \<Rightarrow> Err e
         | Ok _ \<Rightarrow> Ok (ucast (read_port_bytes (db_pio s) port width))))"

text \<open>The write loop stops with \<open>RangeOverflow\<close> at the first port past the end, keeping what it wrote.\<close>

fun pio_write_loop ::
  "u16 \<Rightarrow> u32 \<Rightarrow> nat list \<Rightarrow> (u16, u8) btmap \<Rightarrow> (unit, DeviceError) result \<times> (u16, u8) btmap" where
  "pio_write_loop port v [] m = (Ok (), m)"
| "pio_write_loop port v (i # is) m =
     (case checked_add port (of_nat i) of
        None \<Rightarrow> (Err RangeOverflow, m)
      | Some current \<Rightarrow>
          pio_write_loop port v is
            (bt_insert current (ucast (drop_bit (i * 8) (ucast v :: u64) AND 0xff)) m))"

definition pio_write ::
  "DeviceBus \<Rightarrow> Capability \<Rightarrow> u16 \<Rightarrow> DeviceWidth \<Rightarrow> u32 \<Rightarrow> (unit, DeviceError) result \<times> DeviceBus" where
  "pio_write s c port width v =
     (if width = U64 then (Err UnsupportedWidth, s)
      else
        try_then (device_validate_range c IoPort Rights_WRITE (ucast port) width) s (\<lambda>_.
          let (r, m) = pio_write_loop port v [0..<unat (width_bytes width)] (db_pio s)
          in (r, s\<lparr>db_pio := m\<rparr>)))"

definition device_barrier :: "DeviceBus \<Rightarrow> DeviceBarrier \<Rightarrow> (u64, DeviceError) result \<times> DeviceBus" where
  "device_barrier s kind =
     try_then (ok_or (checked_add (db_barrier_epoch s) 1) RangeOverflow) s (\<lambda>e.
       (Ok e, s\<lparr>db_barrier_epoch := e\<rparr>))"


section \<open>Bytes and bits\<close>

lemma bit_assemble:
  fixes b :: "nat \<Rightarrow> u8"
  shows "bit (foldl (\<lambda>v i. v OR push_bit (i * 8) (ucast (b i))) (0::u64) [0..<k]) n
     \<longleftrightarrow> n < 64 \<and> n div 8 < k \<and> bit (b (n div 8)) (n mod 8)"
proof (induction k)
  case (Suc k)
  have "bit (push_bit (k * 8) (ucast (b k) :: u64)) n \<longleftrightarrow> n < 64 \<and> n div 8 = k \<and> bit (b k) (n mod 8)"
  proof -
    have "k * 8 \<le> n \<and> n - k * 8 < 8 \<longleftrightarrow> n div 8 = k" by auto
    moreover have "n div 8 = k \<Longrightarrow> n - k * 8 = n mod 8" by (metis minus_div_mult_eq_mod)
    moreover have "bit (b k) i \<Longrightarrow> i < 8" for i using bit_imp_le_length [of "b k" i] by simp
    ultimately show ?thesis by (auto simp: bit_push_bit_iff bit_ucast_iff) 
  qed
  then show ?case using Suc by (auto simp: bit_or_iff less_Suc_eq)
qed simp

lemma scatter_get:
  fixes a :: "'a::len word"
  assumes "k \<le> 2 ^ LENGTH('a)"
  shows "bt_get (foldl (\<lambda>m i. bt_insert (a + of_nat i) (b i) m) m [0..<k]) x
     = (if \<exists>i<k. x = a + of_nat i then Some (b (unat (x - a))) else bt_get m x)"
  using assms
proof (induction k)
  case (Suc k)
  have "unat (of_nat k :: 'a word) = k" using Suc.prems by (simp add: unat_of_nat)
  then show ?case using Suc by (auto simp: less_Suc_eq)
qed simp

lemma width_bytes_unat: "unat (width_bytes w) \<in> {1, 2, 4, 8}"
  by (cases w) simp_all

lemma width_mask_eq: "width_mask w = mask (8 * unat (width_bytes w))"
  by (cases w) (simp_all add: mask_eq_exp_minus_1)

lemma byte_bit: "bit (ucast (drop_bit (i * 8) v AND 0xff) :: u8) j \<longleftrightarrow> j < 8 \<and> bit (v :: u64) (i * 8 + j)"
proof -
  have ff: "(0xff :: u64) = mask 8" by (simp add: mask_eq_exp_minus_1)
  show ?thesis unfolding ff using bit_imp_le_length [of v "i * 8 + j"]
    by (auto simp: bit_ucast_iff bit_and_iff bit_drop_bit_eq bit_mask_iff)
qed

text \<open>Reading back what was scattered: the low bytes of the value.\<close>

lemma gather_scatter:
  fixes a :: "'a::len word" and v :: u64
  assumes "k \<le> 8" "8 \<le> (2::nat) ^ LENGTH('a)"
    and m': "m' = foldl (\<lambda>m i. bt_insert (a + of_nat i) (ucast (drop_bit (i * 8) v AND 0xff)) m) m [0..<k]"
  shows "foldl (\<lambda>v i. v OR push_bit (i * 8) (ucast (byte_or_zero m' (a + of_nat i)))) (0::u64) [0..<k]
     = v AND mask (8 * k)"
proof (rule bit_word_eqI)
  fix n
  assume "n < LENGTH(64)"
  have "bit (byte_or_zero m' (a + of_nat (n div 8))) (n mod 8) \<longleftrightarrow> bit v n" if n: "n div 8 < k"
  proof -
    have "unat (of_nat (n div 8) :: 'a word) = n div 8" using n assms(1,2) by (simp add: unat_of_nat)
    moreover have "\<exists>i<k. a + of_nat (n div 8) = a + of_nat i" using n by blast
    ultimately have "byte_or_zero m' (a + of_nat (n div 8)) = ucast (drop_bit (n div 8 * 8) v AND 0xff)"
      using assms(1,2) by (simp add: m' scatter_get byte_or_zero_def)
    then show ?thesis by (simp add: byte_bit)
  qed
  moreover have "n div 8 < k \<longleftrightarrow> n < 8 * k" by (simp add: div_less_iff_less_mult mult.commute)
  ultimately show "bit (foldl (\<lambda>v i. v OR push_bit (i * 8) (ucast (byte_or_zero m' (a + of_nat i)))) (0::u64) [0..<k]) n
      \<longleftrightarrow> bit (v AND mask (8 * k)) n"
    using \<open>n < LENGTH(64)\<close> bit_assemble [of "\<lambda>i. byte_or_zero m' (a + of_nat i)" k n]
    by (auto simp: bit_and_iff bit_mask_iff)
qed

lemma mmio_write_OkE:
  assumes "mmio_write s c a w v = (Ok u, s')"
  shows "device_validate_range c Mmio Rights_WRITE a w = Ok ()"
    "s' = s\<lparr>db_mmio := write_bytes (db_mmio s) a w v\<rparr>"
  using assms by (auto simp: mmio_write_def elim!: try_then_OkE)

lemma validate_range_Ok_iff:
  "device_validate_range c k r a w = Ok u \<longleftrightarrow>
     authority c k r \<and> a mod width_bytes w = 0 \<and> Capability_contains_range c a (width_bytes w)"
  by (auto simp: device_validate_range_def authority_def)

lemma read_after_write:
  "read_bytes (write_bytes m a w v) a w AND width_mask w = v AND width_mask w"
proof -
  have k: "unat (width_bytes w) \<le> 8" using width_bytes_unat [of w] by auto
  have "read_bytes (write_bytes m a w v) a w = v AND mask (8 * unat (width_bytes w))"
    unfolding read_bytes_def by (rule gather_scatter [OF k _ write_bytes_def]) simp
  then show ?thesis by (simp add: width_mask_eq and.assoc)
qed

lemma read_bytes_cong:
  assumes "\<And>i. i < unat (width_bytes w) \<Longrightarrow> bt_get m (a + of_nat i) = bt_get m' (a + of_nat i)"
  shows "read_bytes m a w = read_bytes m' a w"
  unfolding read_bytes_def
  by (rule foldl_cong) (simp_all add: byte_or_zero_def assms)

lemma unat_index:
  fixes a :: u64
  assumes "unat a + unat (width_bytes w) < 2 ^ 64" "i < unat (width_bytes w)"
  shows "unat (a + of_nat i) = unat a + i"
proof -
  have i: "unat (of_nat i :: u64) = i" using assms by (simp add: unat_of_nat)
  have "unat a + unat (of_nat i :: u64) < 2 ^ 64" using assms i by linarith
  then show ?thesis using unat_add_no_wrap [of a "of_nat i"] i by simp
qed

lemma write_elsewhere:
  assumes "unat a + unat (width_bytes w) < 2 ^ 64" "unat a' + unat (width_bytes w') < 2 ^ 64"
    and "unat a + unat (width_bytes w) \<le> unat a' \<or> unat a' + unat (width_bytes w') \<le> unat a"
  shows "read_bytes (write_bytes m a w v) a' w' = read_bytes m a' w'"
proof (rule read_bytes_cong)
  fix i
  assume i: "i < unat (width_bytes w')"
  have "a' + of_nat i \<noteq> a + of_nat j" if "j < unat (width_bytes w)" for j
    using unat_index [OF assms(1) that] unat_index [OF assms(2) i] assms(3) i that
    by (auto simp: word_unat_eq_iff)
  moreover have "unat (width_bytes w) \<le> 2 ^ 64" using width_bytes_unat [of w] by auto
  ultimately show "bt_get (write_bytes m a w v) (a' + of_nat i) = bt_get m (a' + of_nat i)"
    by (auto simp: write_bytes_def scatter_get)
qed

text \<open>
  Memory-mapped registers behave as memory, bounded by the capability. A successful write
  happens inside the interval of a capability with the write right; a read of the same width at the
  same address then returns the written value cut to that width; and a read of any disjoint
  place that was allowed before returns the same value as before.
\<close>

lemma mmio_write_then_read:
  assumes "mmio_write s c a w v = (Ok u, s')"
  shows "authority c Mmio Rights_WRITE \<and> unat (cap_base c) \<le> unat a
     \<and> unat a + unat (width_bytes w) \<le> unat (cap_base c) + unat (cap_len c)
     \<and> (is_Ok (mmio_read s' d a w) \<longrightarrow> mmio_read s' d a w = Ok (v AND width_mask w))
     \<and> (unat a + unat (width_bytes w) \<le> unat a' \<or> unat a' + unat (width_bytes w') \<le> unat a
          \<longrightarrow> mmio_read s' d a' w' = mmio_read s d a' w')"
proof (intro conjI impI)
  note w = mmio_write_OkE [OF assms]
  show "authority c Mmio Rights_WRITE" using w(1) by (simp add: validate_range_Ok_iff)
  have range: "unat (cap_base c) + unat (cap_len c) < 2 ^ 64 \<and> unat (cap_base c) \<le> unat a \<and>
      unat a + unat (width_bytes w) \<le> unat (cap_base c) + unat (cap_len c)"
    using w(1) by (simp add: validate_range_Ok_iff contains_range_unat)
  then show "unat (cap_base c) \<le> unat a"
    and "unat a + unat (width_bytes w) \<le> unat (cap_base c) + unat (cap_len c)" by auto
  show "mmio_read s' d a w = Ok (v AND width_mask w)" if "is_Ok (mmio_read s' d a w)"
    using that by (auto simp: mmio_read_def w(2) read_after_write split: result.splits)
  assume disjoint: "unat a + unat (width_bytes w) \<le> unat a' \<or> unat a' + unat (width_bytes w') \<le> unat a"
  show "mmio_read s' d a' w' = mmio_read s d a' w'"
  proof (cases "device_validate_range d Mmio Rights_READ a' w'")
    case (Ok x)
    then have "unat a' + unat (width_bytes w') < 2 ^ 64"
      by (auto simp: validate_range_Ok_iff contains_range_unat)
    moreover have "unat a + unat (width_bytes w) < 2 ^ 64" using range by linarith
    ultimately show ?thesis using disjoint Ok by (simp add: mmio_read_def w(2) write_elsewhere)
  qed (simp add: mmio_read_def)
qed

lemma mmio_write_then_read_example:
  "let s' = snd (mmio_write DeviceBus_new demo_cap 4100 U16 0xabcdef)
   in fst (mmio_write DeviceBus_new demo_cap 4100 U16 0xabcdef) = Ok ()
      \<and> mmio_read s' demo_cap 4100 U16 = Ok 0xcdef \<and> mmio_read s' demo_cap 4104 U64 = Ok 0"
proof -
  let ?s = "snd (mmio_write DeviceBus_new demo_cap 4100 U16 0xabcdef)"
  have w: "mmio_write DeviceBus_new demo_cap 4100 U16 0xabcdef = (Ok (), ?s)"
    by (simp add: mmio_write_def device_validate_range_def demo_cap_def Rights_contains_def
        Rights_WRITE_def contains_range_unat)
  have r: "is_Ok (mmio_read ?s demo_cap 4100 U16)"
    by (simp add: mmio_read_def device_validate_range_def demo_cap_def Rights_contains_def
        Rights_READ_def contains_range_unat)
  have z: "mmio_read DeviceBus_new demo_cap 4104 U64 = Ok 0"
    by (simp add: mmio_read_def device_validate_range_def demo_cap_def Rights_contains_def
        Rights_READ_def contains_range_unat read_bytes_def DeviceBus_new_def byte_or_zero_def upt_rec)
  show ?thesis unfolding Let_def
    using mmio_write_then_read [OF w, of demo_cap 4104 U64] w r z by (auto simp: prod_eq_iff)
qed

section \<open>Port accesses\<close>

text \<open>An aligned access that begins inside the 16-bit port space also ends inside it.\<close>

lemma aligned_port_fits:
  assumes "w \<noteq> U64" "(ucast port :: u64) mod width_bytes w = 0" "i < unat (width_bytes w)"
  shows "unat (port :: u16) + i < 2 ^ 16"
proof -
  have "unat (ucast port :: u64) = unat port" using unat_lt_exp [of port]
    by (simp add: unsigned_ucast_eq take_bit_nat_eq_self)
  then have "unat port mod unat (width_bytes w) = 0"
    using assms(2) by (metis unat_0 unat_mod)
  moreover have "unat port < 65536" using unat_lt_exp [of port] by simp
  ultimately show ?thesis using assms(1,3)
    by (cases w) (simp_all, presburger+)
qed

lemma port_index:
  assumes "unat (port :: u16) + i < 2 ^ 16"
  shows "checked_add port (of_nat i) = Some (port + of_nat i)" "saturating_add port (of_nat i) = port + of_nat i"
proof -
  have "unat (of_nat i :: u16) = i" using assms by (simp add: unat_of_nat)
  then show c: "checked_add port (of_nat i) = Some (port + of_nat i)"
    using assms by (simp add: checked_add_def)
  then show "saturating_add port (of_nat i) = port + of_nat i" by (simp add: saturating_add_def)
qed

lemma pio_write_loop_scatter:
  assumes "\<And>i. i \<in> set is \<Longrightarrow> unat port + i < 2 ^ 16"
  shows "pio_write_loop port v is m = (Ok (), foldl (\<lambda>m i. bt_insert (port + of_nat i)
           (ucast (drop_bit (i * 8) (ucast v :: u64) AND 0xff)) m) m is)"
  using assms by (induction "is" arbitrary: m) (simp_all add: port_index)

text \<open>
  Port writes are all or nothing and read back. A port write never fails half-way: the
  \<open>RangeOverflow\<close> branch inside its loop is unreachable, so a refused write changes nothing; and
  after a write a permitted read of the same port and width returns the value cut to the width.
\<close>

lemma pio_write_then_read:
  "(case pio_write s c port w v of
      (Err e, s') \<Rightarrow> e \<noteq> RangeOverflow \<and> s' = s
    | (Ok _, s') \<Rightarrow> authority c IoPort Rights_WRITE
        \<and> (is_Ok (pio_read s' d port w) \<longleftrightarrow> is_Ok (pio_read s d port w))
        \<and> (is_Ok (pio_read s' d port w) \<longrightarrow>
             pio_read s' d port w = Ok (v AND mask (8 * unat (width_bytes w)))))"
proof (cases "w \<noteq> U64 \<and> device_validate_range c IoPort Rights_WRITE (ucast port) w = Ok ()")
  case False
  then show ?thesis
    by (cases "device_validate_range c IoPort Rights_WRITE (ucast port) w")
       (auto simp: pio_write_def device_validate_range_def split: if_splits)
next
  case True
  then have w: "w \<noteq> U64" "device_validate_range c IoPort Rights_WRITE (ucast port) w = Ok ()" by auto
  let ?k = "unat (width_bytes w)"
  let ?m = "foldl (\<lambda>m i. bt_insert (port + of_nat i)
      (ucast (drop_bit (i * 8) (ucast v :: u64) AND 0xff)) m) (db_pio s) [0..<?k]"
  have fits: "unat port + i < 2 ^ 16" if "i < ?k" for i
    using aligned_port_fits [OF w(1) _ that] w(2) by (simp add: validate_range_Ok_iff)
  have k: "?k \<le> 8" "8 * ?k \<le> 32" using w(1) by (cases w; simp)+
  have "read_port_bytes ?m port w =
      foldl (\<lambda>v i. v OR push_bit (i * 8) (ucast (byte_or_zero ?m (port + of_nat i)))) 0 [0..<?k]"
    unfolding read_port_bytes_def using fits by (intro foldl_cong) (simp_all add: port_index)
  also have "\<dots> = ucast v AND mask (8 * ?k)" by (rule gather_scatter [OF k(1) _ refl]) simp
  finally have "(ucast (read_port_bytes ?m port w) :: u32) = v AND mask (8 * ?k)"
    using k(2) by (auto intro!: bit_word_eqI simp: bit_ucast_iff bit_and_iff bit_mask_iff)
  moreover have "pio_write s c port w v = (Ok (), s\<lparr>db_pio := ?m\<rparr>)"
    using True pio_write_loop_scatter [of "[0..<?k]" port v "db_pio s"] fits
    by (simp add: pio_write_def)
  moreover have "authority c IoPort Rights_WRITE" using w(2) by (simp add: validate_range_Ok_iff)
  ultimately show ?thesis
    by (cases "device_validate_range d IoPort Rights_READ (ucast port) w") (simp_all add: pio_read_def)
qed

lemma pio_write_then_read_example:
  "let c = demo_cap\<lparr>cap_kind := IoPort, cap_base := 0, cap_len := 65536\<rparr>;
       s' = snd (pio_write DeviceBus_new c 0xfffe U16 0x12345)
   in fst (pio_write DeviceBus_new c 0xfffe U16 0x12345) = Ok () \<and> pio_read s' c 0xfffe U16 = Ok 0x2345"
proof -
  let ?c = "demo_cap\<lparr>cap_kind := IoPort, cap_base := 0, cap_len := 65536\<rparr>"
  let ?s = "snd (pio_write DeviceBus_new ?c 0xfffe U16 0x12345)"
  have r: "is_Ok (pio_read ?s ?c 0xfffe U16)"
    by (simp add: pio_read_def device_validate_range_def demo_cap_def Rights_contains_def
        Rights_READ_def contains_range_unat)
  have w: "fst (pio_write DeviceBus_new ?c 0xfffe U16 0x12345) = Ok ()"
    by (simp add: pio_write_def device_validate_range_def demo_cap_def Rights_contains_def
        Rights_WRITE_def contains_range_unat checked_add_def upt_rec)
  then obtain t where t: "pio_write DeviceBus_new ?c 0xfffe U16 0x12345 = (Ok (), t)"
    by (metis prod.collapse)
  from pio_write_then_read [where s = DeviceBus_new and c = ?c and d = ?c and port = "0xfffe"
      and w = U16 and v = "0x12345"] r
  have "pio_read t ?c 0xfffe U16 = Ok 0x2345" by (simp add: t mask_eq_exp_minus_1)
  then show ?thesis unfolding Let_def by (simp add: t)
qed

text \<open>Barriers are numbered without repetition.\<close>

lemma device_barrier_increases:
  "device_barrier s k = (Ok e, s') \<Longrightarrow> db_barrier_epoch s < e \<and> db_barrier_epoch s' = e"
  by (auto simp: device_barrier_def elim!: try_then_OkE intro: checked_inc_greater)

end
