(* ===== verification/Kernel_Memory.thy ===== *)
theory Kernel_Memory
  imports Kernel_Capability
begin

text \<open>
  Address spaces, user memory and the temporary map window of \<open>thermite-kernel/src/memory.rs\<close>. A
  \<open>BTreeSet\<open>u16\<close>\<close> of processors is a set of 16-bit words. The lemmas give the invariant of an
  address space (mappings are disjoint, aligned and free of overflow), the exact meaning of
  \<open>translate\<close>, what \<open>map\<close> and \<open>unmap\<close> change, copying to and from user memory, and the life of a
  temporary mapping.
\<close>

datatype PageSize = Size4K | Size2M | Size1G

fun page_bytes :: "PageSize \<Rightarrow> u64" where
  "page_bytes Size4K = 4096"
| "page_bytes Size2M = 2 * 1024 * 1024"
| "page_bytes Size1G = 1024 * 1024 * 1024"

type_synonym PagePermissions = u8

definition Page_READ :: PagePermissions where "Page_READ = 1"
definition Page_WRITE :: PagePermissions where "Page_WRITE = 2"
definition Page_EXECUTE :: PagePermissions where "Page_EXECUTE = 4"
definition Page_USER :: PagePermissions where "Page_USER = 8"

definition Page_union :: "PagePermissions \<Rightarrow> PagePermissions \<Rightarrow> PagePermissions" where
  "Page_union a b = (a OR b)"

definition Page_contains :: "PagePermissions \<Rightarrow> PagePermissions \<Rightarrow> bool" where
  "Page_contains a b = (a AND b = b)"

record Mapping =
  mp_virtual_base :: u64
  mp_physical_base :: u64
  mp_page_size :: PageSize
  mp_pages :: u64
  mp_permissions :: PagePermissions
  mp_epoch :: u64

datatype (plugins only: code size) MapError =
    WrongAddressSpaceCapability | WrongFrameCapability | MissingRights | NonCanonical | Misaligned
  | RangeOverflow | OutOfRange | Overlap | NotMapped | EpochOverflow | EmptyPermissions | Active
  | Destroyed | UserFault | WindowFull | StaleGeneration | WrongWindowCapability

record AddressSpace =
  as_mappings :: "(u64, Mapping) btmap"
  as_epoch :: u64
  as_active_cpus :: "u16 set"
  as_destroyed :: bool

record UserMemory =
  um_bytes :: "(u64, u8) btmap"


section \<open>Operations of an address space\<close>

definition AddressSpace_new :: AddressSpace where
  "AddressSpace_new = \<lparr>as_mappings = [], as_epoch = 0, as_active_cpus = {}, as_destroyed = False\<rparr>"

definition is_canonical_x86_64 :: "u64 \<Rightarrow> bool" where
  "is_canonical_x86_64 address =
     (let upper = drop_bit 48 address; sign = drop_bit 47 address AND 1
      in sign = 0 \<and> upper = 0 \<or> sign = 1 \<and> upper = 0xffff)"

definition overlaps :: "u64 \<Rightarrow> u64 \<Rightarrow> Mapping \<Rightarrow> bool" where
  "overlaps base stop m =
     (let mapping_bytes = saturating_mul (page_bytes (mp_page_size m)) (mp_pages m);
          mapping_end = saturating_add (mp_virtual_base m) mapping_bytes
      in base < mapping_end \<and> mp_virtual_base m < stop)"

definition as_map ::
  "AddressSpace \<Rightarrow> Capability \<Rightarrow> Capability \<Rightarrow> u64 \<Rightarrow> PageSize \<Rightarrow> u64 \<Rightarrow> PagePermissions \<Rightarrow>
   (Mapping, MapError) result \<times> AddressSpace" where
  "as_map s space frames virtual_base page_size pages permissions =
     (if as_destroyed s then (Err Destroyed, s)
      else if cap_kind space \<noteq> CapabilityKind.AddressSpace then (Err WrongAddressSpaceCapability, s)
      else if cap_kind frames \<notin> {Frame, PhysRegion} then (Err WrongFrameCapability, s)
      else if \<not> Rights_contains (cap_rights space) Rights_MAP \<or> \<not> Rights_contains (cap_rights frames) Rights_READ
        then (Err MapError.MissingRights, s)
      else if \<not> is_canonical_x86_64 virtual_base then (Err NonCanonical, s)
      else if pages = 0 \<or> permissions = 0 then (Err EmptyPermissions, s)
      else try_then (ok_or (checked_mul (page_bytes page_size) pages) MapError.RangeOverflow) s (\<lambda>bytes.
        if virtual_base mod page_bytes page_size \<noteq> 0 \<or> cap_base frames mod page_bytes page_size \<noteq> 0
          then (Err Misaligned, s)
        else if \<not> Capability_contains_range frames (cap_base frames) bytes then (Err MapError.OutOfRange, s)
        else try_then (ok_or (checked_add virtual_base bytes) MapError.RangeOverflow) s (\<lambda>stop.
          if list_ex (overlaps virtual_base stop \<circ> snd) (as_mappings s) then (Err Overlap, s)
          else try_then (ok_or (checked_add (as_epoch s) 1) EpochOverflow) s (\<lambda>epoch.
            let mapping = \<lparr>mp_virtual_base = virtual_base, mp_physical_base = cap_base frames,
                           mp_page_size = page_size, mp_pages = pages, mp_permissions = permissions,
                           mp_epoch = epoch\<rparr>
            in (Ok mapping, s\<lparr>as_epoch := epoch,
                              as_mappings := bt_insert virtual_base mapping (as_mappings s)\<rparr>)))))"

text \<open>\<open>unmap\<close> removes the mapping before it advances the epoch; \<open>protect\<close> advances it first.\<close>

definition as_unmap :: "AddressSpace \<Rightarrow> u64 \<Rightarrow> (Mapping, MapError) result \<times> AddressSpace" where
  "as_unmap s virtual_base =
     (if as_destroyed s then (Err Destroyed, s)
      else try_then (ok_or (bt_get (as_mappings s) virtual_base) NotMapped) s (\<lambda>mapping.
        let s1 = s\<lparr>as_mappings := bt_remove virtual_base (as_mappings s)\<rparr>
        in try_then (ok_or (checked_add (as_epoch s1) 1) EpochOverflow) s1 (\<lambda>epoch.
             (Ok mapping, s1\<lparr>as_epoch := epoch\<rparr>))))"

definition as_protect ::
  "AddressSpace \<Rightarrow> Capability \<Rightarrow> u64 \<Rightarrow> PagePermissions \<Rightarrow> (Mapping, MapError) result \<times> AddressSpace" where
  "as_protect s space virtual_base permissions =
     (if as_destroyed s then (Err Destroyed, s)
      else if cap_kind space \<noteq> CapabilityKind.AddressSpace then (Err WrongAddressSpaceCapability, s)
      else if \<not> Rights_contains (cap_rights space) Rights_MAP then (Err MapError.MissingRights, s)
      else if permissions = 0 then (Err EmptyPermissions, s)
      else try_then (ok_or (checked_add (as_epoch s) 1) EpochOverflow) s (\<lambda>epoch.
        let s1 = s\<lparr>as_epoch := epoch\<rparr>
        in try_then (ok_or (bt_get (as_mappings s1) virtual_base) NotMapped) s1 (\<lambda>m.
             let m' = m\<lparr>mp_permissions := permissions, mp_epoch := epoch\<rparr>
             in (Ok m', s1\<lparr>as_mappings := bt_insert virtual_base m' (as_mappings s1)\<rparr>))))"

fun translate_loop :: "(u64, Mapping) btmap \<Rightarrow> u64 \<Rightarrow> (u64 \<times> PagePermissions, MapError) result" where
  "translate_loop [] va = Err NotMapped"
| "translate_loop (e # ms) va =
     (let m = snd e in
      case checked_mul (page_bytes (mp_page_size m)) (mp_pages m) of
        None \<Rightarrow> Err MapError.RangeOverflow
      | Some bytes \<Rightarrow>
          (case checked_add (mp_virtual_base m) bytes of
             None \<Rightarrow> Err MapError.RangeOverflow
           | Some stop \<Rightarrow>
               if mp_virtual_base m \<le> va \<and> va < stop
               then Ok (mp_physical_base m + (va - mp_virtual_base m), mp_permissions m)
               else translate_loop ms va))"

definition translate :: "AddressSpace \<Rightarrow> u64 \<Rightarrow> (u64 \<times> PagePermissions, MapError) result" where
  "translate s va =
     (if as_destroyed s then Err Destroyed
      else if \<not> is_canonical_x86_64 va then Err NonCanonical
      else translate_loop (as_mappings s) va)"

definition as_inspect :: "AddressSpace \<Rightarrow> u64 \<Rightarrow> Mapping option" where
  "as_inspect s virtual_base = bt_get (as_mappings s) virtual_base"

definition require_space :: "Capability \<Rightarrow> (unit, MapError) result" where
  "require_space space =
     (if cap_kind space \<noteq> CapabilityKind.AddressSpace then Err WrongAddressSpaceCapability
      else if \<not> Rights_contains (cap_rights space) Rights_MAP then Err MapError.MissingRights
      else Ok ())"

definition as_activate :: "AddressSpace \<Rightarrow> Capability \<Rightarrow> u16 \<Rightarrow> (unit, MapError) result \<times> AddressSpace" where
  "as_activate s space cpu =
     try_then (require_space space) s (\<lambda>_.
       if as_destroyed s then (Err Destroyed, s)
       else (Ok (), s\<lparr>as_active_cpus := insert cpu (as_active_cpus s)\<rparr>))"

definition as_deactivate :: "AddressSpace \<Rightarrow> Capability \<Rightarrow> u16 \<Rightarrow> (unit, MapError) result \<times> AddressSpace" where
  "as_deactivate s space cpu =
     try_then (require_space space) s (\<lambda>_.
       if cpu \<notin> as_active_cpus s then (Err NotMapped, s)
       else (Ok (), s\<lparr>as_active_cpus := as_active_cpus s - {cpu}\<rparr>))"

definition as_destroy :: "AddressSpace \<Rightarrow> Capability \<Rightarrow> (unit, MapError) result \<times> AddressSpace" where
  "as_destroy s space =
     try_then (require_space space) s (\<lambda>_.
       if as_active_cpus s \<noteq> {} \<or> as_mappings s \<noteq> [] then (Err Active, s)
       else (Ok (), s\<lparr>as_destroyed := True\<rparr>))"


section \<open>User memory\<close>

fun validate_loop ::
  "AddressSpace \<Rightarrow> u64 \<Rightarrow> PagePermissions \<Rightarrow> nat list \<Rightarrow> u64 list \<Rightarrow> (u64 list, MapError) result" where
  "validate_loop s start right [] acc = Ok acc"
| "validate_loop s start right (offset # rest) acc =
     (case checked_add start (of_nat offset) of
        None \<Rightarrow> Err MapError.RangeOverflow
      | Some va \<Rightarrow>
          (case translate s va of
             Err e \<Rightarrow> Err e
           | Ok (physical, permissions) \<Rightarrow>
               if \<not> Page_contains permissions (Page_union Page_USER right) then Err UserFault
               else validate_loop s start right rest (acc @ [physical])))"

definition validate_user_range ::
  "AddressSpace \<Rightarrow> u64 \<Rightarrow> nat \<Rightarrow> PagePermissions \<Rightarrow> (u64 list, MapError) result" where
  "validate_user_range s start len right = validate_loop s start right [0..<len] []"

fun stage_bytes :: "UserMemory \<Rightarrow> u64 list \<Rightarrow> (u8 list, MapError) result" where
  "stage_bytes mem [] = Ok []"
| "stage_bytes mem (physical # ps) =
     (case bt_get (um_bytes mem) physical of
        None \<Rightarrow> Err UserFault
      | Some b \<Rightarrow> (case stage_bytes mem ps of Err e \<Rightarrow> Err e | Ok bs \<Rightarrow> Ok (b # bs)))"

text \<open>The \<open>Ok\<close> value is the new content of the output buffer, of which only the length matters before.\<close>

definition copy_from_user :: "AddressSpace \<Rightarrow> UserMemory \<Rightarrow> u64 \<Rightarrow> nat \<Rightarrow> (u8 list, MapError) result" where
  "copy_from_user s mem user_address len =
     (case validate_user_range s user_address len Page_READ of
        Err e \<Rightarrow> Err e
      | Ok addresses \<Rightarrow> stage_bytes mem addresses)"

definition write_user :: "UserMemory \<Rightarrow> (u64 \<times> u8) list \<Rightarrow> UserMemory" where
  "write_user mem ws = foldl (\<lambda>mem w. mem\<lparr>um_bytes := bt_insert (fst w) (snd w) (um_bytes mem)\<rparr>) mem ws"

definition copy_to_user ::
  "AddressSpace \<Rightarrow> UserMemory \<Rightarrow> u64 \<Rightarrow> u8 list \<Rightarrow> (unit, MapError) result \<times> UserMemory" where
  "copy_to_user s mem user_address input =
     try_then (validate_user_range s user_address (length input) Page_WRITE) mem (\<lambda>addresses.
       (Ok (), write_user mem (zip addresses input)))"

fun user_initialize_loop ::
  "u64 \<Rightarrow> nat \<Rightarrow> u8 list \<Rightarrow> UserMemory \<Rightarrow> (unit, MapError) result \<times> UserMemory" where
  "user_initialize_loop physical offset [] mem = (Ok (), mem)"
| "user_initialize_loop physical offset (b # bs) mem =
     (case checked_add physical (of_nat offset) of
        None \<Rightarrow> (Err MapError.RangeOverflow, mem)
      | Some address \<Rightarrow>
          user_initialize_loop physical (Suc offset) bs
            (mem\<lparr>um_bytes := bt_insert address b (um_bytes mem)\<rparr>))"

definition UserMemory_new :: UserMemory where
  "UserMemory_new = \<lparr>um_bytes = []\<rparr>"

definition user_initialize :: "UserMemory \<Rightarrow> u64 \<Rightarrow> u8 list \<Rightarrow> (unit, MapError) result \<times> UserMemory" where
  "user_initialize mem physical bytes = user_initialize_loop physical 0 bytes mem"

definition user_byte :: "UserMemory \<Rightarrow> u64 \<Rightarrow> u8 option" where
  "user_byte mem physical = bt_get (um_bytes mem) physical"


section \<open>The temporary window\<close>

record TemporaryMapping =
  tm_virtual_base :: u64
  tm_physical_base :: u64
  tm_len :: u64
  tm_generation :: u64

record TemporaryMapWindow =
  tw_base :: u64
  tw_len :: u64
  tw_next_generation :: u64
  tw_active :: "TemporaryMapping option"

definition TemporaryMapWindow_new :: "u64 \<Rightarrow> u64 \<Rightarrow> TemporaryMapWindow" where
  "TemporaryMapWindow_new base len =
     \<lparr>tw_base = base, tw_len = len, tw_next_generation = 1, tw_active = None\<rparr>"

definition window_map ::
  "TemporaryMapWindow \<Rightarrow> Capability \<Rightarrow> Capability \<Rightarrow> (TemporaryMapping, MapError) result \<times> TemporaryMapWindow" where
  "window_map w window physical =
     (if cap_kind window \<noteq> VirtRegion then (Err WrongWindowCapability, w)
      else if \<not> Rights_contains (cap_rights window) Rights_MAP \<or> \<not> Rights_contains (cap_rights physical) Rights_READ
        then (Err MapError.MissingRights, w)
      else if tw_active w \<noteq> None then (Err WindowFull, w)
      else if tw_len w < cap_len physical \<or> \<not> Capability_contains_range window (tw_base w) (cap_len physical)
        then (Err MapError.OutOfRange, w)
      else
        let mapping = \<lparr>tm_virtual_base = tw_base w, tm_physical_base = cap_base physical,
                       tm_len = cap_len physical, tm_generation = tw_next_generation w\<rparr>
        in (Ok mapping, w\<lparr>tw_active := Some mapping\<rparr>))"

definition window_revoke ::
  "TemporaryMapWindow \<Rightarrow> TemporaryMapping \<Rightarrow> (unit, MapError) result \<times> TemporaryMapWindow" where
  "window_revoke w mapping =
     (if tw_active w \<noteq> Some mapping then (Err MapError.StaleGeneration, w)
      else
        let w1 = w\<lparr>tw_active := None\<rparr>
        in try_then (ok_or (checked_add (tw_next_generation w1) 1) EpochOverflow) w1 (\<lambda>g.
             (Ok (), w1\<lparr>tw_next_generation := g\<rparr>)))"

section \<open>The invariant of an address space\<close>

text \<open>The bytes a mapping covers and its end, as numbers.\<close>

definition span :: "Mapping \<Rightarrow> nat" where
  "span m = unat (page_bytes (mp_page_size m)) * unat (mp_pages m)"

definition covers :: "Mapping \<Rightarrow> u64 \<Rightarrow> bool" where
  "covers m va \<longleftrightarrow> unat (mp_virtual_base m) \<le> unat va \<and> unat va < unat (mp_virtual_base m) + span m"

definition mapping_ok :: "u64 \<Rightarrow> u64 \<Rightarrow> Mapping \<Rightarrow> bool" where
  "mapping_ok epoch k m \<longleftrightarrow> mp_virtual_base m = k \<and> mp_epoch m \<le> epoch \<and> mp_permissions m \<noteq> 0 \<and>
     mp_pages m \<noteq> 0 \<and> is_canonical_x86_64 k \<and>
     mp_virtual_base m mod page_bytes (mp_page_size m) = 0 \<and>
     mp_physical_base m mod page_bytes (mp_page_size m) = 0 \<and>
     unat (mp_virtual_base m) + span m < 2 ^ 64 \<and> unat (mp_physical_base m) + span m < 2 ^ 64"

definition apart :: "Mapping \<Rightarrow> Mapping \<Rightarrow> bool" where
  "apart m m' \<longleftrightarrow> unat (mp_virtual_base m) + span m \<le> unat (mp_virtual_base m') \<or>
     unat (mp_virtual_base m') + span m' \<le> unat (mp_virtual_base m)"

definition all_apart :: "(u64, Mapping) btmap \<Rightarrow> bool" where
  "all_apart ms \<longleftrightarrow>
     (\<forall>k m k' m'. bt_get ms k = Some m \<and> bt_get ms k' = Some m' \<and> k \<noteq> k' \<longrightarrow> apart m m')"

definition as_inv :: "AddressSpace \<Rightarrow> bool" where
  "as_inv s \<longleftrightarrow> bt_wf (as_mappings s) \<and> bt_all (mapping_ok (as_epoch s)) (as_mappings s) \<and>
     all_apart (as_mappings s) \<and>
     (as_destroyed s \<longrightarrow> as_mappings s = [] \<and> as_active_cpus s = {})"

lemma as_invD:
  assumes "as_inv s"
  shows "bt_wf (as_mappings s)" "bt_get (as_mappings s) k = Some m \<Longrightarrow> mapping_ok (as_epoch s) k m"
    "bt_get (as_mappings s) k = Some m \<Longrightarrow> bt_get (as_mappings s) k' = Some m' \<Longrightarrow> k \<noteq> k' \<Longrightarrow> apart m m'"
    "as_destroyed s \<Longrightarrow> as_mappings s = [] \<and> as_active_cpus s = {}"
  using assms unfolding as_inv_def all_apart_def by (blast dest: bt_allD)+

lemma apart_sym: "apart m m' \<longleftrightarrow> apart m' m"
  by (auto simp: apart_def)

lemma page_bytes_pos: "unat (page_bytes p) > 0"
  by (cases p) simp_all

lemma span_pos: "mapping_ok e k m \<Longrightarrow> 0 < span m"
  using page_bytes_pos by (auto simp: mapping_ok_def span_def word_unat_eq_iff)

lemma mapping_ok_mono: "mapping_ok e k m \<Longrightarrow> e \<le> e' \<Longrightarrow> mapping_ok e' k m"
  unfolding mapping_ok_def by (blast intro: order_trans)

lemma overlaps_iff:
  assumes "mapping_ok e k m" "unat base + len < 2 ^ 64" "unat stop = unat base + len" "0 < len"
  shows "overlaps base stop m \<longleftrightarrow>
    \<not> (unat (mp_virtual_base m) + span m \<le> unat base \<or> unat base + len \<le> unat (mp_virtual_base m))"
proof -
  have "span m < 2 ^ 64" using assms(1) by (simp add: mapping_ok_def)
  then have "unat (saturating_mul (page_bytes (mp_page_size m)) (mp_pages m)) = span m"
    by (simp add: saturating_mul_unat span_def)
  moreover have "unat (mp_virtual_base m) + span m < 2 ^ 64" using assms(1) unfolding mapping_ok_def by blast
  ultimately have "unat (saturating_add (mp_virtual_base m)
      (saturating_mul (page_bytes (mp_page_size m)) (mp_pages m))) = unat (mp_virtual_base m) + span m"
    by (simp add: saturating_add_unat)
  then show ?thesis using assms(3) by (auto simp: overlaps_def word_less_nat_alt Let_def)
qed

text \<open>What a successful \<open>map\<close> has checked, in numbers.\<close>

lemma as_map_OkE:
  assumes "as_inv s" "as_map s space frames vb ps n perm = (Ok m, s')"
  obtains "authority space CapabilityKind.AddressSpace Rights_MAP" "\<not> as_destroyed s"
    "cap_kind frames \<in> {Frame, PhysRegion}" "Rights_contains (cap_rights frames) Rights_READ"
    "m = \<lparr>mp_virtual_base = vb, mp_physical_base = cap_base frames, mp_page_size = ps, mp_pages = n,
          mp_permissions = perm, mp_epoch = as_epoch s'\<rparr>"
    "checked_add (as_epoch s) 1 = Some (as_epoch s')" "mapping_ok (as_epoch s') vb m"
    "unat (cap_base frames) + span m \<le> unat (cap_base frames) + unat (cap_len frames)"
    "\<And>k m'. bt_get (as_mappings s) k = Some m' \<Longrightarrow> apart m m'"
    "s' = s\<lparr>as_epoch := as_epoch s', as_mappings := bt_insert vb m (as_mappings s)\<rparr>"
proof -
  from assms(2) obtain bytes stop epoch where
    g: "\<not> as_destroyed s" "cap_kind space = CapabilityKind.AddressSpace" "cap_kind frames \<in> {Frame, PhysRegion}"
      "Rights_contains (cap_rights space) Rights_MAP" "Rights_contains (cap_rights frames) Rights_READ"
      "is_canonical_x86_64 vb" "n \<noteq> 0" "perm \<noteq> 0" "checked_mul (page_bytes ps) n = Some bytes"
      "vb mod page_bytes ps = 0" "cap_base frames mod page_bytes ps = 0"
      "Capability_contains_range frames (cap_base frames) bytes" "checked_add vb bytes = Some stop"
    and no: "\<not> list_ex (overlaps vb stop \<circ> snd) (as_mappings s)" and e: "checked_add (as_epoch s) 1 = Some epoch"
    and m: "m = \<lparr>mp_virtual_base = vb, mp_physical_base = cap_base frames, mp_page_size = ps, mp_pages = n,
          mp_permissions = perm, mp_epoch = epoch\<rparr>"
    and s': "s' = s\<lparr>as_epoch := epoch, as_mappings := bt_insert vb m (as_mappings s)\<rparr>"
    unfolding as_map_def Let_def by (auto elim!: try_then_OkE split: if_splits)
  have b: "unat bytes = span m" using g(9) by (auto simp: m span_def checked_simps unat_mul_no_wrap)
  have stop: "unat stop = unat vb + span m" using checked_add_unat [OF g(13)] b by simp
  have r: "unat (cap_base frames) + unat (cap_len frames) < 2 ^ 64" "span m \<le> unat (cap_len frames)"
    using g(12) b by (auto simp: contains_range_unat)
  have lt: "unat vb + span m < 2 ^ 64" using unat_lt_exp [of stop] stop by simp
  then have ok: "mapping_ok epoch vb m" using g r by (simp add: mapping_ok_def m)
  have "apart m m'" if k: "bt_get (as_mappings s) k = Some m'" for k m'
  proof -
    have "\<not> overlaps vb stop m'" using no bt_get_in_set [OF k] by (force simp: list_ex_iff)
    then show ?thesis
      using overlaps_iff [OF as_invD(2) [OF assms(1) k] lt stop span_pos [OF ok]] by (auto simp: apart_def m)
  qed
  with g e m s' ok r show ?thesis by (intro that) (auto simp: authority_def)
qed

lemma as_inv_insert:
  assumes "as_inv s" "mapping_ok e k m" "as_epoch s \<le> e" "\<not> as_destroyed s"
    and "\<And>k' m'. k' \<noteq> k \<Longrightarrow> bt_get (as_mappings s) k' = Some m' \<Longrightarrow> apart m m'"
  shows "as_inv (s\<lparr>as_epoch := e, as_mappings := bt_insert k m (as_mappings s)\<rparr>)"
proof -
  have ok: "bt_all (mapping_ok e) (bt_insert k m (as_mappings s))"
    using assms(2) as_invD(2) [OF assms(1)] mapping_ok_mono [OF _ assms(3)]
    by (auto intro!: bt_allI split: if_splits)
  have "apart a b" if "bt_get (bt_insert k m (as_mappings s)) i = Some a"
    "bt_get (bt_insert k m (as_mappings s)) j = Some b" "i \<noteq> j" for i j a b
    using that assms(5) [of j b] assms(5) [of i a] as_invD(3) [OF assms(1), of i a j b] apart_sym [of a m]
    by (auto split: if_splits)
  then have "all_apart (bt_insert k m (as_mappings s))" unfolding all_apart_def by blast
  then show ?thesis using as_invD(1) [OF assms(1)] assms(4) ok unfolding as_inv_def by simp
qed

lemma as_inv_remove:
  assumes "as_inv s" "as_epoch s \<le> e"
  shows "as_inv (s\<lparr>as_mappings := bt_remove k (as_mappings s), as_epoch := e\<rparr>)"
proof -
  have "bt_all (mapping_ok e) (bt_remove k (as_mappings s))"
    using as_invD(2) [OF assms(1)] mapping_ok_mono [OF _ assms(2)] by (auto intro!: bt_allI split: if_splits)
  moreover have "all_apart (bt_remove k (as_mappings s))"
    using as_invD(3) [OF assms(1)] by (auto simp: all_apart_def split: if_splits)
  ultimately show ?thesis using assms(1) by (auto simp: as_inv_def)
qed

lemma as_inv_epoch: "as_inv s \<Longrightarrow> as_epoch s \<le> e \<Longrightarrow> as_inv (s\<lparr>as_epoch := e\<rparr>)"
  unfolding as_inv_def by (auto elim!: bt_all_mono intro: mapping_ok_mono)

datatype as_op =
    AMap Capability Capability u64 PageSize u64 PagePermissions
  | AUnmap u64
  | AProtect Capability u64 PagePermissions
  | AActivate Capability u16
  | ADeactivate Capability u16
  | ADestroy Capability

fun as_step :: "AddressSpace \<Rightarrow> as_op \<Rightarrow> AddressSpace" where
  "as_step s (AMap space frames vb ps n perm) = snd (as_map s space frames vb ps n perm)"
| "as_step s (AUnmap vb) = snd (as_unmap s vb)"
| "as_step s (AProtect space vb perm) = snd (as_protect s space vb perm)"
| "as_step s (AActivate space cpu) = snd (as_activate s space cpu)"
| "as_step s (ADeactivate space cpu) = snd (as_deactivate s space cpu)"
| "as_step s (ADestroy space) = snd (as_destroy s space)"

text \<open>Later states: the epoch does not go back and a destroyed space stays destroyed.\<close>

definition as_evolves :: "AddressSpace \<Rightarrow> AddressSpace \<Rightarrow> bool" where
  "as_evolves s s' \<longleftrightarrow> as_epoch s \<le> as_epoch s' \<and> (as_destroyed s \<longrightarrow> as_destroyed s')"

lemma as_map_Err: "as_map s space frames vb ps n perm = (Err e, s') \<Longrightarrow> s' = s"
  by (auto simp: as_map_def Let_def try_then_def split: result.splits if_splits)

lemma as_map_step:
  assumes "as_inv s"
  shows "as_inv (snd (as_map s space frames vb ps n perm)) \<and> as_evolves s (snd (as_map s space frames vb ps n perm))"
proof (rule outcome_preserves [where I = as_inv and R = as_evolves, OF assms])
  show "as_evolves s s" by (simp add: as_evolves_def)
  fix m t
  assume "as_map s space frames vb ps n perm = (Ok m, t)"
  from assms this show "as_inv t \<and> as_evolves s t"
  proof (rule as_map_OkE)
    assume "\<not> as_destroyed s" and e: "checked_add (as_epoch s) 1 = Some (as_epoch t)"
      and ok: "mapping_ok (as_epoch t) vb m" and ap: "\<And>k m'. bt_get (as_mappings s) k = Some m' \<Longrightarrow> apart m m'"
      and t: "t = s\<lparr>as_epoch := as_epoch t, as_mappings := bt_insert vb m (as_mappings s)\<rparr>"
    have le: "as_epoch s \<le> as_epoch t" using checked_inc_greater [OF e] by simp
    have "as_inv (s\<lparr>as_epoch := as_epoch t, as_mappings := bt_insert vb m (as_mappings s)\<rparr>)"
      by (rule as_inv_insert [OF assms ok le]) (use ap \<open>\<not> as_destroyed s\<close> in auto)
    then show ?thesis using t le \<open>\<not> as_destroyed s\<close> by (simp add: as_evolves_def)
  qed
qed (rule as_map_Err)

lemma as_unmap_step:
  assumes "as_inv s"
  shows "as_inv (snd (as_unmap s vb)) \<and> as_evolves s (snd (as_unmap s vb))"
proof (cases "as_destroyed s \<or> bt_get (as_mappings s) vb = None")
  case True
  then show ?thesis using assms by (auto simp: as_unmap_def as_evolves_def)
next
  case False
  then obtain m where m: "bt_get (as_mappings s) vb = Some m" "\<not> as_destroyed s" by auto
  show ?thesis
  proof (cases "checked_add (as_epoch s) 1")
    case None
    then show ?thesis using m as_inv_remove [OF assms order_refl, of vb]
      by (simp add: as_unmap_def as_evolves_def)
  next
    case (Some e)
    then have "as_epoch s \<le> e" using checked_inc_greater [OF Some] by simp
    then show ?thesis using m Some as_inv_remove [OF assms, of e vb]
      by (simp add: as_unmap_def as_evolves_def)
  qed
qed

lemma as_protect_step:
  assumes "as_inv s"
  shows "as_inv (snd (as_protect s space vb perm)) \<and> as_evolves s (snd (as_protect s space vb perm))"
proof (cases "as_destroyed s \<or> \<not> authority space CapabilityKind.AddressSpace Rights_MAP \<or> perm = 0
    \<or> checked_add (as_epoch s) 1 = None")
  case True
  then show ?thesis using assms by (auto simp: as_protect_def as_evolves_def authority_def)
next
  case False
  then obtain e where g: "\<not> as_destroyed s" "authority space CapabilityKind.AddressSpace Rights_MAP" "perm \<noteq> 0"
    and e: "checked_add (as_epoch s) 1 = Some e" by auto
  have le: "as_epoch s \<le> e" using checked_inc_greater [OF e] by simp
  show ?thesis
  proof (cases "bt_get (as_mappings s) vb")
    case None
    then show ?thesis using g e le as_inv_epoch [OF assms le]
      by (simp add: as_protect_def as_evolves_def authority_def Let_def)
  next
    case (Some m)
    let ?m = "m\<lparr>mp_permissions := perm, mp_epoch := e\<rparr>"
    have sp: "span ?m = span m" by (simp add: span_def)
    have "mapping_ok e vb ?m"
      using as_invD(2) [OF assms Some] g(3) unfolding mapping_ok_def sp by (elim conjE) simp
    moreover have "apart ?m m'" if "k' \<noteq> vb" "bt_get (as_mappings s) k' = Some m'" for k' m'
      using as_invD(3) [OF assms Some that(2)] that(1) by (simp add: apart_def sp)
    ultimately have "as_inv (s\<lparr>as_epoch := e, as_mappings := bt_insert vb ?m (as_mappings s)\<rparr>)"
      using as_inv_insert [OF assms _ le g(1)] by blast
    then show ?thesis using Some g e le by (simp add: as_protect_def as_evolves_def authority_def Let_def)
  qed
qed

lemma as_step_ok:
  assumes "as_inv s"
  shows "as_inv (as_step s a) \<and> as_evolves s (as_step s a)"
proof (cases a)
  case (ADestroy space)
  then show ?thesis using assms
    by (auto simp: as_destroy_def try_then_def as_inv_def as_evolves_def split: result.splits)
next
  case (AActivate space cpu)
  then show ?thesis using assms
    by (auto simp: as_activate_def try_then_def as_inv_def as_evolves_def split: result.splits)
next
  case (ADeactivate space cpu)
  then show ?thesis using assms
    by (auto simp: as_deactivate_def try_then_def as_inv_def as_evolves_def split: result.splits)
qed (use as_map_step as_unmap_step as_protect_step assms in auto)

lemma as_evolves_order:
  "as_evolves s s" "as_evolves s t \<Longrightarrow> as_evolves t u \<Longrightarrow> as_evolves s u"
  by (auto simp: as_evolves_def)

interpretation aspace: op_machine as_step as_inv as_evolves
  by unfold_locales (use as_step_ok as_evolves_order in blast)+

lemma as_inv_new: "as_inv AddressSpace_new"
  by (simp add: as_inv_def all_apart_def AddressSpace_new_def)


section \<open>Translation\<close>

lemma translate_loop_eq:
  assumes "\<And>k m. (k, m) \<in> set ms \<Longrightarrow> mapping_ok e k m"
  shows "translate_loop ms va =
    (case List.find (\<lambda>x. covers (snd x) va) ms of
       None \<Rightarrow> Err NotMapped
     | Some x \<Rightarrow> Ok (mp_physical_base (snd x) + (va - mp_virtual_base (snd x)), mp_permissions (snd x)))"
  using assms
proof (induction ms)
  case (Cons x ms)
  have ok: "mapping_ok e (fst x) (snd x)" using Cons.prems [of "fst x" "snd x"] by simp
  let ?b = "page_bytes (mp_page_size (snd x)) * mp_pages (snd x)"
  have lt: "unat (mp_virtual_base (snd x)) + span (snd x) < 2 ^ 64" using ok unfolding mapping_ok_def by blast
  then have mul: "checked_mul (page_bytes (mp_page_size (snd x))) (mp_pages (snd x)) = Some ?b" "unat ?b = span (snd x)"
    by (simp_all add: checked_simps span_def unat_mul_no_wrap)
  then have add: "checked_add (mp_virtual_base (snd x)) ?b = Some (mp_virtual_base (snd x) + ?b)"
    "unat (mp_virtual_base (snd x) + ?b) = unat (mp_virtual_base (snd x)) + span (snd x)"
    using lt by (simp_all add: checked_simps unat_add_no_wrap)
  have "mp_virtual_base (snd x) \<le> va \<and> va < mp_virtual_base (snd x) + ?b \<longleftrightarrow> covers (snd x) va"
    by (simp add: covers_def word_le_nat_alt word_less_nat_alt add(2))
  then show ?case using Cons by (simp add: mul(1) add(1) Let_def)
qed simp

lemma covers_unique:
  assumes "as_inv s" "bt_get (as_mappings s) k = Some m" "bt_get (as_mappings s) k' = Some m'"
    and "covers m va" "covers m' va"
  shows "k = k'"
proof (rule ccontr)
  assume "k \<noteq> k'"
  from as_invD(3) [OF assms(1-3) this] assms(4,5) show False by (auto simp: apart_def covers_def)
qed

text \<open>Under the invariant \<open>translate\<close> is the look-up in the one mapping that covers the address.\<close>

lemma translate_found:
  assumes "as_inv s" "\<not> as_destroyed s" "is_canonical_x86_64 va"
    and m: "bt_get (as_mappings s) k = Some m" "covers m va"
  shows "translate s va = Ok (mp_physical_base m + (va - mp_virtual_base m), mp_permissions m)"
proof -
  have ok: "\<And>k m. (k, m) \<in> set (as_mappings s) \<Longrightarrow> mapping_ok (as_epoch s) k m"
    using as_invD(1,2) [OF assms(1)] by (simp add: bt_get_Some_iff)
  obtain x where x: "List.find (\<lambda>x. covers (snd x) va) (as_mappings s) = Some x"
    using bt_get_in_set [OF m(1)] m(2) by (cases "List.find (\<lambda>x. covers (snd x) va) (as_mappings s)")
      (auto simp: find_None_iff)
  then have "x \<in> set (as_mappings s)" "covers (snd x) va" by (auto simp: find_Some_iff)
  then have "bt_get (as_mappings s) (fst x) = Some (snd x)"
    using as_invD(1) [OF assms(1)] bt_get_of_mem by (metis prod.collapse)
  with covers_unique [OF assms(1) this m(1) \<open>covers (snd x) va\<close> m(2)] m(1) have "snd x = m" by simp
  then show ?thesis using assms(2,3) x by (simp add: translate_def translate_loop_eq [OF ok])
qed

lemma translate_missing:
  assumes "as_inv s" "\<not> as_destroyed s" "is_canonical_x86_64 va"
    and "\<And>k m. bt_get (as_mappings s) k = Some m \<Longrightarrow> \<not> covers m va"
  shows "translate s va = Err NotMapped"
proof -
  have ok: "\<And>k m. (k, m) \<in> set (as_mappings s) \<Longrightarrow> mapping_ok (as_epoch s) k m"
    using as_invD(1,2) [OF assms(1)] by (simp add: bt_get_Some_iff)
  have "List.find (\<lambda>x. covers (snd x) va) (as_mappings s) = None"
    using assms(4) as_invD(1) [OF assms(1)] by (auto simp: find_None_iff bt_get_Some_iff)
  then show ?thesis using assms(2,3) by (simp add: translate_def translate_loop_eq [OF ok])
qed

text \<open>
  Translation is exact and total. In every state reached from a new address space, a live
  space translates a canonical address to the physical address at the same offset, with the
  permissions of the one mapping that covers it, or reports \<open>NotMapped\<close> when none does; the
  overflow error of the code's loop never occurs, and the physical address is not wrapped around.
\<close>

lemma translate_exact:
  assumes "s = replay as_step AddressSpace_new ops" "\<not> as_destroyed s" "is_canonical_x86_64 va"
  shows "case translate s va of
      Ok (pa, perm) \<Rightarrow> \<exists>!k. \<exists>m. bt_get (as_mappings s) k = Some m \<and> covers m va \<and>
         unat pa = unat (mp_physical_base m) + (unat va - unat (mp_virtual_base m)) \<and> perm = mp_permissions m
    | Err e \<Rightarrow> e = NotMapped \<and> (\<forall>k m. bt_get (as_mappings s) k = Some m \<longrightarrow> \<not> covers m va)"
proof -
  have inv: "as_inv s" unfolding assms(1) by (rule aspace.inv_replay [OF as_inv_new])
  show ?thesis
  proof (cases "\<exists>k m. bt_get (as_mappings s) k = Some m \<and> covers m va")
    case True
    then obtain k m where m: "bt_get (as_mappings s) k = Some m" "covers m va" by blast
    have "unat (mp_physical_base m) + span m < 2 ^ 64"
      using as_invD(2) [OF inv m(1)] unfolding mapping_ok_def by blast
    moreover have d: "unat (va - mp_virtual_base m) = unat va - unat (mp_virtual_base m)"
      using m(2) by (intro unat_sub_no_wrap) (simp add: covers_def word_le_nat_alt)
    ultimately have "unat (mp_physical_base m + (va - mp_virtual_base m))
        = unat (mp_physical_base m) + (unat va - unat (mp_virtual_base m))"
      using m(2) by (subst unat_add_no_wrap) (auto simp: covers_def)
    moreover have "k' = k" if "bt_get (as_mappings s) k' = Some m'" "covers m' va" for k' m'
      using covers_unique [OF inv that(1) m(1) that(2) m(2)] .
    ultimately show ?thesis using translate_found [OF inv assms(2,3) m] m by (auto intro!: ex1I [of _ k])
  next
    case False
    then show ?thesis using translate_missing [OF inv assms(2,3)] by auto
  qed
qed

definition demo_space_cap :: Capability where
  "demo_space_cap = demo_cap\<lparr>cap_kind := CapabilityKind.AddressSpace\<rparr>"

definition demo_frame_cap :: Capability where
  "demo_frame_cap = demo_cap\<lparr>cap_kind := Frame, cap_base := 8192, cap_len := 8192\<rparr>"

definition demo_mapping :: Mapping where
  "demo_mapping = \<lparr>mp_virtual_base = 0x400000, mp_physical_base = 8192, mp_page_size = Size4K, mp_pages = 2,
                   mp_permissions = 11, mp_epoch = 1\<rparr>"

definition demo_space :: AddressSpace where
  "demo_space = \<lparr>as_mappings = [(0x400000, demo_mapping)], as_epoch = 1, as_active_cpus = {}, as_destroyed = False\<rparr>"

lemma demo_space_map:
  "as_map AddressSpace_new demo_space_cap demo_frame_cap 0x400000 Size4K 2 11 = (Ok demo_mapping, demo_space)"
  by (simp add: as_map_def AddressSpace_new_def demo_space_cap_def demo_frame_cap_def demo_cap_def
      demo_space_def demo_mapping_def Rights_contains_def Rights_MAP_def Rights_READ_def
      is_canonical_x86_64_def drop_bit_eq_div checked_mul_def checked_add_def contains_range_unat Let_def)

lemma demo_space_replay:
  "demo_space = replay as_step AddressSpace_new [AMap demo_space_cap demo_frame_cap 0x400000 Size4K 2 11]"
  by (simp add: demo_space_map)

lemma translate_exact_example:
  "as_destroyed demo_space = False \<and> is_canonical_x86_64 0x401234 \<and> is_Ok (translate demo_space 0x401234)"
proof -
  have c: "is_canonical_x86_64 0x401234" by (simp add: is_canonical_x86_64_def drop_bit_eq_div Let_def)
  have d: "\<not> as_destroyed demo_space" by (simp add: demo_space_def)
  have "bt_get (as_mappings demo_space) 0x400000 = Some demo_mapping" "covers demo_mapping 0x401234"
    by (simp_all add: demo_space_def covers_def demo_mapping_def span_def)
  with translate_exact [OF demo_space_replay d c] c d show ?thesis
    by (cases "translate demo_space 0x401234") auto
qed

text \<open>Two address spaces with the same mappings translate alike.\<close>

lemma translate_by_lookup:
  assumes "as_inv s" "as_inv t" "as_destroyed s = as_destroyed t"
    and "\<And>k. bt_get (as_mappings s) k = bt_get (as_mappings t) k"
  shows "translate s va = translate t va"
proof (cases "as_destroyed t \<or> \<not> is_canonical_x86_64 va")
  case True
  then show ?thesis using assms(3) by (auto simp: translate_def)
next
  case False
  then have live: "\<not> as_destroyed s" "\<not> as_destroyed t" "is_canonical_x86_64 va" using assms(3) by auto
  show ?thesis
  proof (cases "\<exists>k m. bt_get (as_mappings t) k = Some m \<and> covers m va")
    case True
    then obtain k m where m: "bt_get (as_mappings t) k = Some m" "covers m va" by blast
    then have "bt_get (as_mappings s) k = Some m" using assms(4) by simp
    from translate_found [OF assms(1) live(1,3) this m(2)] translate_found [OF assms(2) live(2,3) m]
    show ?thesis by simp
  next
    case False
    then show ?thesis
      using translate_missing [OF assms(1) live(1,3)] translate_missing [OF assms(2) live(2,3)] assms(4) by auto
  qed
qed

text \<open>What the mapping table of the new state is, and how translation changes with it.\<close>

lemma as_map_lookup:
  assumes inv: "as_inv s" and map: "as_map s space frames vb ps n perm = (Ok m, s')"
  shows "bt_get (as_mappings s') k = (if k = vb then Some m else bt_get (as_mappings s) k)"
    and "bt_get (as_mappings s) vb = None" and "as_inv s'" and "\<not> as_destroyed s" and "\<not> as_destroyed s'"
proof -
  from assms show get: "bt_get (as_mappings s') k = (if k = vb then Some m else bt_get (as_mappings s) k)" for k
    by (rule as_map_OkE) (erule ssubst, simp)
  from assms show "\<not> as_destroyed s" by (rule as_map_OkE)
  from assms show "\<not> as_destroyed s'" by (rule as_map_OkE) (erule ssubst, simp)
  show "as_inv s'" using as_map_step [OF inv] map by (metis snd_conv)
  show "bt_get (as_mappings s) vb = None"
  proof (rule ccontr)
    assume "bt_get (as_mappings s) vb \<noteq> None"
    then obtain m' where k: "bt_get (as_mappings s) vb = Some m'" by auto
    have vb: "mp_virtual_base m' = vb" using as_invD(2) [OF inv k] unfolding mapping_ok_def by blast
    from assms show False
    proof (rule as_map_OkE)
      assume ok: "mapping_ok (as_epoch s') vb m" and "\<And>k m'. bt_get (as_mappings s) k = Some m' \<Longrightarrow> apart m m'"
      then have "apart m m'" using k by blast
      moreover have "mp_virtual_base m = vb" using ok unfolding mapping_ok_def by blast
      ultimately show False using vb span_pos [OF ok] span_pos [OF as_invD(2) [OF inv k]]
        by (auto simp: apart_def)
    qed
  qed
qed

lemma translate_extended:
  assumes "as_inv s" "as_inv s'" "\<not> as_destroyed s" "\<not> as_destroyed s'" "is_canonical_x86_64 va"
    and get: "\<And>k. bt_get (as_mappings s') k = (if k = vb then Some m else bt_get (as_mappings s) k)"
    and fresh: "bt_get (as_mappings s) vb = None"
  shows "translate s' va = (if covers m va
     then Ok (mp_physical_base m + (va - mp_virtual_base m), mp_permissions m) else translate s va)"
proof (cases "covers m va")
  case True
  then show ?thesis using translate_found [OF assms(2,4,5), of vb m] get by simp
next
  case False
  show ?thesis
  proof (cases "\<exists>k m'. bt_get (as_mappings s) k = Some m' \<and> covers m' va")
    case True
    then obtain k m' where k: "bt_get (as_mappings s) k = Some m'" "covers m' va" by blast
    then have "bt_get (as_mappings s') k = Some m'" using fresh by (auto simp: get)
    from translate_found [OF assms(2,4,5) this k(2)] translate_found [OF assms(1,3,5) k] False
    show ?thesis by simp
  next
    case None: False
    then have "translate s' va = Err NotMapped"
      using False by (intro translate_missing [OF assms(2,4,5)]) (auto simp: get split: if_splits)
    moreover have "translate s va = Err NotMapped"
      using None by (intro translate_missing [OF assms(1,3,5)]) auto
    ultimately show ?thesis using False by simp
  qed
qed

text \<open>
  C11: \<open>map\<close> makes exactly the requested range visible, backed by the caller's frames, and
  \<open>unmap\<close> takes exactly that back. After a successful \<open>map\<close> in a reachable state, the caller held
  the map right on the space and the read right on the frames, all backing bytes lie inside the
  frame capability, addresses in the range translate with the new permissions, every other
  address translates as before; and unmapping the base gives back the old translation of every
  address.
\<close>

theorem map_unmap_exact:
  assumes "s = replay as_step AddressSpace_new ops"
    and "as_map s space frames vb ps n perm = (Ok m, s')" "is_canonical_x86_64 va"
  shows "authority space CapabilityKind.AddressSpace Rights_MAP \<and> Rights_contains (cap_rights frames) Rights_READ
     \<and> span m = unat (page_bytes ps) * unat n \<and> span m \<le> unat (cap_len frames)
     \<and> translate s' va = (if covers m va then Ok (cap_base frames + (va - vb), perm) else translate s va)
     \<and> translate (snd (as_unmap s' vb)) va = translate s va"
proof -
  have inv: "as_inv s" unfolding assms(1) by (rule aspace.inv_replay [OF as_inv_new])
  note map = as_map_lookup [OF inv assms(2)]
  have m: "m = \<lparr>mp_virtual_base = vb, mp_physical_base = cap_base frames, mp_page_size = ps, mp_pages = n,
      mp_permissions = perm, mp_epoch = as_epoch s'\<rparr>"
    and auth: "authority space CapabilityKind.AddressSpace Rights_MAP" "Rights_contains (cap_rights frames) Rights_READ"
    and r: "unat (cap_base frames) + span m \<le> unat (cap_base frames) + unat (cap_len frames)"
    using inv assms(2) by (rule as_map_OkE, blast)+
  have new: "translate s' va = (if covers m va then Ok (cap_base frames + (va - vb), perm) else translate s va)"
    using translate_extended [OF inv map(3,4,5) assms(3) map(1,2)] m by simp
  have "as_destroyed (snd (as_unmap s' vb)) = as_destroyed s"
    "bt_get (as_mappings (snd (as_unmap s' vb))) k = bt_get (as_mappings s) k" for k
    using map by (auto simp: as_unmap_def Let_def try_then_def split: result.splits)
  then have "translate (snd (as_unmap s' vb)) va = translate s va"
    using as_unmap_step [OF map(3), of vb] by (intro translate_by_lookup inv) auto
  with auth r new show ?thesis by (simp add: m span_def)
qed

theorem map_unmap_exact_witness:
  "as_map AddressSpace_new demo_space_cap demo_frame_cap 0x400000 Size4K 2 11 = (Ok demo_mapping, demo_space)
   \<and> translate demo_space 0x401234 = Ok (0x3234, 11)
   \<and> translate (snd (as_unmap demo_space 0x400000)) 0x401234 = Err NotMapped"
proof -
  have c: "is_canonical_x86_64 0x401234" by (simp add: is_canonical_x86_64_def drop_bit_eq_div Let_def)
  have "covers demo_mapping 0x401234" by (simp add: covers_def demo_mapping_def span_def)
  moreover have "translate AddressSpace_new 0x401234 = Err NotMapped"
    using c by (simp add: translate_def AddressSpace_new_def)
  moreover have "AddressSpace_new = replay as_step AddressSpace_new []" by simp
  ultimately show ?thesis
    using map_unmap_exact [OF _ demo_space_map c, of "[]"] demo_space_map
    by (simp add: demo_frame_cap_def)
qed

section \<open>Copying to and from user memory\<close>

lemma Page_contains_bit: "Page_contains a b \<longleftrightarrow> (\<forall>n. bit b n \<longrightarrow> bit a n)"
proof
  assume "Page_contains a b"
  then show "\<forall>n. bit b n \<longrightarrow> bit a n" by (metis Page_contains_def bit_and_iff)
next
  assume "\<forall>n. bit b n \<longrightarrow> bit a n"
  then show "Page_contains a b"
    unfolding Page_contains_def by (intro bit_word_eqI) (auto simp: bit_and_iff)
qed

lemma Page_contains_union:
  "Page_contains a (Page_union b c) \<longleftrightarrow> Page_contains a b \<and> Page_contains a c"
  by (auto simp: Page_contains_bit Page_union_def bit_or_iff)

definition user_ok :: "AddressSpace \<Rightarrow> u64 \<Rightarrow> PagePermissions \<Rightarrow> nat \<Rightarrow> u64 \<Rightarrow> bool" where
  "user_ok s start right i p \<longleftrightarrow> (\<exists>va perm. checked_add start (of_nat i) = Some va \<and>
     translate s va = Ok (p, perm) \<and> Page_contains perm (Page_union Page_USER right))"

lemma validate_loop_Ok:
  "(\<And>i. i \<in> set is \<Longrightarrow> user_ok s start right i (f i)) \<Longrightarrow>
   validate_loop s start right is acc = Ok (acc @ map f is)"
  by (induction "is" arbitrary: acc) (force simp: user_ok_def)+

lemma validate_loop_OkD:
  "validate_loop s start right is acc = Ok ps \<Longrightarrow> i \<in> set is \<Longrightarrow> \<exists>p. user_ok s start right i p"
  by (induction "is" arbitrary: acc)
     (auto simp: user_ok_def split: option.splits result.splits if_splits)

lemma stage_bytes_Ok_iff: "stage_bytes mem ps = Ok bs \<longleftrightarrow> map (user_byte mem) ps = map Some bs"
proof (induction ps arbitrary: bs)
  case (Cons p ps)
  show ?case
  proof (cases bs)
    case bs: (Cons b cs)
    show ?thesis
      using Cons.IH [of cs]
      by (cases "stage_bytes mem ps") (auto simp: bs user_byte_def split: option.splits)
  qed (auto split: option.splits result.splits)
qed auto

lemma write_user_Cons:
  "write_user mem (w # ws) = write_user (mem\<lparr>um_bytes := bt_insert (fst w) (snd w) (um_bytes mem)\<rparr>) ws"
  by (simp add: write_user_def)

lemma write_user_other: "p \<notin> fst ` set ws \<Longrightarrow> user_byte (write_user mem ws) p = user_byte mem p"
  by (induction ws arbitrary: mem) (auto simp: write_user_Cons, auto simp: write_user_def user_byte_def)

lemma write_user_all:
  "distinct ps \<Longrightarrow> length ps = length bs \<Longrightarrow> map (user_byte (write_user mem (zip ps bs))) ps = map Some bs"
proof (induction ps bs arbitrary: mem rule: list_induct2')
  case (4 p ps b bs)
  let ?mem = "mem\<lparr>um_bytes := bt_insert p b (um_bytes mem)\<rparr>"
  have "p \<notin> fst ` set (zip ps bs)" using 4(2) by (auto dest: set_zip_leftD)
  then have "user_byte (write_user ?mem (zip ps bs)) p = Some b"
    by (simp add: write_user_other) (simp add: user_byte_def)
  then show ?case using 4 by (simp add: write_user_Cons)
qed simp_all

lemma copy_to_user_Err: "copy_to_user s mem a bs = (Err e, mem') \<Longrightarrow> mem' = mem"
  by (auto simp: copy_to_user_def try_then_def split: result.splits)

text \<open>The physical addresses behind a range that one mapping covers.\<close>

definition backing :: "Mapping \<Rightarrow> u64 \<Rightarrow> nat \<Rightarrow> u64" where
  "backing m a i = mp_physical_base m + (a + of_nat i - mp_virtual_base m)"

lemma user_ok_backing:
  assumes "as_inv s" "bt_get (as_mappings s) k = Some m" "covers m (a + of_nat i)"
    and "user_ok s a right i p"
  shows "p = backing m a i" "Page_contains (mp_permissions m) (Page_union Page_USER right)"
proof -
  from assms(4) obtain perm where t: "translate s (a + of_nat i) = Ok (p, perm)"
    and c: "Page_contains perm (Page_union Page_USER right)"
    by (auto simp: user_ok_def checked_simps)
  then have "\<not> as_destroyed s" "is_canonical_x86_64 (a + of_nat i)"
    by (auto simp: translate_def split: if_splits)
  from translate_found [OF assms(1) this assms(2,3)] t c
  show "p = backing m a i" "Page_contains (mp_permissions m) (Page_union Page_USER right)"
    by (simp_all add: backing_def)
qed

lemma user_ok_other_right:
  assumes "as_inv s" "bt_get (as_mappings s) k = Some m" "covers m (a + of_nat i)"
    and "user_ok s a right i p" "Page_contains (mp_permissions m) right'"
  shows "user_ok s a right' i p"
proof -
  from assms(4) obtain perm where t: "translate s (a + of_nat i) = Ok (p, perm)"
    and c: "Page_contains perm (Page_union Page_USER right)" and add: "checked_add a (of_nat i) = Some (a + of_nat i)"
    by (auto simp: user_ok_def checked_simps)
  then have "\<not> as_destroyed s" "is_canonical_x86_64 (a + of_nat i)"
    by (auto simp: translate_def split: if_splits)
  from translate_found [OF assms(1) this assms(2,3)] t have "perm = mp_permissions m" by simp
  then show ?thesis using t c add assms(5) by (auto simp: user_ok_def Page_contains_union)
qed

lemma backing_inj:
  assumes "mapping_ok e k m" "\<And>i. i < n \<Longrightarrow> covers m (a + of_nat i)" "n < 2 ^ 64"
  shows "distinct (map (backing m a) [0..<n])"
proof -
  have "i = j" if "i < n" "j < n" "backing m a i = backing m a j" for i j
  proof -
    have "unat (of_nat i :: u64) = unat (of_nat j :: u64)" using that(3) by (simp add: backing_def)
    then show ?thesis using that(1,2) assms(3) by (simp add: unat_of_nat)
  qed
  then show ?thesis by (simp add: distinct_map inj_on_def)
qed

text \<open>
  Copying to user memory is all or nothing, and copying back returns it. A refused
  \<open>copy_to_user\<close> writes no byte. When it succeeds in a reachable space on a range that one mapping
  covers, it touches only the bytes backing the range; and if that mapping is also readable,
  \<open>copy_from_user\<close> of the range returns exactly the bytes written.
\<close>

lemma copy_user_round_trip:
  assumes "s = replay as_step AddressSpace_new ops" "length bs < 2 ^ 64"
    and "bt_get (as_mappings s) k = Some m" "\<forall>i<length bs. covers m (a + of_nat i)"
  shows "case copy_to_user s mem a bs of
      (Err _, mem') \<Rightarrow> mem' = mem
    | (Ok _, mem') \<Rightarrow>
        (\<forall>p. p \<notin> backing m a ` {..<length bs} \<longrightarrow> user_byte mem' p = user_byte mem p) \<and>
        (Page_contains (mp_permissions m) Page_READ \<longrightarrow> copy_from_user s mem' a (length bs) = Ok bs)"
proof (cases "validate_user_range s a (length bs) Page_WRITE")
  case (Err e)
  then show ?thesis by (simp add: copy_to_user_def)
next
  case (Ok ps)
  have inv: "as_inv s" unfolding assms(1) by (rule aspace.inv_replay [OF as_inv_new])
  let ?ps = "map (backing m a) [0..<length bs]"
  have w: "user_ok s a Page_WRITE i (backing m a i)" if i: "i < length bs" for i
  proof -
    obtain p where p: "user_ok s a Page_WRITE i p"
      using validate_loop_OkD [OF Ok [unfolded validate_user_range_def], of i] i by auto
    with user_ok_backing(1) [OF inv assms(3) _ p] assms(4) i show ?thesis by auto
  qed
  have ps: "ps = ?ps"
    using validate_loop_Ok [of "[0..<length bs]" s a Page_WRITE "backing m a" "[]"] w Ok
    by (simp add: validate_user_range_def)
  have dist: "distinct ?ps"
    using backing_inj [OF as_invD(2) [OF inv assms(3)] _ assms(2)] assms(4) by blast
  let ?mem = "write_user mem (zip ?ps bs)"
  have "user_byte ?mem p = user_byte mem p" if "p \<notin> backing m a ` {..<length bs}" for p
    using that by (intro write_user_other) (auto dest!: set_zip_leftD)
  moreover have "copy_from_user s ?mem a (length bs) = Ok bs" if r: "Page_contains (mp_permissions m) Page_READ"
  proof -
    have "user_ok s a Page_READ i (backing m a i)" if i: "i < length bs" for i
      using user_ok_other_right [OF inv assms(3) _ w [OF i] r] assms(4) i by blast
    then have "validate_user_range s a (length bs) Page_READ = Ok ?ps"
      using validate_loop_Ok [of "[0..<length bs]" s a Page_READ "backing m a" "[]"]
      by (simp add: validate_user_range_def)
    then show ?thesis using write_user_all [OF dist, of bs mem] by (simp add: copy_from_user_def stage_bytes_Ok_iff)
  qed
  ultimately show ?thesis using Ok ps by (simp add: copy_to_user_def)
qed

lemma copy_user_round_trip_example:
  "let mem' = snd (copy_to_user demo_space UserMemory_new 0x400ffe [1, 2, 3])
   in fst (copy_to_user demo_space UserMemory_new 0x400ffe [1, 2, 3]) = Ok ()
      \<and> copy_from_user demo_space mem' 0x400ffe 3 = Ok [1, 2, 3] \<and> user_byte mem' 0 = None"
proof -
  let ?bs = "[1, 2, 3 :: u8]"
  have m: "bt_get (as_mappings demo_space) 0x400000 = Some demo_mapping" by (simp add: demo_space_def)
  have c: "\<forall>i<length ?bs. covers demo_mapping (0x400ffe + of_nat i)"
    by (auto simp: less_Suc_eq numeral_3_eq_3 covers_def demo_mapping_def span_def)
  have "translate demo_space va = Ok (8192 + (va - 0x400000), 11)" if "va \<in> {0x400ffe, 0x400fff, 0x401000}" for va
    using that by (auto simp: translate_def demo_space_def demo_mapping_def is_canonical_x86_64_def
        drop_bit_eq_div checked_mul_def checked_add_def Let_def)
  then obtain mem' where w: "copy_to_user demo_space UserMemory_new 0x400ffe ?bs = (Ok (), mem')"
    by (simp add: copy_to_user_def validate_user_range_def checked_add_def Page_contains_def Page_union_def
        Page_USER_def Page_WRITE_def upt_rec)
  have r: "Page_contains (mp_permissions demo_mapping) Page_READ"
    by (simp add: demo_mapping_def Page_contains_def Page_READ_def)
  have "0 \<notin> backing demo_mapping 0x400ffe ` {..<length ?bs}"
    by (auto simp: backing_def demo_mapping_def less_Suc_eq numeral_3_eq_3 lessThan_def)
  with copy_user_round_trip [OF demo_space_replay _ m c, of UserMemory_new] r
  have "copy_from_user demo_space mem' 0x400ffe (length ?bs) = Ok ?bs" "user_byte mem' 0 = user_byte UserMemory_new 0"
    by (simp_all add: w)
  moreover have "user_byte UserMemory_new 0 = None" by (simp add: user_byte_def UserMemory_new_def)
  ultimately show ?thesis unfolding Let_def by (simp add: w numeral_3_eq_3)
qed


section \<open>Destruction\<close>

lemma destroyed_is_final:
  assumes "as_inv s" "as_destroy s space = (Ok u, s')" "t = replay as_step s' ops"
  shows "as_mappings t = [] \<and> as_active_cpus t = {} \<and> translate t va = Err Destroyed
     \<and> fst (as_map t c f vb ps n perm) = Err Destroyed \<and> fst (as_unmap t vb) = Err Destroyed"
proof -
  have "as_inv s'" using aspace.inv_step [OF assms(1), of "ADestroy space"] assms(2) by simp
  moreover have "as_destroyed s'" using assms(2) by (auto simp: as_destroy_def elim!: try_then_OkE split: if_splits)
  ultimately have "as_destroyed t" "as_inv t"
    using aspace.evolves_replay [of s' ops] aspace.inv_replay [of s' ops] assms(3) by (auto simp: as_evolves_def)
  with as_invD(4) [of t] show ?thesis by (simp add: translate_def as_map_def as_unmap_def)
qed


section \<open>Temporary mappings\<close>

datatype window_op = WMap Capability Capability | WRevoke TemporaryMapping

fun window_step :: "TemporaryMapWindow \<Rightarrow> window_op \<Rightarrow> TemporaryMapWindow" where
  "window_step w (WMap window physical) = snd (window_map w window physical)"
| "window_step w (WRevoke t) = snd (window_revoke w t)"

definition window_inv :: "TemporaryMapWindow \<Rightarrow> bool" where
  "window_inv w \<longleftrightarrow> (\<forall>t. tw_active w = Some t \<longrightarrow> tm_generation t = tw_next_generation w)"

definition window_evolves :: "TemporaryMapWindow \<Rightarrow> TemporaryMapWindow \<Rightarrow> bool" where
  "window_evolves w w' \<longleftrightarrow> tw_next_generation w \<le> tw_next_generation w'"

lemma window_step_ok:
  assumes "window_inv w"
  shows "window_inv (window_step w a) \<and> window_evolves w (window_step w a)"
proof (cases a)
  case (WMap window physical)
  then show ?thesis using assms by (auto simp: window_map_def window_inv_def window_evolves_def Let_def)
next
  case (WRevoke t)
  show ?thesis
  proof (cases "checked_add (tw_next_generation w) 1")
    case (Some g)
    then show ?thesis using WRevoke assms checked_inc_greater [OF Some]
      by (auto simp: window_revoke_def window_inv_def window_evolves_def)
  qed (use WRevoke assms in \<open>auto simp: window_revoke_def window_inv_def window_evolves_def\<close>)
qed

interpretation window: op_machine window_step window_inv window_evolves
  by unfold_locales (use window_step_ok in blast, auto simp: window_evolves_def window_step_ok,
      use window_step_ok in \<open>auto simp: window_evolves_def\<close>)

text \<open>
  A temporary mapping is exclusive and ends with its revocation. While it is active the
  window maps nothing else; once \<open>revoke\<close> accepts it, no later call accepts that mapping again,
  whatever is mapped through the window afterwards.
\<close>

lemma temporary_mapping_revoked_once:
  assumes "w = replay window_step (TemporaryMapWindow_new base len) ops"
    and "window_revoke w t = (Ok u, w')"
  shows "\<not> is_Ok (fst (window_map w c f))
     \<and> fst (window_revoke (replay window_step w' later) t) = Err MapError.StaleGeneration"
proof -
  have inv: "window_inv w"
    unfolding assms(1) by (rule window.inv_replay) (simp add: window_inv_def TemporaryMapWindow_new_def)
  from assms(2) obtain g where t: "tw_active w = Some t" and g: "checked_add (tw_next_generation w) 1 = Some g"
    and w': "w' = w\<lparr>tw_active := None, tw_next_generation := g\<rparr>"
    by (auto simp: window_revoke_def Let_def elim!: try_then_OkE split: if_splits)
  let ?v = "replay window_step w' later"
  have "window_inv w'" by (simp add: w' window_inv_def)
  then have v: "window_inv ?v" "g \<le> tw_next_generation ?v"
    using window.inv_replay window.evolves_replay by (fastforce simp: window_evolves_def w')+
  have "tm_generation t < g" using inv t checked_inc_greater [OF g] by (simp add: window_inv_def)
  then have "tw_active ?v \<noteq> Some t" using v by (auto simp: window_inv_def)
  then show ?thesis using t by (auto simp: window_revoke_def window_map_def)
qed

theorem temporary_mapping_revoked_once_witness:
  "let c = demo_cap\<lparr>cap_kind := VirtRegion\<rparr>;
       w = replay window_step (TemporaryMapWindow_new 4096 4096) [WMap c (demo_frame_cap\<lparr>cap_len := 4096\<rparr>)];
       t = \<lparr>tm_virtual_base = 4096, tm_physical_base = 8192, tm_len = 4096, tm_generation = 1\<rparr>
   in fst (window_revoke w t) = Ok () \<and>
      fst (window_revoke (replay window_step (snd (window_revoke w t)) []) t) = Err MapError.StaleGeneration"
proof -
  let ?c = "demo_cap\<lparr>cap_kind := VirtRegion\<rparr>"
  let ?ops = "[WMap ?c (demo_frame_cap\<lparr>cap_len := 4096\<rparr>)]"
  let ?w = "replay window_step (TemporaryMapWindow_new 4096 4096) ?ops"
  let ?t = "\<lparr>tm_virtual_base = 4096, tm_physical_base = 8192, tm_len = 4096, tm_generation = 1\<rparr>"
  have r: "window_revoke ?w ?t = (Ok (), snd (window_revoke ?w ?t))"
    by (simp add: window_revoke_def window_map_def TemporaryMapWindow_new_def demo_cap_def demo_frame_cap_def
        Rights_contains_def Rights_MAP_def Rights_READ_def contains_range_unat checked_add_def Let_def)
  from temporary_mapping_revoked_once [OF refl r, of ?c ?c "[]"] r show ?thesis
    unfolding Let_def by (metis fst_conv)
qed

end
