(* ===== verification/Kernel_Context.thy ===== *)
theory Kernel_Context
  imports Kernel_Memory
begin

text \<open>
  User contexts and trap frames of \<open>thermite-kernel/src/context.rs\<close>. The lemmas say which entry
  points are accepted, that a context is entered at most once between resumptions, and that a
  trap frame is consumed by the resumption that uses it.
\<close>

datatype Privilege = Kernel | User

datatype TrapOrigin = Interrupt u8 | Exception u8 | Syscall u64

record Registers =
  instruction_pointer :: u64
  stack_pointer :: u64
  flags :: u64
  argument0 :: u64
  reg_result :: u64

record UserContext =
  uc_id :: u32
  uc_address_space :: u32
  uc_registers :: Registers
  uc_generation :: u64
  uc_runnable :: bool

record TrapFrame =
  tf_context :: u32
  tf_origin :: TrapOrigin
  tf_registers :: Registers
  tf_privilege :: Privilege
  tf_generation :: u64

datatype ContextError =
    WrongCapability | MissingRights | NonCanonical | MisalignedStack | KernelAddress | NotRunnable
  | WrongContext | WrongGeneration | WrongPrivilege | GenerationOverflow


section \<open>Operations\<close>

definition context_require :: "Capability \<Rightarrow> CapabilityKind \<Rightarrow> Rights \<Rightarrow> (unit, ContextError) result" where
  "context_require c k r =
     (if cap_kind c \<noteq> k then Err WrongCapability
      else if \<not> Rights_contains (cap_rights c) r then Err ContextError.MissingRights
      else Ok ())"

definition context_create ::
  "Capability \<Rightarrow> u32 \<Rightarrow> u32 \<Rightarrow> u64 \<Rightarrow> u64 \<Rightarrow> (UserContext, ContextError) result" where
  "context_create c ident address_space ip sp =
     (case context_require c CapabilityKind.UserContext Rights_CONTROL of
        Err e \<Rightarrow> Err e
      | Ok _ \<Rightarrow>
          if \<not> is_canonical_x86_64 ip \<or> \<not> is_canonical_x86_64 sp then Err ContextError.NonCanonical
          else if 0x800000000000 \<le> ip \<or> 0x800000000000 \<le> sp then Err KernelAddress
          else if sp AND 0xf \<noteq> 0 then Err MisalignedStack
          else Ok \<lparr>uc_id = ident, uc_address_space = address_space,
                   uc_registers = \<lparr>instruction_pointer = ip, stack_pointer = sp, flags = 0x202,
                                   argument0 = 0, reg_result = 0\<rparr>,
                   uc_generation = 0, uc_runnable = True\<rparr>)"

definition context_enter ::
  "UserContext \<Rightarrow> Capability \<Rightarrow> (TrapFrame, ContextError) result \<times> UserContext" where
  "context_enter u c =
     try_then (context_require c CapabilityKind.UserContext Rights_CONTROL) u (\<lambda>_.
       if \<not> uc_runnable u then (Err NotRunnable, u)
       else (Ok \<lparr>tf_context = uc_id u, tf_origin = Syscall 0, tf_registers = uc_registers u,
                 tf_privilege = User, tf_generation = uc_generation u\<rparr>,
             u\<lparr>uc_runnable := False\<rparr>))"

definition context_trap ::
  "UserContext \<Rightarrow> Capability \<Rightarrow> TrapOrigin \<Rightarrow> Registers \<Rightarrow> (TrapFrame, ContextError) result \<times> UserContext" where
  "context_trap u c origin registers =
     try_then (context_require c CapabilityKind.TrapFrame Rights_CONTROL) u (\<lambda>_.
       (Ok \<lparr>tf_context = uc_id u, tf_origin = origin, tf_registers = registers,
            tf_privilege = User, tf_generation = uc_generation u\<rparr>, u))"

text \<open>The registers are written before the generation is advanced.\<close>

definition context_resume ::
  "UserContext \<Rightarrow> Capability \<Rightarrow> TrapFrame \<Rightarrow> u64 \<Rightarrow> (unit, ContextError) result \<times> UserContext" where
  "context_resume u c frame r =
     try_then (context_require c CapabilityKind.UserContext Rights_CONTROL) u (\<lambda>_.
       if tf_context frame \<noteq> uc_id u then (Err WrongContext, u)
       else if tf_generation frame \<noteq> uc_generation u then (Err WrongGeneration, u)
       else if tf_privilege frame \<noteq> User then (Err WrongPrivilege, u)
       else
         let u1 = u\<lparr>uc_registers := (tf_registers frame)\<lparr>reg_result := r\<rparr>\<rparr>
         in try_then (ok_or (checked_add (uc_generation u1) 1) ContextError.GenerationOverflow) u1 (\<lambda>g.
              (Ok (), u1\<lparr>uc_generation := g, uc_runnable := True\<rparr>)))"

definition context_terminate :: "UserContext \<Rightarrow> UserContext" where
  "context_terminate u = u\<lparr>uc_runnable := False\<rparr>"

interpretation context_gate: capability_gate context_require WrongCapability ContextError.MissingRights
  by unfold_locales (auto simp: context_require_def)

datatype context_op =
    UEnter Capability
  | UTrap Capability TrapOrigin Registers
  | UResume Capability TrapFrame u64
  | UTerminate

fun context_step :: "UserContext \<Rightarrow> context_op \<Rightarrow> UserContext" where
  "context_step u (UEnter c) = snd (context_enter u c)"
| "context_step u (UTrap c origin regs) = snd (context_trap u c origin regs)"
| "context_step u (UResume c frame r) = snd (context_resume u c frame r)"
| "context_step u UTerminate = context_terminate u"

fun is_resume :: "context_op \<Rightarrow> bool" where
  "is_resume (UResume _ _ _) = True"
| "is_resume _ = False"


section \<open>Entry points\<close>

lemma low_canonical: "unat a < 2 ^ 47 \<Longrightarrow> is_canonical_x86_64 a"
proof -
  assume "unat a < 2 ^ 47"
  then have "drop_bit 47 a = 0" "drop_bit 48 a = 0"
    by (simp_all add: word_unat_eq_iff drop_bit_eq_div unat_div)
  then show ?thesis by (simp add: is_canonical_x86_64_def)
qed

lemma context_create_Ok_iff:
  "is_Ok (context_create c ident space ip sp) \<longleftrightarrow>
     authority c CapabilityKind.UserContext Rights_CONTROL \<and>
     unat ip < 2 ^ 47 \<and> unat sp < 2 ^ 47 \<and> sp AND 0xf = 0"
proof -
  have "\<not> 0x800000000000 \<le> a \<longleftrightarrow> unat a < 2 ^ 47" for a :: u64
    by (simp add: not_le word_less_nat_alt)
  then show ?thesis using low_canonical [of ip] low_canonical [of sp]
    by (auto simp: context_create_def context_gate.gate_eq authority_def)
qed


section \<open>Frames and generations\<close>

definition context_evolves :: "UserContext \<Rightarrow> UserContext \<Rightarrow> bool" where
  "context_evolves u u' \<longleftrightarrow> uc_id u' = uc_id u \<and> uc_address_space u' = uc_address_space u \<and>
     uc_generation u \<le> uc_generation u'"

lemma resume_OkE:
  assumes "context_resume u c f r = (Ok x, u')"
  obtains g where "authority c CapabilityKind.UserContext Rights_CONTROL" "tf_context f = uc_id u"
    "tf_generation f = uc_generation u" "tf_privilege f = User" "checked_add (uc_generation u) 1 = Some g"
    "u' = u\<lparr>uc_registers := (tf_registers f)\<lparr>reg_result := r\<rparr>, uc_generation := g, uc_runnable := True\<rparr>"
  using assms
  by (auto simp: context_resume_def context_gate.gate_Ok_iff Let_def elim!: try_then_OkE split: if_splits)

lemma context_evolves_step: "context_evolves u (context_step u a)"
proof (cases a)
  case (UResume c f r)
  show ?thesis
  proof (cases "checked_add (uc_generation u) 1")
    case (Some g)
    then show ?thesis using checked_inc_greater [OF Some] UResume
      by (auto simp: context_resume_def try_then_def context_evolves_def Let_def split: result.splits)
  qed (use UResume in \<open>auto simp: context_resume_def try_then_def context_evolves_def Let_def split: result.splits\<close>)
qed (auto simp: context_enter_def context_trap_def context_terminate_def try_then_def context_evolves_def
     split: result.splits)

interpretation ctx: op_machine context_step "\<lambda>_. True" context_evolves
  by unfold_locales (auto simp: context_evolves_step, auto simp: context_evolves_def)

lemma not_runnable_kept:
  "\<not> uc_runnable u \<Longrightarrow> \<not> list_ex is_resume ops \<Longrightarrow> \<not> uc_runnable (replay context_step u ops)"
proof (induction ops arbitrary: u)
  case (Cons a ops)
  then have "\<not> uc_runnable (context_step u a)"
    by (cases a) (auto simp: context_enter_def context_trap_def context_terminate_def try_then_def
        split: result.splits)
  then show ?case using Cons by simp
qed simp

text \<open>
  One entry, one resumption. After \<open>enter\<close> hands out a frame, the context cannot be entered
  again until a resumption; a resumption with that frame restores the registers at entry with
  only the result changed; and a frame that has been resumed is refused for ever after.
\<close>

lemma frame_is_consumed:
  assumes "context_enter u c = (Ok f, u1)" "\<not> list_ex is_resume ops" "u2 = replay context_step u1 ops"
    and "context_resume u2 c' f r = (Ok x, u3)"
  shows "\<not> is_Ok (fst (context_enter u2 d)) \<and> uc_registers u3 = (uc_registers u)\<lparr>reg_result := r\<rparr>
     \<and> uc_runnable u3 \<and> \<not> is_Ok (fst (context_resume (replay context_step u3 later) d f r'))"
proof -
  from assms(1) have f: "f = \<lparr>tf_context = uc_id u, tf_origin = Syscall 0, tf_registers = uc_registers u,
      tf_privilege = User, tf_generation = uc_generation u\<rparr>" and u1: "u1 = u\<lparr>uc_runnable := False\<rparr>"
    by (auto simp: context_enter_def elim!: try_then_OkE split: if_splits)
  have "\<not> uc_runnable u2" unfolding assms(3) by (rule not_runnable_kept [OF _ assms(2)]) (simp add: u1)
  then have entry: "\<not> is_Ok (fst (context_enter u2 d))"
    by (auto simp: context_enter_def try_then_def split: result.splits)
  from assms(4) obtain g where g: "checked_add (uc_generation u2) 1 = Some g" "tf_generation f = uc_generation u2"
    and u3: "u3 = u2\<lparr>uc_registers := (tf_registers f)\<lparr>reg_result := r\<rparr>, uc_generation := g, uc_runnable := True\<rparr>"
    by (rule resume_OkE)
  have "context_evolves u3 (replay context_step u3 later)" by (rule ctx.evolves_replay) simp
  then have "tf_generation f < uc_generation (replay context_step u3 later)"
    using checked_inc_greater [OF g(1)] g(2) by (auto simp: context_evolves_def u3)
  then have "\<not> is_Ok (fst (context_resume (replay context_step u3 later) d f r'))"
    by (auto simp: context_resume_def try_then_def split: result.splits)
  then show ?thesis using entry by (simp add: u3 f)
qed

definition demo_context_cap :: Capability where
  "demo_context_cap = demo_cap\<lparr>cap_kind := CapabilityKind.UserContext\<rparr>"

definition demo_context :: UserContext where
  "demo_context = \<lparr>uc_id = 4, uc_address_space = 1, uc_registers = \<lparr>instruction_pointer = 0x400000,
     stack_pointer = 0x7ff0, flags = 0x202, argument0 = 0, reg_result = 0\<rparr>, uc_generation = 0, uc_runnable = True\<rparr>"

lemma frame_is_consumed_example:
  "let f = \<lparr>tf_context = 4, tf_origin = Syscall 0, tf_registers = uc_registers demo_context,
            tf_privilege = User, tf_generation = 0\<rparr>;
       u1 = snd (context_enter demo_context demo_context_cap);
       u3 = snd (context_resume u1 demo_context_cap f 42)
   in context_enter demo_context demo_context_cap = (Ok f, u1)
      \<and> context_resume u1 demo_context_cap f 42 = (Ok (), u3)
      \<and> reg_result (uc_registers u3) = 42
      \<and> \<not> is_Ok (fst (context_resume (replay context_step u3 [UEnter demo_context_cap]) demo_context_cap f 7))"
proof -
  let ?f = "\<lparr>tf_context = 4, tf_origin = Syscall 0, tf_registers = uc_registers demo_context,
            tf_privilege = User, tf_generation = 0\<rparr>"
  let ?u1 = "snd (context_enter demo_context demo_context_cap)"
  let ?u3 = "snd (context_resume ?u1 demo_context_cap ?f 42)"
  have e: "context_enter demo_context demo_context_cap = (Ok ?f, ?u1)"
    by (simp add: context_enter_def demo_context_def demo_context_cap_def demo_cap_def context_require_def
        Rights_contains_def Rights_CONTROL_def)
  have r: "context_resume ?u1 demo_context_cap ?f 42 = (Ok (), ?u3)"
    by (simp add: context_resume_def context_enter_def demo_context_def demo_context_cap_def demo_cap_def
        context_require_def Rights_contains_def Rights_CONTROL_def checked_add_def Let_def)
  from frame_is_consumed [OF e, of "[]" ?u1 demo_context_cap 42 "()" ?u3 demo_context_cap
      "[UEnter demo_context_cap]" 7] e r
  show ?thesis unfolding Let_def by simp
qed

text \<open>
  Termination is not final in this model: a frame taken before \<open>terminate\<close> still resumes the
  context and makes it runnable again.
\<close>

lemma resume_revives_terminated:
  "let f = \<lparr>tf_context = 4, tf_origin = Syscall 0, tf_registers = uc_registers demo_context,
            tf_privilege = User, tf_generation = 0\<rparr>;
       t = context_terminate (snd (context_enter demo_context demo_context_cap))
   in fst (context_resume t demo_context_cap f 0) = Ok () \<and> uc_runnable (snd (context_resume t demo_context_cap f 0))"
  by (simp add: context_resume_def context_enter_def context_terminate_def demo_context_def demo_context_cap_def
      demo_cap_def context_require_def Rights_contains_def Rights_CONTROL_def checked_add_def Let_def)

end
