(* ===== verification/Kernel_Frame.thy ===== *)
theory Kernel_Frame
  imports Kernel_Prelude
begin

text \<open>
  The frame allocator of \<open>thermite-kernel/src/frame.rs\<close>: free regions with coalescing, allocated
  runs with generations, loans, and splitting and joining of runs. The lemmas describe memory as
  sets of byte addresses: free and allocated runs never overlap, no byte is lost or gained, and
  an allocation is aligned, of the requested size and found whenever a free region can hold it.
\<close>

record FrameRun =
  fr_base :: u64
  fr_pages :: u64
  fr_generation :: u64
  fr_zeroed :: bool

datatype FrameError =
    Empty | Misaligned | RangeOverflow | Overlap | OutOfMemory | UnknownRun | StaleGeneration
  | NonAdjacent | GenerationOverflow | AlreadyLent | NotLent | ForeignBorrower

record FrameAllocator =
  fa_free :: "(u64, u64) btmap"
  fa_allocated :: "(u64, FrameRun) btmap"
  fa_generations :: "(u64, u64) btmap"
  fa_loans :: "(u64, u32) btmap"

definition PAGE_SIZE :: u64 where "PAGE_SIZE = 4096"


section \<open>Operations\<close>

definition FrameAllocator_new :: FrameAllocator where
  "FrameAllocator_new = \<lparr>fa_free = [], fa_allocated = [], fa_generations = [], fa_loans = []\<rparr>"

definition validate_run :: "u64 \<Rightarrow> u64 \<Rightarrow> (unit, FrameError) result" where
  "validate_run base pages =
     (if pages = 0 then Err Empty
      else if base mod PAGE_SIZE \<noteq> 0 then Err Misaligned
      else
        (case checked_mul pages PAGE_SIZE of
           None \<Rightarrow> Err RangeOverflow
         | Some bytes \<Rightarrow> (case checked_add base bytes of None \<Rightarrow> Err RangeOverflow | Some _ \<Rightarrow> Ok ())))"

fun coalesce_loop :: "(u64, u64) btmap \<Rightarrow> (u64 \<times> u64) list \<Rightarrow> (u64, u64) btmap" where
  "coalesce_loop acc [] = acc"
| "coalesce_loop acc (e # es) =
     (if acc \<noteq> [] \<and> fst (last acc) + snd (last acc) * PAGE_SIZE = fst e
      then coalesce_loop (bt_insert (fst (last acc)) (snd (last acc) + snd e) acc) es
      else coalesce_loop (bt_insert (fst e) (snd e) acc) es)"

definition coalesce :: "(u64, u64) btmap \<Rightarrow> (u64, u64) btmap" where
  "coalesce free = coalesce_loop [] free"

definition free_overlaps :: "u64 \<Rightarrow> u64 \<Rightarrow> u64 \<times> u64 \<Rightarrow> bool" where
  "free_overlaps base stop e =
     (let other_end = saturating_add (fst e) (saturating_mul (snd e) PAGE_SIZE)
      in base < other_end \<and> fst e < stop)"

definition add_region :: "FrameAllocator \<Rightarrow> u64 \<Rightarrow> u64 \<Rightarrow> (unit, FrameError) result \<times> FrameAllocator" where
  "add_region s base pages =
     try_then (validate_run base pages) s (\<lambda>_.
     try_then (ok_or (checked_mul pages PAGE_SIZE) RangeOverflow) s (\<lambda>bytes.
     try_then (ok_or (checked_add base bytes) RangeOverflow) s (\<lambda>stop.
       if list_ex (free_overlaps base stop) (fa_free s) then (Err Overlap, s)
       else (Ok (), s\<lparr>fa_free := coalesce (bt_insert base pages (fa_free s))\<rparr>))))"

definition is_power_of_two :: "u64 \<Rightarrow> bool" where
  "is_power_of_two x = list_ex (\<lambda>k. x = 2 ^ k) [0..<64]"

text \<open>The closure of \<open>find_map\<close>: where a region can hold the request, if it can.\<close>

definition fit :: "u64 \<Rightarrow> u64 \<Rightarrow> u64 \<times> u64 \<Rightarrow> (u64 \<times> u64 \<times> u64 \<times> u64) option" where
  "fit alignment pages e =
     (case checked_add (fst e) (alignment - 1) of
        None \<Rightarrow> None
      | Some x \<Rightarrow>
          let aligned = x AND NOT (alignment - 1) in
          (case checked_sub aligned (fst e) of
             None \<Rightarrow> None
           | Some d \<Rightarrow>
               let prefix = d div PAGE_SIZE in
               (case checked_add prefix pages of
                  None \<Rightarrow> None
                | Some needed \<Rightarrow>
                    if needed \<le> snd e then Some (fst e, snd e, aligned, prefix) else None)))"

fun find_map :: "('a \<Rightarrow> 'b option) \<Rightarrow> 'a list \<Rightarrow> 'b option" where
  "find_map f [] = None"
| "find_map f (x # xs) = (case f x of Some y \<Rightarrow> Some y | None \<Rightarrow> find_map f xs)"

definition frame_generation :: "FrameAllocator \<Rightarrow> u64 \<Rightarrow> u64" where
  "frame_generation s base = (case bt_get (fa_generations s) base of None \<Rightarrow> 0 | Some g \<Rightarrow> g)"

definition frame_allocate ::
  "FrameAllocator \<Rightarrow> u64 \<Rightarrow> u64 \<Rightarrow> (FrameRun, FrameError) result \<times> FrameAllocator" where
  "frame_allocate s pages alignment_pages =
     (if pages = 0 \<or> alignment_pages = 0 \<or> \<not> is_power_of_two alignment_pages then (Err Empty, s)
      else try_then (ok_or (checked_mul alignment_pages PAGE_SIZE) RangeOverflow) s (\<lambda>alignment.
        case find_map (fit alignment pages) (fa_free s) of
          None \<Rightarrow> (Err OutOfMemory, s)
        | Some (base, available, aligned, prefix) \<Rightarrow>
            let free1 = bt_remove base (fa_free s);
                free2 = (if prefix \<noteq> 0 then bt_insert base prefix free1 else free1);
                suffix = available - prefix - pages;
                free3 = (if suffix \<noteq> 0 then bt_insert (aligned + pages * PAGE_SIZE) suffix free2 else free2);
                run = \<lparr>fr_base = aligned, fr_pages = pages, fr_generation = frame_generation s aligned,
                       fr_zeroed = False\<rparr>
            in (Ok run, s\<lparr>fa_free := free3, fa_allocated := bt_insert aligned run (fa_allocated s)\<rparr>)))"

definition frame_validate :: "FrameAllocator \<Rightarrow> FrameRun \<Rightarrow> (FrameRun, FrameError) result" where
  "frame_validate s run =
     (case bt_get (fa_allocated s) (fr_base run) of
        None \<Rightarrow> Err UnknownRun
      | Some live \<Rightarrow>
          if fr_generation live \<noteq> fr_generation run then Err StaleGeneration
          else if fr_pages live \<noteq> fr_pages run then Err UnknownRun
          else Ok live)"

definition mark_zeroed :: "FrameAllocator \<Rightarrow> FrameRun \<Rightarrow> (FrameRun, FrameError) result \<times> FrameAllocator" where
  "mark_zeroed s run =
     try_then (frame_validate s run) s (\<lambda>live.
       let zeroed = live\<lparr>fr_zeroed := True\<rparr>
       in (Ok zeroed, s\<lparr>fa_allocated := bt_insert (fr_base run) zeroed (fa_allocated s)\<rparr>))"

definition lend :: "FrameAllocator \<Rightarrow> FrameRun \<Rightarrow> u32 \<Rightarrow> (FrameRun, FrameError) result \<times> FrameAllocator" where
  "lend s run borrower =
     try_then (frame_validate s run) s (\<lambda>live.
       if bt_contains (fa_loans s) (fr_base run) then (Err AlreadyLent, s)
       else try_then (ok_or (checked_add (fr_generation live) 1) GenerationOverflow) s (\<lambda>g.
         let lent = live\<lparr>fr_generation := g\<rparr>
         in (Ok lent, s\<lparr>fa_allocated := bt_insert (fr_base run) lent (fa_allocated s),
                        fa_generations := bt_insert (fr_base run) g (fa_generations s),
                        fa_loans := bt_insert (fr_base run) borrower (fa_loans s)\<rparr>)))"

definition reclaim :: "FrameAllocator \<Rightarrow> FrameRun \<Rightarrow> u32 \<Rightarrow> (FrameRun, FrameError) result \<times> FrameAllocator" where
  "reclaim s run borrower =
     try_then (frame_validate s run) s (\<lambda>live.
       case bt_get (fa_loans s) (fr_base run) of
         None \<Rightarrow> (Err NotLent, s)
       | Some owner \<Rightarrow>
           if owner \<noteq> borrower then (Err ForeignBorrower, s)
           else try_then (ok_or (checked_add (fr_generation live) 1) GenerationOverflow) s (\<lambda>g.
             let reclaimed = live\<lparr>fr_generation := g\<rparr>
             in (Ok reclaimed, s\<lparr>fa_loans := bt_remove (fr_base run) (fa_loans s),
                                 fa_generations := bt_insert (fr_base run) g (fa_generations s),
                                 fa_allocated := bt_insert (fr_base run) reclaimed (fa_allocated s)\<rparr>)))"

definition frame_split :: "FrameRun \<Rightarrow> u64 \<Rightarrow> (FrameRun \<times> FrameRun, FrameError) result" where
  "frame_split run left_pages =
     (if left_pages = 0 \<or> fr_pages run \<le> left_pages then Err Empty
      else Ok (run\<lparr>fr_pages := left_pages\<rparr>,
               run\<lparr>fr_base := fr_base run + left_pages * PAGE_SIZE, fr_pages := fr_pages run - left_pages\<rparr>))"

definition frame_join :: "FrameRun \<Rightarrow> FrameRun \<Rightarrow> (FrameRun, FrameError) result" where
  "frame_join left right =
     (if fr_generation left \<noteq> fr_generation right \<or> fr_zeroed left \<noteq> fr_zeroed right
         \<or> fr_base left + fr_pages left * PAGE_SIZE \<noteq> fr_base right
      then Err NonAdjacent
      else
        (case checked_add (fr_pages left) (fr_pages right) of
           None \<Rightarrow> Err RangeOverflow
         | Some n \<Rightarrow> Ok (left\<lparr>fr_pages := n\<rparr>)))"

text \<open>\<open>entry(right.base).or_insert\<close>: an existing generation of the right half is kept.\<close>

definition split_allocated ::
  "FrameAllocator \<Rightarrow> FrameRun \<Rightarrow> u64 \<Rightarrow> (FrameRun \<times> FrameRun, FrameError) result \<times> FrameAllocator" where
  "split_allocated s run left_pages =
     try_then (frame_validate s run) s (\<lambda>live.
       if bt_contains (fa_loans s) (fr_base run) then (Err AlreadyLent, s)
       else try_then (frame_split live left_pages) s (\<lambda>(left, right).
         let generations = (if bt_contains (fa_generations s) (fr_base right) then fa_generations s
                            else bt_insert (fr_base right) (fr_generation right) (fa_generations s))
         in (Ok (left, right),
             s\<lparr>fa_allocated := bt_insert (fr_base right) right (bt_insert (fr_base left) left
                  (bt_remove (fr_base run) (fa_allocated s))),
               fa_generations := generations\<rparr>)))"

definition join_allocated ::
  "FrameAllocator \<Rightarrow> FrameRun \<Rightarrow> FrameRun \<Rightarrow> (FrameRun, FrameError) result \<times> FrameAllocator" where
  "join_allocated s left right =
     try_then (frame_validate s left) s (\<lambda>left_live.
     try_then (frame_validate s right) s (\<lambda>right_live.
       if bt_contains (fa_loans s) (fr_base left) \<or> bt_contains (fa_loans s) (fr_base right)
       then (Err AlreadyLent, s)
       else try_then (frame_join left_live right_live) s (\<lambda>joined.
         (Ok joined, s\<lparr>fa_allocated := bt_insert (fr_base joined) joined
            (bt_remove (fr_base right) (bt_remove (fr_base left) (fa_allocated s)))\<rparr>))))"

text \<open>The run leaves the table before its next generation is computed.\<close>

definition frame_release :: "FrameAllocator \<Rightarrow> FrameRun \<Rightarrow> (unit, FrameError) result \<times> FrameAllocator" where
  "frame_release s run =
     try_then (frame_validate s run) s (\<lambda>_.
       if bt_contains (fa_loans s) (fr_base run) then (Err AlreadyLent, s)
       else
         let s1 = s\<lparr>fa_allocated := bt_remove (fr_base run) (fa_allocated s)\<rparr>
         in try_then (ok_or (checked_add (fr_generation run) 1) GenerationOverflow) s1 (\<lambda>g.
              (Ok (), s1\<lparr>fa_generations := bt_insert (fr_base run) g (fa_generations s1),
                         fa_free := coalesce (bt_insert (fr_base run) (fr_pages run) (fa_free s1))\<rparr>)))"

definition free_pages :: "FrameAllocator \<Rightarrow> u64" where
  "free_pages s = sum_list (map snd (fa_free s))"

datatype frame_op =
    FAdd u64 u64
  | FAllocate u64 u64
  | FZero FrameRun
  | FLend FrameRun u32
  | FReclaim FrameRun u32
  | FSplit FrameRun u64
  | FJoin FrameRun FrameRun
  | FRelease FrameRun

fun frame_step :: "FrameAllocator \<Rightarrow> frame_op \<Rightarrow> FrameAllocator" where
  "frame_step s (FAdd base pages) = snd (add_region s base pages)"
| "frame_step s (FAllocate pages alignment) = snd (frame_allocate s pages alignment)"
| "frame_step s (FZero run) = snd (mark_zeroed s run)"
| "frame_step s (FLend run borrower) = snd (lend s run borrower)"
| "frame_step s (FReclaim run borrower) = snd (reclaim s run borrower)"
| "frame_step s (FSplit run n) = snd (split_allocated s run n)"
| "frame_step s (FJoin left right) = snd (join_allocated s left right)"
| "frame_step s (FRelease run) = snd (frame_release s run)"

section \<open>Regions as sets of byte addresses\<close>

definition run_bytes :: "u64 \<Rightarrow> u64 \<Rightarrow> nat set" where
  "run_bytes base pages = {unat base..<unat base + 4096 * unat pages}"

definition run_ok :: "u64 \<Rightarrow> u64 \<Rightarrow> bool" where
  "run_ok base pages \<longleftrightarrow> unat base mod 4096 = 0 \<and> pages \<noteq> 0 \<and> unat base + 4096 * unat pages < 2 ^ 64"

definition before :: "u64 \<times> u64 \<Rightarrow> u64 \<times> u64 \<Rightarrow> bool" where
  "before e e' \<longleftrightarrow> unat (fst e) + 4096 * unat (snd e) \<le> unat (fst e')"

definition regions_ok :: "(u64 \<times> u64) list \<Rightarrow> bool" where
  "regions_ok es \<longleftrightarrow> (\<forall>e\<in>set es. run_ok (fst e) (snd e)) \<and> sorted_wrt before es"

definition cover :: "(u64 \<times> u64) list \<Rightarrow> nat set" where
  "cover es = (\<Union>e\<in>set es. run_bytes (fst e) (snd e))"

lemma pages_pos: "run_ok b p \<Longrightarrow> 0 < unat p"
  by (simp add: run_ok_def word_unat_eq_iff)

lemma run_bytes_disjoint_iff:
  "run_ok b p \<Longrightarrow> run_ok b' p' \<Longrightarrow>
   run_bytes b p \<inter> run_bytes b' p' = {} \<longleftrightarrow> before (b, p) (b', p') \<or> before (b', p') (b, p)"
  using pages_pos [of b p] pages_pos [of b' p']
  by (auto simp: run_bytes_def before_def ivl_disj_int_two ivl_disj_un set_eq_iff dest!: spec [of _ "max (unat b) (unat b')"])

lemma base_in_run: "run_ok b p \<Longrightarrow> unat b \<in> run_bytes b p"
  using pages_pos [of b p] by (simp add: run_bytes_def)

lemma before_less: "run_ok (fst e) (snd e) \<Longrightarrow> before e e' \<Longrightarrow> fst e < fst e'"
  using pages_pos [of "fst e" "snd e"] by (simp add: before_def word_less_nat_alt)

lemma before_trans: "before e e' \<Longrightarrow> before e' e'' \<Longrightarrow> before e e''"
  by (simp add: before_def)

lemma regions_ok_Nil [simp]: "regions_ok []"
  by (simp add: regions_ok_def)

lemma regions_ok_Cons:
  "regions_ok (e # es) \<longleftrightarrow> run_ok (fst e) (snd e) \<and> (\<forall>x\<in>set es. before e x) \<and> regions_ok es"
  by (auto simp: regions_ok_def)

lemma regions_ok_append:
  "regions_ok (xs @ ys) \<longleftrightarrow> regions_ok xs \<and> regions_ok ys \<and> (\<forall>x\<in>set xs. \<forall>y\<in>set ys. before x y)"
  by (auto simp: regions_ok_def sorted_wrt_append)

lemma regions_ok_wf: "regions_ok es \<Longrightarrow> bt_wf es"
proof (induction es)
  case (Cons e es)
  then show ?case by (auto simp: regions_ok_Cons bt_wf_Cons dest: before_less)
qed simp

lemma cover_Cons: "cover (e # es) = run_bytes (fst e) (snd e) \<union> cover es"
  by (simp add: cover_def)

lemma cover_append: "cover (xs @ ys) = cover xs \<union> cover ys"
  by (auto simp: cover_def)

lemma regions_disjoint:
  "regions_ok es \<Longrightarrow> e \<in> set es \<Longrightarrow> e' \<in> set es \<Longrightarrow> e \<noteq> e' \<Longrightarrow>
   run_bytes (fst e) (snd e) \<inter> run_bytes (fst e') (snd e') = {}"
proof (induction es)
  case (Cons x es)
  then show ?case
    by (fastforce simp: regions_ok_Cons run_bytes_def before_def)
qed simp

lemma cover_remove:
  assumes "regions_ok es" "bt_get es b = Some p"
  shows "regions_ok (bt_remove b es)" "cover (bt_remove b es) = cover es - run_bytes b p"
    "run_bytes b p \<subseteq> cover es" "run_ok b p"
proof -
  have mem: "(b, p) \<in> set es" using assms(2) by (rule bt_get_in_set)
  then show "run_bytes b p \<subseteq> cover es" "run_ok b p" using assms(1) by (auto simp: cover_def regions_ok_def)
  show "regions_ok (bt_remove b es)"
    using assms(1) by (auto simp: regions_ok_def bt_remove_def intro: sorted_wrt_filter)
  have key: "fst e = b \<longleftrightarrow> e = (b, p)" if "e \<in> set es" for e
    using that mem assms(2) regions_ok_wf [OF assms(1)] bt_get_of_mem by (metis fst_conv option.inject prod.collapse snd_conv)
  show "cover (bt_remove b es) = cover es - run_bytes b p"
    using regions_disjoint [OF assms(1) _ mem] key mem
    by (auto simp: cover_def bt_remove_def) (metis IntI emptyE fst_conv snd_conv)+
qed

lemma cover_insert:
  assumes "regions_ok es" "run_ok b p" "run_bytes b p \<inter> cover es = {}"
  shows "regions_ok (bt_insert b p es)" "cover (bt_insert b p es) = run_bytes b p \<union> cover es"
proof -
  have "set (bt_insert b p es) = insert (b, p) (set es) \<and> regions_ok (bt_insert b p es)"
    using assms
  proof (induction es)
    case (Cons e es)
    have e: "run_ok (fst e) (snd e)" and es: "regions_ok es" and later: "\<forall>x\<in>set es. before e x"
      using Cons.prems(1) by (auto simp: regions_ok_Cons)
    have d: "run_bytes b p \<inter> run_bytes (fst e) (snd e) = {}" "run_bytes b p \<inter> cover es = {}"
      using Cons.prems(3) by (auto simp: cover_Cons)
    have order: "before (b, p) e \<or> before e (b, p)"
      using run_bytes_disjoint_iff [OF assms(2) e] d(1) by simp
    have ne: "fst e \<noteq> b" using d(1) base_in_run [OF assms(2)] base_in_run [OF e] by auto
    show ?case
    proof (cases "fst e < b")
      case True
      then have "before e (b, p)" using order before_less [of "(b, p)" e] assms(2) by auto
      then show ?thesis using True Cons.IH [OF es assms(2) d(2)] e later by (auto simp: regions_ok_Cons)
    next
      case False
      then have "before (b, p) e" using order before_less [OF e, of "(b, p)"] by auto
      then show ?thesis using False ne e es later assms(2) before_trans by (auto simp: regions_ok_Cons)
    qed
  qed (simp add: regions_ok_def)
  then show "regions_ok (bt_insert b p es)" "cover (bt_insert b p es) = run_bytes b p \<union> cover es"
    by (auto simp: cover_def)
qed

text \<open>Words without wrap-around: the byte length and the end of a valid run.\<close>

lemma run_end:
  assumes "run_ok b p"
  shows "unat (p * PAGE_SIZE) = 4096 * unat p" "unat (b + p * PAGE_SIZE) = unat b + 4096 * unat p"
proof -
  have lt: "unat b + 4096 * unat p < 2 ^ 64" using assms by (simp add: run_ok_def)
  then show m: "unat (p * PAGE_SIZE) = 4096 * unat p"
    by (subst unat_mul_no_wrap) (auto simp: PAGE_SIZE_def)
  show "unat (b + p * PAGE_SIZE) = unat b + 4096 * unat p"
    using lt m by (subst unat_add_no_wrap) auto
qed

lemma validate_run_Ok_iff: "validate_run b p = Ok () \<longleftrightarrow> run_ok b p"
proof -
  have al: "b mod PAGE_SIZE = 0 \<longleftrightarrow> unat b mod 4096 = 0"
    by (simp add: PAGE_SIZE_def word_unat_eq_iff unat_mod)
  have "(\<exists>bytes stop. checked_mul p PAGE_SIZE = Some bytes \<and> checked_add b bytes = Some stop)
      \<longleftrightarrow> unat b + 4096 * unat p < 2 ^ 64"
  proof
    assume lt: "unat b + 4096 * unat p < 2 ^ 64"
    then have "unat p * unat PAGE_SIZE < 2 ^ 64" by (simp add: PAGE_SIZE_def)
    moreover from this have "unat (p * PAGE_SIZE) = 4096 * unat p"
      by (subst unat_mul_no_wrap) (auto simp: PAGE_SIZE_def)
    ultimately show "\<exists>bytes stop. checked_mul p PAGE_SIZE = Some bytes \<and> checked_add b bytes = Some stop"
      using lt by (simp add: checked_simps)
  next
    assume "\<exists>bytes stop. checked_mul p PAGE_SIZE = Some bytes \<and> checked_add b bytes = Some stop"
    then have "unat p * unat PAGE_SIZE < 2 ^ 64" "unat b + unat (p * PAGE_SIZE) < 2 ^ 64"
      by (auto simp: checked_simps)
    then show "unat b + 4096 * unat p < 2 ^ 64"
      using unat_mul_no_wrap [of p PAGE_SIZE] by (simp add: PAGE_SIZE_def mult.commute)
  qed
  then show ?thesis using al unfolding run_ok_def validate_run_def
    by (auto split: option.splits if_splits)
qed

lemma run_bytes_append:
  assumes "run_ok b p" "run_ok (b + p * PAGE_SIZE) q"
  shows "run_ok b (p + q)" "run_bytes b (p + q) = run_bytes b p \<union> run_bytes (b + p * PAGE_SIZE) q"
    "run_bytes b p \<inter> run_bytes (b + p * PAGE_SIZE) q = {}" "unat (p + q) = unat p + unat q"
proof -
  note e = run_end(2) [OF assms(1)]
  have lt: "unat b + 4096 * unat p + 4096 * unat q < 2 ^ 64" using assms(2) e by (simp add: run_ok_def)
  then show s: "unat (p + q) = unat p + unat q" by (subst unat_add_no_wrap) auto
  have "p + q \<noteq> 0" using s pages_pos [OF assms(1)] by (auto simp: word_unat_eq_iff)
  then show "run_ok b (p + q)" using assms(1) lt s by (simp add: run_ok_def algebra_simps)
  show "run_bytes b (p + q) = run_bytes b p \<union> run_bytes (b + p * PAGE_SIZE) q"
    unfolding run_bytes_def e s by auto
  show "run_bytes b p \<inter> run_bytes (b + p * PAGE_SIZE) q = {}" by (auto simp: run_bytes_def e)
qed

lemma bt_insert_at_end: "(\<And>e. e \<in> set m \<Longrightarrow> fst e < k) \<Longrightarrow> bt_insert k v m = m @ [(k, v)]"
  by (induction m) auto

lemma bt_insert_last:
  assumes "bt_wf (m @ [(k, w)])"
  shows "bt_insert k v (m @ [(k, w)]) = m @ [(k, v)]"
  using assms by (induction m) (auto simp: bt_wf_Cons)

lemma coalesce_loop_cover:
  "regions_ok (acc @ es) \<Longrightarrow>
   regions_ok (coalesce_loop acc es) \<and> cover (coalesce_loop acc es) = cover (acc @ es)"
proof (induction es arbitrary: acc)
  case (Cons e es)
  show ?case
  proof (cases "acc \<noteq> [] \<and> fst (last acc) + snd (last acc) * PAGE_SIZE = fst e")
    case True
    then obtain xs b p where acc: "acc = xs @ [(b, p)]" and b: "b + p * PAGE_SIZE = fst e"
      by (cases acc rule: rev_cases) auto
    have runs: "run_ok b p" "run_ok (b + p * PAGE_SIZE) (snd e)"
      using Cons.prems b by (auto simp: acc regions_ok_append regions_ok_Cons)
    note j = run_bytes_append [OF runs]
    have "bt_insert b (p + snd e) acc = xs @ [(b, p + snd e)]"
      unfolding acc by (rule bt_insert_last, rule regions_ok_wf)
        (use Cons.prems in \<open>auto simp: acc regions_ok_append regions_ok_Cons\<close>)
    moreover have "regions_ok ((xs @ [(b, p + snd e)]) @ es)"
      using Cons.prems j(1,4) run_end(2) [OF runs(1)] b
      by (auto simp: acc regions_ok_append regions_ok_Cons before_def algebra_simps)
    moreover have "cover ((xs @ [(b, p + snd e)]) @ es) = cover (acc @ e # es)"
      using j(2) b by (auto simp: acc cover_append cover_Cons)
    ultimately show ?thesis using Cons.IH True by (auto simp: acc)
  next
    case False
    have "bt_insert (fst e) (snd e) acc = acc @ [e]"
    proof (subst bt_insert_at_end)
      show "fst x < fst e" if "x \<in> set acc" for x
        using Cons.prems that before_less [of x e]
        by (simp add: regions_ok_append regions_ok_Cons) (simp add: regions_ok_def)
    qed simp
    then show ?thesis using False Cons by auto
  qed
qed simp

lemma coalesce_cover:
  assumes "regions_ok es"
  shows "regions_ok (coalesce es)" "cover (coalesce es) = cover es"
  using coalesce_loop_cover [of "[]" es] assms by (simp_all add: coalesce_def)

lemma free_overlaps_iff:
  assumes "run_ok b p" "run_ok (fst e) (snd e)"
  shows "free_overlaps b (b + p * PAGE_SIZE) e \<longleftrightarrow> run_bytes b p \<inter> run_bytes (fst e) (snd e) \<noteq> {}"
proof -
  have "unat (saturating_mul (snd e) PAGE_SIZE) = 4096 * unat (snd e)"
    using assms(2) by (simp add: saturating_mul_unat PAGE_SIZE_def run_ok_def)
  then have "unat (saturating_add (fst e) (saturating_mul (snd e) PAGE_SIZE)) = unat (fst e) + 4096 * unat (snd e)"
    using assms(2) by (simp add: saturating_add_unat run_ok_def)
  then show ?thesis
    using run_bytes_disjoint_iff [OF assms] run_end(2) [OF assms(1)]
    by (auto simp: free_overlaps_def word_less_nat_alt before_def Let_def)
qed

section \<open>The table of allocated runs\<close>

definition table_ok :: "nat \<Rightarrow> (u64 \<Rightarrow> FrameRun option) \<Rightarrow> bool" where
  "table_ok n A \<longleftrightarrow> (\<forall>k r. A k = Some r \<longrightarrow> fr_base r = k \<and> run_ok k (fr_pages r) \<and> unat (fr_generation r) \<le> n) \<and>
     (\<forall>k r k' r'. A k = Some r \<and> A k' = Some r' \<and> k \<noteq> k' \<longrightarrow>
        run_bytes k (fr_pages r) \<inter> run_bytes k' (fr_pages r') = {})"

definition table_cover :: "(u64 \<Rightarrow> FrameRun option) \<Rightarrow> nat set" where
  "table_cover A = (\<Union>(k, r)\<in>{(k, r). A k = Some r}. run_bytes k (fr_pages r))"

lemma table_okD:
  assumes "table_ok n A"
  shows "A k = Some r \<Longrightarrow> fr_base r = k" "A k = Some r \<Longrightarrow> run_ok k (fr_pages r)"
    "A k = Some r \<Longrightarrow> unat (fr_generation r) \<le> n"
    "A k = Some r \<Longrightarrow> A k' = Some r' \<Longrightarrow> k \<noteq> k' \<Longrightarrow> run_bytes k (fr_pages r) \<inter> run_bytes k' (fr_pages r') = {}"
  using assms unfolding table_ok_def by blast+

lemma table_cover_iff: "x \<in> table_cover A \<longleftrightarrow> (\<exists>k r. A k = Some r \<and> x \<in> run_bytes k (fr_pages r))"
  by (auto simp: table_cover_def)

lemma table_ok_mono: "table_ok n A \<Longrightarrow> n \<le> m \<Longrightarrow> table_ok m A"
  unfolding table_ok_def by (meson le_trans)

lemma table_remove:
  assumes "table_ok n A" "A k = Some r"
  shows "table_ok n (A(k := None))" "table_cover (A(k := None)) = table_cover A - run_bytes k (fr_pages r)"
    "run_bytes k (fr_pages r) \<subseteq> table_cover A"
proof -
  show "table_ok n (A(k := None))" using assms(1) unfolding table_ok_def by auto
  show "run_bytes k (fr_pages r) \<subseteq> table_cover A" using assms(2) by (fastforce simp: table_cover_iff)
  show "table_cover (A(k := None)) = table_cover A - run_bytes k (fr_pages r)"
  proof (rule set_eqI)
    fix x
    have "x \<notin> run_bytes k (fr_pages r)" if "A k' = Some r'" "k' \<noteq> k" "x \<in> run_bytes k' (fr_pages r')" for k' r'
      using table_okD(4) [OF assms(1) that(1) assms(2) that(2)] that(3) by blast
    moreover have "(A(k := None)) k' = Some r' \<longleftrightarrow> k' \<noteq> k \<and> A k' = Some r'" for k' r' by simp
    ultimately show "x \<in> table_cover (A(k := None)) \<longleftrightarrow> x \<in> table_cover A - run_bytes k (fr_pages r)"
      unfolding table_cover_iff Diff_iff using assms(2) by (metis option.inject)
  qed
qed

lemma table_insert:
  assumes "table_ok n A" "A k = None" "fr_base r = k" "run_ok k (fr_pages r)" "unat (fr_generation r) \<le> n"
    and "run_bytes k (fr_pages r) \<inter> table_cover A = {}"
  shows "table_ok n (A(k \<mapsto> r))" "table_cover (A(k \<mapsto> r)) = run_bytes k (fr_pages r) \<union> table_cover A"
proof -
  have d: "run_bytes k (fr_pages r) \<inter> run_bytes k' (fr_pages r') = {}" if "A k' = Some r'" for k' r'
    using assms(6) that by (fastforce simp: table_cover_iff)
  show "table_ok n (A(k \<mapsto> r))" unfolding table_ok_def
  proof (intro conjI allI impI)
    show "run_bytes i (fr_pages a) \<inter> run_bytes j (fr_pages b) = {}"
      if "(A(k \<mapsto> r)) i = Some a \<and> (A(k \<mapsto> r)) j = Some b \<and> i \<noteq> j" for i a j b
      using that d table_okD(4) [OF assms(1), of i a j b] by (auto split: if_splits)
  qed (use assms table_okD(1,2,3) [OF assms(1)] in \<open>auto split: if_splits\<close>)
  show "table_cover (A(k \<mapsto> r)) = run_bytes k (fr_pages r) \<union> table_cover A"
  proof (rule set_eqI)
    fix x
    have "(A(k \<mapsto> r)) k' = Some r' \<longleftrightarrow> k' = k \<and> r' = r \<or> A k' = Some r'" for k' r'
      using assms(2) by auto
    then show "x \<in> table_cover (A(k \<mapsto> r)) \<longleftrightarrow> x \<in> run_bytes k (fr_pages r) \<union> table_cover A"
      unfolding table_cover_iff Un_iff by metis
  qed
qed

text \<open>A key that lies inside the bytes of another run is free.\<close>

lemma table_key_free:
  assumes "table_ok n A" "unat k \<notin> table_cover A"
  shows "A k = None"
proof (rule ccontr)
  assume "A k \<noteq> None"
  then obtain r where r: "A k = Some r" by auto
  from base_in_run [OF table_okD(2) [OF assms(1) r]] r assms(2) show False by (auto simp: table_cover_iff)
qed

text \<open>Replacing a run by one of the same extent.\<close>

lemma table_update:
  assumes "table_ok n A" "A k = Some r" "fr_base r' = k" "fr_pages r' = fr_pages r" "unat (fr_generation r') \<le> m" "n \<le> m"
  shows "table_ok m (A(k \<mapsto> r'))" "table_cover (A(k \<mapsto> r')) = table_cover A"
proof -
  note rm = table_remove [OF table_ok_mono [OF assms(1,6)] assms(2)]
  have d: "run_bytes k (fr_pages r') \<inter> table_cover (A(k := None)) = {}" using rm(2) assms(4) by auto
  have ok: "run_ok k (fr_pages r')" using table_okD(2) [OF assms(1,2)] assms(4) by simp
  note ins = table_insert [OF rm(1) _ assms(3) ok assms(5) d]
  show "table_ok m (A(k \<mapsto> r'))" using ins(1) by simp
  show "table_cover (A(k \<mapsto> r')) = table_cover A" using ins(2) rm(2,3) assms(4) by auto
qed

section \<open>The allocator's invariant\<close>

definition frame_inv :: "nat \<Rightarrow> FrameAllocator \<Rightarrow> bool" where
  "frame_inv n s \<longleftrightarrow> regions_ok (fa_free s) \<and> table_ok n (bt_get (fa_allocated s)) \<and>
     bt_all (\<lambda>_ g. unat g \<le> n) (fa_generations s) \<and>
     cover (fa_free s) \<inter> table_cover (bt_get (fa_allocated s)) = {}"

text \<open>All bytes the allocator manages, free or allocated.\<close>

definition managed :: "FrameAllocator \<Rightarrow> nat set" where
  "managed s = cover (fa_free s) \<union> table_cover (bt_get (fa_allocated s))"

lemma frame_invD:
  assumes "frame_inv n s"
  shows "regions_ok (fa_free s)" "table_ok n (bt_get (fa_allocated s))"
    "bt_all (\<lambda>_ g. unat g \<le> n) (fa_generations s)" "cover (fa_free s) \<inter> table_cover (bt_get (fa_allocated s)) = {}"
  using assms by (auto simp: frame_inv_def)

lemma frame_inv_mono: "frame_inv n s \<Longrightarrow> n \<le> m \<Longrightarrow> frame_inv m s"
  unfolding frame_inv_def by (auto elim!: bt_all_mono intro: table_ok_mono)

lemma frame_validate_Ok_iff:
  "frame_validate s run = Ok live \<longleftrightarrow> bt_get (fa_allocated s) (fr_base run) = Some live \<and>
     fr_generation live = fr_generation run \<and> fr_pages live = fr_pages run"
  by (auto simp: frame_validate_def split: option.splits)

text \<open>Operations that change a run in place: its extent stays, so all of memory stays.\<close>

lemma update_run_inv:
  assumes "frame_inv n s" "bt_get (fa_allocated s) b = Some live" "fr_base r = b" "fr_pages r = fr_pages live"
    and "unat (fr_generation r) \<le> Suc n" "bt_all (\<lambda>_ g. unat g \<le> Suc n) G"
    and s': "fa_free s' = fa_free s" "fa_allocated s' = bt_insert b r (fa_allocated s)" "fa_generations s' = G"
  shows "frame_inv (Suc n) s' \<and> managed s' = managed s"
proof -
  note u = table_update [OF frame_invD(2) [OF assms(1)] assms(2-5), simplified]
  show ?thesis using frame_invD(1,4) [OF assms(1)] u assms(6)
    by (simp add: frame_inv_def managed_def s' bt_get_insert_fun)
qed

lemma generation_bound:
  assumes "frame_inv n s" "bt_get (fa_allocated s) b = Some live" "checked_add (fr_generation live) 1 = Some g"
  shows "unat g \<le> Suc n" "bt_all (\<lambda>_ g. unat g \<le> Suc n) (bt_insert k g (fa_generations s))"
proof -
  show le: "unat g \<le> Suc n"
    using unat_plus_one [OF assms(3)] table_okD(3) [OF frame_invD(2) [OF assms(1)] assms(2)] by simp
  show "bt_all (\<lambda>_ g. unat g \<le> Suc n) (bt_insert k g (fa_generations s))"
    using le frame_invD(3) [OF assms(1)] by (intro bt_all_insert) (auto elim: bt_all_mono)
qed

lemma mark_zeroed_inv:
  assumes "frame_inv n s"
  shows "frame_inv (Suc n) (snd (mark_zeroed s run)) \<and> managed (snd (mark_zeroed s run)) = managed s"
proof (cases "frame_validate s run")
  case (Ok live)
  then have l: "bt_get (fa_allocated s) (fr_base run) = Some live" by (simp add: frame_validate_Ok_iff)
  note T = frame_invD(2) [OF assms]
  show ?thesis
    by (rule update_run_inv [OF assms l, where r = "live\<lparr>fr_zeroed := True\<rparr>" and G = "fa_generations s"])
       (use Ok table_okD(1,3) [OF T l] frame_invD(3) [OF assms] in
         \<open>auto simp: mark_zeroed_def Let_def elim: bt_all_mono\<close>)
qed (use frame_inv_mono [OF assms] in \<open>simp add: mark_zeroed_def\<close>)

lemma lend_inv:
  assumes "frame_inv n s"
  shows "frame_inv (Suc n) (snd (lend s run b)) \<and> managed (snd (lend s run b)) = managed s"
proof (cases "\<exists>live g. frame_validate s run = Ok live \<and> \<not> bt_contains (fa_loans s) (fr_base run)
    \<and> checked_add (fr_generation live) 1 = Some g")
  case True
  then obtain live g where v: "frame_validate s run = Ok live" "\<not> bt_contains (fa_loans s) (fr_base run)"
    and g: "checked_add (fr_generation live) 1 = Some g" by blast
  then have l: "bt_get (fa_allocated s) (fr_base run) = Some live" by (simp add: frame_validate_Ok_iff)
  show ?thesis
    by (rule update_run_inv [OF assms l, where r = "live\<lparr>fr_generation := g\<rparr>"
          and G = "bt_insert (fr_base run) g (fa_generations s)"])
       (use v g table_okD(1) [OF frame_invD(2) [OF assms] l] generation_bound [OF assms l g] in
         \<open>auto simp: lend_def Let_def\<close>)
qed (use frame_inv_mono [OF assms] in \<open>auto simp: lend_def try_then_def ok_or_def split: result.splits option.splits\<close>)

lemma reclaim_inv:
  assumes "frame_inv n s"
  shows "frame_inv (Suc n) (snd (reclaim s run b)) \<and> managed (snd (reclaim s run b)) = managed s"
proof (cases "\<exists>live g. frame_validate s run = Ok live \<and> bt_get (fa_loans s) (fr_base run) = Some b
    \<and> checked_add (fr_generation live) 1 = Some g")
  case True
  then obtain live g where v: "frame_validate s run = Ok live" "bt_get (fa_loans s) (fr_base run) = Some b"
    and g: "checked_add (fr_generation live) 1 = Some g" by blast
  then have l: "bt_get (fa_allocated s) (fr_base run) = Some live" by (simp add: frame_validate_Ok_iff)
  show ?thesis
    by (rule update_run_inv [OF assms l, where r = "live\<lparr>fr_generation := g\<rparr>"
          and G = "bt_insert (fr_base run) g (fa_generations s)"])
       (use v g table_okD(1) [OF frame_invD(2) [OF assms] l] generation_bound [OF assms l g] in
         \<open>auto simp: reclaim_def Let_def\<close>)
qed (use frame_inv_mono [OF assms] in \<open>auto simp: reclaim_def try_then_def ok_or_def split: result.splits option.splits\<close>)

text \<open>Cutting a run in two.\<close>

lemma run_cut:
  assumes "run_ok b p" "l \<noteq> 0" "l < p"
  shows "run_ok b l" "run_ok (b + l * PAGE_SIZE) (p - l)" "l + (p - l) = p"
proof -
  have u: "unat (p - l) = unat p - unat l" "unat l < unat p"
    using assms(3) unat_sub_no_wrap [OF less_imp_le [OF assms(3)]] by (simp_all add: word_less_nat_alt)
  show l: "run_ok b l" using assms u by (auto simp: run_ok_def)
  note e = run_end(2) [OF l]
  have "(unat b + 4096 * unat l) mod 4096 = 0" using assms(1) by (simp add: run_ok_def mod_add_eq [symmetric])
  moreover have "unat b + 4096 * unat l + 4096 * unat (p - l) < 2 ^ 64"
    using assms(1) u by (auto simp: run_ok_def diff_mult_distrib2)
  moreover have "p - l \<noteq> 0" using assms(3) by simp
  ultimately show "run_ok (b + l * PAGE_SIZE) (p - l)" unfolding run_ok_def e by blast
  show "l + (p - l) = p" by simp
qed

lemma split_allocated_inv:
  assumes "frame_inv n s"
  shows "frame_inv (Suc n) (snd (split_allocated s run l)) \<and> managed (snd (split_allocated s run l)) = managed s"
proof (cases "\<exists>live. frame_validate s run = Ok live \<and> \<not> bt_contains (fa_loans s) (fr_base run) \<and> l \<noteq> 0 \<and> l < fr_pages live")
  case True
  then obtain live where v: "frame_validate s run = Ok live" "\<not> bt_contains (fa_loans s) (fr_base run)"
    and l: "l \<noteq> 0" "l < fr_pages live" by blast
  let ?b = "fr_base run" and ?A = "bt_get (fa_allocated s)"
  let ?L = "live\<lparr>fr_pages := l\<rparr>" and ?R = "live\<lparr>fr_base := ?b + l * PAGE_SIZE, fr_pages := fr_pages live - l\<rparr>"
  have a: "?A ?b = Some live" using v(1) by (simp add: frame_validate_Ok_iff)
  have T: "table_ok (Suc n) ?A" using table_ok_mono [OF frame_invD(2) [OF assms]] by simp
  note live = table_okD(1-3) [OF T a]
  note cut = run_cut [OF live(2) l] and rm = table_remove [OF T a]
  note app = run_bytes_append [OF cut(1,2), unfolded cut(3)]
  define A1 where "A1 = ?A(?b := None, ?b \<mapsto> ?L)"
  have L: "table_ok (Suc n) A1" "table_cover A1 = run_bytes ?b l \<union> table_cover (?A(?b := None))"
    using table_insert [OF rm(1), of ?b ?L] live cut(1) rm(2) app(2) by (auto simp: A1_def)
  have fresh: "run_bytes (?b + l * PAGE_SIZE) (fr_pages live - l) \<inter> table_cover A1 = {}"
    using L(2) rm(2) app(2,3) by auto
  have none: "A1 (?b + l * PAGE_SIZE) = None"
    using fresh base_in_run [OF cut(2)] by (intro table_key_free [OF L(1)]) blast
  have R: "table_ok (Suc n) (A1(?b + l * PAGE_SIZE \<mapsto> ?R))"
    "table_cover (A1(?b + l * PAGE_SIZE \<mapsto> ?R)) = run_bytes (?b + l * PAGE_SIZE) (fr_pages live - l) \<union> table_cover A1"
    using table_insert [OF L(1) none, of ?R] cut(2) live(3) fresh by simp_all
  have gens: "bt_all (\<lambda>_ g. unat g \<le> Suc n) (fa_generations s)"
    using frame_invD(3) [OF assms] by (rule bt_all_mono) simp
  then have "bt_all (\<lambda>_ g. unat g \<le> Suc n) (fa_generations (snd (split_allocated s run l)))"
    using v l live(1,3) by (auto simp: split_allocated_def frame_split_def Let_def)
  moreover have "bt_get (fa_allocated (snd (split_allocated s run l))) = A1(?b + l * PAGE_SIZE \<mapsto> ?R)"
    "fa_free (snd (split_allocated s run l)) = fa_free s"
    using v l live(1)
    by (auto simp: split_allocated_def frame_split_def Let_def bt_get_insert_fun bt_get_remove_fun not_le A1_def)
  moreover have "table_cover (A1(?b + l * PAGE_SIZE \<mapsto> ?R)) = table_cover ?A"
    using R(2) L(2) rm(2,3) app(2) by auto
  ultimately show ?thesis using R(1) frame_invD(1,4) [OF assms] by (simp add: frame_inv_def managed_def)
qed (use frame_inv_mono [OF assms] in
  \<open>auto simp: split_allocated_def frame_split_def try_then_def split: result.splits\<close>)

lemma join_allocated_inv:
  assumes "frame_inv n s"
  shows "frame_inv (Suc n) (snd (join_allocated s x y)) \<and> managed (snd (join_allocated s x y)) = managed s"
proof (cases "\<exists>j. fst (join_allocated s x y) = Ok j")
  case True
  then obtain j where "join_allocated s x y = (Ok j, snd (join_allocated s x y))" by (metis prod.collapse)
  then obtain left right p where v: "frame_validate s x = Ok left" "frame_validate s y = Ok right"
    and adj: "fr_base left + fr_pages left * PAGE_SIZE = fr_base right"
    and p: "checked_add (fr_pages left) (fr_pages right) = Some p"
    and s': "snd (join_allocated s x y) = s\<lparr>fa_allocated := bt_insert (fr_base left) (left\<lparr>fr_pages := p\<rparr>)
        (bt_remove (fr_base y) (bt_remove (fr_base x) (fa_allocated s)))\<rparr>"
    by (auto simp: join_allocated_def frame_join_def elim!: try_then_OkE split: if_splits option.splits)
  let ?A = "bt_get (fa_allocated s)" and ?J = "left\<lparr>fr_pages := p\<rparr>"
  have a: "?A (fr_base x) = Some left" "?A (fr_base y) = Some right" using v by (auto simp: frame_validate_Ok_iff)
  have T: "table_ok (Suc n) ?A" using table_ok_mono [OF frame_invD(2) [OF assms]] by simp
  note lt = table_okD(1-3) [OF T a(1)] and rt = table_okD(1-3) [OF T a(2)]
  have y: "fr_base y = fr_base x + fr_pages left * PAGE_SIZE" using adj lt(1) rt(1) by simp
  note app = run_bytes_append [OF lt(2) rt(2) [unfolded y]]
  have p': "p = fr_pages left + fr_pages right" using p by (simp add: checked_simps)
  have ne: "fr_base x \<noteq> fr_base y"
  proof
    assume "fr_base x = fr_base y"
    then have "unat (fr_base x + fr_pages left * PAGE_SIZE) = unat (fr_base x)" using y by metis
    then show False using run_end(2) [OF lt(2)] pages_pos [OF lt(2)] by simp
  qed
  note rm1 = table_remove [OF T a(1)]
  have a': "(?A(fr_base x := None)) (fr_base y) = Some right" using a(2) ne by simp
  note rm2 = table_remove [of _ "?A(fr_base x := None)" "fr_base y" right, OF rm1(1) a']
  define A2 where "A2 = ?A(fr_base x := None, fr_base y := None)"
  have A2: "table_ok (Suc n) A2" "A2 (fr_base x) = None"
    "table_cover A2 = table_cover ?A - run_bytes (fr_base x) (fr_pages left) - run_bytes (fr_base y) (fr_pages right)"
    using rm2(1,2) rm1(2) ne by (simp_all add: A2_def)
  have J: "run_ok (fr_base x) p"
    "run_bytes (fr_base x) p = run_bytes (fr_base x) (fr_pages left) \<union> run_bytes (fr_base y) (fr_pages right)"
    using app(1,2) by (simp_all add: p' y)
  have fresh: "run_bytes (fr_base x) p \<inter> table_cover A2 = {}" using A2(3) J(2) by blast
  have ins: "table_ok (Suc n) (A2(fr_base x \<mapsto> ?J))"
    "table_cover (A2(fr_base x \<mapsto> ?J)) = run_bytes (fr_base x) p \<union> table_cover A2"
    using table_insert [OF A2(1,2), of ?J] lt(1,3) J(1) fresh by simp_all
  have "run_bytes (fr_base x) p \<subseteq> table_cover ?A"
    using J(2) rm1(3) table_remove(3) [OF T a(2)] by simp
  then have "table_cover (A2(fr_base x \<mapsto> ?J)) = table_cover ?A" using ins(2) A2(3) J(2) by blast
  moreover have "bt_get (fa_allocated (snd (join_allocated s x y))) = A2(fr_base x \<mapsto> ?J)"
    using lt(1) by (simp add: s' bt_get_insert_fun bt_get_remove_fun A2_def)
  moreover have "fa_free (snd (join_allocated s x y)) = fa_free s"
    "bt_all (\<lambda>_ g. unat g \<le> Suc n) (fa_generations (snd (join_allocated s x y)))"
    using frame_invD(3) [OF assms] by (auto simp: s' elim: bt_all_mono)
  ultimately show ?thesis using ins(1) frame_invD(1,4) [OF assms] by (simp add: frame_inv_def managed_def)
qed (use frame_inv_mono [OF assms] in
  \<open>auto simp: join_allocated_def try_then_def split: result.splits\<close>)

lemma frame_release_inv:
  assumes "frame_inv n s" "Suc n < 2 ^ 64"
  shows "frame_inv (Suc n) (snd (frame_release s run)) \<and> managed (snd (frame_release s run)) = managed s"
proof (cases "\<exists>live. frame_validate s run = Ok live \<and> \<not> bt_contains (fa_loans s) (fr_base run)")
  case True
  then obtain live where v: "frame_validate s run = Ok live" "\<not> bt_contains (fa_loans s) (fr_base run)" by blast
  let ?b = "fr_base run" and ?A = "bt_get (fa_allocated s)"
  have a: "?A ?b = Some live" "fr_generation live = fr_generation run" "fr_pages live = fr_pages run"
    using v(1) by (auto simp: frame_validate_Ok_iff)
  note T = frame_invD(2) [OF assms(1)]
  have "unat (fr_generation run) + 1 < 2 ^ 64" using table_okD(3) [OF T a(1)] a(2) assms(2) by simp
  then obtain g where g: "checked_add (fr_generation run) 1 = Some g" by (simp add: checked_add_def)
  note rm = table_remove [OF T a(1)]
  have ok: "run_ok ?b (fr_pages run)" using table_okD(2) [OF T a(1)] a(3) by simp
  have fresh: "run_bytes ?b (fr_pages run) \<inter> cover (fa_free s) = {}"
    using frame_invD(4) [OF assms(1)] rm(3) a(3) by auto
  note ins = cover_insert [OF frame_invD(1) [OF assms(1)] ok fresh]
  note co = coalesce_cover [OF ins(1)]
  have s': "snd (frame_release s run) = s\<lparr>fa_allocated := bt_remove ?b (fa_allocated s),
      fa_generations := bt_insert ?b g (fa_generations s), fa_free := coalesce (bt_insert ?b (fr_pages run) (fa_free s))\<rparr>"
    using v g by (simp add: frame_release_def Let_def)
  have "table_ok (Suc n) (?A(?b := None))" using table_ok_mono [OF rm(1)] by simp
  then show ?thesis
    using co ins(2) rm(2,3) a(3) frame_invD(4) [OF assms(1)] generation_bound(2) [OF assms(1) a(1), of g ?b] g a(2)
    by (auto simp: s' frame_inv_def managed_def bt_get_remove_fun)
qed (use frame_inv_mono [OF assms(1)] in
  \<open>auto simp: frame_release_def try_then_def split: result.splits\<close>)

section \<open>Allocation\<close>

lemma unat_exp: "k < LENGTH('a) \<Longrightarrow> unat (2 ^ k :: 'a::len word) = 2 ^ k"
  using unat_of_nat [of "2 ^ k", where 'a = 'a] by simp

lemma align_down:
  fixes x :: "'a::len word"
  assumes "k < LENGTH('a)"
  shows "unat (x AND NOT (2 ^ k - 1)) = unat x div 2 ^ k * 2 ^ k"
proof -
  have "x AND NOT (2 ^ k - 1) = push_bit k (drop_bit k x)"
    by (rule bit_word_eqI) (auto simp: bit_and_iff bit_not_iff bit_push_bit_iff bit_drop_bit_eq
        mask_eq_exp_minus_1 [symmetric] bit_mask_iff)
  then have "x AND NOT (2 ^ k - 1) = drop_bit k x * 2 ^ k" by (simp add: push_bit_eq_mult)
  moreover have "unat (drop_bit k x) = unat x div 2 ^ k"
    using unat_drop_bit_eq [of k x] drop_bit_eq_div [of k "unat x"] by metis
  moreover have "unat (2 ^ k :: 'a word) = 2 ^ k" using assms by (rule unat_exp)
  moreover have "unat x div 2 ^ k * 2 ^ k < 2 ^ LENGTH('a)"
    using unat_lt_exp [of x] div_times_less_eq_dividend [of "unat x" "2 ^ k"] by linarith
  ultimately show ?thesis by (simp add: unat_mul_no_wrap)
qed

text \<open>The least multiple of \<open>m\<close> that is not below \<open>b\<close>.\<close>

definition round_up :: "nat \<Rightarrow> nat \<Rightarrow> nat" where
  "round_up m b = (b + (m - 1)) div m * m"

lemma round_up:
  assumes "0 < m"
  shows "b \<le> round_up m b" "round_up m b < b + m" "m dvd round_up m b"
    "m dvd c \<Longrightarrow> b \<le> c \<Longrightarrow> round_up m b \<le> c"
proof -
  have eq: "round_up m b = b + (m - 1) - (b + (m - 1)) mod m"
    unfolding round_up_def by (metis minus_mod_eq_div_mult)
  have lt: "(b + (m - 1)) mod m < m" using assms by simp
  then show "b \<le> round_up m b" "round_up m b < b + m" using eq assms by linarith+
  show "m dvd round_up m b" by (simp add: round_up_def)
  show "round_up m b \<le> c" if "m dvd c" "b \<le> c"
  proof -
    from that(1) obtain d where d: "c = m * d" by blast
    have "(b + (m - 1)) div m \<le> d"
      using that(2) assms by (subst less_Suc_eq_le [symmetric], subst div_less_iff_less_mult)
        (auto simp: d algebra_simps)
    then have "(b + (m - 1)) div m * m \<le> d * m" by (rule mult_le_mono1)
    then show ?thesis by (simp only: round_up_def d mult.commute)
  qed
qed

text \<open>When a region can hold the request, and what the closure of \<open>allocate\<close> finds there.\<close>

definition holds :: "nat \<Rightarrow> nat \<Rightarrow> u64 \<times> u64 \<Rightarrow> bool" where
  "holds m pages e \<longleftrightarrow>
     (\<exists>a. m dvd a \<and> unat (fst e) \<le> a \<and> a + 4096 * pages \<le> unat (fst e) + 4096 * unat (snd e))"

lemma fit_spec:
  assumes k: "alignment = 2 ^ k" "12 \<le> k" "k < 64" and ok: "run_ok b p"
  shows "case fit alignment pages (b, p) of
      None \<Rightarrow> pages = 0 \<or> \<not> holds (2 ^ k) (unat pages) (b, p)
    | Some (base, available, aligned, prefix) \<Rightarrow> base = b \<and> available = p \<and>
        unat aligned = unat b + 4096 * unat prefix \<and> unat aligned = round_up (2 ^ k) (unat b) \<and>
        unat prefix + unat pages \<le> unat p"
proof -
  let ?R = "round_up (2 ^ k) (unat b)"
  note R = round_up [where m = "2 ^ k" and b = "unat b", simplified]
  have m1: "unat (alignment - 1) = 2 ^ k - 1"
  proof -
    have u: "unat (2 ^ k :: u64) = 2 ^ k" using k(3) by (intro unat_exp) simp
    have "(1 :: u64) \<le> 2 ^ k" by (simp add: word_le_nat_alt u)
    then show ?thesis using u by (simp add: k(1) unat_sub_no_wrap)
  qed
  have dvd: "4096 dvd (2 :: nat) ^ k" using k(2) le_imp_power_dvd [of 12 k "2 :: nat"] by simp
  then have "4096 dvd ?R" using R(3) dvd_trans by blast
  moreover have "4096 dvd unat b" using ok by (simp add: run_ok_def mod_eq_0_iff_dvd)
  ultimately have d: "4096 dvd ?R - unat b" by (rule dvd_diff_nat)
  show ?thesis
  proof (cases "unat b + (2 ^ k - 1) < 2 ^ 64")
    case False
    then have none: "checked_add b (alignment - 1) = None" by (simp add: checked_simps m1)
    have "\<not> holds (2 ^ k) (unat pages) (b, p)" if "pages \<noteq> 0"
    proof
      assume "holds (2 ^ k) (unat pages) (b, p)"
      then obtain a where a: "2 ^ k dvd a" "unat b \<le> a" "a + 4096 * unat pages \<le> unat b + 4096 * unat p"
        by (auto simp: holds_def)
      have lt: "a < 2 ^ 64" using a(3) ok by (simp add: run_ok_def)
      have "(2 :: nat) ^ k dvd 2 ^ 64" using k(3) by (intro le_imp_power_dvd) simp
      then have "(2 :: nat) ^ k dvd 2 ^ 64 - a" using a(1) by (rule dvd_diff_nat)
      then have "(2 :: nat) ^ k \<le> 2 ^ 64 - a" using lt by (intro dvd_imp_le) simp_all
      then show False using False a(2) lt by linarith
    qed
    then show ?thesis using none by (auto simp: fit_def)
  next
    case True
    then have add: "checked_add b (alignment - 1) = Some (b + (alignment - 1))"
      and ux: "unat (b + (alignment - 1)) = unat b + (2 ^ k - 1)"
      by (simp_all add: checked_simps m1 unat_add_no_wrap)
    let ?al = "b + (alignment - 1) AND NOT (alignment - 1)"
    have al: "unat ?al = ?R"
      using align_down [where x = "b + (alignment - 1)" and k = k] k(3) ux
      by (simp add: k(1) round_up_def)
    have le: "b \<le> ?al" using R(1) al by (simp add: word_le_nat_alt)
    let ?pre = "(?al - b) div PAGE_SIZE"
    have pre: "unat ?pre = (?R - unat b) div 4096"
      using unat_sub_no_wrap [OF le] al by (simp add: unat_div PAGE_SIZE_def)
    then have al': "?R = unat b + 4096 * unat ?pre" using d R(1) by simp
    have iff: "unat ?pre + unat pages \<le> unat p \<longleftrightarrow> ?R + 4096 * unat pages \<le> unat b + 4096 * unat p"
      using al' by linarith
    have no: "\<not> holds (2 ^ k) (unat pages) (b, p)" if "\<not> unat ?pre + unat pages \<le> unat p"
    proof
      assume "holds (2 ^ k) (unat pages) (b, p)"
      then obtain a where "2 ^ k dvd a" "unat b \<le> a" "a + 4096 * unat pages \<le> unat b + 4096 * unat p"
        by (auto simp: holds_def)
      then show False using R(4) [of a] that iff by linarith
    qed
    have "checked_sub ?al b = Some (?al - b)" using le by (simp add: checked_simps)
    moreover have "checked_add ?pre pages = None \<Longrightarrow> \<not> unat ?pre + unat pages \<le> unat p"
      using unat_lt_exp [of p] by (simp add: checked_simps)
    moreover have "checked_add ?pre pages = Some c \<Longrightarrow> c \<le> p \<longleftrightarrow> unat ?pre + unat pages \<le> unat p" for c
      using checked_add_unat [of ?pre pages c] by (simp add: word_le_nat_alt)
    ultimately show ?thesis using add al al' no
      by (cases "checked_add ?pre pages") (auto simp: fit_def Let_def)
  qed
qed

lemma power_of_two_pages:
  assumes "is_power_of_two x" "checked_mul x PAGE_SIZE = Some alignment"
  obtains k where "x = 2 ^ k" "alignment = 2 ^ (k + 12)" "k + 12 < 64"
proof -
  from assms(1) obtain k where k: "k < 64" "x = 2 ^ k" by (auto simp: is_power_of_two_def list_ex_iff)
  have "unat x = 2 ^ k" unfolding k(2) using k(1) by (intro unat_exp) simp
  then have "(2 :: nat) ^ (k + 12) < 2 ^ 64" using assms(2)
    by (auto simp: checked_simps PAGE_SIZE_def power_add)
  then have "k + 12 < 64" by (rule power_less_imp_less_exp [rotated]) simp
  moreover have "alignment = 2 ^ (k + 12)" using assms(2) k by (auto simp: checked_simps PAGE_SIZE_def power_add)
  ultimately show ?thesis using that k(2) by blast
qed

lemma find_map_None: "find_map f xs = None \<Longrightarrow> x \<in> set xs \<Longrightarrow> f x = None"
  by (induction xs) (auto split: option.splits)

lemma find_map_Some: "find_map f xs = Some y \<Longrightarrow> \<exists>x\<in>set xs. f x = Some y"
  by (induction xs) (auto split: option.splits)

text \<open>
  The free list after taking \<open>pages\<close> at page offset \<open>prefix\<close> out of the region at \<open>base\<close>: the
  rest of the region before and after the run stays free.
\<close>

lemma carve:
  assumes R: "regions_ok es" "bt_get es base = Some available"
    and al: "unat aligned = unat base + 4096 * unat prefix" and fits: "unat prefix + unat pages \<le> unat available"
    and "pages \<noteq> 0"
    and f1: "f1 = (if prefix \<noteq> 0 then bt_insert base prefix (bt_remove base es) else bt_remove base es)"
    and f2: "f2 = (if available - prefix - pages \<noteq> 0
                   then bt_insert (aligned + pages * PAGE_SIZE) (available - prefix - pages) f1 else f1)"
  shows "run_ok aligned pages" "run_bytes aligned pages \<subseteq> cover es" "regions_ok f2"
    "cover f2 = cover es - run_bytes aligned pages"
proof -
  note rm = cover_remove [OF R]
  have base: "unat base mod 4096 = 0" "unat base + 4096 * unat available < 2 ^ 64"
    using rm(4) by (auto simp: run_ok_def)
  show run: "run_ok aligned pages" unfolding run_ok_def al using base fits assms(5)
    by (auto simp: mod_add_eq [symmetric])
  show sub: "run_bytes aligned pages \<subseteq> cover es"
    using rm(3) fits unfolding run_bytes_def al by auto
  note stop = run_end(2) [OF run]
  have "prefix \<le> available" using fits by (simp add: word_le_nat_alt)
  then have u1: "unat (available - prefix) = unat available - unat prefix" by (rule unat_sub_no_wrap)
  then have "pages \<le> available - prefix" using fits by (simp add: word_le_nat_alt)
  then have suffix: "unat (available - prefix - pages) = unat available - unat prefix - unat pages"
    using u1 by (simp add: unat_sub_no_wrap)
  have parts: "run_bytes base available = run_bytes base prefix \<union> run_bytes aligned pages
      \<union> run_bytes (aligned + pages * PAGE_SIZE) (available - prefix - pages)"
    unfolding run_bytes_def stop suffix al using fits by auto
  have apart: "run_bytes base prefix \<inter> run_bytes aligned pages = {}"
    "run_bytes (aligned + pages * PAGE_SIZE) (available - prefix - pages) \<inter> (run_bytes base prefix \<union> run_bytes aligned pages) = {}"
    unfolding run_bytes_def stop al by auto
  have empty: "run_bytes b 0 = {}" for b by (simp add: run_bytes_def)
  have one: "regions_ok f1" "cover f1 = run_bytes base prefix \<union> cover (bt_remove base es)"
  proof -
    have "run_ok base prefix" if "prefix \<noteq> 0" using that base fits by (auto simp: run_ok_def)
    moreover have "run_bytes base prefix \<inter> cover (bt_remove base es) = {}" using rm(2) parts by auto
    ultimately show "regions_ok f1" "cover f1 = run_bytes base prefix \<union> cover (bt_remove base es)"
      using cover_insert [OF rm(1), of base prefix] rm(1) by (auto simp: f1 empty)
  qed
  have two: "regions_ok f2 \<and> cover f2 = run_bytes (aligned + pages * PAGE_SIZE) (available - prefix - pages) \<union> cover f1"
  proof (cases "available - prefix - pages = 0")
    case False
    have "(unat base + 4096 * unat prefix + 4096 * unat pages) mod 4096 = 0"
      using base(1) by (simp add: mod_add_eq [symmetric])
    moreover have "unat base + 4096 * unat prefix + 4096 * unat pages
        + 4096 * unat (available - prefix - pages) < 2 ^ 64"
      using base(2) fits by (simp add: suffix diff_mult_distrib2)
    ultimately have "run_ok (aligned + pages * PAGE_SIZE) (available - prefix - pages)"
      using False unfolding run_ok_def stop al by blast
    moreover have "run_bytes (aligned + pages * PAGE_SIZE) (available - prefix - pages) \<inter> cover f1 = {}"
      using one(2) rm(2) parts apart(2) by auto
    ultimately show ?thesis
      using cover_insert [OF one(1), of "aligned + pages * PAGE_SIZE" "available - prefix - pages"] False by (simp add: f2)
  qed (use one(1) in \<open>simp add: f2 empty\<close>)
  then show "regions_ok f2" by blast
  show "cover f2 = cover es - run_bytes aligned pages"
    using two one(2) rm(2,3) parts apart by blast
qed

lemma frame_allocate_Ok:
  assumes inv: "frame_inv n s" and alloc: "frame_allocate s pages ap = (Ok run, s')"
  shows "fr_pages run = pages" "pages \<noteq> 0" "run_ok (fr_base run) pages"
    "4096 * unat ap dvd unat (fr_base run)" "run_bytes (fr_base run) pages \<subseteq> cover (fa_free s)"
    "cover (fa_free s') = cover (fa_free s) - run_bytes (fr_base run) pages"
    "bt_get (fa_allocated s') = (bt_get (fa_allocated s))(fr_base run \<mapsto> run)"
    "fa_generations s' = fa_generations s" "regions_ok (fa_free s')" "unat (fr_generation run) \<le> n"
proof -
  from alloc obtain alignment base available aligned prefix where
    g: "pages \<noteq> 0" "is_power_of_two ap" "checked_mul ap PAGE_SIZE = Some alignment"
    and f: "find_map (fit alignment pages) (fa_free s) = Some (base, available, aligned, prefix)"
    and s': "s' = s\<lparr>fa_free := (let f1 = (if prefix \<noteq> 0 then bt_insert base prefix (bt_remove base (fa_free s)) else bt_remove base (fa_free s))
         in if available - prefix - pages \<noteq> 0 then bt_insert (aligned + pages * PAGE_SIZE) (available - prefix - pages) f1 else f1),
       fa_allocated := bt_insert aligned run (fa_allocated s)\<rparr>"
    and run: "run = \<lparr>fr_base = aligned, fr_pages = pages, fr_generation = frame_generation s aligned, fr_zeroed = False\<rparr>"
    by (auto simp: frame_allocate_def Let_def elim!: try_then_OkE split: if_splits option.splits)
  from g(2,3) obtain k where k: "ap = 2 ^ k" "alignment = 2 ^ (k + 12)" "k + 12 < 64" by (rule power_of_two_pages)
  from find_map_Some [OF f] obtain b p where mem: "(b, p) \<in> set (fa_free s)"
    and fit: "fit alignment pages (b, p) = Some (base, available, aligned, prefix)" by force
  have ok: "run_ok b p" using frame_invD(1) [OF inv] mem by (auto simp: regions_ok_def)
  from fit_spec [OF k(2) _ k(3) ok, of pages] fit
  have spec: "base = b" "available = p" "unat aligned = unat b + 4096 * unat prefix"
    "unat aligned = round_up (2 ^ (k + 12)) (unat b)" "unat prefix + unat pages \<le> unat p" by auto
  have get: "bt_get (fa_free s) base = Some available"
    using mem spec(1,2) regions_ok_wf [OF frame_invD(1) [OF inv]] by (simp add: bt_get_of_mem)
  note c = carve [OF frame_invD(1) [OF inv] get spec(3) [folded spec(1)] spec(5) [folded spec(2)] g(1) refl refl]
  show "fr_pages run = pages" "pages \<noteq> 0" "run_ok (fr_base run) pages"
    "run_bytes (fr_base run) pages \<subseteq> cover (fa_free s)" "fa_generations s' = fa_generations s"
    using run g(1) c(1,2) by (simp_all add: s')
  show "bt_get (fa_allocated s') = (bt_get (fa_allocated s))(fr_base run \<mapsto> run)"
    using run by (simp add: s' bt_get_insert_fun)
  show "cover (fa_free s') = cover (fa_free s) - run_bytes (fr_base run) pages" "regions_ok (fa_free s')"
    using c(3,4) run by (simp_all add: s' Let_def)
  have "4096 * unat ap = 2 ^ (k + 12)" using unat_exp [where 'a = 64, of k] k(1,3) by (simp add: power_add)
  then show "4096 * unat ap dvd unat (fr_base run)"
    using spec(4) round_up(3) [of "2 ^ (k + 12)" "unat b"] run by simp
  show "unat (fr_generation run) \<le> n"
    using frame_invD(3) [OF inv] run by (auto simp: frame_generation_def bt_all_def split: option.splits)
qed

lemma frame_allocate_inv:
  assumes "frame_inv n s"
  shows "frame_inv (Suc n) (snd (frame_allocate s pages ap)) \<and> managed (snd (frame_allocate s pages ap)) = managed s"
proof (cases "\<exists>run. fst (frame_allocate s pages ap) = Ok run")
  case True
  then obtain run where "frame_allocate s pages ap = (Ok run, snd (frame_allocate s pages ap))"
    by (metis prod.collapse)
  note a = frame_allocate_Ok [OF assms this]
  let ?A = "bt_get (fa_allocated s)" and ?s = "snd (frame_allocate s pages ap)"
  have T: "table_ok (Suc n) ?A" using table_ok_mono [OF frame_invD(2) [OF assms]] by simp
  have fresh: "run_bytes (fr_base run) (fr_pages run) \<inter> table_cover ?A = {}"
    using a(1,5) frame_invD(4) [OF assms] by blast
  have none: "?A (fr_base run) = None"
    using fresh base_in_run [OF a(3)] a(1) by (intro table_key_free [OF T]) blast
  have ins: "table_ok (Suc n) (?A(fr_base run \<mapsto> run))"
    "table_cover (?A(fr_base run \<mapsto> run)) = run_bytes (fr_base run) pages \<union> table_cover ?A"
    using table_insert [OF T none, of run] a(1,3,10) fresh by simp_all
  have "bt_all (\<lambda>_ g. unat g \<le> Suc n) (fa_generations ?s)"
    unfolding a(8) using frame_invD(3) [OF assms] by (rule bt_all_mono) simp
  moreover have "cover (fa_free ?s) \<inter> table_cover (?A(fr_base run \<mapsto> run)) = {}"
    using a(6) ins(2) frame_invD(4) [OF assms] by blast
  moreover have "cover (fa_free ?s) \<union> table_cover (?A(fr_base run \<mapsto> run)) = cover (fa_free s) \<union> table_cover ?A"
    using a(5,6) ins(2) by blast
  ultimately show ?thesis using ins(1) a(9) by (simp add: frame_inv_def managed_def a(7))
next
  case False
  then have "snd (frame_allocate s pages ap) = s"
    by (auto simp: frame_allocate_def try_then_def Let_def split: result.splits option.splits)
  then show ?thesis using frame_inv_mono [OF assms] by simp
qed

lemma add_region_inv:
  assumes "frame_inv n s" "fa_allocated s = []"
  shows "frame_inv n (snd (add_region s b p))" "fa_allocated (snd (add_region s b p)) = []"
proof -
  show "fa_allocated (snd (add_region s b p)) = []"
    using assms(2) by (auto simp: add_region_def try_then_def split: result.splits)
  show "frame_inv n (snd (add_region s b p))"
  proof (cases "run_ok b p \<and> \<not> list_ex (free_overlaps b (b + p * PAGE_SIZE)) (fa_free s)")
    case True
    have fresh: "run_bytes b p \<inter> cover (fa_free s) = {}"
      using True frame_invD(1) [OF assms(1)] free_overlaps_iff [of b p]
      by (auto simp: cover_def list_ex_iff regions_ok_def)
    note ins = cover_insert [OF frame_invD(1) [OF assms(1)] conjunct1 [OF True] fresh]
    have "snd (add_region s b p) = s \<or> snd (add_region s b p) = s\<lparr>fa_free := coalesce (bt_insert b p (fa_free s))\<rparr>"
      by (auto simp: add_region_def try_then_def checked_simps split: result.splits)
    then show ?thesis using assms coalesce_cover [OF ins(1)]
      by (auto simp: frame_inv_def table_cover_def)
  next
    case False
    then have "snd (add_region s b p) = s"
    proof (cases "run_ok b p")
      case True
      then have "unat p * unat PAGE_SIZE < 2 ^ 64" "unat b + unat (p * PAGE_SIZE) < 2 ^ 64"
        using run_end(1) [OF True] by (auto simp: run_ok_def PAGE_SIZE_def)
      then show ?thesis using True False validate_run_Ok_iff [of b p]
        by (simp add: add_region_def checked_add_def checked_mul_def)
    next
      case False
      then show ?thesis using validate_run_Ok_iff [of b p]
        by (cases "validate_run b p") (auto simp: add_region_def)
    qed
    then show ?thesis using assms(1) by simp
  qed
qed

fun is_add :: "frame_op \<Rightarrow> bool" where
  "is_add (FAdd _ _) = True"
| "is_add _ = False"

lemma frame_step_inv:
  assumes "frame_inv n s" "Suc n < 2 ^ 64" "\<not> is_add a"
  shows "frame_inv (Suc n) (frame_step s a) \<and> managed (frame_step s a) = managed s"
  using assms
  by (cases a) (simp_all add: frame_allocate_inv mark_zeroed_inv lend_inv reclaim_inv split_allocated_inv
      join_allocated_inv frame_release_inv)

lemma frame_replay_inv:
  "frame_inv n s \<Longrightarrow> n + length ops < 2 ^ 64 \<Longrightarrow> \<not> list_ex is_add ops \<Longrightarrow>
   frame_inv (n + length ops) (replay frame_step s ops) \<and> managed (replay frame_step s ops) = managed s"
proof (induction ops arbitrary: s n)
  case (Cons a ops)
  then have "frame_inv (Suc n) (frame_step s a) \<and> managed (frame_step s a) = managed s"
    by (intro frame_step_inv) auto
  then show ?case using Cons.IH [of "Suc n" "frame_step s a"] Cons.prems by simp
qed simp

text \<open>The regions the platform hands over before anything is allocated.\<close>

definition boot_regions :: "(u64 \<times> u64) list \<Rightarrow> FrameAllocator" where
  "boot_regions rs = replay frame_step FrameAllocator_new (map (\<lambda>r. FAdd (fst r) (snd r)) rs)"

lemma boot_regions_inv: "frame_inv 0 (boot_regions rs) \<and> fa_allocated (boot_regions rs) = []"
proof (induction rs rule: rev_induct)
  case Nil
  then show ?case
    by (simp add: boot_regions_def FrameAllocator_new_def frame_inv_def table_ok_def cover_def)
next
  case (snoc r rs)
  then show ?case using add_region_inv [of 0 "boot_regions rs" "fst r" "snd r"]
    by (simp add: boot_regions_def replay_append)
qed

text \<open>
  C13: no frame is lost, gained or handed out twice. After any regions were added at boot and any
  fewer than \<open>2\<^sup>6\<^sup>4\<close> calls of the other operations, failed ones included, the bytes that are
  free or allocated are exactly those handed over at boot, no byte is both, and two allocated
  runs never overlap.
\<close>

theorem frames_are_conserved:
  assumes "\<not> list_ex is_add ops" "length ops < 2 ^ 64" "s = replay frame_step (boot_regions rs) ops"
  shows "managed s = managed (boot_regions rs)
     \<and> cover (fa_free s) \<inter> table_cover (bt_get (fa_allocated s)) = {}
     \<and> (bt_get (fa_allocated s) b = Some r \<and> bt_get (fa_allocated s) b' = Some r' \<and> b \<noteq> b' \<longrightarrow>
          run_bytes b (fr_pages r) \<inter> run_bytes b' (fr_pages r') = {})"
proof -
  have inv: "frame_inv (length ops) s" and "managed s = managed (boot_regions rs)"
    using frame_replay_inv [of 0 "boot_regions rs" ops] boot_regions_inv assms by auto
  then show ?thesis using frame_invD(2,4) [OF inv] unfolding table_ok_def by auto
qed

theorem frames_are_conserved_witness:
  "let s = replay frame_step (boot_regions [(4096, 4)]) [FAllocate 1 2, FAllocate 1 1]
   in managed s = managed (boot_regions [(4096, 4)]) \<and> cover (fa_free s) \<inter> table_cover (bt_get (fa_allocated s)) = {}"
  using frames_are_conserved [OF _ _ refl, of "[FAllocate 1 2, FAllocate 1 1]" "[(4096, 4)]"]
  unfolding Let_def by simp

text \<open>
  C14: an allocation is what was asked for, and is found if there is room. In such a state, a
  successful \<open>allocate\<close> returns a run of the requested number of pages at a multiple of the
  requested alignment that was free before; and \<open>OutOfMemory\<close> is reported only when no free
  region has an aligned place that could hold the run.
\<close>

theorem allocate_exact:
  assumes "\<not> list_ex is_add ops" "length ops < 2 ^ 64" "s = replay frame_step (boot_regions rs) ops"
  shows "case fst (frame_allocate s pages ap) of
      Ok run \<Rightarrow> fr_pages run = pages \<and> pages \<noteq> 0 \<and> 4096 * unat ap dvd unat (fr_base run)
        \<and> run_bytes (fr_base run) pages \<subseteq> cover (fa_free s)
    | Err e \<Rightarrow> e = OutOfMemory \<longrightarrow> (\<forall>r\<in>set (fa_free s). \<not> holds (4096 * unat ap) (unat pages) r)"
proof (cases "fst (frame_allocate s pages ap)")
  case (Ok run)
  have inv: "frame_inv (length ops) s"
    using frame_replay_inv [of 0 "boot_regions rs" ops] boot_regions_inv assms by auto
  from Ok have "frame_allocate s pages ap = (Ok run, snd (frame_allocate s pages ap))" by (simp add: prod_eq_iff)
  from frame_allocate_Ok [OF inv this] show ?thesis by (simp add: Ok)
next
  case (Err e)
  have inv: "frame_inv (length ops) s"
    using frame_replay_inv [of 0 "boot_regions rs" ops] boot_regions_inv assms by auto
  have "\<not> holds (4096 * unat ap) (unat pages) r" if e: "e = OutOfMemory" and r: "r \<in> set (fa_free s)" for r
  proof -
    from Err e obtain alignment where g: "pages \<noteq> 0" "is_power_of_two ap" "checked_mul ap PAGE_SIZE = Some alignment"
      and f: "find_map (fit alignment pages) (fa_free s) = None"
      by (auto simp: frame_allocate_def try_then_def ok_or_def Let_def split: if_splits option.splits)
    from g(2,3) obtain k where k: "ap = 2 ^ k" "alignment = 2 ^ (k + 12)" "k + 12 < 64" by (rule power_of_two_pages)
    have ok: "run_ok (fst r) (snd r)" using frame_invD(1) [OF inv] r by (auto simp: regions_ok_def)
    have "4096 * unat ap = 2 ^ (k + 12)" using unat_exp [where 'a = 64, of k] k(1,3) by (simp add: power_add)
    then show ?thesis
      using fit_spec [OF k(2) _ k(3) ok, of pages] find_map_None [OF f r] g(1) by simp
  qed
  then show ?thesis using Err by simp
qed

theorem allocate_exact_witness:
  "\<exists>run. fst (frame_allocate (boot_regions [(4096, 4)]) 2 2) = Ok run \<and> 4096 * unat (2 :: u64) dvd unat (fr_base run)
     \<and> run_bytes (fr_base run) 2 \<subseteq> cover (fa_free (boot_regions [(4096, 4)]))"
proof -
  have r: "fst (frame_allocate (boot_regions [(4096, 4)]) 2 2) =
      Ok \<lparr>fr_base = 8192, fr_pages = 2, fr_generation = 0, fr_zeroed = False\<rparr>"
    by (simp add: boot_regions_def add_region_def validate_run_def coalesce_def FrameAllocator_new_def PAGE_SIZE_def
        checked_mul_def checked_add_def checked_sub_def frame_allocate_def is_power_of_two_def fit_def
        frame_generation_def upt_rec Let_def)
  have "boot_regions [(4096, 4)] = replay frame_step (boot_regions [(4096, 4)]) []" by simp
  from allocate_exact [OF _ _ this, of 2 2] r show ?thesis by auto
qed

section \<open>Two limits of the generation scheme\<close>

text \<open>
  \<open>add_region\<close> looks for overlaps among the free regions only: a region that is allocated can be
  added again, and is then handed out a second time.
\<close>

definition demo_double_ops :: "frame_op list" where
  "demo_double_ops = [FAdd 4096 1, FAllocate 1 1, FAdd 4096 1]"

lemma readding_allocated_region:
  "let s = replay frame_step FrameAllocator_new demo_double_ops
   in bt_contains (fa_allocated s) 4096 \<and> is_Ok (fst (frame_allocate s 1 1))
      \<and> map_option fr_base (bt_get (fa_allocated (snd (frame_allocate s 1 1))) 4096) = Some 4096"
  by (simp add: demo_double_ops_def add_region_def validate_run_def coalesce_def FrameAllocator_new_def
      PAGE_SIZE_def checked_mul_def checked_add_def checked_sub_def frame_allocate_def is_power_of_two_def fit_def
      frame_generation_def bt_contains_def upt_rec Let_def)

text \<open>
  \<open>split_allocated\<close> gives the right half the generation of the whole run, also when that base had
  a higher generation before. A handle from an earlier life of that half becomes valid again.
\<close>

definition demo_run :: "u64 \<Rightarrow> u64 \<Rightarrow> u64 \<Rightarrow> FrameRun" where
  "demo_run base pages g = \<lparr>fr_base = base, fr_pages = pages, fr_generation = g, fr_zeroed = False\<rparr>"

definition demo_lend_state :: FrameAllocator where
  "demo_lend_state = replay frame_step FrameAllocator_new
     [FAdd 4096 2, FAllocate 2 1, FSplit (demo_run 4096 2 0) 1]"

definition demo_stale_ops :: "frame_op list" where
  "demo_stale_ops = [FLend (demo_run 8192 1 0) 9, FReclaim (demo_run 8192 1 1) 9, FRelease (demo_run 8192 1 2),
     FRelease (demo_run 4096 1 0), FAllocate 2 1, FSplit (demo_run 4096 2 1) 1]"

lemma two_not_le_one: "\<not> (2 :: u64) \<le> 1"
  by (simp add: word_le_nat_alt)

lemma demo_lend_state_eq:
  "demo_lend_state = \<lparr>fa_free = [], fa_allocated = [(4096, demo_run 4096 1 0), (8192, demo_run 8192 1 0)],
     fa_generations = [(8192, 0)], fa_loans = []\<rparr>"
  by (simp add: demo_lend_state_def demo_run_def add_region_def validate_run_def coalesce_def FrameAllocator_new_def
      PAGE_SIZE_def checked_mul_def checked_add_def checked_sub_def frame_allocate_def is_power_of_two_def fit_def
      frame_generation_def split_allocated_def frame_validate_def frame_split_def bt_contains_def two_not_le_one
      upt_rec Let_def)

lemma split_revives_stale_handle:
  "fst (lend demo_lend_state (demo_run 8192 1 0) 9) = Ok (demo_run 8192 1 1)
   \<and> \<not> is_Ok (frame_validate (replay frame_step demo_lend_state (take 2 demo_stale_ops)) (demo_run 8192 1 1))
   \<and> frame_validate (replay frame_step demo_lend_state demo_stale_ops) (demo_run 8192 1 1) = Ok (demo_run 8192 1 1)"
  by (simp add: demo_lend_state_eq demo_stale_ops_def demo_run_def lend_def reclaim_def frame_release_def
      PAGE_SIZE_def checked_mul_def checked_add_def checked_sub_def frame_allocate_def is_power_of_two_def fit_def
      frame_generation_def split_allocated_def frame_validate_def frame_split_def coalesce_def bt_contains_def
      two_not_le_one upt_rec Let_def)

end
