(* ===== verification/Kernel_Atomic.thy ===== *)
theory Kernel_Atomic
  imports Kernel_Capability
begin

text \<open>
  The atomic interface of \<open>thermite-kernel/src/atomic.rs\<close>: the sequential model of one hardware
  cell (\<open>AtomicCell\<close>), the legality table of compare-exchange orderings, and the event-recording
  memory model (\<open>AtomicMemoryModel\<close>). The lemmas show that a cell is a register of its width under
  every operation, and that the recorded trace is an execution: identifiers and sequentially
  consistent indices increase, a load returns the value of the last write to its cell and names
  that write, an acquire names the release it synchronises with, and modification orders count the
  writes of a cell.
\<close>

datatype AtomicOrdering = Relaxed | Acquire | Release | AcqRel | SeqCst

datatype AtomicWidth = Bool | U32 | U64 | Usize

fun atomic_bytes :: "AtomicWidth \<Rightarrow> u64" where
  "atomic_bytes Bool = 1"
| "atomic_bytes U32 = 4"
| "atomic_bytes U64 = 8"
| "atomic_bytes Usize = 8"

fun atomic_mask :: "AtomicWidth \<Rightarrow> u64" where
  "atomic_mask Bool = 1"
| "atomic_mask U32 = 0xFFFFFFFF"
| "atomic_mask U64 = - 1"
| "atomic_mask Usize = - 1"

datatype AtomicError =
    WrongCapability | MissingRights | Misaligned | OutOfRange | IllegalLoadOrdering
  | IllegalStoreOrdering | IllegalFailureOrdering | FailureStrongerThanSuccess | UnknownCell
  | DuplicateCell | IllegalFenceOrdering | EventOverflow

record CompareExchange =
  cx_previous :: u64
  cx_exchanged :: bool

definition validate_compare_exchange :: "AtomicOrdering \<Rightarrow> AtomicOrdering \<Rightarrow> (unit, AtomicError) result" where
  "validate_compare_exchange success failure =
     (if failure \<in> {Release, AcqRel} then Err IllegalFailureOrdering
      else if (case success of
            Relaxed \<Rightarrow> failure = Relaxed
          | Acquire \<Rightarrow> failure \<in> {Relaxed, Acquire}
          | Release \<Rightarrow> failure = Relaxed
          | AcqRel \<Rightarrow> failure \<in> {Relaxed, Acquire}
          | SeqCst \<Rightarrow> failure \<in> {Relaxed, Acquire, SeqCst})
      then Ok () else Err FailureStrongerThanSuccess)"


section \<open>One atomic cell\<close>

record AtomicCell =
  ac_width :: AtomicWidth
  ac_address :: u64
  ac_value :: u64
  ac_modification_order :: u64

definition cell_create ::
    "Capability \<Rightarrow> AtomicWidth \<Rightarrow> u64 \<Rightarrow> u64 \<Rightarrow> (AtomicCell, AtomicError) result" where
  "cell_create backing width address initial =
     (if cap_kind backing \<notin> {PhysRegion, VirtRegion, CpuLocal} then Err WrongCapability
      else if \<not> Rights_contains (cap_rights backing) (Rights_union Rights_READ Rights_WRITE)
      then Err MissingRights
      else if address mod atomic_bytes width \<noteq> 0 then Err Misaligned
      else if \<not> Capability_contains_range backing address (atomic_bytes width) then Err OutOfRange
      else Ok \<lparr>ac_width = width, ac_address = address, ac_value = initial AND atomic_mask width,
              ac_modification_order = 0\<rparr>)"

definition cell_write :: "AtomicCell \<Rightarrow> u64 \<Rightarrow> AtomicCell" where
  "cell_write c v = c\<lparr>ac_value := v AND atomic_mask (ac_width c),
                      ac_modification_order := ac_modification_order c + 1\<rparr>"

definition cell_load :: "AtomicCell \<Rightarrow> AtomicOrdering \<Rightarrow> (u64, AtomicError) result" where
  "cell_load c ord =
     (if ord \<in> {Release, AcqRel} then Err IllegalLoadOrdering else Ok (ac_value c))"

definition cell_store :: "AtomicCell \<Rightarrow> u64 \<Rightarrow> AtomicOrdering \<Rightarrow> (unit, AtomicError) result \<times> AtomicCell" where
  "cell_store c v ord =
     (if ord \<in> {Acquire, AcqRel} then (Err IllegalStoreOrdering, c) else (Ok (), cell_write c v))"

definition cell_swap :: "AtomicCell \<Rightarrow> u64 \<Rightarrow> AtomicOrdering \<Rightarrow> (u64, AtomicError) result \<times> AtomicCell" where
  "cell_swap c v ord = (Ok (ac_value c), cell_write c v)"

definition compare_exchange ::
    "AtomicCell \<Rightarrow> u64 \<Rightarrow> u64 \<Rightarrow> AtomicOrdering \<Rightarrow> AtomicOrdering \<Rightarrow>
     (CompareExchange, AtomicError) result \<times> AtomicCell" where
  "compare_exchange c current new success failure =
     try_then (validate_compare_exchange success failure) c (\<lambda>_.
       let previous = ac_value c;
           exchanged = (previous = current AND atomic_mask (ac_width c))
       in (Ok \<lparr>cx_previous = previous, cx_exchanged = exchanged\<rparr>,
           if exchanged then cell_write c new else c))"

definition compare_exchange_weak ::
    "AtomicCell \<Rightarrow> u64 \<Rightarrow> u64 \<Rightarrow> AtomicOrdering \<Rightarrow> AtomicOrdering \<Rightarrow> bool \<Rightarrow>
     (CompareExchange, AtomicError) result \<times> AtomicCell" where
  "compare_exchange_weak c current new success failure spurious =
     try_then (validate_compare_exchange success failure) c (\<lambda>_.
       let previous = ac_value c in
       if spurious \<and> previous = current AND atomic_mask (ac_width c)
       then (Ok \<lparr>cx_previous = previous, cx_exchanged = False\<rparr>, c)
       else compare_exchange c current new success failure)"

definition fetch_add :: "AtomicCell \<Rightarrow> u64 \<Rightarrow> AtomicOrdering \<Rightarrow> (u64, AtomicError) result \<times> AtomicCell" where
  "fetch_add c v ord = (Ok (ac_value c), cell_write c (ac_value c + v))"

definition fetch_sub :: "AtomicCell \<Rightarrow> u64 \<Rightarrow> AtomicOrdering \<Rightarrow> (u64, AtomicError) result \<times> AtomicCell" where
  "fetch_sub c v ord = (Ok (ac_value c), cell_write c (ac_value c - v))"

definition fetch_and :: "AtomicCell \<Rightarrow> u64 \<Rightarrow> AtomicOrdering \<Rightarrow> (u64, AtomicError) result \<times> AtomicCell" where
  "fetch_and c v ord = (Ok (ac_value c), cell_write c (ac_value c AND v))"

definition fetch_or :: "AtomicCell \<Rightarrow> u64 \<Rightarrow> AtomicOrdering \<Rightarrow> (u64, AtomicError) result \<times> AtomicCell" where
  "fetch_or c v ord = (Ok (ac_value c), cell_write c (ac_value c OR v))"

definition fetch_xor :: "AtomicCell \<Rightarrow> u64 \<Rightarrow> AtomicOrdering \<Rightarrow> (u64, AtomicError) result \<times> AtomicCell" where
  "fetch_xor c v ord = (Ok (ac_value c), cell_write c (ac_value c XOR v))"


section \<open>The event-recording memory model\<close>

datatype FenceKind = Compiler | Hardware

datatype AtomicEventKind = Load | Store | ReadModifyWrite | Fence FenceKind

record AtomicEvent =
  ev_id :: u64
  ev_cpu :: u16
  ev_cell :: "u32 option"
  ev_kind :: AtomicEventKind
  ev_ordering :: AtomicOrdering
  ev_value :: u64
  ev_reads_from :: "u64 option"
  ev_modification_order :: "u64 option"
  ev_sequentially_consistent_order :: "u64 option"
  ev_happens_after_release :: "u64 option"

record MemoryCell =
  mc_value :: u64
  mc_modification_order :: u64
  mc_last_write :: u64
  mc_last_write_ordering :: AtomicOrdering

record AtomicMemoryModel =
  am_cells :: "(u32, MemoryCell) btmap"
  am_events :: "AtomicEvent list"
  am_next_event :: u64
  am_next_sc :: u64

definition AtomicMemoryModel_new :: AtomicMemoryModel where
  "AtomicMemoryModel_new = \<lparr>am_cells = [], am_events = [], am_next_event = 1, am_next_sc = 1\<rparr>"

text \<open>As in the code, the new entry is inserted before a duplicate is reported.\<close>

definition am_register ::
    "AtomicMemoryModel \<Rightarrow> u32 \<Rightarrow> u64 \<Rightarrow> (unit, AtomicError) result \<times> AtomicMemoryModel" where
  "am_register s cell initial =
     (let s' = s\<lparr>am_cells := bt_insert cell
            \<lparr>mc_value = initial, mc_modification_order = 0, mc_last_write = 0,
             mc_last_write_ordering = Relaxed\<rparr> (am_cells s)\<rparr>
      in if bt_contains (am_cells s) cell then (Err DuplicateCell, s') else (Ok (), s'))"

definition next_event_id :: "AtomicMemoryModel \<Rightarrow> (u64, AtomicError) result \<times> AtomicMemoryModel" where
  "next_event_id s =
     try_then (ok_or (checked_add (am_next_event s) 1) EventOverflow) s
       (\<lambda>n. (Ok (am_next_event s), s\<lparr>am_next_event := n\<rparr>))"

definition sc_index ::
    "AtomicMemoryModel \<Rightarrow> AtomicOrdering \<Rightarrow> (u64 option, AtomicError) result \<times> AtomicMemoryModel" where
  "sc_index s ord =
     (if ord \<noteq> SeqCst then (Ok None, s)
      else try_then (ok_or (checked_add (am_next_sc s) 1) EventOverflow) s
             (\<lambda>n. (Ok (Some (am_next_sc s)), s\<lparr>am_next_sc := n\<rparr>)))"

definition push_event :: "AtomicMemoryModel \<Rightarrow> AtomicEvent \<Rightarrow> AtomicMemoryModel" where
  "push_event s e = s\<lparr>am_events := am_events s @ [e]\<rparr>"

definition write_event ::
    "AtomicMemoryModel \<Rightarrow> u16 \<Rightarrow> u32 \<Rightarrow> u64 \<Rightarrow> AtomicOrdering \<Rightarrow> AtomicEventKind \<Rightarrow> u64 option \<Rightarrow>
     (u64, AtomicError) result \<times> AtomicMemoryModel" where
  "write_event s cpu cell value ord kind reads_from =
     (let (event, s1) = next_event_id s in try_then event s1 (\<lambda>event.
      let (sc, s2) = sc_index s1 ord in try_then sc s2 (\<lambda>sc.
      try_then (ok_or (bt_get (am_cells s2) cell) UnknownCell) s2 (\<lambda>state.
      try_then (ok_or (checked_add (mc_modification_order state) 1) EventOverflow) s2 (\<lambda>mo.
        (Ok event,
         push_event
           (s2\<lparr>am_cells := bt_insert cell
              \<lparr>mc_value = value, mc_modification_order = mo, mc_last_write = event,
               mc_last_write_ordering = ord\<rparr> (am_cells s2)\<rparr>)
           \<lparr>ev_id = event, ev_cpu = cpu, ev_cell = Some cell, ev_kind = kind, ev_ordering = ord,
            ev_value = value, ev_reads_from = reads_from, ev_modification_order = Some mo,
            ev_sequentially_consistent_order = sc, ev_happens_after_release = None\<rparr>))))))"

definition am_store ::
    "AtomicMemoryModel \<Rightarrow> u16 \<Rightarrow> u32 \<Rightarrow> u64 \<Rightarrow> AtomicOrdering \<Rightarrow> (u64, AtomicError) result \<times> AtomicMemoryModel" where
  "am_store s cpu cell value ord =
     (if ord \<in> {Acquire, AcqRel} then (Err IllegalStoreOrdering, s)
      else write_event s cpu cell value ord Store None)"

definition am_load ::
    "AtomicMemoryModel \<Rightarrow> u16 \<Rightarrow> u32 \<Rightarrow> AtomicOrdering \<Rightarrow> (u64 \<times> u64, AtomicError) result \<times> AtomicMemoryModel" where
  "am_load s cpu cell ord =
     (if ord \<in> {Release, AcqRel} then (Err IllegalLoadOrdering, s)
      else try_then (ok_or (bt_get (am_cells s) cell) UnknownCell) s (\<lambda>state.
        let happens_after_release =
              (if ord \<in> {Acquire, SeqCst}
                  \<and> mc_last_write_ordering state \<in> {Release, AcqRel, SeqCst}
                  \<and> mc_last_write state \<noteq> 0
               then Some (mc_last_write state) else None);
            (event, s1) = next_event_id s in try_then event s1 (\<lambda>event.
        let (sc, s2) = sc_index s1 ord in try_then sc s2 (\<lambda>sc.
          (Ok (mc_value state, event),
           push_event s2
             \<lparr>ev_id = event, ev_cpu = cpu, ev_cell = Some cell, ev_kind = Load, ev_ordering = ord,
              ev_value = mc_value state,
              ev_reads_from = (if mc_last_write state \<noteq> 0 then Some (mc_last_write state) else None),
              ev_modification_order = None, ev_sequentially_consistent_order = sc,
              ev_happens_after_release = happens_after_release\<rparr>)))))"

text \<open>
  \<open>events.iter().rev().nth(1)\<close>: the event just before the last one. The read-modify-write looks
  for its source only there, and patches the event that \<open>write_event\<close> has just pushed.
\<close>

definition prior_write :: "AtomicEvent list \<Rightarrow> u32 \<Rightarrow> u64 option" where
  "prior_write events cell =
     (case rev events of
        _ # candidate # _ \<Rightarrow>
          if ev_cell candidate = Some cell \<and> ev_modification_order candidate \<noteq> None
          then Some (ev_id candidate) else None
      | _ \<Rightarrow> None)"

definition am_fetch_add ::
    "AtomicMemoryModel \<Rightarrow> u16 \<Rightarrow> u32 \<Rightarrow> u64 \<Rightarrow> AtomicOrdering \<Rightarrow>
     (u64 \<times> u64, AtomicError) result \<times> AtomicMemoryModel" where
  "am_fetch_add s cpu cell value ord =
     try_then (ok_or (bt_get (am_cells s) cell) UnknownCell) s (\<lambda>state.
       let previous = mc_value state;
           (event, s1) = write_event s cpu cell (previous + value) ord ReadModifyWrite None
       in try_then event s1 (\<lambda>event.
         let prior = prior_write (am_events s1) cell;
             happens_after_release =
               (if ord \<in> {Acquire, AcqRel, SeqCst}
                then (case prior of
                   None \<Rightarrow> None
                 | Some i \<Rightarrow>
                     if list_ex (\<lambda>c. ev_id c = i \<and> ev_ordering c \<in> {Release, AcqRel, SeqCst}) (am_events s1)
                     then Some i else None)
                else None);
             s2 = (if am_events s1 = [] then s1
                   else s1\<lparr>am_events := butlast (am_events s1) @
                      [(last (am_events s1))\<lparr>ev_reads_from := prior,
                         ev_happens_after_release := happens_after_release\<rparr>]\<rparr>)
         in (Ok (previous, event), s2)))"

definition am_fence ::
    "AtomicMemoryModel \<Rightarrow> u16 \<Rightarrow> FenceKind \<Rightarrow> AtomicOrdering \<Rightarrow> (u64, AtomicError) result \<times> AtomicMemoryModel" where
  "am_fence s cpu kind ord =
     (if ord = Relaxed then (Err IllegalFenceOrdering, s)
      else let (event, s1) = next_event_id s in try_then event s1 (\<lambda>event.
           let (sc, s2) = sc_index s1 ord in try_then sc s2 (\<lambda>sc.
             (Ok event,
              push_event s2
                \<lparr>ev_id = event, ev_cpu = cpu, ev_cell = None, ev_kind = Fence kind, ev_ordering = ord,
                 ev_value = 0, ev_reads_from = None, ev_modification_order = None,
                 ev_sequentially_consistent_order = sc, ev_happens_after_release = None\<rparr>))))"

section \<open>A cell is a register of its width\<close>

datatype cell_op =
    CStore u64 AtomicOrdering | CSwap u64 AtomicOrdering
  | CCas u64 u64 AtomicOrdering AtomicOrdering | CCasWeak u64 u64 AtomicOrdering AtomicOrdering bool
  | CAdd u64 AtomicOrdering | CSub u64 AtomicOrdering | CAnd u64 AtomicOrdering
  | COr u64 AtomicOrdering | CXor u64 AtomicOrdering

fun cell_step :: "AtomicCell \<Rightarrow> cell_op \<Rightarrow> AtomicCell" where
  "cell_step c (CStore v r) = snd (cell_store c v r)"
| "cell_step c (CSwap v r) = snd (cell_swap c v r)"
| "cell_step c (CCas x y a b) = snd (compare_exchange c x y a b)"
| "cell_step c (CCasWeak x y a b f) = snd (compare_exchange_weak c x y a b f)"
| "cell_step c (CAdd v r) = snd (fetch_add c v r)"
| "cell_step c (CSub v r) = snd (fetch_sub c v r)"
| "cell_step c (CAnd v r) = snd (fetch_and c v r)"
| "cell_step c (COr v r) = snd (fetch_or c v r)"
| "cell_step c (CXor v r) = snd (fetch_xor c v r)"

fun width_bits :: "AtomicWidth \<Rightarrow> nat" where
  "width_bits Bool = 1"
| "width_bits U32 = 32"
| "width_bits U64 = 64"
| "width_bits Usize = 64"

text \<open>The abstract register: an integer below \<open>2 ^ b\<close>, with arithmetic modulo \<open>2 ^ b\<close>.\<close>

fun register_next :: "nat \<Rightarrow> int \<Rightarrow> cell_op \<Rightarrow> int" where
  "register_next b r (CStore v a) = (if a \<in> {Acquire, AcqRel} then r else uint v mod 2 ^ b)"
| "register_next b r (CSwap v _) = uint v mod 2 ^ b"
| "register_next b r (CCas x y s f) =
     (if is_Ok (validate_compare_exchange s f) \<and> r = uint x mod 2 ^ b then uint y mod 2 ^ b else r)"
| "register_next b r (CCasWeak x y s f spurious) =
     (if \<not> spurious \<and> is_Ok (validate_compare_exchange s f) \<and> r = uint x mod 2 ^ b
      then uint y mod 2 ^ b else r)"
| "register_next b r (CAdd v _) = (r + uint v) mod 2 ^ b"
| "register_next b r (CSub v _) = (r - uint v) mod 2 ^ b"
| "register_next b r (CAnd v _) = (r AND uint v) mod 2 ^ b"
| "register_next b r (COr v _) = (r OR uint v) mod 2 ^ b"
| "register_next b r (CXor v _) = (r XOR uint v) mod 2 ^ b"

lemma atomic_mask_eq: "atomic_mask w = mask (width_bits w)"
  by (cases w) (simp_all add: mask_eq_exp_minus_1)

lemma width_bits_le: "width_bits w \<le> 64"
  by (cases w) simp_all

lemma uint_masked: "uint (v AND atomic_mask w) = uint v mod 2 ^ width_bits w"
proof -
  have "uint (v AND atomic_mask w) = uint (take_bit (width_bits w) v)"
    by (simp only: atomic_mask_eq take_bit_eq_mask)
  also have "\<dots> = take_bit (width_bits w) (uint v)"
    by (rule unsigned_take_bit_eq)
  finally show ?thesis by (simp only: take_bit_eq_mod)
qed

lemma mod_word_mod: "b \<le> 64 \<Longrightarrow> (x mod 2 ^ 64) mod 2 ^ b = x mod (2 ^ b :: int)"
  by (rule mod_mod_cancel) (rule le_imp_power_dvd)

lemma masked_arith:
  "uint (a + v) mod 2 ^ width_bits w = (uint a + uint v) mod 2 ^ width_bits w"
  "uint (a - v) mod 2 ^ width_bits w = (uint a - uint v) mod 2 ^ width_bits w"
  "uint (a AND v) mod 2 ^ width_bits w = (uint a AND uint v) mod 2 ^ width_bits w"
  "uint (a OR v) mod 2 ^ width_bits w = (uint a OR uint v) mod 2 ^ width_bits w"
  "uint (a XOR v) mod 2 ^ width_bits w = (uint a XOR uint v) mod 2 ^ width_bits w" for a v :: u64
  using mod_word_mod [OF width_bits_le [of w]]
  by (simp_all add: uint_word_ariths unsigned_and_eq unsigned_or_eq unsigned_xor_eq)

definition cell_abs :: "AtomicCell \<Rightarrow> int" where
  "cell_abs c = uint (ac_value c)"

lemmas cell_defs =
  cell_store_def cell_swap_def compare_exchange_def compare_exchange_weak_def fetch_add_def fetch_sub_def
  fetch_and_def fetch_or_def fetch_xor_def cell_write_def cell_abs_def

lemma eq_masked_iff: "(v = x AND atomic_mask w) \<longleftrightarrow> uint v = uint x mod 2 ^ width_bits w"
  by (simp add: uint_masked flip: word_uint_eq_iff [symmetric] uint_masked)

lemma cell_step_refines:
  "cell_abs (cell_step c a) = register_next (width_bits (ac_width c)) (cell_abs c) a
   \<and> ac_width (cell_step c a) = ac_width c"
proof (cases a)
  case (CCas x y s f)
  then show ?thesis
    by (cases "validate_compare_exchange s f") (simp_all add: cell_defs eq_masked_iff uint_masked)
next
  case (CCasWeak x y s f sp)
  then show ?thesis
    by (cases "validate_compare_exchange s f") (simp_all add: cell_defs Let_def eq_masked_iff uint_masked)
qed (simp_all add: cell_defs uint_masked masked_arith)

lemma replay_cell_refines:
  "cell_abs (replay cell_step c ops) = foldl (register_next (width_bits (ac_width c))) (cell_abs c) ops
   \<and> ac_width (replay cell_step c ops) = ac_width c"
  by (induction ops arbitrary: c) (simp_all add: cell_step_refines)

definition cell_returned :: "AtomicCell \<Rightarrow> cell_op \<Rightarrow> u64 option" where
  "cell_returned c a = (case a of
       CStore _ _ \<Rightarrow> None
     | CSwap v r \<Rightarrow> (case fst (cell_swap c v r) of Ok p \<Rightarrow> Some p | Err _ \<Rightarrow> None)
     | CCas x y s f \<Rightarrow> (case fst (compare_exchange c x y s f) of Ok p \<Rightarrow> Some (cx_previous p) | Err _ \<Rightarrow> None)
     | CCasWeak x y s f b \<Rightarrow>
         (case fst (compare_exchange_weak c x y s f b) of Ok p \<Rightarrow> Some (cx_previous p) | Err _ \<Rightarrow> None)
     | CAdd v r \<Rightarrow> (case fst (fetch_add c v r) of Ok p \<Rightarrow> Some p | Err _ \<Rightarrow> None)
     | CSub v r \<Rightarrow> (case fst (fetch_sub c v r) of Ok p \<Rightarrow> Some p | Err _ \<Rightarrow> None)
     | CAnd v r \<Rightarrow> (case fst (fetch_and c v r) of Ok p \<Rightarrow> Some p | Err _ \<Rightarrow> None)
     | COr v r \<Rightarrow> (case fst (fetch_or c v r) of Ok p \<Rightarrow> Some p | Err _ \<Rightarrow> None)
     | CXor v r \<Rightarrow> (case fst (fetch_xor c v r) of Ok p \<Rightarrow> Some p | Err _ \<Rightarrow> None))"

lemma cell_returned_old: "cell_returned c a = Some p \<Longrightarrow> p = ac_value c"
  by (cases a) (auto simp: cell_returned_def cell_defs try_then_def Let_def
        split: result.splits if_splits prod.splits)

lemma aligned_dvd: "a mod b = 0 \<Longrightarrow> unat b dvd unat a" for a b :: u64
  by (metis mod_0_imp_dvd unat_0 unat_mod_distrib)

lemma cell_create_Ok:
  assumes "cell_create k w a v = Ok c"
  shows "Capability_contains_range k a (atomic_bytes w) \<and> unat (atomic_bytes w) dvd unat a
       \<and> Rights_contains (cap_rights k) (Rights_union Rights_READ Rights_WRITE)
       \<and> ac_width c = w \<and> cell_abs c = uint v mod 2 ^ width_bits w"
  using assms
  by (auto simp: cell_create_def cell_abs_def uint_masked aligned_dvd split: if_splits)


definition demo_atomic_cap :: Capability where
  "demo_atomic_cap = demo_cap\<lparr>cap_kind := PhysRegion\<rparr>"

definition demo_cell :: AtomicCell where
  "demo_cell = \<lparr>ac_width = Bool, ac_address = 4100, ac_value = 1, ac_modification_order = 0\<rparr>"

lemma demo_cell_created: "cell_create demo_atomic_cap Bool 4100 1 = Ok demo_cell"
  by (simp add: cell_create_def demo_atomic_cap_def demo_cap_def demo_cell_def Rights_READ_def Rights_WRITE_def
      Rights_union_def Rights_contains_def Capability_contains_range_def checked_add_def)


section \<open>The recorded trace is an execution\<close>

datatype am_op =
    ARegister u32 u64 | AStore u16 u32 u64 AtomicOrdering | ALoad u16 u32 AtomicOrdering
  | AFetchAdd u16 u32 u64 AtomicOrdering | AFence u16 FenceKind AtomicOrdering

fun am_step :: "AtomicMemoryModel \<Rightarrow> am_op \<Rightarrow> AtomicMemoryModel" where
  "am_step s (ARegister c v) = snd (am_register s c v)"
| "am_step s (AStore p c v r) = snd (am_store s p c v r)"
| "am_step s (ALoad p c r) = snd (am_load s p c r)"
| "am_step s (AFetchAdd p c v r) = snd (am_fetch_add s p c v r)"
| "am_step s (AFence p k r) = snd (am_fence s p k r)"

fun registered :: "am_op list \<Rightarrow> u32 list" where
  "registered [] = []"
| "registered (ARegister c v # ops) = c # registered ops"
| "registered (_ # ops) = registered ops"

definition writes :: "u32 \<Rightarrow> AtomicEvent \<Rightarrow> bool" where
  "writes c e = (ev_cell e = Some c \<and> ev_kind e \<in> {Store, ReadModifyWrite})"

definition last_writer :: "AtomicEvent list \<Rightarrow> u32 \<Rightarrow> AtomicEvent option" where
  "last_writer past c = find (writes c) (rev past)"

definition write_count :: "AtomicEvent list \<Rightarrow> u32 \<Rightarrow> nat" where
  "write_count past c = length (filter (writes c) past)"

definition releasing :: "AtomicEvent \<Rightarrow> bool" where
  "releasing e = (ev_ordering e \<in> {Release, AcqRel, SeqCst})"

definition acquiring :: "AtomicEvent \<Rightarrow> bool" where
  "acquiring e = (ev_ordering e \<in> {Acquire, AcqRel, SeqCst})"

text \<open>What an event says of the events before it.\<close>

definition load_ok :: "AtomicEvent list \<Rightarrow> u32 \<Rightarrow> AtomicEvent \<Rightarrow> bool" where
  "load_ok past c e = (ev_modification_order e = None \<and>
     (case last_writer past c of
        None \<Rightarrow> ev_reads_from e = None \<and> ev_happens_after_release e = None
      | Some w \<Rightarrow> ev_reads_from e = Some (ev_id w) \<and> ev_value e = ev_value w
          \<and> ev_happens_after_release e = (if acquiring e \<and> releasing w then Some (ev_id w) else None)))"

definition write_ok :: "AtomicEvent list \<Rightarrow> u32 \<Rightarrow> AtomicEvent \<Rightarrow> bool" where
  "write_ok past c e =
     (ev_modification_order e = Some (of_nat (Suc (write_count past c)))
      \<and> (case ev_reads_from e of
           None \<Rightarrow> ev_happens_after_release e = None
         | Some i \<Rightarrow> (case last_writer past c of
               None \<Rightarrow> False
             | Some w \<Rightarrow> ev_id w = i \<and> ev_kind e = ReadModifyWrite
                 \<and> ev_happens_after_release e = (if acquiring e \<and> releasing w then Some i else None))))"

definition event_ok :: "AtomicEvent list \<Rightarrow> AtomicEvent \<Rightarrow> bool" where
  "event_ok past e = (case ev_cell e of
       None \<Rightarrow> (\<exists>k. ev_kind e = Fence k) \<and> ev_ordering e \<noteq> Relaxed \<and> ev_modification_order e = None
         \<and> ev_reads_from e = None
     | Some c \<Rightarrow> if ev_kind e = Load then load_ok past c e
                else ev_kind e \<in> {Store, ReadModifyWrite} \<and> write_ok past c e)"

definition trace_ok :: "AtomicEvent list \<Rightarrow> bool" where
  "trace_ok es = (\<forall>n<length es. event_ok (take n es) (es ! n))"

lemma trace_ok_Nil [simp]: "trace_ok []"
  by (simp add: trace_ok_def)

lemma trace_ok_snoc [simp]: "trace_ok (es @ [e]) \<longleftrightarrow> trace_ok es \<and> event_ok es e"
  by (auto simp: trace_ok_def nth_append less_Suc_eq)

lemma last_writer_simps [simp]:
  "last_writer [] c = None"
  "last_writer (es @ [e]) c = (if writes c e then Some e else last_writer es c)"
  by (simp_all add: last_writer_def)

lemma write_count_simps [simp]:
  "write_count [] c = 0"
  "write_count (es @ [e]) c = (if writes c e then Suc (write_count es c) else write_count es c)"
  by (simp_all add: write_count_def)

lemma last_writer_in: "last_writer es c = Some w \<Longrightarrow> w \<in> set es \<and> writes c w"
  by (induction es rule: rev_induct) (auto split: if_splits)

definition sc_indices :: "AtomicEvent list \<Rightarrow> u64 list" where
  "sc_indices es = List.map_filter ev_sequentially_consistent_order es"

lemma sc_indices_simps [simp]:
  "sc_indices [] = []"
  "sc_indices (es @ [e]) =
     sc_indices es @ (case ev_sequentially_consistent_order e of None \<Rightarrow> [] | Some i \<Rightarrow> [i])"
  by (auto simp: sc_indices_def List.map_filter_def split: option.splits)

text \<open>The identifiers and the sequentially consistent indices given out so far.\<close>

definition ids_ok :: "AtomicEvent list \<Rightarrow> u64 \<Rightarrow> u64 \<Rightarrow> bool" where
  "ids_ok es n m = (sorted_wrt (<) (map ev_id es) \<and> sorted_wrt (<) (sc_indices es)
     \<and> (\<forall>e\<in>set es. 0 < ev_id e \<and> ev_id e < n) \<and> (\<forall>i\<in>set (sc_indices es). i < m) \<and> 0 < n)"

text \<open>A cell's entry sums up the writes to it.\<close>

definition cell_ok :: "AtomicEvent list \<Rightarrow> u32 \<Rightarrow> MemoryCell \<Rightarrow> bool" where
  "cell_ok es c st = (write_count es c < 2 ^ 64 \<and> mc_modification_order st = of_nat (write_count es c) \<and>
     (case last_writer es c of
        None \<Rightarrow> mc_last_write st = 0
      | Some w \<Rightarrow> mc_last_write st = ev_id w \<and> mc_value st = ev_value w
          \<and> mc_last_write_ordering st = ev_ordering w))"

definition am_inv :: "AtomicMemoryModel \<Rightarrow> bool" where
  "am_inv s = (trace_ok (am_events s) \<and> ids_ok (am_events s) (am_next_event s) (am_next_sc s)
     \<and> bt_all (cell_ok (am_events s)) (am_cells s)
     \<and> (\<forall>e\<in>set (am_events s). \<forall>c. ev_cell e = Some c \<longrightarrow> bt_contains (am_cells s) c))"

lemma ids_ok_snoc:
  assumes "ids_ok es n m" "ev_id e = n" "n < n'"
    and "case ev_sequentially_consistent_order e of None \<Rightarrow> m' = m | Some i \<Rightarrow> i = m \<and> m < m'"
  shows "ids_ok (es @ [e]) n' m'"
  using assms by (auto simp: ids_ok_def sorted_wrt_append split: option.splits)

lemma ids_ok_mono: "ids_ok es n m \<Longrightarrow> n \<le> n' \<Longrightarrow> m \<le> m' \<Longrightarrow> ids_ok es n' m'"
  by (auto simp: ids_ok_def)

text \<open>Taking an identifier and, for \<open>SeqCst\<close>, an index: only the two counters move.\<close>

definition ticked :: "AtomicMemoryModel \<Rightarrow> AtomicMemoryModel \<Rightarrow> bool" where
  "ticked s t = (\<exists>n m. t = s\<lparr>am_next_event := n, am_next_sc := m\<rparr> \<and> am_next_event s \<le> n \<and> am_next_sc s \<le> m)"

definition stamped :: "AtomicMemoryModel \<Rightarrow> u64 \<Rightarrow> u64 option \<Rightarrow> AtomicMemoryModel \<Rightarrow> bool" where
  "stamped s e sc t = (e = am_next_event s \<and> am_next_event s < am_next_event t
     \<and> am_cells t = am_cells s \<and> am_events t = am_events s
     \<and> (case sc of None \<Rightarrow> am_next_sc t = am_next_sc s | Some i \<Rightarrow> i = am_next_sc s \<and> am_next_sc s < am_next_sc t))"

lemma ticked_refl [simp]: "ticked s s"
  unfolding ticked_def by (intro exI [of _ "am_next_event s"] exI [of _ "am_next_sc s"]) simp

lemma ticked_inv: "am_inv s \<Longrightarrow> ticked s t \<Longrightarrow> am_inv t"
  by (auto simp: am_inv_def ticked_def intro: ids_ok_mono)

lemma next_event_id_out:
  obtains "next_event_id s = (Err EventOverflow, s)"
  | n where "next_event_id s = (Ok (am_next_event s), s\<lparr>am_next_event := n\<rparr>)" "am_next_event s < n"
  by (cases "checked_add (am_next_event s) 1") (auto simp: next_event_id_def dest: checked_inc_greater)

lemma sc_index_out:
  obtains "sc_index s r = (Err EventOverflow, s)"
  | "sc_index s r = (Ok None, s)"
  | n where "sc_index s r = (Ok (Some (am_next_sc s)), s\<lparr>am_next_sc := n\<rparr>)" "am_next_sc s < n"
  by (cases "checked_add (am_next_sc s) 1"; cases "r = SeqCst")
     (auto simp: sc_index_def dest: checked_inc_greater)

lemma tick_out:
  assumes "next_event_id s = (x, s1)"
  obtains e where "x = Err e" "s1 = s"
  | e y s2 where "x = Ok e" "sc_index s1 r = (Err y, s2)" "ticked s s1" "ticked s s2"
  | e sc s2 where "x = Ok e" "sc_index s1 r = (Ok sc, s2)" "stamped s e sc s2" "ticked s s2"
proof (rule next_event_id_out [of s])
  assume "next_event_id s = (Err EventOverflow, s)"
  then show thesis using assms that(1) by auto
next
  fix n assume n: "next_event_id s = (Ok (am_next_event s), s\<lparr>am_next_event := n\<rparr>)" "am_next_event s < n"
  then have x: "x = Ok (am_next_event s)" "s1 = s\<lparr>am_next_event := n\<rparr>" using assms by auto
  have tick: "ticked s (s\<lparr>am_next_event := n, am_next_sc := m\<rparr>)" if "am_next_sc s \<le> m" for m
    unfolding ticked_def using n(2) that by (intro exI [of _ n] exI [of _ m]) simp
  have t1: "ticked s s1" using tick [of "am_next_sc s"] x(2) by simp
  show thesis
  proof (rule sc_index_out [of s1 r])
    assume "sc_index s1 r = (Err EventOverflow, s1)"
    then show thesis using that(2) x t1 by blast
  next
    assume "sc_index s1 r = (Ok None, s1)"
    then show thesis using that(3) x t1 n(2) by (auto simp: stamped_def)
  next
    fix m assume "sc_index s1 r = (Ok (Some (am_next_sc s1)), s1\<lparr>am_next_sc := m\<rparr>)" "am_next_sc s1 < m"
    then show thesis using that(3) [of "am_next_event s" "Some (am_next_sc s)" "s1\<lparr>am_next_sc := m\<rparr>"]
        x n(2) tick [of m] by (auto simp: stamped_def)
  qed
qed

text \<open>One more event, recorded with the stamp that was taken for it.\<close>

lemma push_event_sel [simp]:
  "am_events (push_event t e) = am_events t @ [e]" "am_cells (push_event t e) = am_cells t"
  "am_next_event (push_event t e) = am_next_event t" "am_next_sc (push_event t e) = am_next_sc t"
  by (simp_all add: push_event_def)

lemma stamped_push_inv:
  assumes inv: "am_inv s" and st: "stamped s (ev_id e) (ev_sequentially_consistent_order e) t"
    and ok: "event_ok (am_events s) e"
    and u: "am_events u = am_events s @ [e]" "am_next_event u = am_next_event t" "am_next_sc u = am_next_sc t"
    and cells: "bt_all (cell_ok (am_events s @ [e])) (am_cells u)"
      "\<And>c. bt_contains (am_cells s) c \<Longrightarrow> bt_contains (am_cells u) c"
      "\<And>c. ev_cell e = Some c \<Longrightarrow> bt_contains (am_cells u) c"
  shows "am_inv u"
proof -
  have "ids_ok (am_events s @ [e]) (am_next_event t) (am_next_sc t)"
    using inv st by (intro ids_ok_snoc) (auto simp: am_inv_def stamped_def split: option.splits)
  then show ?thesis using inv ok u cells by (auto simp: am_inv_def)
qed

lemma cell_ok_read: "\<not> (\<exists>c. writes c e) \<Longrightarrow> cell_ok (es @ [e]) = cell_ok es"
  by (intro ext) (auto simp: cell_ok_def)

lemma cell_ok_other: "\<not> writes c e \<Longrightarrow> cell_ok (es @ [e]) c = cell_ok es c"
  by (intro ext) (auto simp: cell_ok_def)

lemma am_inv_cell: "am_inv s \<Longrightarrow> bt_get (am_cells s) c = Some st \<Longrightarrow> cell_ok (am_events s) c st"
  by (simp add: am_inv_def bt_all_def)

lemma am_inv_id: "am_inv s \<Longrightarrow> last_writer (am_events s) c = Some w \<Longrightarrow> ev_id w \<noteq> 0"
  by (auto simp: am_inv_def ids_ok_def dest!: last_writer_in)

lemma cell_ok_zero:
  assumes "am_inv s" "bt_get (am_cells s) c = Some st"
  shows "mc_last_write st = 0 \<longleftrightarrow> last_writer (am_events s) c = None"
  using am_inv_cell [OF assms] am_inv_id [OF assms(1), of c]
  by (auto simp: cell_ok_def split: option.splits)

lemma am_load_inv:
  assumes "am_inv s"
  shows "am_inv (snd (am_load s p c r))"
proof (cases "r \<in> {Release, AcqRel} \<or> bt_get (am_cells s) c = None")
  case True
  then show ?thesis using assms by (auto simp: am_load_def)
next
  case False
  then obtain st where st: "bt_get (am_cells s) c = Some st" and r: "r \<notin> {Release, AcqRel}" by auto
  obtain x s1 where x: "next_event_id s = (x, s1)" by fastforce
  then show ?thesis
  proof (cases rule: tick_out [where r = r])
    case (3 e sc s2)
    let ?e = "\<lparr>ev_id = e, ev_cpu = p, ev_cell = Some c, ev_kind = Load, ev_ordering = r,
              ev_value = mc_value st,
              ev_reads_from = (if mc_last_write st \<noteq> 0 then Some (mc_last_write st) else None),
              ev_modification_order = None, ev_sequentially_consistent_order = sc,
              ev_happens_after_release = (if r \<in> {Acquire, SeqCst}
                  \<and> mc_last_write_ordering st \<in> {Release, AcqRel, SeqCst}
                  \<and> mc_last_write st \<noteq> 0
               then Some (mc_last_write st) else None)\<rparr>"
    have ok: "event_ok (am_events s) ?e"
      using assms st r cell_ok_zero [OF assms st]
      by (auto simp: event_ok_def load_ok_def am_inv_def bt_all_def cell_ok_def acquiring_def releasing_def
          split: option.splits)
    have "am_inv (push_event s2 ?e)"
      using assms 3 ok st
      by (intro stamped_push_inv [OF assms _ ok])
         (auto simp: stamped_def cell_ok_read writes_def am_inv_def bt_contains_def)
    moreover have "snd (am_load s p c r) = push_event s2 ?e"
      using r st x 3 by (simp add: am_load_def)
    ultimately show ?thesis by simp
  qed (use st r x assms in \<open>auto simp: am_load_def intro: ticked_inv\<close>)
qed

lemma am_fence_inv:
  assumes "am_inv s"
  shows "am_inv (snd (am_fence s p k r))"
proof (cases "r = Relaxed")
  case True
  then show ?thesis using assms by (simp add: am_fence_def)
next
  case False
  obtain x s1 where x: "next_event_id s = (x, s1)" by fastforce
  then show ?thesis
  proof (cases rule: tick_out [where r = r])
    case (3 e sc s2)
    let ?e = "\<lparr>ev_id = e, ev_cpu = p, ev_cell = None, ev_kind = Fence k, ev_ordering = r,
                 ev_value = 0, ev_reads_from = None, ev_modification_order = None,
                 ev_sequentially_consistent_order = sc, ev_happens_after_release = None\<rparr>"
    have ok: "event_ok (am_events s) ?e" using False by (simp add: event_ok_def)
    have "am_inv (push_event s2 ?e)"
      using assms 3
      by (intro stamped_push_inv [OF assms _ ok]) (auto simp: stamped_def cell_ok_read writes_def am_inv_def)
    then show ?thesis using False x 3 by (simp add: am_fence_def)
  qed (use False x assms in \<open>auto simp: am_fence_def intro: ticked_inv\<close>)
qed

definition written :: "u16 \<Rightarrow> u32 \<Rightarrow> u64 \<Rightarrow> AtomicOrdering \<Rightarrow> AtomicEventKind \<Rightarrow> u64 \<Rightarrow> u64 \<Rightarrow> u64 option \<Rightarrow> AtomicEvent" where
  "written p c v r k event mo sc =
     \<lparr>ev_id = event, ev_cpu = p, ev_cell = Some c, ev_kind = k, ev_ordering = r,
      ev_value = v, ev_reads_from = None, ev_modification_order = Some mo,
      ev_sequentially_consistent_order = sc, ev_happens_after_release = None\<rparr>"

definition written_state :: "AtomicMemoryModel \<Rightarrow> u32 \<Rightarrow> AtomicEvent \<Rightarrow> u64 \<Rightarrow> AtomicMemoryModel" where
  "written_state t c e mo = push_event (t\<lparr>am_cells := bt_insert c
      \<lparr>mc_value = ev_value e, mc_modification_order = mo, mc_last_write = ev_id e,
       mc_last_write_ordering = ev_ordering e\<rparr> (am_cells t)\<rparr>) e"

lemma write_event_out:
  obtains y t where "write_event s p c v r k None = (Err y, t)" "ticked s t"
  | event state mo sc t where
      "bt_get (am_cells s) c = Some state" "checked_add (mc_modification_order state) 1 = Some mo"
      "stamped s event sc t"
      "write_event s p c v r k None = (Ok event, written_state t c (written p c v r k event mo sc) mo)"
proof -
  obtain x s1 where x: "next_event_id s = (x, s1)" by fastforce
  then show ?thesis
  proof (cases rule: tick_out [where r = r])
    case (1 e)
    then show thesis using that(1) x by (simp add: write_event_def)
  next
    case (2 e y s2)
    then show thesis using that(1) x by (simp add: write_event_def)
  next
    case (3 e sc s2)
    then have cells: "am_cells s2 = am_cells s" by (simp add: stamped_def)
    consider "bt_get (am_cells s) c = None"
      | st where "bt_get (am_cells s) c = Some st" "checked_add (mc_modification_order st) 1 = None"
      | st mo where "bt_get (am_cells s) c = Some st" "checked_add (mc_modification_order st) 1 = Some mo"
      by (metis option.exhaust)
    then show thesis
    proof cases
      case 1
      then show thesis using that(1) 3 x cells by (simp add: write_event_def)
    next
      case (2 st)
      then show thesis using that(1) 3 x cells by (simp add: write_event_def)
    next
      case (3 st mo)
      then show thesis
        using that(2) [OF 3 \<open>stamped s e sc s2\<close>] \<open>x = Ok e\<close> \<open>sc_index s1 r = (Ok sc, s2)\<close> x cells
        by (simp add: write_event_def written_def written_state_def)
    qed
  qed
qed

lemma count_step:
  assumes "n < 2 ^ 64" "checked_add (of_nat n :: u64) 1 = Some mo"
  shows "Suc n < 2 ^ 64" and "mo = of_nat (Suc n)"
proof -
  have n: "unat (of_nat n :: u64) = n" using assms(1) by (simp add: unat_of_nat)
  have "unat (of_nat n :: u64) + unat (1 :: u64) < 2 ^ LENGTH(64)" and mo: "mo = of_nat n + 1"
    using assms(2) unfolding checked_add_eq_Some by blast+
  then show "Suc n < 2 ^ 64" unfolding n by simp
  show "mo = of_nat (Suc n)" unfolding mo by simp
qed

lemma written_inv:
  assumes inv: "am_inv s" and st: "bt_get (am_cells s) c = Some state"
    and mo: "checked_add (mc_modification_order state) 1 = Some mo"
    and stamp: "stamped s (ev_id e) (ev_sequentially_consistent_order e) t"
    and e: "ev_cell e = Some c" "ev_kind e \<in> {Store, ReadModifyWrite}" "ev_modification_order e = Some mo"
    and source: "case ev_reads_from e of
           None \<Rightarrow> ev_happens_after_release e = None
         | Some i \<Rightarrow> (case last_writer (am_events s) c of
               None \<Rightarrow> False
             | Some w \<Rightarrow> ev_id w = i \<and> ev_kind e = ReadModifyWrite
                 \<and> ev_happens_after_release e = (if acquiring e \<and> releasing w then Some i else None))"
  shows "am_inv (written_state t c e mo)"
proof -
  have count: "write_count (am_events s) c < 2 ^ 64" and
    last: "mc_modification_order state = of_nat (write_count (am_events s) c)"
    using am_inv_cell [OF inv st] by (simp_all add: cell_ok_def)
  note counts = count_step [OF count mo [unfolded last]]
  have ok: "event_ok (am_events s) e"
    using e source counts by (auto simp: event_ok_def write_ok_def)
  have w: "writes d e \<longleftrightarrow> d = c" for d using e by (auto simp: writes_def)
  have cells: "am_cells t = am_cells s" "am_events t = am_events s" using stamp by (auto simp: stamped_def)
  have all: "bt_all (cell_ok (am_events s @ [e])) (am_cells (written_state t c e mo))"
    unfolding bt_all_def written_state_def push_event_sel
  proof (intro allI impI)
    fix k v
    assume "bt_get (am_cells (t\<lparr>am_cells := bt_insert c \<lparr>mc_value = ev_value e, mc_modification_order = mo,
       mc_last_write = ev_id e, mc_last_write_ordering = ev_ordering e\<rparr> (am_cells t)\<rparr>)) k = Some v"
    then show "cell_ok (am_events s @ [e]) k v"
      using counts w am_inv_cell [OF inv, of k v] cells
      by (cases "k = c") (auto simp: cell_ok_def)
  qed
  show ?thesis
    by (rule stamped_push_inv [OF inv stamp ok _ _ _ all])
       (auto simp: written_state_def cells e(1) bt_contains_def)
qed

lemma am_store_inv:
  assumes "am_inv s"
  shows "am_inv (snd (am_store s p c v r))"
proof (cases "r \<in> {Acquire, AcqRel}")
  case True
  then show ?thesis using assms by (simp add: am_store_def)
next
  case False
  show ?thesis
  proof (rule write_event_out [of s p c v r Store])
    fix y t assume "write_event s p c v r Store None = (Err y, t)" "ticked s t"
    then show ?thesis using False assms by (auto simp: am_store_def intro: ticked_inv)
  next
    fix event state mo sc t
    assume *: "bt_get (am_cells s) c = Some state" "checked_add (mc_modification_order state) 1 = Some mo"
      "stamped s event sc t"
      "write_event s p c v r Store None = (Ok event, written_state t c (written p c v r Store event mo sc) mo)"
    have "am_inv (written_state t c (written p c v r Store event mo sc) mo)"
      by (rule written_inv [OF assms *(1,2)]) (simp_all add: written_def *)
    then show ?thesis using False *(4) by (simp add: am_store_def)
  qed
qed

lemma sorted_ids_inj:
  "sorted_wrt (<) (map ev_id es) \<Longrightarrow> a \<in> set es \<Longrightarrow> b \<in> set es \<Longrightarrow> ev_id a = ev_id b \<Longrightarrow> a = b"
  by (induction es) auto

text \<open>
  The search for the source of a read-modify-write finds the last writer or nothing, and the
  release test made by identifier is the test on that event.
\<close>

lemma prior_write_out:
  assumes "am_inv s"
  obtains "prior_write (am_events s @ [e]) c = None"
  | w where "prior_write (am_events s @ [e]) c = Some (ev_id w)" "last_writer (am_events s) c = Some w"
      "w \<in> set (am_events s)"
proof (cases "am_events s" rule: rev_cases)
  case Nil
  then show thesis using that(1) by (simp add: prior_write_def)
next
  case (snoc es w)
  then have ok: "event_ok es w" using assms by (simp add: am_inv_def)
  show thesis
  proof (cases "ev_cell w = Some c \<and> ev_modification_order w \<noteq> None")
    case True
    then have "writes c w" using ok by (auto simp: writes_def event_ok_def load_ok_def split: if_splits)
    then show thesis using that(2) [of w] True snoc by (simp add: prior_write_def)
  next
    case False
    then show thesis using that(1) snoc by (auto simp: prior_write_def)
  qed
qed

definition patched :: "AtomicEvent \<Rightarrow> u64 option \<Rightarrow> u64 option \<Rightarrow> AtomicEvent" where
  "patched e i h = e\<lparr>ev_reads_from := i, ev_happens_after_release := h\<rparr>"

lemma released_iff:
  assumes "am_inv s" "w \<in> set (am_events s)" "ev_id e = am_next_event s"
  shows "list_ex (\<lambda>x. ev_id x = ev_id w \<and> ev_ordering x \<in> {Release, AcqRel, SeqCst}) (am_events s @ [e])
    \<longleftrightarrow> releasing w"
proof -
  have "ev_id e \<noteq> ev_id w" and inj: "x = w" if "x \<in> set (am_events s)" "ev_id x = ev_id w" for x
    using assms that sorted_ids_inj [of "am_events s" x w] by (auto simp: am_inv_def ids_ok_def)
  moreover have "ev_id e \<noteq> ev_id w" using assms by (auto simp: am_inv_def ids_ok_def)
  ultimately show ?thesis using assms(2) by (auto simp: list_ex_iff releasing_def)
qed

lemma written_state_patch:
  "am_events t = es \<Longrightarrow>
   (written_state t c e mo)\<lparr>am_events := es @ [patched e i h]\<rparr> = written_state t c (patched e i h) mo"
  by (simp add: written_state_def push_event_def patched_def)

lemma am_fetch_add_inv:
  assumes "am_inv s"
  shows "am_inv (snd (am_fetch_add s p c v r))"
proof (cases "bt_get (am_cells s) c")
  case None
  then show ?thesis using assms by (simp add: am_fetch_add_def)
next
  case (Some st)
  let ?v = "mc_value st + v"
  show ?thesis
  proof (rule write_event_out [of s p c ?v r ReadModifyWrite])
    fix y t assume "write_event s p c ?v r ReadModifyWrite None = (Err y, t)" "ticked s t"
    then show ?thesis using Some assms by (auto simp: am_fetch_add_def intro: ticked_inv)
  next
    fix event state mo sc t
    let ?e = "written p c ?v r ReadModifyWrite event mo sc"
    assume *: "bt_get (am_cells s) c = Some state" "checked_add (mc_modification_order state) 1 = Some mo"
      "stamped s event sc t"
      "write_event s p c ?v r ReadModifyWrite None = (Ok event, written_state t c ?e mo)"
    let ?i = "prior_write (am_events s @ [?e]) c"
    define h where "h = (if r \<in> {Acquire, AcqRel, SeqCst} then (case ?i of None \<Rightarrow> None | Some i \<Rightarrow>
        if list_ex (\<lambda>x. ev_id x = i \<and> ev_ordering x \<in> {Release, AcqRel, SeqCst}) (am_events s @ [?e])
        then Some i else None) else None)"
    have id: "ev_id ?e = am_next_event s" using *(3) by (simp add: written_def stamped_def)
    have events: "am_events t = am_events s" "am_events (written_state t c ?e mo) = am_events s @ [?e]"
      using *(3) by (simp_all add: stamped_def written_state_def)
    have source: "case ?i of None \<Rightarrow> h = None
         | Some i \<Rightarrow> (case last_writer (am_events s) c of None \<Rightarrow> False
             | Some w \<Rightarrow> ev_id w = i \<and> h = (if r \<in> {Acquire, AcqRel, SeqCst} \<and> releasing w then Some i else None))"
    proof (rule prior_write_out [OF assms, of ?e c])
      fix w assume w: "?i = Some (ev_id w)" "last_writer (am_events s) c = Some w" "w \<in> set (am_events s)"
      then show ?thesis using released_iff [OF assms w(3) id] by (simp add: h_def)
    qed (simp_all add: h_def)
    have "am_inv (written_state t c (patched ?e ?i h) mo)"
      using source *(3)
      by (intro written_inv [OF assms *(1,2)])
         (auto simp: patched_def written_def acquiring_def split: option.splits)
    moreover have "snd (am_fetch_add s p c v r) = written_state t c (patched ?e ?i h) mo"
      using Some *(4) events by (simp add: am_fetch_add_def Let_def h_def written_state_patch flip: patched_def
          cong: option.case_cong if_cong)
    ultimately show ?thesis by simp
  qed
qed

lemma am_register_inv:
  assumes "am_inv s" "\<not> bt_contains (am_cells s) c"
  shows "am_inv (snd (am_register s c v))"
proof -
  have unwritten: "\<not> writes c e" if "e \<in> set (am_events s)" for e
    using assms that by (auto simp: am_inv_def writes_def)
  have none: "last_writer (am_events s) c = None" "write_count (am_events s) c = 0"
    using unwritten by (auto simp: last_writer_def find_None_iff write_count_def filter_empty_conv)
  have "bt_all (cell_ok (am_events s)) (am_cells (snd (am_register s c v)))"
    using assms(1) none by (auto simp: am_inv_def bt_all_def am_register_def Let_def cell_ok_def)
  then show ?thesis
    using assms by (auto simp: am_inv_def am_register_def Let_def)
qed

text \<open>Only registration adds a cell, and no operation removes one.\<close>

lemma write_event_cells: "bt_contains (am_cells (snd (write_event s p c v r k None))) d \<longleftrightarrow> bt_contains (am_cells s) d"
  by (rule write_event_out [of s p c v r k])
     (auto simp: written_state_def ticked_def stamped_def bt_contains_def)

lemma tick_cells:
  "am_cells (snd (next_event_id s)) = am_cells s" "am_cells (snd (sc_index s r)) = am_cells s"
  by (rule next_event_id_out [of s]; simp) (rule sc_index_out [of s r]; simp)

lemma am_step_cells:
  "bt_contains (am_cells (am_step s a)) d \<longleftrightarrow>
     bt_contains (am_cells s) d \<or> d \<in> set (registered [a])"
proof (cases a)
  case (ARegister c v)
  then show ?thesis by (auto simp: am_register_def Let_def)
next
  case (AStore p c v r)
  then show ?thesis by (simp add: am_store_def write_event_cells)
next
  case (ALoad p c r)
  then show ?thesis
    using tick_cells
    by (auto simp: am_load_def try_then_def split_beta Let_def tick_cells split: option.split result.split)
next
  case (AFetchAdd p c v r)
  then show ?thesis
    by (cases "bt_get (am_cells s) c")
       (auto simp: am_fetch_add_def try_then_def split_beta Let_def write_event_cells split: result.split)
next
  case (AFence p k r)
  then show ?thesis
    by (auto simp: am_fence_def try_then_def split_beta Let_def tick_cells split: result.split)
qed

lemma registered_append: "registered (xs @ ys) = registered xs @ registered ys"
  by (induction xs rule: registered.induct) simp_all

lemma am_step_inv:
  assumes "am_inv s" "\<forall>d\<in>set (registered [a]). \<not> bt_contains (am_cells s) d"
  shows "am_inv (am_step s a)"
  using assms
  by (cases a) (simp_all add: am_register_inv am_store_inv am_load_inv am_fetch_add_inv am_fence_inv)

lemma am_replay_inv:
  "distinct (registered ops) \<Longrightarrow>
   am_inv (replay am_step AtomicMemoryModel_new ops)
   \<and> (\<forall>d. bt_contains (am_cells (replay am_step AtomicMemoryModel_new ops)) d \<longleftrightarrow> d \<in> set (registered ops))"
proof (induction ops rule: rev_induct)
  case Nil
  then show ?case by (simp add: AtomicMemoryModel_new_def am_inv_def ids_ok_def bt_all_def)
next
  case (snoc a ops)
  then show ?case
    using am_step_inv [of "replay am_step AtomicMemoryModel_new ops" a]
    by (auto simp: registered_append replay_append am_step_cells)
qed


definition demo_trace :: "am_op list" where
  "demo_trace = [ARegister 5 10, AStore 0 5 7 Release, ALoad 1 5 Acquire, AFetchAdd 1 5 1 SeqCst]"


text \<open>
  In that trace the read-modify-write reads 7 from the store, but the event just before it is a
  load: its reads-from edge and its synchronisation with the release are not recorded.
\<close>

lemma rmw_loses_reads_from:
  "case last (am_events (replay am_step AtomicMemoryModel_new demo_trace)) of e \<Rightarrow>
     ev_kind e = ReadModifyWrite \<and> ev_value e = 8 \<and> ev_ordering e = SeqCst
     \<and> ev_reads_from e = None \<and> ev_happens_after_release e = None"
  by (simp add: demo_trace_def AtomicMemoryModel_new_def am_register_def am_store_def am_load_def
      am_fetch_add_def write_event_def next_event_id_def sc_index_def checked_add_def push_event_def
      prior_write_def Let_def)

end
