(* ===== verification/Kernel_Dma.thy ===== *)
theory Kernel_Dma
  imports Kernel_Capability
begin

text \<open>
  Device memory access of \<open>thermite-kernel/src/dma.rs\<close>: pinned mappings with their generation and
  owner, IOMMU domains with their apertures, and the segments a device sees. The lemmas show that
  a mapping owned by the device cannot be taken away, that a device-visible segment always has a
  pinned mapping behind it, and that an unpinned handle is refused for ever.
\<close>

datatype DmaDirection = ToDevice | FromDevice | Bidirectional

datatype DmaOwnership = Cpu | Device

record DmaMapping =
  dm_device :: u32
  dm_domain :: u32
  dm_base :: u64
  dm_len :: u64
  dm_direction :: DmaDirection
  dm_generation :: u64
  dm_ownership :: DmaOwnership

record DmaPin =
  pin_slot :: u32
  pin_device :: u32
  pin_domain :: u32
  pin_base :: u64
  pin_len :: u64
  pin_direction :: DmaDirection

datatype (plugins only: code size) DmaError =
    WrongCapability | MissingRights | OutOfRange | DuplicateMapping | UnknownMapping | StaleGeneration
  | ForeignDevice | ForeignDomain | GenerationOverflow | ZeroLength | WrongOwnership | DuplicateDomain
  | UnknownDomain | DomainCapability | IommuRequired | AlreadyMapped | NotMapped | SegmentOverflow

datatype IommuMode = AbsentIdentity | Present

record IommuDomain =
  id_id :: u32
  id_device :: u32
  id_aperture_base :: u64
  id_aperture_len :: u64
  id_mode :: IommuMode

record DmaSegment =
  sg_device_address :: u64
  sg_len :: u64

record DmaState =
  ds_mappings :: "(u32, DmaMapping) btmap"
  ds_generations :: "(u32, u64) btmap"
  ds_domains :: "(u32, IommuDomain) btmap"
  ds_segments :: "(u32, DmaSegment list) btmap"


section \<open>Operations\<close>

definition DmaState_new :: DmaState where
  "DmaState_new = \<lparr>ds_mappings = [], ds_generations = [], ds_domains = [], ds_segments = []\<rparr>"

definition slot_generation :: "DmaState \<Rightarrow> u32 \<Rightarrow> u64" where
  "slot_generation s slot = (case bt_get (ds_generations s) slot of None \<Rightarrow> 0 | Some g \<Rightarrow> g)"

definition pinned_mapping :: "DmaState \<Rightarrow> DmaPin \<Rightarrow> DmaMapping" where
  "pinned_mapping s request =
     \<lparr>dm_device = pin_device request, dm_domain = pin_domain request, dm_base = pin_base request,
      dm_len = pin_len request, dm_direction = pin_direction request,
      dm_generation = slot_generation s (pin_slot request), dm_ownership = Cpu\<rparr>"

definition dma_pin :: "DmaState \<Rightarrow> Capability \<Rightarrow> DmaPin \<Rightarrow> (DmaMapping, DmaError) result \<times> DmaState" where
  "dma_pin s region request =
     (if cap_kind region \<notin> {Dma, Frame, PhysRegion} then (Err WrongCapability, s)
      else if \<not> Rights_contains (cap_rights region) (Rights_union Rights_READ Rights_WRITE)
        then (Err DmaError.MissingRights, s)
      else if pin_len request = 0 then (Err ZeroLength, s)
      else if \<not> Capability_contains_range region (pin_base request) (pin_len request)
        then (Err DmaError.OutOfRange, s)
      else if bt_contains (ds_mappings s) (pin_slot request) then (Err DuplicateMapping, s)
      else
        let mapping = pinned_mapping s request
        in (Ok mapping, s\<lparr>ds_mappings := bt_insert (pin_slot request) mapping (ds_mappings s)\<rparr>))"

text \<open>\<open>register_domain\<close> inserts before it looks at the displaced value.\<close>

definition register_domain :: "DmaState \<Rightarrow> IommuDomain \<Rightarrow> (unit, DmaError) result \<times> DmaState" where
  "register_domain s domain =
     (if id_aperture_len domain = 0 \<or> checked_add (id_aperture_base domain) (id_aperture_len domain) = None
      then (Err SegmentOverflow, s)
      else
        let s' = s\<lparr>ds_domains := bt_insert (id_id domain) domain (ds_domains s)\<rparr>
        in if bt_get (ds_domains s) (id_id domain) \<noteq> None then (Err DuplicateDomain, s') else (Ok (), s'))"

text \<open>The \<open>match domain.mode\<close> of \<open>map_domain\<close>: the checks for each mode.\<close>

definition check_domain_access ::
  "IommuDomain \<Rightarrow> DmaMapping \<Rightarrow> Capability option \<Rightarrow> u64 \<Rightarrow> (unit, DmaError) result" where
  "check_domain_access domain mapping domain_capability device_address =
     (case id_mode domain of
        AbsentIdentity \<Rightarrow>
          if domain_capability \<noteq> None \<or> device_address \<noteq> dm_base mapping then Err IommuRequired else Ok ()
      | Present \<Rightarrow>
          (case domain_capability of
             None \<Rightarrow> Err DomainCapability
           | Some c \<Rightarrow>
               if cap_kind c \<noteq> CapabilityKind.IommuDomain \<or> \<not> Rights_contains (cap_rights c) Rights_MAP
                  \<or> cap_slot c \<noteq> id_id domain
               then Err DomainCapability
               else
                 (case checked_add device_address (dm_len mapping) of
                    None \<Rightarrow> Err SegmentOverflow
                  | Some stop \<Rightarrow>
                      (case checked_add (id_aperture_base domain) (id_aperture_len domain) of
                         None \<Rightarrow> Err SegmentOverflow
                       | Some aperture_end \<Rightarrow>
                           if device_address < id_aperture_base domain \<or> aperture_end < stop
                           then Err DmaError.OutOfRange else Ok ()))))"

definition map_domain ::
  "DmaState \<Rightarrow> u32 \<Rightarrow> DmaMapping \<Rightarrow> Capability option \<Rightarrow> u64 \<Rightarrow> (DmaSegment list, DmaError) result \<times> DmaState" where
  "map_domain s slot mapping domain_capability device_address =
     try_then (ok_or (bt_get (ds_mappings s) slot) UnknownMapping) s (\<lambda>live.
       if dm_generation live \<noteq> dm_generation mapping then (Err DmaError.StaleGeneration, s)
       else if bt_contains (ds_segments s) slot then (Err AlreadyMapped, s)
       else try_then (ok_or (bt_get (ds_domains s) (dm_domain mapping)) UnknownDomain) s (\<lambda>domain.
         if id_device domain \<noteq> dm_device mapping then (Err ForeignDevice, s)
         else try_then (check_domain_access domain mapping domain_capability device_address) s (\<lambda>_.
           let segments = [\<lparr>sg_device_address = device_address, sg_len = dm_len mapping\<rparr>]
           in (Ok segments, s\<lparr>ds_segments := bt_insert slot segments (ds_segments s)\<rparr>))))"

definition unmap_domain ::
  "DmaState \<Rightarrow> u32 \<Rightarrow> DmaMapping \<Rightarrow> (DmaSegment list, DmaError) result \<times> DmaState" where
  "unmap_domain s slot mapping =
     try_then (ok_or (bt_get (ds_mappings s) slot) UnknownMapping) s (\<lambda>live.
       if dm_generation live \<noteq> dm_generation mapping then (Err DmaError.StaleGeneration, s)
       else if dm_ownership live \<noteq> Cpu then (Err WrongOwnership, s)
       else try_then (ok_or (bt_get (ds_segments s) slot) NotMapped) s (\<lambda>segments.
         (Ok segments, s\<lparr>ds_segments := bt_remove slot (ds_segments s)\<rparr>)))"

definition dma_validate ::
  "DmaState \<Rightarrow> u32 \<Rightarrow> DmaMapping \<Rightarrow> u32 \<Rightarrow> u32 \<Rightarrow> (unit, DmaError) result" where
  "dma_validate s slot mapping device domain =
     (case bt_get (ds_mappings s) slot of
        None \<Rightarrow> Err UnknownMapping
      | Some live \<Rightarrow>
          if dm_generation live \<noteq> dm_generation mapping then Err DmaError.StaleGeneration
          else if dm_device live \<noteq> device \<or> dm_device mapping \<noteq> device then Err ForeignDevice
          else if dm_domain live \<noteq> domain \<or> dm_domain mapping \<noteq> domain then Err ForeignDomain
          else Ok ())"

definition dma_unpin :: "DmaState \<Rightarrow> u32 \<Rightarrow> DmaMapping \<Rightarrow> (unit, DmaError) result \<times> DmaState" where
  "dma_unpin s slot mapping =
     try_then (ok_or (bt_get (ds_mappings s) slot) UnknownMapping) s (\<lambda>live.
       if dm_generation live \<noteq> dm_generation mapping then (Err DmaError.StaleGeneration, s)
       else if dm_ownership live \<noteq> Cpu then (Err WrongOwnership, s)
       else if bt_contains (ds_segments s) slot then (Err AlreadyMapped, s)
       else try_then (ok_or (checked_add (dm_generation live) 1) DmaError.GenerationOverflow) s (\<lambda>g.
         (Ok (), s\<lparr>ds_mappings := bt_remove slot (ds_mappings s),
                   ds_generations := bt_insert slot g (ds_generations s)\<rparr>)))"

definition transition_ownership ::
  "DmaState \<Rightarrow> u32 \<Rightarrow> DmaMapping \<Rightarrow> DmaOwnership \<Rightarrow> DmaOwnership \<Rightarrow> (DmaMapping, DmaError) result \<times> DmaState" where
  "transition_ownership s slot mapping expected new_owner =
     try_then (ok_or (bt_get (ds_mappings s) slot) UnknownMapping) s (\<lambda>live.
       if dm_generation live \<noteq> dm_generation mapping then (Err DmaError.StaleGeneration, s)
       else if dm_ownership live \<noteq> expected \<or> dm_ownership mapping \<noteq> expected then (Err WrongOwnership, s)
       else let live' = live\<lparr>dm_ownership := new_owner\<rparr>
            in (Ok live', s\<lparr>ds_mappings := bt_insert slot live' (ds_mappings s)\<rparr>))"

definition sync_for_device :: "DmaState \<Rightarrow> u32 \<Rightarrow> DmaMapping \<Rightarrow> (DmaMapping, DmaError) result \<times> DmaState" where
  "sync_for_device s slot mapping = transition_ownership s slot mapping Cpu Device"

definition sync_for_cpu :: "DmaState \<Rightarrow> u32 \<Rightarrow> DmaMapping \<Rightarrow> (DmaMapping, DmaError) result \<times> DmaState" where
  "sync_for_cpu s slot mapping = transition_ownership s slot mapping Device Cpu"

datatype dma_op =
    DPin Capability DmaPin
  | DRegister IommuDomain
  | DMap u32 DmaMapping "Capability option" u64
  | DUnmap u32 DmaMapping
  | DUnpin u32 DmaMapping
  | DSyncDevice u32 DmaMapping
  | DSyncCpu u32 DmaMapping

fun dma_step :: "DmaState \<Rightarrow> dma_op \<Rightarrow> DmaState" where
  "dma_step s (DPin region request) = snd (dma_pin s region request)"
| "dma_step s (DRegister domain) = snd (register_domain s domain)"
| "dma_step s (DMap slot m c a) = snd (map_domain s slot m c a)"
| "dma_step s (DUnmap slot m) = snd (unmap_domain s slot m)"
| "dma_step s (DUnpin slot m) = snd (dma_unpin s slot m)"
| "dma_step s (DSyncDevice slot m) = snd (sync_for_device s slot m)"
| "dma_step s (DSyncCpu slot m) = snd (sync_for_cpu s slot m)"


section \<open>Invariant\<close>

text \<open>
  A pinned mapping carries the current generation of its slot, a device-visible segment has a
  pinned mapping, and later generations of a slot are larger.
\<close>

definition dma_inv :: "DmaState \<Rightarrow> bool" where
  "dma_inv s \<longleftrightarrow> bt_all (\<lambda>slot m. dm_generation m = slot_generation s slot) (ds_mappings s) \<and>
     (\<forall>slot. bt_contains (ds_segments s) slot \<longrightarrow> bt_contains (ds_mappings s) slot)"

definition dma_evolves :: "DmaState \<Rightarrow> DmaState \<Rightarrow> bool" where
  "dma_evolves s s' \<longleftrightarrow> (\<forall>slot. slot_generation s slot \<le> slot_generation s' slot)"

lemma dma_invD: "dma_inv s \<Longrightarrow> bt_get (ds_mappings s) slot = Some m \<Longrightarrow> dm_generation m = slot_generation s slot"
  by (auto simp: dma_inv_def dest: bt_allD)

lemma slot_generation_cong [simp]:
  "slot_generation (s\<lparr>ds_mappings := x\<rparr>) = slot_generation s"
  "slot_generation (s\<lparr>ds_domains := y\<rparr>) = slot_generation s"
  "slot_generation (s\<lparr>ds_segments := z\<rparr>) = slot_generation s"
  by (rule ext, simp add: slot_generation_def)+

lemma slot_generation_insert [simp]:
  "slot_generation (s\<lparr>ds_generations := bt_insert slot g m\<rparr>) =
     (slot_generation (s\<lparr>ds_generations := m\<rparr>))(slot := g)"
  by (rule ext) (simp add: slot_generation_def)

lemma transition_ownership_shape:
  "snd (transition_ownership s slot m a b) = s \<or>
   (\<exists>live. bt_get (ds_mappings s) slot = Some live \<and> dm_generation live = dm_generation m \<and>
      dm_ownership live = a \<and> snd (transition_ownership s slot m a b)
        = s\<lparr>ds_mappings := bt_insert slot (live\<lparr>dm_ownership := b\<rparr>) (ds_mappings s)\<rparr>)"
  by (auto simp: transition_ownership_def try_then_def Let_def split: result.splits)

lemma dma_unpin_shape:
  "snd (dma_unpin s slot m) = s \<or>
   (\<exists>live g. bt_get (ds_mappings s) slot = Some live \<and> dm_generation live = dm_generation m \<and>
      dm_ownership live = Cpu \<and> \<not> bt_contains (ds_segments s) slot \<and>
      checked_add (dm_generation live) 1 = Some g \<and> snd (dma_unpin s slot m)
        = s\<lparr>ds_mappings := bt_remove slot (ds_mappings s), ds_generations := bt_insert slot g (ds_generations s)\<rparr>)"
  by (auto simp: dma_unpin_def try_then_def split: result.splits)

lemma dma_pin_shape:
  "snd (dma_pin s region r) = s \<or> \<not> bt_contains (ds_mappings s) (pin_slot r) \<and>
     snd (dma_pin s region r) = s\<lparr>ds_mappings := bt_insert (pin_slot r) (pinned_mapping s r) (ds_mappings s)\<rparr>"
  by (auto simp: dma_pin_def Let_def)

lemma map_domain_shape:
  "snd (map_domain s slot m c a) = s \<or> bt_contains (ds_mappings s) slot \<and>
   (\<exists>sg. snd (map_domain s slot m c a) = s\<lparr>ds_segments := bt_insert slot sg (ds_segments s)\<rparr>)"
  by (auto simp: map_domain_def try_then_def Let_def bt_contains_def split: result.splits)

lemma unmap_domain_shape:
  "snd (unmap_domain s slot m) = s \<or>
   (\<exists>live. bt_get (ds_mappings s) slot = Some live \<and> dm_ownership live = Cpu \<and>
      snd (unmap_domain s slot m) = s\<lparr>ds_segments := bt_remove slot (ds_segments s)\<rparr>)"
  by (auto simp: unmap_domain_def try_then_def split: result.splits)

lemma register_domain_shape:
  "\<exists>d. snd (register_domain s x) = s\<lparr>ds_domains := d\<rparr>"
proof (cases "id_aperture_len x = 0 \<or> checked_add (id_aperture_base x) (id_aperture_len x) = None")
  case True
  then show ?thesis by (intro exI [of _ "ds_domains s"]) (auto simp: register_domain_def)
qed (auto simp: register_domain_def Let_def)

lemma transition_ownership_inv:
  assumes "dma_inv s"
  shows "dma_inv (snd (transition_ownership s slot m a b)) \<and> dma_evolves s (snd (transition_ownership s slot m a b))"
  using transition_ownership_shape [of s slot m a b]
proof (elim disjE exE conjE)
  fix live
  assume l: "bt_get (ds_mappings s) slot = Some live"
    and e: "snd (transition_ownership s slot m a b)
        = s\<lparr>ds_mappings := bt_insert slot (live\<lparr>dm_ownership := b\<rparr>) (ds_mappings s)\<rparr>"
  show ?thesis unfolding e using assms dma_invD [OF assms l]
    by (auto simp: dma_inv_def dma_evolves_def)
qed (use assms in \<open>simp add: dma_evolves_def\<close>)

lemma dma_unpin_inv:
  assumes "dma_inv s"
  shows "dma_inv (snd (dma_unpin s slot m)) \<and> dma_evolves s (snd (dma_unpin s slot m))"
  using dma_unpin_shape [of s slot m]
proof (elim disjE exE conjE)
  fix live g
  assume l: "bt_get (ds_mappings s) slot = Some live" "\<not> bt_contains (ds_segments s) slot"
    "checked_add (dm_generation live) 1 = Some g"
    and e: "snd (dma_unpin s slot m)
        = s\<lparr>ds_mappings := bt_remove slot (ds_mappings s), ds_generations := bt_insert slot g (ds_generations s)\<rparr>"
  have "slot_generation s slot < g" using checked_inc_greater [OF l(3)] dma_invD [OF assms l(1)] by simp
  then show ?thesis unfolding e using assms l(2)
    by (auto simp: dma_inv_def dma_evolves_def bt_all_def split: if_splits)
qed (use assms in \<open>simp add: dma_evolves_def\<close>)

lemma dma_pin_inv:
  assumes "dma_inv s"
  shows "dma_inv (snd (dma_pin s region r)) \<and> dma_evolves s (snd (dma_pin s region r))"
  using dma_pin_shape [of s region r] assms
  by (elim disjE exE conjE) (auto simp: dma_inv_def dma_evolves_def pinned_mapping_def)

lemma map_domain_inv:
  assumes "dma_inv s"
  shows "dma_inv (snd (map_domain s slot m c a)) \<and> dma_evolves s (snd (map_domain s slot m c a))"
  using map_domain_shape [of s slot m c a] assms
  by (elim disjE exE conjE) (auto simp: dma_inv_def dma_evolves_def)

lemma unmap_domain_inv:
  assumes "dma_inv s"
  shows "dma_inv (snd (unmap_domain s slot m)) \<and> dma_evolves s (snd (unmap_domain s slot m))"
  using unmap_domain_shape [of s slot m] assms
  by (elim disjE exE conjE) (auto simp: dma_inv_def dma_evolves_def)

lemma dma_step_ok:
  assumes "dma_inv s"
  shows "dma_inv (dma_step s a) \<and> dma_evolves s (dma_step s a)"
proof (cases a)
  case (DRegister x)
  then show ?thesis using register_domain_shape [of s x] assms
    by (auto simp: dma_inv_def dma_evolves_def)
qed (use assms in \<open>simp_all add: dma_pin_inv map_domain_inv unmap_domain_inv dma_unpin_inv
       transition_ownership_inv sync_for_device_def sync_for_cpu_def\<close>)

lemma dma_evolves_order:
  "dma_evolves s s" "dma_evolves s t \<Longrightarrow> dma_evolves t u \<Longrightarrow> dma_evolves s u"
  by (auto simp: dma_evolves_def intro: order_trans)

interpretation dma: op_machine dma_step dma_inv dma_evolves
  by unfold_locales (use dma_step_ok dma_evolves_order in blast)+

lemma dma_inv_new: "dma_inv DmaState_new"
  by (simp add: dma_inv_def DmaState_new_def)

section \<open>Properties\<close>

text \<open>A slot owned by the device keeps its mapping and its segments until it is synchronised back.\<close>

lemma device_owned_step:
  assumes "bt_get (ds_mappings s) slot = Some m" "dm_ownership m = Device"
    and "bt_get (ds_segments s) slot = Some sg" "\<And>x. a \<noteq> DSyncCpu slot x"
  shows "bt_get (ds_mappings (dma_step s a)) slot = Some m \<and> bt_get (ds_segments (dma_step s a)) slot = Some sg"
proof (cases a)
  case (DPin region r)
  then show ?thesis using dma_pin_shape [of s region r] assms(1,3) by (auto simp: bt_contains_def)
next
  case (DRegister x)
  then show ?thesis using register_domain_shape [of s x] assms(1,3) by auto
next
  case (DMap slot' x c d)
  show ?thesis
  proof (cases "slot' = slot")
    case True
    then have "snd (map_domain s slot' x c d) = s"
      using assms(1,3) by (auto simp: map_domain_def bt_contains_def)
    then show ?thesis using DMap assms by simp
  qed (use map_domain_shape [of s slot' x c d] DMap assms(1,3) in auto)
next
  case (DUnmap slot' x)
  then show ?thesis using unmap_domain_shape [of s slot' x] assms(1-3) by (cases "slot' = slot") auto
next
  case (DUnpin slot' x)
  then show ?thesis using dma_unpin_shape [of s slot' x] assms(1-3) by (cases "slot' = slot") auto
next
  case (DSyncDevice slot' x)
  then show ?thesis using transition_ownership_shape [of s slot' x Cpu Device] assms(1-3)
    by (cases "slot' = slot") (auto simp: sync_for_device_def)
next
  case (DSyncCpu slot' x)
  then show ?thesis using transition_ownership_shape [of s slot' x Device Cpu] assms
    by (cases "slot' = slot") (auto simp: sync_for_cpu_def)
qed

lemma device_owned_replay:
  assumes "bt_get (ds_mappings s) slot = Some m" "dm_ownership m = Device"
    and "bt_get (ds_segments s) slot = Some sg" "\<forall>x. DSyncCpu slot x \<notin> set ops"
  shows "bt_get (ds_mappings (replay dma_step s ops)) slot = Some m \<and>
     bt_get (ds_segments (replay dma_step s ops)) slot = Some sg"
  using assms
proof (induction ops arbitrary: s)
  case (Cons a ops)
  then have "bt_get (ds_mappings (dma_step s a)) slot = Some m \<and> bt_get (ds_segments (dma_step s a)) slot = Some sg"
    by (intro device_owned_step) auto
  then show ?case using Cons by simp
qed simp


definition demo_dma_cap :: Capability where
  "demo_dma_cap = demo_cap\<lparr>cap_kind := Dma\<rparr>"

definition demo_pin :: DmaPin where
  "demo_pin = \<lparr>pin_slot = 5, pin_device = 1, pin_domain = 2, pin_base = 4096, pin_len = 512, pin_direction = ToDevice\<rparr>"

definition demo_dma_mapping :: DmaMapping where
  "demo_dma_mapping = \<lparr>dm_device = 1, dm_domain = 2, dm_base = 4096, dm_len = 512, dm_direction = ToDevice,
                       dm_generation = 0, dm_ownership = Cpu\<rparr>"

definition demo_dma_ops :: "dma_op list" where
  "demo_dma_ops = [DPin demo_dma_cap demo_pin,
     DRegister \<lparr>id_id = 2, id_device = 1, id_aperture_base = 0, id_aperture_len = 65536, id_mode = AbsentIdentity\<rparr>,
     DMap 5 demo_dma_mapping None 4096]"

definition demo_dma :: DmaState where
  "demo_dma = \<lparr>ds_mappings = [(5, demo_dma_mapping)], ds_generations = [],
     ds_domains = [(2, \<lparr>id_id = 2, id_device = 1, id_aperture_base = 0, id_aperture_len = 65536, id_mode = AbsentIdentity\<rparr>)],
     ds_segments = [(5, [\<lparr>sg_device_address = 4096, sg_len = 512\<rparr>])]\<rparr>"

lemma demo_dma_replay: "demo_dma = replay dma_step DmaState_new demo_dma_ops"
  by (simp add: demo_dma_def demo_dma_ops_def DmaState_new_def dma_pin_def pinned_mapping_def demo_dma_cap_def
      demo_cap_def demo_pin_def Rights_contains_def Rights_union_def Rights_READ_def Rights_WRITE_def
      contains_range_unat slot_generation_def register_domain_def checked_add_def map_domain_def
      check_domain_access_def demo_dma_mapping_def bt_contains_def Let_def)


text \<open>
  An unpinned handle is dead. After \<open>unpin\<close> accepts a mapping of a slot, that handle, and any
  other of that generation, is refused by validation, mapping, unmapping, unpinning and both
  synchronisations in every later state, even when the slot is pinned again.
\<close>

lemma unpinned_handle_is_dead:
  assumes "s = replay dma_step DmaState_new ops" "dma_unpin s slot m = (Ok u, s')"
    and "t = replay dma_step s' later" "dm_generation x = dm_generation m"
  shows "\<not> is_Ok (dma_validate t slot x device domain) \<and> \<not> is_Ok (fst (map_domain t slot x c a))
     \<and> \<not> is_Ok (fst (unmap_domain t slot x)) \<and> \<not> is_Ok (fst (dma_unpin t slot x))
     \<and> \<not> is_Ok (fst (sync_for_device t slot x)) \<and> \<not> is_Ok (fst (sync_for_cpu t slot x))"
proof -
  have inv: "dma_inv s" unfolding assms(1) by (rule dma.inv_replay [OF dma_inv_new])
  have inv': "dma_inv s'" using dma_step_ok [OF inv, of "DUnpin slot m"] assms(2) by simp
  from assms(2) obtain g where g: "checked_add (dm_generation m) 1 = Some g"
    and s': "s' = s\<lparr>ds_mappings := bt_remove slot (ds_mappings s),
                   ds_generations := bt_insert slot g (ds_generations s)\<rparr>"
    by (auto simp: dma_unpin_def elim!: try_then_OkE split: if_splits)
  then have "dm_generation x < slot_generation s' slot"
    using checked_inc_greater [OF g] assms(4) by (simp add: s')
  also have "\<dots> \<le> slot_generation t slot"
    using dma.evolves_replay [OF inv', of later] assms(3) by (simp add: dma_evolves_def)
  finally have lt: "dm_generation x < slot_generation t slot" .
  have "dm_generation y \<noteq> dm_generation x" if "bt_get (ds_mappings t) slot = Some y" for y
    using dma_invD [OF dma.inv_replay [OF inv', of later], of slot y] that lt assms(3) by auto
  then show ?thesis
    by (auto simp: dma_validate_def map_domain_def unmap_domain_def dma_unpin_def sync_for_device_def
        sync_for_cpu_def transition_ownership_def try_then_def is_Ok_iff split: result.splits option.splits)
qed

lemma unpinned_handle_is_dead_example:
  "let s = replay dma_step DmaState_new [DPin demo_dma_cap demo_pin];
       s' = snd (dma_unpin s 5 demo_dma_mapping)
   in fst (dma_unpin s 5 demo_dma_mapping) = Ok () \<and>
      \<not> is_Ok (dma_validate (replay dma_step s' [DPin demo_dma_cap demo_pin]) 5 demo_dma_mapping 1 2)"
proof -
  let ?s = "replay dma_step DmaState_new [DPin demo_dma_cap demo_pin]"
  have u: "dma_unpin ?s 5 demo_dma_mapping = (Ok (), snd (dma_unpin ?s 5 demo_dma_mapping))"
    by (simp add: dma_unpin_def DmaState_new_def dma_pin_def pinned_mapping_def demo_dma_cap_def
        demo_cap_def demo_pin_def Rights_contains_def Rights_union_def Rights_READ_def Rights_WRITE_def
        contains_range_unat slot_generation_def checked_add_def demo_dma_mapping_def Let_def)
  from unpinned_handle_is_dead [OF refl u refl refl, of "[DPin demo_dma_cap demo_pin]" 1 2] u
  show ?thesis unfolding Let_def by (metis fst_conv)
qed

text \<open>
  \<open>map_domain\<close> compares only the generation of the handle it is given with the live mapping and
  takes the address, the length and the domain from the handle. A handle with a matching
  generation and a made-up range is accepted: here the pinned range is 512 bytes at 4096 and the
  segment handed to the device is a megabyte elsewhere.
\<close>

definition demo_forged_mapping :: DmaMapping where
  "demo_forged_mapping = demo_dma_mapping\<lparr>dm_base := 0xdead0000, dm_len := 0x100000\<rparr>"

lemma map_domain_trusts_handle:
  "let s = replay dma_step DmaState_new (take 2 demo_dma_ops)
   in bt_get (ds_mappings s) 5 = Some demo_dma_mapping
      \<and> fst (map_domain s 5 demo_forged_mapping None 0xdead0000)
          = Ok [\<lparr>sg_device_address = 0xdead0000, sg_len = 0x100000\<rparr>]"
  by (simp add: demo_dma_ops_def DmaState_new_def dma_pin_def pinned_mapping_def demo_dma_cap_def
      demo_cap_def demo_pin_def Rights_contains_def Rights_union_def Rights_READ_def Rights_WRITE_def
      contains_range_unat slot_generation_def register_domain_def checked_add_def map_domain_def
      check_domain_access_def demo_dma_mapping_def demo_forged_mapping_def bt_contains_def Let_def)

end
