(* ===== verification/Kernel_Event.thy ===== *)
theory Kernel_Event
  imports Kernel_Smp Kernel_Memory Kernel_Dma
begin

text \<open>
  The event and action boundary of \<open>thermite-kernel/src/event.rs\<close>: the sequencer that stamps
  ingress events and issued actions, the completion of actions, and the executor's last
  capability check. The lemmas show that stamps are unique and increasing, that a correlated event
  refers to an action issued before it, and that an action is authorised exactly when the live
  ledger record of the presented handle covers it.
\<close>

type_synonym EventId = u64
type_synonym ActionId = u64

datatype (plugins only: code size) EventKind =
    Boot | CpuOnline | CpuStartFailed CpuFailure | Irq u8 | Timer | Ipi u8 IpiEpoch
  | DmaComplete u32 | Syscall u64 | UserFault u64 u32 | DeviceFault u32 u32 | ActionComplete
  | ShutdownRequest

record Event =
  ev_cpu :: CpuId
  ev_id :: EventId
  ev_correlation :: "ActionId option"
  ev_kind :: EventKind

datatype (plugins only: code size) Action =
    StartCpu CpuId
  | SendIpi CpuSet u8 IpiEpoch
  | TlbShootdown CpuSet ShootdownEpoch u64 u64
  | AckIrq u8
  | MaskIrq u8
  | UnmaskIrq u8
  | Map u64 PageSize u64 PagePermissions
  | Unmap u64
  | Protect u64 PagePermissions
  | MmioRead u64 u8
  | MmioWrite u64 u8 u64
  | PioRead u16 u8
  | PioWrite u16 u8 u32
  | SubmitDma u32
  | ArmTimer u64
  | CancelTimer
  | EnqueueTask u32 CpuId
  | EnterContext u32
  | Reboot
  | PowerOff
  | Halt

datatype (plugins only: code size) PlatformError =
    Capability CapabilityError | Atomic | Smp SmpError | Memory MapError | Dma DmaError
  | InvalidEventId | InvalidCorrelation | InvalidPayload | Terminal | RangeOverflow | InvalidWidth
  | UnknownCpu | UnownedVector | UnownedDmaSlot | InvalidTrapOrigin

record IssuedAction =
  ia_id :: ActionId
  ia_action :: Action

record Completion =
  co_action :: ActionId
  co_event :: EventId
  co_result :: "(unit, PlatformError) result"

record AuthorizedAction =
  aa_action :: Action
  aa_capability_slot :: u32
  aa_capability_generation :: u64

record ActionAuthority =
  au_kind :: CapabilityKind
  au_rights :: Rights
  au_base :: u64
  au_len :: u64

fun validate_action :: "Action \<Rightarrow> (unit, PlatformError) result" where
  "validate_action (TlbShootdown _ _ virtual_base len) =
     (if len = 0 then Err InvalidPayload
      else if checked_add virtual_base len = None then Err PlatformError.RangeOverflow else Ok ())"
| "validate_action (MmioRead address width) =
     (if width \<notin> {1, 2, 4, 8} then Err InvalidWidth else Ok ())"
| "validate_action (MmioWrite address width value) =
     (if width \<notin> {1, 2, 4, 8} then Err InvalidWidth else Ok ())"
| "validate_action (PioRead port width) =
     (if width \<notin> {1, 2, 4} then Err InvalidWidth else Ok ())"
| "validate_action (PioWrite port width value) =
     (if width \<notin> {1, 2, 4} then Err InvalidWidth else Ok ())"
| "validate_action _ = Ok ()"

definition ActionAuthority_of :: "CapabilityKind \<Rightarrow> Rights \<Rightarrow> u64 \<Rightarrow> u64 \<Rightarrow> (ActionAuthority, PlatformError) result" where
  "ActionAuthority_of kind rights base len =
     Ok \<lparr>au_kind = kind, au_rights = rights, au_base = base, au_len = len\<rparr>"

fun action_authority :: "Action \<Rightarrow> (ActionAuthority, PlatformError) result" where
  "action_authority (StartCpu cpu) = ActionAuthority_of CapabilityKind.Cpu Rights_CONTROL (ucast cpu) 1"
| "action_authority (SendIpi _ _ _) = ActionAuthority_of CpuSet Rights_CONTROL 0 0"
| "action_authority (TlbShootdown _ _ _ _) = ActionAuthority_of CpuSet Rights_CONTROL 0 0"
| "action_authority (AckIrq vector) = ActionAuthority_of CapabilityKind.Irq Rights_CONTROL (ucast vector) 1"
| "action_authority (MaskIrq vector) = ActionAuthority_of CapabilityKind.Irq Rights_CONTROL (ucast vector) 1"
| "action_authority (UnmaskIrq vector) = ActionAuthority_of CapabilityKind.Irq Rights_CONTROL (ucast vector) 1"
| "action_authority (Map virtual_base page_size pages _) =
     (case checked_mul (page_bytes page_size) pages of
        None \<Rightarrow> Err PlatformError.RangeOverflow
      | Some bytes \<Rightarrow> ActionAuthority_of AddressSpace Rights_MAP virtual_base bytes)"
| "action_authority (Unmap virtual_base) = ActionAuthority_of AddressSpace Rights_MAP virtual_base 1"
| "action_authority (Protect virtual_base _) = ActionAuthority_of AddressSpace Rights_MAP virtual_base 1"
| "action_authority (MmioRead address width) = ActionAuthority_of Mmio Rights_READ address (ucast width)"
| "action_authority (MmioWrite address width _) = ActionAuthority_of Mmio Rights_WRITE address (ucast width)"
| "action_authority (PioRead port width) = ActionAuthority_of IoPort Rights_READ (ucast port) (ucast width)"
| "action_authority (PioWrite port width _) = ActionAuthority_of IoPort Rights_WRITE (ucast port) (ucast width)"
| "action_authority (SubmitDma slot) = ActionAuthority_of CapabilityKind.Dma Rights_CONTROL (ucast slot) 1"
| "action_authority (ArmTimer _) = ActionAuthority_of Clock Rights_CONTROL 0 0"
| "action_authority CancelTimer = ActionAuthority_of Clock Rights_CONTROL 0 0"
| "action_authority (EnqueueTask _ cpu) = ActionAuthority_of CapabilityKind.Cpu Rights_CONTROL (ucast cpu) 1"
| "action_authority (EnterContext context) = ActionAuthority_of UserContext Rights_CONTROL (ucast context) 1"
| "action_authority Reboot = ActionAuthority_of Power Rights_CONTROL 0 0"
| "action_authority PowerOff = ActionAuthority_of Power Rights_CONTROL 0 0"
| "action_authority Halt = ActionAuthority_of Power Rights_CONTROL 0 0"

fun platform_error_code :: "PlatformError \<Rightarrow> u32" where
  "platform_error_code (Capability _) = 1"
| "platform_error_code Atomic = 2"
| "platform_error_code (Smp _) = 3"
| "platform_error_code (Memory _) = 4"
| "platform_error_code (Dma _) = 5"
| "platform_error_code InvalidEventId = 6"
| "platform_error_code InvalidCorrelation = 7"
| "platform_error_code InvalidPayload = 8"
| "platform_error_code Terminal = 9"
| "platform_error_code PlatformError.RangeOverflow = 10"
| "platform_error_code InvalidWidth = 11"
| "platform_error_code PlatformError.UnknownCpu = 12"
| "platform_error_code UnownedVector = 13"
| "platform_error_code UnownedDmaSlot = 14"
| "platform_error_code InvalidTrapOrigin = 15"

definition completion_kind :: "Action \<Rightarrow> (unit, PlatformError) result \<Rightarrow> EventKind" where
  "completion_kind action r = (case r of
       Err e \<Rightarrow> DeviceFault 0 (platform_error_code e)
     | Ok _ \<Rightarrow> (case action of
           StartCpu _ \<Rightarrow> CpuOnline
         | SendIpi _ vector epoch \<Rightarrow> Ipi vector epoch
         | SubmitDma slot \<Rightarrow> DmaComplete slot
         | ArmTimer _ \<Rightarrow> Timer
         | CancelTimer \<Rightarrow> Timer
         | Reboot \<Rightarrow> ShutdownRequest
         | PowerOff \<Rightarrow> ShutdownRequest
         | Halt \<Rightarrow> ShutdownRequest
         | _ \<Rightarrow> ActionComplete))"


section \<open>The sequencer\<close>

record EventSequencer =
  es_next_event :: EventId
  es_next_action :: ActionId
  es_online :: "CpuSet option"
  es_irq_owners :: "(u8, CpuId) btmap"
  es_dma_slots :: "u32 set"
  es_max_syscall :: u64

definition EventSequencer_new :: EventSequencer where
  "EventSequencer_new = \<lparr>es_next_event = 1, es_next_action = 1, es_online = None, es_irq_owners = [],
     es_dma_slots = {}, es_max_syscall = 0\<rparr>"

definition with_topology :: "CpuSet \<Rightarrow> u64 \<Rightarrow> EventSequencer" where
  "with_topology online max_syscall =
     EventSequencer_new\<lparr>es_online := Some online, es_max_syscall := max_syscall\<rparr>"

definition offline :: "EventSequencer \<Rightarrow> CpuId \<Rightarrow> bool" where
  "offline s cpu = (case es_online s of None \<Rightarrow> False | Some online \<Rightarrow> \<not> CpuSet_contains online cpu)"

text \<open>The owner is inserted by the last test of the condition, before a duplicate is reported.\<close>

definition assign_irq :: "EventSequencer \<Rightarrow> u8 \<Rightarrow> CpuId \<Rightarrow> (unit, PlatformError) result \<times> EventSequencer" where
  "assign_irq s vector cpu =
     (if vector < 32 \<or> offline s cpu then (Err UnownedVector, s)
      else let s' = s\<lparr>es_irq_owners := bt_insert vector cpu (es_irq_owners s)\<rparr> in
        if bt_contains (es_irq_owners s) vector then (Err UnownedVector, s') else (Ok (), s'))"

definition allow_dma_slot :: "EventSequencer \<Rightarrow> u32 \<Rightarrow> (unit, PlatformError) result \<times> EventSequencer" where
  "allow_dma_slot s slot =
     (if slot \<in> es_dma_slots s then (Err UnownedDmaSlot, s)
      else (Ok (), s\<lparr>es_dma_slots := insert slot (es_dma_slots s)\<rparr>))"

definition ingress_payload :: "EventSequencer \<Rightarrow> CpuId \<Rightarrow> EventKind \<Rightarrow> (unit, PlatformError) result" where
  "ingress_payload s cpu kind = (case kind of
       Irq vector \<Rightarrow>
         if vector < 32 \<or> bt_get (es_irq_owners s) vector \<noteq> Some cpu then Err UnownedVector else Ok ()
     | Ipi vector epoch \<Rightarrow> if vector < 32 \<or> epoch = 0 then Err InvalidPayload else Ok ()
     | DmaComplete slot \<Rightarrow> if slot \<notin> es_dma_slots s then Err UnownedDmaSlot else Ok ()
     | Syscall number \<Rightarrow> if number > es_max_syscall s then Err InvalidPayload else Ok ()
     | UserFault address code \<Rightarrow> if \<not> is_canonical_x86_64 address then Err InvalidTrapOrigin else Ok ()
     | _ \<Rightarrow> Ok ())"

definition ingress ::
    "EventSequencer \<Rightarrow> CpuId \<Rightarrow> EventKind \<Rightarrow> ActionId option \<Rightarrow> (Event, PlatformError) result \<times> EventSequencer" where
  "ingress s cpu kind correlation =
     (if offline s cpu then (Err PlatformError.UnknownCpu, s)
      else try_then (ingress_payload s cpu kind) s (\<lambda>_.
        try_then (ok_or (checked_add (es_next_event s) 1) InvalidEventId) s (\<lambda>n.
          let s' = s\<lparr>es_next_event := n\<rparr> in
          if (case correlation of None \<Rightarrow> False | Some action \<Rightarrow> action = 0 \<or> action \<ge> es_next_action s)
          then (Err InvalidCorrelation, s')
          else (Ok \<lparr>ev_cpu = cpu, ev_id = es_next_event s, ev_correlation = correlation, ev_kind = kind\<rparr>, s'))))"

definition issue :: "EventSequencer \<Rightarrow> Action \<Rightarrow> (IssuedAction, PlatformError) result \<times> EventSequencer" where
  "issue s action =
     try_then (validate_action action) s (\<lambda>_.
       try_then (ok_or (checked_add (es_next_action s) 1) InvalidCorrelation) s (\<lambda>n.
         (Ok \<lparr>ia_id = es_next_action s, ia_action = action\<rparr>, s\<lparr>es_next_action := n\<rparr>)))"

definition complete ::
    "EventSequencer \<Rightarrow> IssuedAction \<Rightarrow> CpuId \<Rightarrow> (unit, PlatformError) result \<Rightarrow>
     (Completion \<times> Event, PlatformError) result \<times> EventSequencer" where
  "complete s issued cpu r =
     (if ia_id issued = 0 \<or> ia_id issued \<ge> es_next_action s then (Err InvalidCorrelation, s)
      else let (event, s') = ingress s cpu (completion_kind (ia_action issued) r) (Some (ia_id issued))
      in try_then event s' (\<lambda>event.
        (Ok (\<lparr>co_action = ia_id issued, co_event = ev_id event, co_result = r\<rparr>, event), s')))"


section \<open>The executor's check\<close>

definition authorize ::
    "CapabilityLedger \<Rightarrow> OwnerId \<Rightarrow> Capability \<Rightarrow> Action \<Rightarrow> (AuthorizedAction, PlatformError) result" where
  "authorize ledger owner capability action =
     (case validate_action action of Err e \<Rightarrow> Err e | Ok _ \<Rightarrow>
      case action_authority action of Err e \<Rightarrow> Err e | Ok needed \<Rightarrow>
      if cap_kind capability \<noteq> au_kind needed then Err (Capability WrongKind)
      else case ledger_validate ledger capability owner (au_rights needed) (au_base needed) (au_len needed) of
        Err e \<Rightarrow> Err (Capability e)
      | Ok _ \<Rightarrow> Ok \<lparr>aa_action = action, aa_capability_slot = cap_slot capability,
                    aa_capability_generation = cap_generation capability\<rparr>)"

section \<open>Stamps and causality\<close>

datatype seq_op =
    SAssignIrq u8 CpuId | SAllowDma u32 | SIngress CpuId EventKind "ActionId option" | SIssue Action
  | SComplete IssuedAction CpuId "(unit, PlatformError) result"

text \<open>What a call hands out: an event, an issued action, or nothing.\<close>

datatype stamp = EventStamp Event | ActionStamp IssuedAction

fun seq_call :: "EventSequencer \<Rightarrow> seq_op \<Rightarrow> stamp list \<times> EventSequencer" where
  "seq_call s (SAssignIrq v cpu) = ([], snd (assign_irq s v cpu))"
| "seq_call s (SAllowDma slot) = ([], snd (allow_dma_slot s slot))"
| "seq_call s (SIngress cpu k c) =
     (case ingress s cpu k c of (Ok e, s') \<Rightarrow> ([EventStamp e], s') | (Err _, s') \<Rightarrow> ([], s'))"
| "seq_call s (SIssue a) =
     (case issue s a of (Ok i, s') \<Rightarrow> ([ActionStamp i], s') | (Err _, s') \<Rightarrow> ([], s'))"
| "seq_call s (SComplete i cpu r) =
     (case complete s i cpu r of (Ok (_, e), s') \<Rightarrow> ([EventStamp e], s') | (Err _, s') \<Rightarrow> ([], s'))"

fun seq_log :: "EventSequencer \<Rightarrow> seq_op list \<Rightarrow> stamp list" where
  "seq_log s [] = []"
| "seq_log s (a # ops) = (let (out, s') = seq_call s a in out @ seq_log s' ops)"

fun event_ids :: "stamp list \<Rightarrow> EventId list" where
  "event_ids [] = []"
| "event_ids (EventStamp e # l) = ev_id e # event_ids l"
| "event_ids (ActionStamp i # l) = event_ids l"

fun action_ids :: "stamp list \<Rightarrow> ActionId list" where
  "action_ids [] = []"
| "action_ids (EventStamp e # l) = action_ids l"
| "action_ids (ActionStamp i # l) = ia_id i # action_ids l"

text \<open>Every correlation refers to an action handed out before the event.\<close>

fun causal :: "ActionId set \<Rightarrow> stamp list \<Rightarrow> bool" where
  "causal known [] = True"
| "causal known (ActionStamp i # l) = causal (insert (ia_id i) known) l"
| "causal known (EventStamp e # l) =
     ((case ev_correlation e of None \<Rightarrow> True | Some a \<Rightarrow> a \<in> known) \<and> causal known l)"

lemma registration_keeps_counters [simp]:
  "es_next_action (snd (assign_irq s v cpu)) = es_next_action s"
  "es_next_event (snd (assign_irq s v cpu)) = es_next_event s"
  "es_next_action (snd (allow_dma_slot s slot)) = es_next_action s"
  "es_next_event (snd (allow_dma_slot s slot)) = es_next_event s"
  by (simp_all add: assign_irq_def allow_dma_slot_def Let_def)

lemma ingress_out:
  obtains y t where "ingress s cpu k c = (Err y, t)" "es_next_action t = es_next_action s"
      "es_next_event s \<le> es_next_event t"
  | e t where "ingress s cpu k c = (Ok e, t)" "es_next_action t = es_next_action s"
      "ev_id e = es_next_event s" "es_next_event s < es_next_event t" "ev_correlation e = c" "ev_kind e = k"
      "ev_cpu e = cpu" "\<And>a. c = Some a \<Longrightarrow> 0 < a \<and> a < es_next_action s"
proof (cases "offline s cpu")
  case True
  then show thesis using that(1) by (simp add: ingress_def)
next
  case False
  show thesis
  proof (cases "ingress_payload s cpu k")
    case (Err y)
    then show thesis using that(1) False by (simp add: ingress_def)
  next
    case (Ok u)
    show thesis
    proof (cases "checked_add (es_next_event s) 1")
      case None
      then show thesis using that(1) False Ok by (simp add: ingress_def)
    next
      case (Some n)
      let ?bad = "case c of None \<Rightarrow> False | Some a \<Rightarrow> a = 0 \<or> a \<ge> es_next_action s"
      have eq: "ingress s cpu k c = (if ?bad then (Err InvalidCorrelation, s\<lparr>es_next_event := n\<rparr>)
          else (Ok \<lparr>ev_cpu = cpu, ev_id = es_next_event s, ev_correlation = c, ev_kind = k\<rparr>, s\<lparr>es_next_event := n\<rparr>))"
        using False Ok Some by (simp add: ingress_def)
      have less: "es_next_event s < n" by (rule checked_inc_greater [OF Some])
      show thesis
      proof (cases ?bad)
        case True
        show thesis
          by (rule that(1) [of InvalidCorrelation "s\<lparr>es_next_event := n\<rparr>"]) (use True less in \<open>simp_all add: eq\<close>)
      next
        case False
        then have "0 < a \<and> a < es_next_action s" if "c = Some a" for a
          using that by (simp add: word_neq_0_conv not_le)
        then show thesis
          by (intro that(2) [of "\<lparr>ev_cpu = cpu, ev_id = es_next_event s, ev_correlation = c, ev_kind = k\<rparr>"
                "s\<lparr>es_next_event := n\<rparr>"]) (use False less in \<open>simp_all add: eq\<close>)
      qed
    qed
  qed
qed

lemma issue_out:
  obtains y where "issue s a = (Err y, s)"
  | n where "issue s a = (Ok \<lparr>ia_id = es_next_action s, ia_action = a\<rparr>, s\<lparr>es_next_action := n\<rparr>)"
      "checked_add (es_next_action s) 1 = Some n"
  by (cases "validate_action a"; cases "checked_add (es_next_action s) 1") (auto simp: issue_def)

lemma complete_out:
  obtains y t where "complete s i cpu r = (Err y, t)" "es_next_action t = es_next_action s"
      "es_next_event s \<le> es_next_event t"
  | e t where "complete s i cpu r = (Ok (\<lparr>co_action = ia_id i, co_event = ev_id e, co_result = r\<rparr>, e), t)"
      "es_next_action t = es_next_action s" "ev_id e = es_next_event s" "es_next_event s < es_next_event t"
      "ev_correlation e = Some (ia_id i)" "ev_kind e = completion_kind (ia_action i) r"
      "0 < ia_id i \<and> ia_id i < es_next_action s"
proof (cases "ia_id i = 0 \<or> ia_id i \<ge> es_next_action s")
  case True
  then show thesis using that(1) by (simp add: complete_def)
next
  case False
  let ?k = "completion_kind (ia_action i) r"
  have bounds: "0 < ia_id i \<and> ia_id i < es_next_action s"
    using False by (auto simp: not_le word_neq_0_conv)
  have eq: "complete s i cpu r = (let (event, s') = ingress s cpu ?k (Some (ia_id i))
      in try_then event s' (\<lambda>event.
        (Ok (\<lparr>co_action = ia_id i, co_event = ev_id event, co_result = r\<rparr>, event), s')))"
    using False by (simp add: complete_def)
  show thesis
  proof (rule ingress_out [of s cpu ?k "Some (ia_id i)"])
    fix y t assume "ingress s cpu ?k (Some (ia_id i)) = (Err y, t)"
      "es_next_action t = es_next_action s" "es_next_event s \<le> es_next_event t"
    then show thesis using that(1) by (simp add: eq)
  next
    fix e t assume *: "ingress s cpu ?k (Some (ia_id i)) = (Ok e, t)" "es_next_action t = es_next_action s"
      "ev_id e = es_next_event s" "es_next_event s < es_next_event t"
      "ev_correlation e = Some (ia_id i)" "ev_kind e = ?k"
    show thesis by (rule that(2) [OF _ *(2-6) bounds]) (simp add: eq *(1))
  qed
qed

lemma seq_log_stamps:
  assumes "\<And>a. 0 < a \<Longrightarrow> a < es_next_action s \<Longrightarrow> a \<in> known"
  shows "sorted_wrt (<) (event_ids (seq_log s ops)) \<and> (\<forall>i\<in>set (event_ids (seq_log s ops)). es_next_event s \<le> i)
    \<and> sorted_wrt (<) (action_ids (seq_log s ops)) \<and> (\<forall>i\<in>set (action_ids (seq_log s ops)). es_next_action s \<le> i)
    \<and> causal known (seq_log s ops)"
  using assms
proof (induction ops arbitrary: s known)
  case (Cons a ops)
  show ?case
  proof (cases a)
    case (SAssignIrq v cpu)
    then show ?thesis
      using Cons.IH [of "snd (assign_irq s v cpu)" known] Cons.prems by simp
  next
    case (SAllowDma slot)
    then show ?thesis
      using Cons.IH [of "snd (allow_dma_slot s slot)" known] Cons.prems by simp
  next
    case (SIngress cpu k c)
    show ?thesis
    proof (rule ingress_out [of s cpu k c])
      fix y t assume "ingress s cpu k c = (Err y, t)" "es_next_action t = es_next_action s" "es_next_event s \<le> es_next_event t"
      then show ?thesis using Cons.IH [of t known] Cons.prems SIngress by fastforce
    next
      fix e t assume "ingress s cpu k c = (Ok e, t)" "es_next_action t = es_next_action s"
        "ev_id e = es_next_event s" "es_next_event s < es_next_event t" "ev_correlation e = c"
        "\<And>a. c = Some a \<Longrightarrow> 0 < a \<and> a < es_next_action s"
      then show ?thesis
        using Cons.IH [of t known] Cons.prems SIngress by (fastforce split: option.splits)
    qed
  next
    case (SIssue act)
    show ?thesis
    proof (rule issue_out [of s act])
      fix n assume *: "issue s act = (Ok \<lparr>ia_id = es_next_action s, ia_action = act\<rparr>, s\<lparr>es_next_action := n\<rparr>)"
        "checked_add (es_next_action s) 1 = Some n"
      have "x \<in> insert (es_next_action s) known" if "0 < x" "x < n" for x
        using that Cons.prems [of x] unat_plus_one [OF *(2)]
        by (cases "x = es_next_action s") (auto simp: word_less_nat_alt word_unat_eq_iff)
      then show ?thesis
        using Cons.IH [of "s\<lparr>es_next_action := n\<rparr>" "insert (es_next_action s) known"] * SIssue
          checked_inc_greater [OF *(2)] by fastforce
    qed (use Cons.IH [of s known] Cons.prems SIssue in simp)
  next
    case (SComplete i cpu r)
    show ?thesis
    proof (rule complete_out [of s i cpu r])
      fix y t assume "complete s i cpu r = (Err y, t)" "es_next_action t = es_next_action s" "es_next_event s \<le> es_next_event t"
      then show ?thesis using Cons.IH [of t known] Cons.prems SComplete by fastforce
    next
      fix e t assume "complete s i cpu r = (Ok (\<lparr>co_action = ia_id i, co_event = ev_id e, co_result = r\<rparr>, e), t)"
        "es_next_action t = es_next_action s" "ev_id e = es_next_event s" "es_next_event s < es_next_event t"
        "ev_correlation e = Some (ia_id i)" "0 < ia_id i \<and> ia_id i < es_next_action s"
      then show ?thesis using Cons.IH [of t known] Cons.prems SComplete by fastforce
    qed
  qed
qed simp


section \<open>Authorisation\<close>

text \<open>The record of the ledger that a handle stands for, and the interval an action needs.\<close>

definition covers_action :: "CapabilityLedger \<Rightarrow> OwnerId \<Rightarrow> Capability \<Rightarrow> ActionAuthority \<Rightarrow> bool" where
  "covers_action L owner c needed = (\<exists>r. bt_get (records L) (au_kind needed, cap_slot c) = Some r
     \<and> rec_live r \<and> rec_owner r = owner \<and> c = ledger_capability (au_kind needed) (cap_slot c) r
     \<and> Rights_contains (rec_rights r) (au_rights needed)
     \<and> unat (rec_base r) \<le> unat (au_base needed)
     \<and> unat (au_base needed) + unat (au_len needed) \<le> unat (rec_base r) + unat (rec_len r))"

lemma authorize_Ok_iff:
  "authorize L owner c a = Ok x \<longleftrightarrow>
     validate_action a = Ok () \<and> (\<exists>needed. action_authority a = Ok needed \<and> cap_kind c = au_kind needed
       \<and> ledger_validate L c owner (au_rights needed) (au_base needed) (au_len needed) = Ok ())
     \<and> x = \<lparr>aa_action = a, aa_capability_slot = cap_slot c, aa_capability_generation = cap_generation c\<rparr>"
  by (auto simp: authorize_def split: result.splits if_splits)

lemma record_range:
  assumes "ledger_inv L" "bt_get (records L) key = Some r" "c = ledger_capability k slot r"
  shows "Capability_contains_range c base len \<longleftrightarrow>
     unat (rec_base r) \<le> unat base \<and> unat base + unat len \<le> unat (rec_base r) + unat (rec_len r)"
proof -
  have "record_ok r" using assms(1,2) unfolding ledger_inv_def by blast
  then show ?thesis by (auto simp: contains_range_unat record_ok_def ledger_capability_def assms(3))
qed

lemma validate_covers:
  assumes "ledger_inv L" "cap_kind c = au_kind needed"
  shows "ledger_validate L c owner (au_rights needed) (au_base needed) (au_len needed) = Ok ()
     \<longleftrightarrow> covers_action L owner c needed"
  unfolding ledger_validate_Ok_iff covers_action_def
  using record_range [OF assms(1)] assms(2) by metis

lemma covers_kind: "covers_action L owner c needed \<Longrightarrow> cap_kind c = au_kind needed"
  by (metis Capability.select_convs(1) covers_action_def ledger_capability_def)

lemma authorize_covers:
  assumes "ledger_inv L"
  shows "is_Ok (authorize L owner c a) \<longleftrightarrow>
     validate_action a = Ok () \<and> (\<exists>needed. action_authority a = Ok needed \<and> covers_action L owner c needed)"
  using validate_covers [OF assms] covers_kind by (auto simp: is_Ok_iff authorize_Ok_iff)

lemma revoked_not_covered:
  assumes "ledger_inv L" "ledger_transfer L c new_owner new_rights = (Ok c', L') \<or> ledger_release L c = (Ok (), L')"
  shows "\<not> covers_action (replay ledger_step L' later) owner c needed"
proof
  let ?M = "replay ledger_step L' later"
  assume cov: "covers_action ?M owner c needed"
  then obtain r where r: "bt_get (records ?M) (cap_kind c, cap_slot c) = Some r" "rec_live r"
      "cap_generation c = rec_generation r"
    using covers_kind [OF cov] unfolding covers_action_def
    by (metis Capability.select_convs(5) ledger_capability_def)
  from assms(2) show False
  proof
    assume "ledger_transfer L c new_owner new_rights = (Ok c', L')"
    then show False by (rule transferred_record [OF assms(1), of c _ _ _ _ later]) (use r in simp)
  next
    assume "ledger_release L c = (Ok (), L')"
    then show False by (rule released_record [OF assms(1), of c _ _ later]) (use r in simp)
  qed
qed

text \<open>
  C18: the executor authorises exactly what the ledger grants, and nothing after revocation. In
  every reachable ledger an action is authorised if and only if its payload is well formed and the
  live record behind the presented handle belongs to the caller, has the kind and the rights the
  action needs and contains the interval it touches. Once a handle has been transferred or
  released, no later ledger authorises any action with it, for any caller.
\<close>

theorem authorize_exact:
  assumes "L = replay ledger_step CapabilityLedger_new ops"
  shows "(is_Ok (authorize L owner c a) \<longleftrightarrow> validate_action a = Ok ()
       \<and> (\<exists>needed. action_authority a = Ok needed \<and> covers_action L owner c needed))
     \<and> (ledger_transfer L c new_owner new_rights = (Ok c', L') \<or> ledger_release L c = (Ok (), L') \<longrightarrow>
          \<not> is_Ok (authorize (replay ledger_step L' later) any c b))"
proof -
  have inv: "ledger_inv L" unfolding assms by (rule ledger.inv_replay [OF ledger_inv_new])
  have "ledger_inv (replay ledger_step L' later)"
    if "ledger_transfer L c new_owner new_rights = (Ok c', L') \<or> ledger_release L c = (Ok (), L')"
    using that ledger.inv_step [OF inv, of "LTransfer c new_owner new_rights"] ledger.inv_step [OF inv, of "LRelease c"]
    by (auto intro: ledger.inv_replay)
  then show ?thesis
    using authorize_covers [OF inv] authorize_covers revoked_not_covered [OF inv] by blast
qed

theorem authorize_exact_witness:
  "replay ledger_step CapabilityLedger_new [LMint Mmio 3 7 Rights_ALL 4096 4096] = demo_ledger
   \<and> is_Ok (authorize demo_ledger 7 demo_cap (MmioWrite 4100 4 1))
   \<and> \<not> is_Ok (authorize demo_ledger_next 7 demo_cap (MmioWrite 4100 4 1))"
proof -
  have eq: "replay ledger_step CapabilityLedger_new [LMint Mmio 3 7 Rights_ALL 4096 4096] = demo_ledger"
    using demo_ledger_mint by simp
  note exact = authorize_exact [OF eq [symmetric], of 7 demo_cap "MmioWrite 4100 4 1" 9 3 demo_cap_next
      demo_ledger_next "[]" 7 "MmioWrite 4100 4 1"]
  have "covers_action demo_ledger 7 demo_cap
      \<lparr>au_kind = Mmio, au_rights = Rights_WRITE, au_base = 4100, au_len = 4\<rparr>"
    by (simp add: covers_action_def demo_ledger_def demo_cap_def ledger_capability_def Rights_contains_def
        Rights_WRITE_def)
  then have "is_Ok (authorize demo_ledger 7 demo_cap (MmioWrite 4100 4 1))"
    using exact by (simp add: ActionAuthority_of_def)
  then show ?thesis using eq exact demo_transfer by simp
qed

end
