(* ===== verification/Kernel_Policy.thy ===== *)
theory Kernel_Policy
  imports Kernel_Event
begin

text \<open>
  The kernel policy of \<open>thermite-kernel/src/policy.rs\<close>: per-processor shards, the bounded batch
  of actions and the transition from an event to the actions it causes. The lemmas show that
  accepted events have strictly increasing identifiers, that a processor that accepted a shutdown
  request accepts nothing more, that a step emits at most one action, always one the sequencer can
  issue, and which completions the policy can consume at all.
\<close>

record CpuShard =
  sh_cpu :: CpuId
  sh_last_event :: u64
  sh_ticks :: u64
  sh_runnable_tasks :: u32
  sh_terminal :: bool

datatype PolicyError =
    UnknownCpu | DuplicateCpu | StaleEvent | CorrelationRequired | UnexpectedCorrelation
  | ActionOverflow | TickOverflow | TaskOverflow | Terminal | Platform PlatformError

text \<open>\<open>ActionBatch\<close> with its capacity \<open>N\<close> as the length of the array.\<close>

record ActionBatch =
  ab_actions :: "Action option list"
  ab_len :: nat

definition ActionBatch_new :: "nat \<Rightarrow> ActionBatch" where
  "ActionBatch_new n = \<lparr>ab_actions = replicate n None, ab_len = 0\<rparr>"

definition batch_push :: "ActionBatch \<Rightarrow> Action \<Rightarrow> (unit, PolicyError) result \<times> ActionBatch" where
  "batch_push b action =
     (if ab_len b = length (ab_actions b) then (Err ActionOverflow, b)
      else (Ok (), b\<lparr>ab_actions := (ab_actions b)[ab_len b := Some action], ab_len := ab_len b + 1\<rparr>))"

definition batch_len :: "ActionBatch \<Rightarrow> nat" where
  "batch_len b = ab_len b"

definition batch_is_empty :: "ActionBatch \<Rightarrow> bool" where
  "batch_is_empty b = (ab_len b = 0)"

definition batch_iter :: "ActionBatch \<Rightarrow> Action list" where
  "batch_iter b = List.map_filter (\<lambda>x. x) (take (ab_len b) (ab_actions b))"

record KernelPolicy =
  kp_shards :: "(CpuId, CpuShard) btmap"
  kp_last_global_event :: u64

definition KernelPolicy_new :: KernelPolicy where
  "KernelPolicy_new = \<lparr>kp_shards = [], kp_last_global_event = 0\<rparr>"

text \<open>As in the code, the fresh shard is inserted before a duplicate is reported.\<close>

definition policy_add_cpu :: "KernelPolicy \<Rightarrow> CpuId \<Rightarrow> (unit, PolicyError) result \<times> KernelPolicy" where
  "policy_add_cpu p cpu =
     (let p' = p\<lparr>kp_shards := bt_insert cpu
            \<lparr>sh_cpu = cpu, sh_last_event = 0, sh_ticks = 0, sh_runnable_tasks = 0, sh_terminal = False\<rparr>
            (kp_shards p)\<rparr>
      in if bt_contains (kp_shards p) cpu then (Err DuplicateCpu, p') else (Ok (), p'))"

fun is_completion :: "EventKind \<Rightarrow> bool" where
  "is_completion CpuOnline = True"
| "is_completion (CpuStartFailed _) = True"
| "is_completion (DmaComplete _) = True"
| "is_completion _ = False"

text \<open>The body of the match on the event kind, on the shard of the event's processor.\<close>

definition push_then :: "ActionBatch \<Rightarrow> Action \<Rightarrow> CpuShard \<Rightarrow> (ActionBatch, PolicyError) result \<times> CpuShard" where
  "push_then actions a shard =
     (let (r, actions') = batch_push actions a in try_then r shard (\<lambda>_. (Ok actions', shard)))"

definition policy_react :: "CpuShard \<Rightarrow> Event \<Rightarrow> (ActionBatch, PolicyError) result \<times> CpuShard" where
  "policy_react shard event =
     (let actions = ActionBatch_new 4 in
      case ev_kind event of
        Boot \<Rightarrow> push_then actions (ArmTimer 1) shard
      | CpuOnline \<Rightarrow>
          try_then (ok_or (checked_add (sh_runnable_tasks shard) 1) TaskOverflow) shard (\<lambda>n.
            push_then actions (EnqueueTask (ucast (ev_cpu event)) (ev_cpu event))
              (shard\<lparr>sh_runnable_tasks := n\<rparr>))
      | CpuStartFailed _ \<Rightarrow> (Ok actions, shard)
      | Irq vector \<Rightarrow> push_then actions (AckIrq vector) shard
      | Timer \<Rightarrow>
          try_then (ok_or (checked_add (sh_ticks shard) 1) TickOverflow) shard (\<lambda>n.
            push_then actions (ArmTimer (n + 1)) (shard\<lparr>sh_ticks := n\<rparr>))
      | Ipi vector epoch \<Rightarrow>
          push_then actions (SendIpi (CpuSet_from_ids [ev_cpu event]) vector epoch) shard
      | DmaComplete _ \<Rightarrow>
          try_then (ok_or (checked_add (sh_runnable_tasks shard) 1) TaskOverflow) shard (\<lambda>n.
            (Ok actions, shard\<lparr>sh_runnable_tasks := n\<rparr>))
      | Syscall number \<Rightarrow>
          if number = 0 then push_then actions (EnqueueTask (sh_runnable_tasks shard) (ev_cpu event)) shard
          else push_then actions (EnterContext (ucast number)) shard
      | UserFault _ _ \<Rightarrow> push_then actions (EnterContext 0) shard
      | DeviceFault _ _ \<Rightarrow> push_then actions (MaskIrq 0) shard
      | ActionComplete \<Rightarrow> (Ok actions, shard)
      | ShutdownRequest \<Rightarrow> push_then actions PowerOff (shard\<lparr>sh_terminal := True\<rparr>))"

definition policy_step :: "KernelPolicy \<Rightarrow> Event \<Rightarrow> (ActionBatch, PolicyError) result \<times> KernelPolicy" where
  "policy_step p event =
     (if ev_id event \<le> kp_last_global_event p then (Err StaleEvent, p)
      else try_then (ok_or (bt_get (kp_shards p) (ev_cpu event)) UnknownCpu) p (\<lambda>shard.
        if sh_terminal shard then (Err Terminal, p)
        else if is_completion (ev_kind event) \<and> ev_correlation event = None then (Err CorrelationRequired, p)
        else if \<not> is_completion (ev_kind event) \<and> ev_correlation event \<noteq> None
        then (Err UnexpectedCorrelation, p)
        else let (r, shard') = policy_react (shard\<lparr>sh_last_event := ev_id event\<rparr>) event
          in (r, p\<lparr>kp_last_global_event := ev_id event,
                   kp_shards := bt_insert (ev_cpu event) shard' (kp_shards p)\<rparr>)))"

definition policy_shard :: "KernelPolicy \<Rightarrow> CpuId \<Rightarrow> CpuShard option" where
  "policy_shard p cpu = bt_get (kp_shards p) cpu"


section \<open>What a step does\<close>

datatype policy_op = PAddCpu CpuId | PStep Event

fun policy_op_step :: "KernelPolicy \<Rightarrow> policy_op \<Rightarrow> KernelPolicy" where
  "policy_op_step p (PAddCpu cpu) = snd (policy_add_cpu p cpu)"
| "policy_op_step p (PStep e) = snd (policy_step p e)"

lemma push_then_new [simp]:
  "push_then (ActionBatch_new 4) a shard =
     (Ok \<lparr>ab_actions = [Some a, None, None, None], ab_len = 1\<rparr>, shard)"
  by (simp add: push_then_def batch_push_def ActionBatch_new_def numeral_eq_Suc)

lemma batch_iter_simps [simp]:
  "batch_iter (ActionBatch_new 4) = []"
  "batch_iter \<lparr>ab_actions = Some a # l, ab_len = Suc 0\<rparr> = [a]"
  by (simp_all add: batch_iter_def ActionBatch_new_def List.map_filter_def)

lemma policy_react_batch:
  "policy_react shard e = (Ok b, shard') \<Longrightarrow>
     length (batch_iter b) \<le> 1 \<and> (\<forall>a\<in>set (batch_iter b). validate_action a = Ok ())
     \<and> (ev_kind e = ShutdownRequest \<longrightarrow> batch_iter b = [PowerOff] \<and> sh_terminal shard')"
  by (auto simp: policy_react_def try_then_def ok_or_def Let_def
      split: EventKind.splits option.splits if_splits)

lemma policy_react_terminal:
  "\<not> sh_terminal shard \<Longrightarrow> sh_terminal (snd (policy_react shard e)) \<longleftrightarrow> ev_kind e = ShutdownRequest"
  by (auto simp: policy_react_def try_then_def ok_or_def Let_def split: EventKind.splits option.splits)

lemma policy_step_OkD:
  assumes "policy_step p e = (Ok b, p')"
  obtains shard shard' where
    "kp_last_global_event p < ev_id e" "bt_get (kp_shards p) (ev_cpu e) = Some shard" "\<not> sh_terminal shard"
    "policy_react (shard\<lparr>sh_last_event := ev_id e\<rparr>) e = (Ok b, shard')"
    "is_completion (ev_kind e) \<longleftrightarrow> ev_correlation e \<noteq> None"
    "p' = p\<lparr>kp_last_global_event := ev_id e, kp_shards := bt_insert (ev_cpu e) shard' (kp_shards p)\<rparr>"
  using assms
  by (auto simp: policy_step_def not_le split: if_splits prod.splits elim!: try_then_OkE)

text \<open>The event clock only advances, and a terminal shard stays so unless its processor is added again.\<close>

definition policy_evolves :: "CpuId \<Rightarrow> KernelPolicy \<Rightarrow> KernelPolicy \<Rightarrow> bool" where
  "policy_evolves cpu p q = (kp_last_global_event p \<le> kp_last_global_event q \<and>
     (\<forall>s. bt_get (kp_shards p) cpu = Some s \<longrightarrow> sh_terminal s \<longrightarrow>
        (\<exists>t. bt_get (kp_shards q) cpu = Some t \<and> sh_terminal t)))"

lemma policy_step_evolves: "policy_evolves cpu p (snd (policy_step p e))"
  by (cases "bt_get (kp_shards p) (ev_cpu e)")
     (auto simp: policy_evolves_def policy_step_def not_le less_imp_le split_beta)

lemma policy_op_evolves:
  "a \<noteq> PAddCpu cpu \<Longrightarrow> policy_evolves cpu p (policy_op_step p a)"
  by (cases a) (auto simp: policy_step_evolves, auto simp: policy_evolves_def policy_add_cpu_def Let_def)

lemma policy_evolves_replay:
  "PAddCpu cpu \<notin> set ops \<Longrightarrow> policy_evolves cpu p (replay policy_op_step p ops)"
proof (induction ops arbitrary: p)
  case Nil
  then show ?case by (simp add: policy_evolves_def)
next
  case (Cons a ops)
  then have "policy_evolves cpu p (policy_op_step p a)"
    and "policy_evolves cpu (policy_op_step p a) (replay policy_op_step (policy_op_step p a) ops)"
    by (auto intro: policy_op_evolves)
  then show ?case by (fastforce simp: policy_evolves_def)
qed

text \<open>
  C19: the policy serialises events and stops for good. If an event is accepted, it causes at
  most one action, one that the sequencer can issue; every event accepted later, on any
  processor, has a larger identifier; and after a shutdown request, which powers off, that
  processor accepts no event any more unless it is added again.
\<close>

theorem policy_serialises_events:
  assumes "policy_step p e = (Ok b, p')" "PAddCpu (ev_cpu e) \<notin> set later"
    and "q = replay policy_op_step p' later" "policy_step q e' = (Ok b', q')"
  shows "length (batch_iter b) \<le> 1 \<and> (\<forall>a\<in>set (batch_iter b). is_Ok (fst (issue EventSequencer_new a)))
     \<and> ev_id e < ev_id e'
     \<and> (ev_kind e = ShutdownRequest \<longrightarrow> batch_iter b = [PowerOff] \<and> ev_cpu e' \<noteq> ev_cpu e)"
proof -
  from assms(1) obtain shard shard' where
    react: "policy_react (shard\<lparr>sh_last_event := ev_id e\<rparr>) e = (Ok b, shard')" and
    p': "p' = p\<lparr>kp_last_global_event := ev_id e, kp_shards := bt_insert (ev_cpu e) shard' (kp_shards p)\<rparr>"
    by (rule policy_step_OkD)
  from assms(4) obtain shard2 where
    q: "kp_last_global_event q < ev_id e'" "bt_get (kp_shards q) (ev_cpu e') = Some shard2" "\<not> sh_terminal shard2"
    by (rule policy_step_OkD)
  have ev: "policy_evolves (ev_cpu e) p' q" unfolding assms(3) by (rule policy_evolves_replay [OF assms(2)])
  note batch = policy_react_batch [OF react]
  have "ev_id e < ev_id e'" using ev q(1) by (auto simp: policy_evolves_def p')
  moreover have "is_Ok (fst (issue EventSequencer_new a))" if "a \<in> set (batch_iter b)" for a
    using batch that by (simp add: issue_def EventSequencer_new_def checked_add_def)
  moreover have "ev_cpu e' \<noteq> ev_cpu e" if "ev_kind e = ShutdownRequest"
    using that batch ev q(2,3) by (auto simp: policy_evolves_def p')
  ultimately show ?thesis using batch by blast
qed

definition demo_policy :: KernelPolicy where
  "demo_policy = snd (policy_add_cpu (snd (policy_add_cpu KernelPolicy_new 0)) 1)"

definition demo_event :: "CpuId \<Rightarrow> EventId \<Rightarrow> EventKind \<Rightarrow> Event" where
  "demo_event cpu i k = \<lparr>ev_cpu = cpu, ev_id = i, ev_correlation = None, ev_kind = k\<rparr>"

theorem policy_serialises_events_witness:
  "is_Ok (fst (policy_step demo_policy (demo_event 0 1 ShutdownRequest)))
   \<and> is_Ok (fst (policy_step (snd (policy_step demo_policy (demo_event 0 1 ShutdownRequest))) (demo_event 1 2 Boot)))
   \<and> ev_id (demo_event 0 1 ShutdownRequest) < ev_id (demo_event 1 2 Boot)"
proof -
  let ?e = "demo_event 0 1 ShutdownRequest" and ?e' = "demo_event 1 2 Boot"
  have ok: "is_Ok (fst (policy_step demo_policy ?e))"
    "is_Ok (fst (policy_step (snd (policy_step demo_policy ?e)) ?e'))"
    by (simp_all add: demo_policy_def demo_event_def policy_add_cpu_def KernelPolicy_new_def policy_step_def
        policy_react_def Let_def bt_contains_def word_le_nat_alt)
  then obtain b b' where "policy_step demo_policy ?e = (Ok b, snd (policy_step demo_policy ?e))"
    "policy_step (snd (policy_step demo_policy ?e)) ?e'
      = (Ok b', snd (policy_step (snd (policy_step demo_policy ?e)) ?e'))"
    by (metis is_Ok_iff prod.collapse)
  from policy_serialises_events [OF this(1) _ _ this(2), of "[]"] ok show ?thesis by simp
qed


section \<open>Completions the policy can consume\<close>

text \<open>
  \<open>complete\<close> stamps every completion with its action, and the policy refuses a correlation on
  every event kind but three. So the only completions the policy can ever consume are those of a
  successful \<open>StartCpu\<close> or \<open>SubmitDma\<close>: the completion of every other action, and the report of
  every failure, is answered with \<open>UnexpectedCorrelation\<close> (or refused earlier).
\<close>

lemma completion_kind_completion:
  "is_completion (completion_kind a r) \<longleftrightarrow> r = Ok () \<and> ((\<exists>cpu. a = StartCpu cpu) \<or> (\<exists>slot. a = SubmitDma slot))"
  by (cases r; cases a) (auto simp: completion_kind_def)

lemma consumable_completions:
  assumes "complete s i cpu r = (Ok (c, e), s')" "policy_step p e = (Ok b, p')"
  shows "r = Ok () \<and> ((\<exists>cpu. ia_action i = StartCpu cpu) \<or> (\<exists>slot. ia_action i = SubmitDma slot))"
proof -
  have "ev_correlation e = Some (ia_id i)" "ev_kind e = completion_kind (ia_action i) r"
    by (rule complete_out [of s i cpu r]; use assms(1) in simp)+
  moreover have "is_completion (ev_kind e) \<longleftrightarrow> ev_correlation e \<noteq> None"
    using assms(2) by (rule policy_step_OkD)
  ultimately show ?thesis by (simp add: completion_kind_completion)
qed

end
