(* ===== verification/Kernel_Registry.thy ===== *)
theory Kernel_Registry
  imports Kernel_Capability "HOL-Library.List_Lexorder" "HOL-Library.Char_ord"
begin

text \<open>
  The frozen platform registry of \<open>thermite-kernel/src/registry.rs\<close>: the closed list of the 104
  operations of the first platform profile with their signatures, contracts, capability kinds and
  rights, the canonical names, the name look-up and the drift check. The lemmas show that the
  profile has exactly the announced number of entries, that canonical names are unique, so that
  look-up is exact and never reports a duplicate, that the drift check accepts identical entries
  only, and that an entry asks for rights exactly when it names a capability.
\<close>

datatype PlatformDomain =
    Boot | Memory | Mmio | Pio | Irq | Cpu | Atomic | Smp | Dma | Clock | Entropy | Power

record PlatformOperation =
  po_key :: string
  po_signature :: string
  po_contract :: string
  po_domain :: PlatformDomain
  po_capability :: "CapabilityKind option"
  po_rights :: Rights
  po_symbol :: string
  po_source_contract_sha256 :: "string option"
  po_source_reachable :: bool
  po_secondary_domains :: "PlatformDomain list"
  po_abi :: string
  po_alignment :: u16
  po_ownership :: string
  po_model :: string
  po_concurrency :: string
  po_failure :: string
  po_evidence :: string

datatype RegistryError =
    UnknownName | DuplicateName | SignatureDrift | ContractDrift | DomainDrift | CapabilityDrift
  | RightsDrift | SymbolDrift | SourceContractDrift | ReachabilityDrift | MetadataDrift

definition registry_op ::
    "string \<Rightarrow> string \<Rightarrow> string \<Rightarrow> PlatformDomain \<Rightarrow> CapabilityKind option \<Rightarrow> Rights \<Rightarrow> string \<Rightarrow> PlatformOperation" where
  "registry_op key signature contract domain capability rights symbol =
     \<lparr>po_key = key, po_signature = signature, po_contract = contract, po_domain = domain,
      po_capability = capability, po_rights = rights, po_symbol = symbol,
      po_source_contract_sha256 = None, po_source_reachable = False, po_secondary_domains = [],
      po_abi = ''C'', po_alignment = 1,
      po_ownership = ''capability-generation-preserved-unless-contract-consumes'',
      po_model = contract, po_concurrency = ''registry-model-defined'',
      po_failure = ''typed-platform-error-or-declared-terminal'',
      po_evidence = ''model-tests+symbol-inventory+qemu-transcript''\<rparr>"

definition source_op :: "PlatformOperation \<Rightarrow> string \<Rightarrow> PlatformOperation" where
  "source_op operation sha256 =
     operation\<lparr>po_source_contract_sha256 := Some sha256, po_source_reachable := True\<rparr>"

definition CAP_NONE :: "CapabilityKind option" where "CAP_NONE = None"
definition CAP_BOOT :: "CapabilityKind option" where "CAP_BOOT = Some CapabilityKind.BootInfo"
definition CAP_CPU :: "CapabilityKind option" where "CAP_CPU = Some CapabilityKind.Cpu"
definition CAP_CPU_SET :: "CapabilityKind option" where "CAP_CPU_SET = Some CapabilityKind.CpuSet"
definition CAP_CPU_LOCAL :: "CapabilityKind option" where "CAP_CPU_LOCAL = Some CapabilityKind.CpuLocal"
definition CAP_PHYS :: "CapabilityKind option" where "CAP_PHYS = Some CapabilityKind.PhysRegion"
definition CAP_FRAME :: "CapabilityKind option" where "CAP_FRAME = Some CapabilityKind.Frame"
definition CAP_SPACE :: "CapabilityKind option" where "CAP_SPACE = Some CapabilityKind.AddressSpace"
definition CAP_VIRT :: "CapabilityKind option" where "CAP_VIRT = Some CapabilityKind.VirtRegion"
definition CAP_MMIO :: "CapabilityKind option" where "CAP_MMIO = Some CapabilityKind.Mmio"
definition CAP_PIO :: "CapabilityKind option" where "CAP_PIO = Some CapabilityKind.IoPort"
definition CAP_IRQ :: "CapabilityKind option" where "CAP_IRQ = Some CapabilityKind.Irq"
definition CAP_IRQ_STATE :: "CapabilityKind option" where "CAP_IRQ_STATE = Some CapabilityKind.IrqState"
definition CAP_TRAP :: "CapabilityKind option" where "CAP_TRAP = Some CapabilityKind.TrapFrame"
definition CAP_USER :: "CapabilityKind option" where "CAP_USER = Some CapabilityKind.UserContext"
definition CAP_DMA :: "CapabilityKind option" where "CAP_DMA = Some CapabilityKind.Dma"
definition CAP_IOMMU :: "CapabilityKind option" where "CAP_IOMMU = Some CapabilityKind.IommuDomain"
definition CAP_CLOCK :: "CapabilityKind option" where "CAP_CLOCK = Some CapabilityKind.Clock"
definition CAP_ENTROPY :: "CapabilityKind option" where "CAP_ENTROPY = Some CapabilityKind.Entropy"
definition CAP_POWER :: "CapabilityKind option" where "CAP_POWER = Some CapabilityKind.Power"


section \<open>The frozen profile\<close>

definition frame_operations :: "PlatformOperation list" where
  "frame_operations = [
    registry_op ''boot.handoff'' ''fn(BootInfo)->BootBytes'' ''bounded_handoff'' PlatformDomain.Boot CAP_BOOT Rights_READ ''tpl_boot_handoff'',
    registry_op ''memory.frame_split'' ''fn(Frame,u64)->(Frame,Frame)'' ''partition_exact'' PlatformDomain.Memory CAP_FRAME Rights_TRANSFER ''tpl_frame_split'',
    registry_op ''memory.frame_join'' ''fn(Frame,Frame)->Frame'' ''adjacent_join'' PlatformDomain.Memory CAP_FRAME Rights_TRANSFER ''tpl_frame_join'',
    registry_op ''memory.frame_zero'' ''fn(Frame)->Frame'' ''zero_exact'' PlatformDomain.Memory CAP_FRAME Rights_WRITE ''tpl_frame_zero'',
    registry_op ''memory.frame_query'' ''fn(Frame)->FrameInfo'' ''query_exact_generation'' PlatformDomain.Memory CAP_FRAME Rights_READ ''tpl_frame_query'',
    registry_op ''memory.frame_lend'' ''fn(Frame,u32)->Frame'' ''consume_generation_to_borrower'' PlatformDomain.Memory CAP_FRAME Rights_TRANSFER ''tpl_frame_lend'',
    registry_op ''memory.frame_reclaim'' ''fn(Frame,u32)->Frame'' ''matching_borrower_next_generation'' PlatformDomain.Memory CAP_FRAME Rights_TRANSFER ''tpl_frame_reclaim'',
    registry_op ''memory.temporary_map'' ''fn(VirtRegion,Frame)->TemporaryMapping'' ''bounded_window_generation'' PlatformDomain.Memory CAP_VIRT Rights_MAP ''tpl_temporary_map'',
    registry_op ''memory.temporary_revoke'' ''fn(VirtRegion,TemporaryMapping)->()'' ''revoke_exact_generation'' PlatformDomain.Memory CAP_VIRT Rights_MAP ''tpl_temporary_revoke'']"

definition space_operations :: "PlatformOperation list" where
  "space_operations = [
    registry_op ''memory.space_create'' ''fn(AddressSpace)->AddressSpace'' ''fresh_inactive_root'' PlatformDomain.Memory CAP_SPACE Rights_CONTROL ''tpl_space_create'',
    registry_op ''memory.map'' ''fn(AddressSpace,Frame,MapRequest)->Mapping'' ''map_cap_bounded'' PlatformDomain.Memory CAP_SPACE Rights_MAP ''tpl_map'',
    registry_op ''memory.unmap'' ''fn(AddressSpace,u64)->Mapping'' ''unmap_exact'' PlatformDomain.Memory CAP_SPACE Rights_MAP ''tpl_unmap'',
    registry_op ''memory.protect'' ''fn(AddressSpace,u64,Perm)->()'' ''protect_exact'' PlatformDomain.Memory CAP_SPACE Rights_MAP ''tpl_protect'',
    registry_op ''memory.activate'' ''fn(AddressSpace)->()'' ''activate_root'' PlatformDomain.Memory CAP_SPACE Rights_CONTROL ''tpl_activate'',
    registry_op ''memory.inspect'' ''fn(AddressSpace,u64)->Result<Mapping>'' ''inspect_exact_mapping'' PlatformDomain.Memory CAP_SPACE Rights_READ ''tpl_space_inspect'',
    registry_op ''memory.destroy'' ''fn(AddressSpace)->()'' ''inactive_empty_consume_root'' PlatformDomain.Memory CAP_SPACE Rights_CONTROL ''tpl_space_destroy'',
    registry_op ''memory.translation_validate'' ''fn(u64,PageSize,Perm,CachePolicy)->Result'' ''canonical_aligned_profile_translation'' PlatformDomain.Memory CAP_NONE Rights_empty ''tpl_translation_validate'',
    registry_op ''memory.tlb_local'' ''fn(AddressSpace,u64)->()'' ''invalidate_local'' PlatformDomain.Memory CAP_SPACE Rights_MAP ''tpl_tlb_local'',
    registry_op ''memory.tlb_space'' ''fn(AddressSpace)->()'' ''invalidate_active_space'' PlatformDomain.Memory CAP_SPACE Rights_MAP ''tpl_tlb_space'',
    registry_op ''memory.user_copy_in'' ''fn(AddressSpace,u64,&mut[u8])->Result'' ''copy_all_or_fault'' PlatformDomain.Memory CAP_SPACE Rights_READ ''tpl_user_copy_in'',
    registry_op ''memory.user_copy_out'' ''fn(AddressSpace,u64,&[u8])->Result'' ''copy_all_or_fault'' PlatformDomain.Memory CAP_SPACE Rights_WRITE ''tpl_user_copy_out'']"

definition device_access_operations :: "PlatformOperation list" where
  "device_access_operations = [
    registry_op ''mmio.read8'' ''fn(Mmio,u64)->u8'' ''aligned_in_range'' PlatformDomain.Mmio CAP_MMIO Rights_READ ''tpl_mmio_read8'',
    registry_op ''mmio.read16'' ''fn(Mmio,u64)->u16'' ''aligned_in_range'' PlatformDomain.Mmio CAP_MMIO Rights_READ ''tpl_mmio_read16'',
    registry_op ''mmio.read32'' ''fn(Mmio,u64)->u32'' ''aligned_in_range'' PlatformDomain.Mmio CAP_MMIO Rights_READ ''tpl_mmio_read32'',
    registry_op ''mmio.read64'' ''fn(Mmio,u64)->u64'' ''aligned_in_range'' PlatformDomain.Mmio CAP_MMIO Rights_READ ''tpl_mmio_read64'',
    registry_op ''mmio.write8'' ''fn(Mmio,u64,u8)->()'' ''aligned_in_range'' PlatformDomain.Mmio CAP_MMIO Rights_WRITE ''tpl_mmio_write8'',
    registry_op ''mmio.write16'' ''fn(Mmio,u64,u16)->()'' ''aligned_in_range'' PlatformDomain.Mmio CAP_MMIO Rights_WRITE ''tpl_mmio_write16'',
    registry_op ''mmio.write32'' ''fn(Mmio,u64,u32)->()'' ''aligned_in_range'' PlatformDomain.Mmio CAP_MMIO Rights_WRITE ''tpl_mmio_write32'',
    registry_op ''mmio.write64'' ''fn(Mmio,u64,u64)->()'' ''aligned_in_range'' PlatformDomain.Mmio CAP_MMIO Rights_WRITE ''tpl_mmio_write64'',
    registry_op ''pio.read8'' ''fn(IoPort,u16)->u8'' ''port_in_range'' PlatformDomain.Pio CAP_PIO Rights_READ ''tpl_pio_read8'',
    registry_op ''pio.read16'' ''fn(IoPort,u16)->u16'' ''port_in_range'' PlatformDomain.Pio CAP_PIO Rights_READ ''tpl_pio_read16'',
    registry_op ''pio.read32'' ''fn(IoPort,u16)->u32'' ''port_in_range'' PlatformDomain.Pio CAP_PIO Rights_READ ''tpl_pio_read32'',
    registry_op ''pio.write8'' ''fn(IoPort,u16,u8)->()'' ''port_in_range'' PlatformDomain.Pio CAP_PIO Rights_WRITE ''tpl_pio_write8'',
    registry_op ''pio.write16'' ''fn(IoPort,u16,u16)->()'' ''port_in_range'' PlatformDomain.Pio CAP_PIO Rights_WRITE ''tpl_pio_write16'',
    registry_op ''pio.write32'' ''fn(IoPort,u16,u32)->()'' ''port_in_range'' PlatformDomain.Pio CAP_PIO Rights_WRITE ''tpl_pio_write32'']"

definition device_order_operations :: "PlatformOperation list" where
  "device_order_operations = [
    registry_op ''mmio.compiler_fence'' ''fn()->()'' ''compiler_ordering_barrier'' PlatformDomain.Mmio CAP_NONE Rights_empty ''tpl_mmio_compiler_fence'',
    registry_op ''mmio.read_barrier'' ''fn()->()'' ''device_reads_before_after'' PlatformDomain.Mmio CAP_NONE Rights_empty ''tpl_mmio_read_barrier'',
    registry_op ''mmio.write_barrier'' ''fn()->()'' ''device_writes_before_after'' PlatformDomain.Mmio CAP_NONE Rights_empty ''tpl_mmio_write_barrier'',
    registry_op ''mmio.full_barrier'' ''fn()->()'' ''device_full_ordering_barrier'' PlatformDomain.Mmio CAP_NONE Rights_empty ''tpl_mmio_full_barrier'',
    registry_op ''pio.pci_config'' ''fn(IoPort,PciAddress,u32,Option<u32>)->u32'' ''bounded_pci_configuration'' PlatformDomain.Pio CAP_PIO (Rights_union Rights_READ Rights_WRITE) ''tpl_pci_config'',
    registry_op ''mmio.feature_query'' ''fn(Mmio,u32)->FeatureRecord'' ''bounded_device_feature_record'' PlatformDomain.Mmio CAP_MMIO Rights_READ ''tpl_device_feature_query'']"

definition irq_operations :: "PlatformOperation list" where
  "irq_operations = [
    registry_op ''irq.save_disable'' ''fn(CpuLocal)->IrqState'' ''cpu_local_generation'' PlatformDomain.Irq CAP_CPU_LOCAL Rights_CONTROL ''tpl_irq_save_disable'',
    registry_op ''irq.restore'' ''fn(CpuLocal,IrqState)->()'' ''matching_cpu_generation'' PlatformDomain.Irq CAP_CPU_LOCAL Rights_CONTROL ''tpl_irq_restore'',
    registry_op ''irq.mask'' ''fn(Irq)->()'' ''mask_owned_route'' PlatformDomain.Irq CAP_IRQ Rights_CONTROL ''tpl_irq_mask'',
    registry_op ''irq.unmask'' ''fn(Irq)->()'' ''unmask_owned_route'' PlatformDomain.Irq CAP_IRQ Rights_CONTROL ''tpl_irq_unmask'',
    registry_op ''irq.route'' ''fn(Irq,Cpu,u8)->()'' ''route_owned_vector'' PlatformDomain.Irq CAP_IRQ Rights_ROUTE ''tpl_irq_route'',
    registry_op ''irq.eoi'' ''fn(Irq,u8)->()'' ''ack_owned_vector'' PlatformDomain.Irq CAP_IRQ Rights_CONTROL ''tpl_irq_eoi'',
    registry_op ''irq.state_validate'' ''fn(IrqState,CpuLocal)->Result'' ''matching_cpu_single_use_generation'' PlatformDomain.Irq CAP_IRQ_STATE Rights_CONTROL ''tpl_irq_state_validate'']"

definition cpu_state_operations :: "PlatformOperation list" where
  "cpu_state_operations = [
    registry_op ''cpu.logical_id'' ''fn(Cpu)->u16'' ''stable_logical_id'' PlatformDomain.Cpu CAP_CPU Rights_READ ''tpl_cpu_logical_id'',
    registry_op ''cpu.features'' ''fn(Cpu)->FeatureBits'' ''profile_subset'' PlatformDomain.Cpu CAP_CPU Rights_READ ''tpl_cpu_features'',
    registry_op ''cpu.control_state'' ''fn(Cpu)->ControlState'' ''profile_masked_control_registers'' PlatformDomain.Cpu CAP_CPU Rights_READ ''tpl_cpu_control_state'',
    registry_op ''cpu.msr_read'' ''fn(Cpu,u32)->u64'' ''allowlisted_model_specific_register'' PlatformDomain.Cpu CAP_CPU Rights_READ ''tpl_cpu_msr_read'',
    registry_op ''cpu.msr_write'' ''fn(Cpu,u32,u64)->()'' ''allowlisted_model_specific_register'' PlatformDomain.Cpu CAP_CPU Rights_CONTROL ''tpl_cpu_msr_write'',
    registry_op ''cpu.supported_widths'' ''fn(Cpu)->WidthRecord'' ''page_and_atomic_width_subset'' PlatformDomain.Cpu CAP_CPU Rights_READ ''tpl_cpu_supported_widths'']"

definition cpu_install_operations :: "PlatformOperation list" where
  "cpu_install_operations = [
    registry_op ''cpu.install_gdt'' ''fn(CpuLocal,DescriptorTable)->()'' ''checked_gdt_install'' PlatformDomain.Cpu CAP_CPU_LOCAL Rights_CONTROL ''tpl_cpu_install_gdt'',
    registry_op ''cpu.install_idt'' ''fn(CpuLocal,DescriptorTable)->()'' ''checked_idt_install'' PlatformDomain.Cpu CAP_CPU_LOCAL Rights_CONTROL ''tpl_cpu_install_idt'',
    registry_op ''cpu.install_tss'' ''fn(CpuLocal,TssDescriptor)->()'' ''checked_per_cpu_tss_install'' PlatformDomain.Cpu CAP_CPU_LOCAL Rights_CONTROL ''tpl_cpu_install_tss'',
    registry_op ''cpu.install_syscall'' ''fn(CpuLocal,SyscallDescriptor)->()'' ''checked_syscall_msr_install'' PlatformDomain.Cpu CAP_CPU_LOCAL Rights_CONTROL ''tpl_cpu_install_syscall'',
    registry_op ''cpu.install_local'' ''fn(Cpu,CpuLocal)->()'' ''install_once'' PlatformDomain.Cpu CAP_CPU_LOCAL Rights_CONTROL ''tpl_cpu_install_local'',
    registry_op ''cpu.enter_context'' ''fn(Cpu,UserContext)->!'' ''exact_context_transition'' PlatformDomain.Cpu CAP_CPU Rights_CONTROL ''tpl_enter_context'',
    registry_op ''cpu.trap_construct'' ''fn(TrapFrame,TrapInput)->TrapRecord'' ''checked_trap_origin_and_frame'' PlatformDomain.Cpu CAP_TRAP Rights_CONTROL ''tpl_trap_construct'',
    registry_op ''cpu.context_switch'' ''fn(UserContext,UserContext)->()'' ''unique_context_owner_transition'' PlatformDomain.Cpu CAP_USER Rights_CONTROL ''tpl_context_switch'',
    registry_op ''cpu.return_kernel'' ''fn(TrapFrame)->!'' ''exact_kernel_return_frame'' PlatformDomain.Cpu CAP_TRAP Rights_CONTROL ''tpl_return_kernel'',
    registry_op ''cpu.return_user'' ''fn(UserContext)->!'' ''exact_user_return_frame'' PlatformDomain.Cpu CAP_USER Rights_CONTROL ''tpl_return_user'']"

definition cpu_idle_and_atomic_operations :: "PlatformOperation list" where
  "cpu_idle_and_atomic_operations = [
    registry_op ''cpu.pause'' ''fn(Cpu)->()'' ''bounded_spin_hint'' PlatformDomain.Cpu CAP_CPU Rights_CONTROL ''tpl_cpu_pause'',
    registry_op ''cpu.halt_interruptible'' ''fn(Cpu)->()'' ''interrupt_aware_idle'' PlatformDomain.Cpu CAP_CPU Rights_CONTROL ''tpl_cpu_halt_interruptible'',
    registry_op ''cpu.rendezvous'' ''fn(Cpu,u64)->()'' ''bounded_architecture_rendezvous'' PlatformDomain.Cpu CAP_CPU Rights_CONTROL ''tpl_cpu_rendezvous'',
    registry_op ''atomic.load'' ''fn(Atomic,Ordering)->u64'' ''legal_load_order'' PlatformDomain.Atomic CAP_PHYS Rights_READ ''tpl_atomic_load'',
    registry_op ''atomic.store'' ''fn(Atomic,u64,Ordering)->()'' ''legal_store_order'' PlatformDomain.Atomic CAP_PHYS Rights_WRITE ''tpl_atomic_store'',
    registry_op ''atomic.swap'' ''fn(Atomic,u64,Ordering)->u64'' ''modification_order'' PlatformDomain.Atomic CAP_PHYS (Rights_union Rights_READ Rights_WRITE) ''tpl_atomic_swap'',
    registry_op ''atomic.compare_exchange'' ''fn(Atomic,u64,u64,Ordering,Ordering)->Cas'' ''legal_cas_orders'' PlatformDomain.Atomic CAP_PHYS (Rights_union Rights_READ Rights_WRITE) ''tpl_atomic_compare_exchange'',
    registry_op ''atomic.compare_exchange_weak'' ''fn(Atomic,u64,u64,Ordering,Ordering)->Cas'' ''legal_cas_orders_and_spurious_failure'' PlatformDomain.Atomic CAP_PHYS (Rights_union Rights_READ Rights_WRITE) ''tpl_atomic_compare_exchange_weak'',
    registry_op ''atomic.fetch'' ''fn(Atomic,FetchOp,u64,Ordering)->u64'' ''modification_order'' PlatformDomain.Atomic CAP_PHYS (Rights_union Rights_READ Rights_WRITE) ''tpl_atomic_fetch'',
    registry_op ''atomic.compiler_fence'' ''fn(Ordering)->()'' ''legal_compiler_fence_order'' PlatformDomain.Atomic CAP_NONE Rights_empty ''tpl_atomic_compiler_fence'',
    registry_op ''atomic.hardware_fence'' ''fn(Ordering)->()'' ''legal_hardware_fence_order'' PlatformDomain.Atomic CAP_NONE Rights_empty ''tpl_atomic_hardware_fence'']"

definition smp_operations :: "PlatformOperation list" where
  "smp_operations = [
    registry_op ''smp.discover'' ''fn(CpuSet)->Topology'' ''unique_stable_ids'' PlatformDomain.Smp CAP_CPU_SET Rights_READ ''tpl_smp_discover'',
    registry_op ''smp.start'' ''fn(Cpu,CpuLocal)->StartResult'' ''monotonic_lifecycle'' PlatformDomain.Smp CAP_CPU Rights_CONTROL ''tpl_smp_start'',
    registry_op ''smp.ipi'' ''fn(CpuSet,u8,u64)->()'' ''epoch_targets_exact'' PlatformDomain.Smp CAP_CPU_SET Rights_CONTROL ''tpl_smp_ipi'',
    registry_op ''smp.rendezvous'' ''fn(CpuSet,u64)->AckMask'' ''epoch_ack_exact'' PlatformDomain.Smp CAP_CPU_SET Rights_CONTROL ''tpl_smp_rendezvous'',
    registry_op ''smp.online_snapshot'' ''fn(CpuSet)->OnlineSnapshot'' ''release_acquire_online_mask'' PlatformDomain.Smp CAP_CPU_SET Rights_READ ''tpl_smp_online_snapshot'',
    registry_op ''smp.stop_request'' ''fn(CpuSet,u64)->AckMask'' ''epoch_correlated_stop_ack'' PlatformDomain.Smp CAP_CPU_SET Rights_CONTROL ''tpl_smp_stop_request'',
    registry_op ''smp.shootdown'' ''fn(CpuSet,u64,u64,u64)->AckMask'' ''mapping_epoch_exact'' PlatformDomain.Smp CAP_CPU_SET Rights_CONTROL ''tpl_smp_shootdown'']"

definition dma_operations :: "PlatformOperation list" where
  "dma_operations = [
    registry_op ''dma.pin'' ''fn(Dma,PhysRegion)->DmaMapping'' ''device_domain_generation'' PlatformDomain.Dma CAP_DMA Rights_TRANSFER ''tpl_dma_pin'',
    registry_op ''dma.domain_create'' ''fn(IommuDomain,Device,Aperture)->Domain'' ''device_aperture_exact'' PlatformDomain.Dma CAP_IOMMU Rights_MAP ''tpl_dma_domain_create'',
    registry_op ''dma.map'' ''fn(IommuDomain,DmaMapping,u64)->Segments'' ''iommu_or_identity_domain_exact'' PlatformDomain.Dma CAP_IOMMU Rights_MAP ''tpl_dma_map'',
    registry_op ''dma.segments'' ''fn(DmaMapping)->Segments'' ''device_visible_segments_exact'' PlatformDomain.Dma CAP_DMA Rights_READ ''tpl_dma_segments'',
    registry_op ''dma.sync'' ''fn(DmaMapping,Direction)->()'' ''coherence_transition'' PlatformDomain.Dma CAP_DMA Rights_CONTROL ''tpl_dma_sync'',
    registry_op ''dma.unmap'' ''fn(IommuDomain,DmaMapping)->Segments'' ''consume_domain_mapping'' PlatformDomain.Dma CAP_IOMMU Rights_MAP ''tpl_dma_unmap'',
    registry_op ''dma.unpin'' ''fn(DmaMapping)->()'' ''consume_generation'' PlatformDomain.Dma CAP_DMA Rights_TRANSFER ''tpl_dma_unpin'']"

definition service_operations :: "PlatformOperation list" where
  "service_operations = [
    source_op (registry_op ''clock.read'' ''fn(Clock)->Instant'' ''monotonic_with_error'' PlatformDomain.Clock CAP_CLOCK Rights_READ ''tpl_clock_read'')
      ''2a1b32cc68f553037a9d886f1d87aef36120a4a1b96b49534eb334e4ea62378c'',
    registry_op ''clock.arm'' ''fn(Clock,Cpu,u64)->()'' ''per_cpu_deadline'' PlatformDomain.Clock CAP_CLOCK Rights_CONTROL ''tpl_clock_arm'',
    registry_op ''clock.cancel'' ''fn(Clock,Cpu)->()'' ''cancel_current_per_cpu_deadline'' PlatformDomain.Clock CAP_CLOCK Rights_CONTROL ''tpl_clock_cancel'',
    registry_op ''entropy.fill'' ''fn(Entropy,&mut[u8])->Result'' ''exact_or_failure'' PlatformDomain.Entropy CAP_ENTROPY Rights_READ ''tpl_entropy_fill'',
    registry_op ''power.reboot'' ''fn(Power)->!'' ''terminal_reboot'' PlatformDomain.Power CAP_POWER Rights_CONTROL ''tpl_power_reboot'',
    registry_op ''power.off'' ''fn(Power)->!'' ''terminal_poweroff'' PlatformDomain.Power CAP_POWER Rights_CONTROL ''tpl_power_off'',
    registry_op ''power.halt'' ''fn(Power)->!'' ''terminal_halt'' PlatformDomain.Power CAP_POWER Rights_CONTROL ''tpl_power_halt'']"

definition runtime_operations :: "PlatformOperation list" where
  "runtime_operations = [
    registry_op ''runtime.memcpy'' ''fn(*mut u8,*const u8,usize)->*mut u8'' ''exact_nonoverlap'' PlatformDomain.Boot CAP_NONE Rights_empty ''memcpy'',
    registry_op ''runtime.memmove'' ''fn(*mut u8,*const u8,usize)->*mut u8'' ''exact_overlap'' PlatformDomain.Boot CAP_NONE Rights_empty ''memmove'',
    registry_op ''runtime.memset'' ''fn(*mut u8,u8,usize)->*mut u8'' ''exact_fill'' PlatformDomain.Boot CAP_NONE Rights_empty ''memset'',
    registry_op ''runtime.panic'' ''fn(PanicInfo)->!'' ''terminal_named_panic'' PlatformDomain.Boot CAP_NONE Rights_empty ''tpl_runtime_panic'',
    registry_op ''runtime.contract_violation'' ''fn(ContractFailure)->!'' ''terminal_named_contract_failure'' PlatformDomain.Boot CAP_NONE Rights_empty ''tpl_contract_violation'',
    registry_op ''runtime.allocation_failure'' ''fn(Layout)->!'' ''terminal_named_allocation_failure'' PlatformDomain.Boot CAP_NONE Rights_empty ''tpl_allocation_failure'',
    registry_op ''runtime.stack_probe'' ''fn(usize)->()'' ''bounded_stack_probe'' PlatformDomain.Boot CAP_NONE Rights_empty ''tpl_stack_probe'',
    registry_op ''runtime.terminal_fault'' ''fn(FaultRecord)->!'' ''terminal_named_platform_fault'' PlatformDomain.Boot CAP_NONE Rights_empty ''tpl_terminal_fault'']"

definition X86_64_PC_UEFI_SMP_V1_OPERATION_COUNT :: nat where
  "X86_64_PC_UEFI_SMP_V1_OPERATION_COUNT = 104"

definition X86_64_PC_UEFI_SMP_V1 :: "PlatformOperation list" where
  "X86_64_PC_UEFI_SMP_V1 =
     frame_operations @ space_operations @ device_access_operations @ device_order_operations
     @ irq_operations @ cpu_state_operations @ cpu_install_operations @ cpu_idle_and_atomic_operations
     @ smp_operations @ dma_operations @ service_operations @ runtime_operations"


section \<open>Names, look-up and drift\<close>

definition canonical_memory_and_devices :: "(string \<times> string) list" where
  "canonical_memory_and_devices = [
    (''boot.handoff'', ''kernel::boot::handoff@v1''),
    (''memory.frame_split'', ''kernel::memory::frame_split@v1''),
    (''memory.frame_join'', ''kernel::memory::frame_join@v1''),
    (''memory.frame_zero'', ''kernel::memory::frame_zero@v1''),
    (''memory.frame_query'', ''kernel::memory::frame_query@v1''),
    (''memory.frame_lend'', ''kernel::memory::frame_lend@v1''),
    (''memory.frame_reclaim'', ''kernel::memory::frame_reclaim@v1''),
    (''memory.temporary_map'', ''kernel::memory::temporary_map@v1''),
    (''memory.temporary_revoke'', ''kernel::memory::temporary_revoke@v1''),
    (''memory.space_create'', ''kernel::memory::space_create@v1''),
    (''memory.map'', ''kernel::memory::map@v1''),
    (''memory.unmap'', ''kernel::memory::unmap@v1''),
    (''memory.protect'', ''kernel::memory::protect@v1''),
    (''memory.activate'', ''kernel::memory::activate@v1''),
    (''memory.inspect'', ''kernel::memory::inspect@v1''),
    (''memory.destroy'', ''kernel::memory::destroy@v1''),
    (''memory.translation_validate'', ''kernel::memory::translation_validate@v1''),
    (''memory.tlb_local'', ''kernel::memory::tlb_local@v1''),
    (''memory.tlb_space'', ''kernel::memory::tlb_space@v1''),
    (''memory.user_copy_in'', ''kernel::memory::user_copy_in@v1''),
    (''memory.user_copy_out'', ''kernel::memory::user_copy_out@v1''),
    (''mmio.read8'', ''kernel::mmio::read8@v1''),
    (''mmio.read16'', ''kernel::mmio::read16@v1''),
    (''mmio.read32'', ''kernel::mmio::read32@v1''),
    (''mmio.read64'', ''kernel::mmio::read64@v1''),
    (''mmio.write8'', ''kernel::mmio::write8@v1''),
    (''mmio.write16'', ''kernel::mmio::write16@v1''),
    (''mmio.write32'', ''kernel::mmio::write32@v1''),
    (''mmio.write64'', ''kernel::mmio::write64@v1''),
    (''mmio.compiler_fence'', ''kernel::mmio::compiler_fence@v1''),
    (''mmio.read_barrier'', ''kernel::mmio::read_barrier@v1''),
    (''mmio.write_barrier'', ''kernel::mmio::write_barrier@v1''),
    (''mmio.full_barrier'', ''kernel::mmio::full_barrier@v1''),
    (''mmio.feature_query'', ''kernel::mmio::feature_query@v1''),
    (''pio.read8'', ''kernel::pio::read8@v1''),
    (''pio.read16'', ''kernel::pio::read16@v1''),
    (''pio.read32'', ''kernel::pio::read32@v1''),
    (''pio.write8'', ''kernel::pio::write8@v1''),
    (''pio.write16'', ''kernel::pio::write16@v1''),
    (''pio.write32'', ''kernel::pio::write32@v1''),
    (''pio.pci_config'', ''kernel::pio::pci_config@v1''),
    (''irq.save_disable'', ''kernel::irq::save_disable@v1''),
    (''irq.restore'', ''kernel::irq::restore@v1''),
    (''irq.mask'', ''kernel::irq::mask@v1''),
    (''irq.unmask'', ''kernel::irq::unmask@v1''),
    (''irq.route'', ''kernel::irq::route@v1''),
    (''irq.eoi'', ''kernel::irq::eoi@v1''),
    (''irq.state_validate'', ''kernel::irq::state_validate@v1'')]"

definition canonical_processors_and_services :: "(string \<times> string) list" where
  "canonical_processors_and_services = [
    (''cpu.logical_id'', ''kernel::cpu::logical_id@v1''),
    (''cpu.features'', ''kernel::cpu::features@v1''),
    (''cpu.control_state'', ''kernel::cpu::control_state@v1''),
    (''cpu.msr_read'', ''kernel::cpu::msr_read@v1''),
    (''cpu.msr_write'', ''kernel::cpu::msr_write@v1''),
    (''cpu.supported_widths'', ''kernel::cpu::supported_widths@v1''),
    (''cpu.install_gdt'', ''kernel::cpu::install_gdt@v1''),
    (''cpu.install_idt'', ''kernel::cpu::install_idt@v1''),
    (''cpu.install_tss'', ''kernel::cpu::install_tss@v1''),
    (''cpu.install_syscall'', ''kernel::cpu::install_syscall@v1''),
    (''cpu.install_local'', ''kernel::cpu::install_local@v1''),
    (''cpu.enter_context'', ''kernel::cpu::enter_context@v1''),
    (''cpu.trap_construct'', ''kernel::cpu::trap_construct@v1''),
    (''cpu.context_switch'', ''kernel::cpu::context_switch@v1''),
    (''cpu.return_kernel'', ''kernel::cpu::return_kernel@v1''),
    (''cpu.return_user'', ''kernel::cpu::return_user@v1''),
    (''cpu.pause'', ''kernel::cpu::pause@v1''),
    (''cpu.halt_interruptible'', ''kernel::cpu::halt_interruptible@v1''),
    (''cpu.rendezvous'', ''kernel::cpu::rendezvous@v1''),
    (''atomic.load'', ''kernel::atomic::load@v1''),
    (''atomic.store'', ''kernel::atomic::store@v1''),
    (''atomic.swap'', ''kernel::atomic::swap@v1''),
    (''atomic.compare_exchange'', ''kernel::atomic::compare_exchange@v1''),
    (''atomic.compare_exchange_weak'', ''kernel::atomic::compare_exchange_weak@v1''),
    (''atomic.fetch'', ''kernel::atomic::fetch@v1''),
    (''atomic.compiler_fence'', ''kernel::atomic::compiler_fence@v1''),
    (''atomic.hardware_fence'', ''kernel::atomic::hardware_fence@v1''),
    (''smp.discover'', ''kernel::smp::discover@v1''),
    (''smp.start'', ''kernel::smp::start@v1''),
    (''smp.ipi'', ''kernel::smp::ipi@v1''),
    (''smp.rendezvous'', ''kernel::smp::rendezvous@v1''),
    (''smp.online_snapshot'', ''kernel::smp::online_snapshot@v1''),
    (''smp.stop_request'', ''kernel::smp::stop_request@v1''),
    (''smp.shootdown'', ''kernel::smp::shootdown@v1''),
    (''dma.pin'', ''kernel::dma::pin@v1''),
    (''dma.domain_create'', ''kernel::dma::domain_create@v1''),
    (''dma.map'', ''kernel::dma::map@v1''),
    (''dma.segments'', ''kernel::dma::segments@v1''),
    (''dma.sync'', ''kernel::dma::sync@v1''),
    (''dma.unmap'', ''kernel::dma::unmap@v1''),
    (''dma.unpin'', ''kernel::dma::unpin@v1''),
    (''clock.read'', ''kernel::clock::read@v1''),
    (''clock.arm'', ''kernel::clock::arm@v1''),
    (''clock.cancel'', ''kernel::clock::cancel@v1''),
    (''entropy.fill'', ''kernel::entropy::fill@v1''),
    (''power.reboot'', ''kernel::power::reboot@v1''),
    (''power.off'', ''kernel::power::off@v1''),
    (''power.halt'', ''kernel::power::halt@v1''),
    (''runtime.memcpy'', ''kernel::boot::memcpy@v1''),
    (''runtime.memmove'', ''kernel::boot::memmove@v1''),
    (''runtime.memset'', ''kernel::boot::memset@v1''),
    (''runtime.panic'', ''kernel::boot::panic@v1''),
    (''runtime.contract_violation'', ''kernel::boot::contract_violation@v1''),
    (''runtime.allocation_failure'', ''kernel::boot::allocation_failure@v1''),
    (''runtime.stack_probe'', ''kernel::boot::stack_probe@v1''),
    (''runtime.terminal_fault'', ''kernel::boot::terminal_fault@v1'')]"

definition canonical_name :: "string \<Rightarrow> string" where
  "canonical_name key =
     (case map_of (canonical_memory_and_devices @ canonical_processors_and_services) key of
        Some n \<Rightarrow> n | None \<Rightarrow> ''kernel::invalid@v1'')"

definition operation_name :: "PlatformOperation \<Rightarrow> string" where
  "operation_name p = canonical_name (po_key p)"

definition exact_match :: "PlatformOperation \<Rightarrow> PlatformOperation \<Rightarrow> (unit, RegistryError) result" where
  "exact_match p candidate =
     (if po_key p \<noteq> po_key candidate then Err UnknownName
      else if po_signature p \<noteq> po_signature candidate then Err SignatureDrift
      else if po_contract p \<noteq> po_contract candidate then Err ContractDrift
      else if po_domain p \<noteq> po_domain candidate then Err DomainDrift
      else if po_capability p \<noteq> po_capability candidate then Err CapabilityDrift
      else if po_rights p \<noteq> po_rights candidate then Err RightsDrift
      else if po_symbol p \<noteq> po_symbol candidate then Err SymbolDrift
      else if po_source_contract_sha256 p \<noteq> po_source_contract_sha256 candidate then Err SourceContractDrift
      else if po_source_reachable p \<noteq> po_source_reachable candidate then Err ReachabilityDrift
      else if po_secondary_domains p \<noteq> po_secondary_domains candidate
        \<or> po_abi p \<noteq> po_abi candidate \<or> po_alignment p \<noteq> po_alignment candidate
        \<or> po_ownership p \<noteq> po_ownership candidate \<or> po_model p \<noteq> po_model candidate
        \<or> po_concurrency p \<noteq> po_concurrency candidate \<or> po_failure p \<noteq> po_failure candidate
        \<or> po_evidence p \<noteq> po_evidence candidate
      then Err MetadataDrift
      else Ok ())"

text \<open>The loop of \<open>lookup\<close>: it remembers the first hit and fails on a second one.\<close>

fun lookup_loop :: "PlatformOperation list \<Rightarrow> string \<Rightarrow> PlatformOperation option \<Rightarrow> (PlatformOperation, RegistryError) result" where
  "lookup_loop [] name found = ok_or found UnknownName"
| "lookup_loop (entry # entries) name found =
     (if operation_name entry = name
      then (if found \<noteq> None then Err DuplicateName else lookup_loop entries name (Some entry))
      else lookup_loop entries name found)"

definition registry_lookup :: "string \<Rightarrow> (PlatformOperation, RegistryError) result" where
  "registry_lookup name = lookup_loop X86_64_PC_UEFI_SMP_V1 name None"

section \<open>Unique names\<close>

definition canonical_names :: "(string \<times> string) list" where
  "canonical_names = canonical_memory_and_devices @ canonical_processors_and_services"

lemmas canonical_names_list =
  canonical_names_def canonical_memory_and_devices_def canonical_processors_and_services_def

lemmas profile_list =
  X86_64_PC_UEFI_SMP_V1_def frame_operations_def space_operations_def device_access_operations_def
  device_order_operations_def irq_operations_def cpu_state_operations_def cpu_install_operations_def
  cpu_idle_and_atomic_operations_def smp_operations_def dma_operations_def service_operations_def
  runtime_operations_def

lemma canonical_keys_distinct: "distinct (map fst canonical_names)"
  by (simp add: canonical_names_list)

text \<open>All canonical names start with \<open>kernel::\<close>; the rest tells them apart.\<close>

lemma canonical_names_distinct: "distinct (map snd canonical_names)"
proof -
  have "distinct (map (drop 8) (map snd canonical_names))"
    by (simp add: canonical_names_list)
  then show ?thesis by (simp only: distinct_map)
qed

lemma canonical_names_length: "length canonical_names = 104"
  by (simp add: canonical_names_list)

lemma canonical_name_of: "(k, n) \<in> set canonical_names \<Longrightarrow> canonical_name k = n"
  using map_of_is_SomeI [OF canonical_keys_distinct, of k n]
  by (simp add: canonical_name_def flip: canonical_names_def)

text \<open>The order in which the profile lists the keys of the name table.\<close>

definition profile_order :: "nat list" where
  "profile_order = 0 # 1 # [2..<29] @ [34..<40] @ [29..<33] @ [40, 33] @ [41..<104]"

lemma profile_order_ok: "distinct profile_order" "\<forall>i\<in>set profile_order. i < 104"
  by (auto simp: profile_order_def)

lemma profile_keys: "map po_key X86_64_PC_UEFI_SMP_V1 = map (\<lambda>i. fst (canonical_names ! i)) profile_order"
proof -
  have "map (\<lambda>i. fst (canonical_names ! i)) profile_order
      = map ((!) (map fst canonical_names)) profile_order"
    using profile_order_ok(2) by (simp add: canonical_names_length)
  also have "\<dots> = map po_key X86_64_PC_UEFI_SMP_V1"
    by (simp add: profile_order_def canonical_names_list profile_list registry_op_def source_op_def upt_rec_numeral)
  finally show ?thesis by (rule sym)
qed

lemma profile_names:
  "map operation_name X86_64_PC_UEFI_SMP_V1 = map (\<lambda>i. snd (canonical_names ! i)) profile_order"
proof -
  have "map operation_name X86_64_PC_UEFI_SMP_V1 = map canonical_name (map po_key X86_64_PC_UEFI_SMP_V1)"
    by (simp add: operation_name_def)
  also have "\<dots> = map (\<lambda>i. canonical_name (fst (canonical_names ! i))) profile_order"
    by (simp add: profile_keys)
  also have "\<dots> = map (\<lambda>i. snd (canonical_names ! i)) profile_order"
    using profile_order_ok(2) by (auto simp: canonical_names_length intro!: canonical_name_of nth_mem)
  finally show ?thesis .
qed

lemma profile_names_distinct: "distinct (map operation_name X86_64_PC_UEFI_SMP_V1)"
proof -
  have "inj_on (\<lambda>i. snd (canonical_names ! i)) (set profile_order)"
  proof (rule inj_onI)
    fix i j assume "i \<in> set profile_order" "j \<in> set profile_order"
      and eq: "snd (canonical_names ! i) = snd (canonical_names ! j)"
    then have ij: "i < length canonical_names" "j < length canonical_names"
      using profile_order_ok(2) by (auto simp: canonical_names_length)
    show "i = j"
      using nth_eq_iff_index_eq [OF canonical_names_distinct, of i j] ij eq by simp
  qed
  then show ?thesis
    using profile_order_ok(1) by (simp add: profile_names distinct_map)
qed

lemma profile_length: "length X86_64_PC_UEFI_SMP_V1 = X86_64_PC_UEFI_SMP_V1_OPERATION_COUNT"
proof -
  have "length X86_64_PC_UEFI_SMP_V1 = length profile_order"
    using arg_cong [OF profile_keys, of length] by simp
  then show ?thesis by (simp add: profile_order_def X86_64_PC_UEFI_SMP_V1_OPERATION_COUNT_def)
qed


section \<open>Look-up\<close>

lemma lookup_loop_found:
  "distinct (map operation_name es) \<Longrightarrow> name \<notin> operation_name ` set es \<Longrightarrow>
   lookup_loop es name (Some p) = Ok p"
  by (induction es) auto

lemma lookup_loop_Ok_iff:
  "distinct (map operation_name es) \<Longrightarrow>
   lookup_loop es name None = Ok p \<longleftrightarrow> p \<in> set es \<and> operation_name p = name"
proof (induction es)
  case (Cons e es)
  show ?case
  proof (cases "operation_name e = name")
    case True
    then have "lookup_loop es name (Some e) = Ok e" "\<forall>x\<in>set es. operation_name x \<noteq> name"
      using Cons.prems by (auto intro: lookup_loop_found rev_image_eqI)
    then show ?thesis using True by auto
  qed (use Cons in auto)
qed simp

lemma lookup_loop_no_duplicate:
  "distinct (map operation_name es) \<Longrightarrow> lookup_loop es name None \<noteq> Err DuplicateName"
proof (induction es)
  case (Cons e es)
  show ?case
  proof (cases "operation_name e = name")
    case True
    then have "lookup_loop es name (Some e) = Ok e" "\<forall>x\<in>set es. operation_name x \<noteq> name"
      using Cons.prems by (auto intro: lookup_loop_found rev_image_eqI)
    then show ?thesis using True by auto
  qed (use Cons in auto)
qed simp

lemma exact_match_Ok_iff: "exact_match p q = Ok () \<longleftrightarrow> p = q"
  by (cases p; cases q) (auto simp: exact_match_def)

lemma rights_need_capability:
  "list_all (\<lambda>p. po_capability p = None \<longleftrightarrow> po_rights p = Rights_empty) X86_64_PC_UEFI_SMP_V1"
  by (simp add: profile_list registry_op_def source_op_def Rights_empty_def Rights_READ_def Rights_WRITE_def
      Rights_MAP_def Rights_CONTROL_def Rights_TRANSFER_def Rights_ROUTE_def Rights_union_def
      CAP_NONE_def CAP_BOOT_def CAP_CPU_def CAP_CPU_SET_def CAP_CPU_LOCAL_def CAP_PHYS_def CAP_FRAME_def
      CAP_SPACE_def CAP_VIRT_def CAP_MMIO_def CAP_PIO_def CAP_IRQ_def CAP_IRQ_STATE_def CAP_TRAP_def
      CAP_USER_def CAP_DMA_def CAP_IOMMU_def CAP_CLOCK_def CAP_ENTROPY_def CAP_POWER_def)

text \<open>
  The frozen profile is what it announces and is looked up exactly. It has exactly the
  declared number of operations; a name is found if and only if an entry has it, and then that
  entry is returned, never a duplicate error; the drift check accepts only an identical entry; and
  an entry asks for rights if and only if it names the capability that must carry them.
\<close>

lemma registry_lookup_exact:
  "length X86_64_PC_UEFI_SMP_V1 = X86_64_PC_UEFI_SMP_V1_OPERATION_COUNT
   \<and> (registry_lookup name = Ok p \<longleftrightarrow> p \<in> set X86_64_PC_UEFI_SMP_V1 \<and> operation_name p = name)
   \<and> registry_lookup name \<noteq> Err DuplicateName
   \<and> (exact_match p q = Ok () \<longleftrightarrow> p = q)
   \<and> list_all (\<lambda>p. po_capability p = None \<longleftrightarrow> po_rights p = Rights_empty) X86_64_PC_UEFI_SMP_V1"
  using profile_length lookup_loop_Ok_iff [OF profile_names_distinct, of name p]
    lookup_loop_no_duplicate [OF profile_names_distinct, of name] exact_match_Ok_iff rights_need_capability
  by (simp add: registry_lookup_def)

end
