(* ===== verification/Kernel_Boundary.thy ===== *)
theory Kernel_Boundary
  imports Kernel_Registry
begin

text \<open>
  The closure check of \<open>thermite-kernel/src/boundary.rs\<close>: a program's platform boundary is the
  list of the platform operations it declares, and \<open>close\<close> accepts it only if every declaration
  agrees with the frozen registry. The lemmas characterise exactly which declarations are
  accepted, and the inventory that is returned.
\<close>

record BoundaryDeclaration =
  bd_name :: string
  bd_signature :: string
  bd_contract :: string
  bd_domain :: PlatformDomain
  bd_capability :: "CapabilityKind option"
  bd_rights :: Rights
  bd_symbol :: string
  bd_source_contract_sha256 :: "string option"
  bd_source_reachable :: bool

datatype ClosureError =
    Registry RegistryError | DuplicateDeclaration | MissingReachableEntry | UnreachableFrozenEntry

record BoundaryInventory =
  bi_names :: "string list"

definition drift :: "PlatformOperation \<Rightarrow> BoundaryDeclaration \<Rightarrow> RegistryError option" where
  "drift registered declaration =
     (if po_signature registered \<noteq> bd_signature declaration then Some SignatureDrift
      else if po_contract registered \<noteq> bd_contract declaration then Some ContractDrift
      else if po_domain registered \<noteq> bd_domain declaration then Some DomainDrift
      else if po_capability registered \<noteq> bd_capability declaration then Some CapabilityDrift
      else if po_rights registered \<noteq> bd_rights declaration then Some RightsDrift
      else if po_symbol registered \<noteq> bd_symbol declaration then Some SymbolDrift
      else if po_source_contract_sha256 registered \<noteq> bd_source_contract_sha256 declaration
      then Some SourceContractDrift
      else if po_source_reachable registered \<noteq> bd_source_reachable declaration then Some ReachabilityDrift
      else None)"

text \<open>The loop over the declarations; \<open>names\<close> is the \<open>BTreeSet\<close> of the names seen so far.\<close>

fun close_loop :: "BoundaryDeclaration list \<Rightarrow> string set \<Rightarrow> (string set, ClosureError) result" where
  "close_loop [] names = Ok names"
| "close_loop (declaration # rest) names =
     (if bd_name declaration \<in> names then Err DuplicateDeclaration
      else case registry_lookup (bd_name declaration) of
        Err e \<Rightarrow> Err (Registry e)
      | Ok registered \<Rightarrow>
          (case drift registered declaration of
             Some e \<Rightarrow> Err (Registry e)
           | None \<Rightarrow> close_loop rest (insert (bd_name declaration) names)))"

definition boundary_close ::
    "BoundaryDeclaration list \<Rightarrow> bool \<Rightarrow> (BoundaryInventory, ClosureError) result" where
  "boundary_close declarations require_complete_profile =
     (case close_loop declarations {} of
        Err e \<Rightarrow> Err e
      | Ok names \<Rightarrow>
          if declarations = [] then Err MissingReachableEntry
          else if require_complete_profile
            \<and> list_ex (\<lambda>entry. po_source_reachable entry \<and> operation_name entry \<notin> names)
                X86_64_PC_UEFI_SMP_V1
          then Err UnreachableFrozenEntry
          else Ok \<lparr>bi_names = sorted_list_of_set names\<rparr>)"


section \<open>Closure is exact\<close>

text \<open>The declaration a registry entry stands for.\<close>

definition declaration_of :: "PlatformOperation \<Rightarrow> BoundaryDeclaration" where
  "declaration_of p =
     \<lparr>bd_name = operation_name p, bd_signature = po_signature p, bd_contract = po_contract p,
      bd_domain = po_domain p, bd_capability = po_capability p, bd_rights = po_rights p,
      bd_symbol = po_symbol p, bd_source_contract_sha256 = po_source_contract_sha256 p,
      bd_source_reachable = po_source_reachable p\<rparr>"

lemma drift_None_iff:
  "operation_name p = bd_name d \<Longrightarrow> drift p d = None \<longleftrightarrow> d = declaration_of p"
  by (cases d) (auto simp: drift_def declaration_of_def)

lemma registry_lookup_Ok_iff:
  "registry_lookup name = Ok p \<longleftrightarrow> p \<in> set X86_64_PC_UEFI_SMP_V1 \<and> operation_name p = name"
  unfolding registry_lookup_def by (rule lookup_loop_Ok_iff [OF profile_names_distinct])

lemma declared_iff:
  "(\<exists>p. registry_lookup (bd_name d) = Ok p \<and> drift p d = None)
     \<longleftrightarrow> d \<in> declaration_of ` set X86_64_PC_UEFI_SMP_V1"
proof
  assume "d \<in> declaration_of ` set X86_64_PC_UEFI_SMP_V1"
  then obtain p where "p \<in> set X86_64_PC_UEFI_SMP_V1" "d = declaration_of p" by blast
  then show "\<exists>p. registry_lookup (bd_name d) = Ok p \<and> drift p d = None"
    by (auto simp: registry_lookup_Ok_iff drift_def declaration_of_def)
qed (auto simp: registry_lookup_Ok_iff drift_None_iff)

lemma close_loop_Cons_Ok_iff:
  "close_loop (d # ds) names = Ok ns \<longleftrightarrow>
     bd_name d \<notin> names \<and> d \<in> declaration_of ` set X86_64_PC_UEFI_SMP_V1
     \<and> close_loop ds (insert (bd_name d) names) = Ok ns"
  unfolding declared_iff [symmetric] by (auto split: result.splits option.splits)

lemma close_loop_Ok_iff:
  "close_loop ds names = Ok ns \<longleftrightarrow>
     distinct (map bd_name ds) \<and> set ds \<subseteq> declaration_of ` set X86_64_PC_UEFI_SMP_V1
     \<and> bd_name ` set ds \<inter> names = {} \<and> ns = names \<union> bd_name ` set ds"
proof (induction ds arbitrary: names)
  case (Cons d ds)
  show ?case unfolding close_loop_Cons_Ok_iff Cons.IH by auto
qed auto

text \<open>
  C20: the platform boundary closes exactly on the frozen profile. A list of declarations is
  accepted if and only if it is not empty, repeats no name, and consists of declarations that
  agree with registry entries in every declared field; and, when the complete profile is required,
  names every entry reachable from the source. The inventory returned lists exactly the declared
  names, in ascending order.
\<close>

theorem boundary_close_exact:
  "boundary_close ds complete = Ok inventory \<longleftrightarrow>
     ds \<noteq> [] \<and> distinct (map bd_name ds) \<and> set ds \<subseteq> declaration_of ` set X86_64_PC_UEFI_SMP_V1
     \<and> (complete \<longrightarrow> list_all (\<lambda>p. po_source_reachable p \<longrightarrow> operation_name p \<in> bd_name ` set ds) X86_64_PC_UEFI_SMP_V1)
     \<and> inventory = \<lparr>bi_names = sort (map bd_name ds)\<rparr>"
proof (cases "close_loop ds {}")
  case (Ok ns)
  then have ds: "distinct (map bd_name ds)" "set ds \<subseteq> declaration_of ` set X86_64_PC_UEFI_SMP_V1"
    "ns = bd_name ` set ds"
    by (simp_all add: close_loop_Ok_iff)
  have "sorted_list_of_set ns = sort (map bd_name ds)"
    using ds(1,3) sorted_list_of_set_sort_remdups [of "map bd_name ds"]
    by (simp add: distinct_remdups_id)
  then show ?thesis
    using Ok ds by (auto simp: boundary_close_def list_ex_iff list_all_iff)
next
  case (Err e)
  then have "\<not> (distinct (map bd_name ds) \<and> set ds \<subseteq> declaration_of ` set X86_64_PC_UEFI_SMP_V1)"
    using close_loop_Ok_iff [of ds "{}"] by auto
  then show ?thesis using Err by (auto simp: boundary_close_def)
qed

text \<open>The one entry reachable from the source, declared alone, closes the complete profile.\<close>

definition clock_read :: PlatformOperation where
  "clock_read = hd service_operations"

theorem boundary_close_exact_witness:
  "boundary_close [declaration_of clock_read] True = Ok \<lparr>bi_names = [operation_name clock_read]\<rparr>"
proof -
  have "clock_read \<in> set X86_64_PC_UEFI_SMP_V1"
    by (simp add: X86_64_PC_UEFI_SMP_V1_def clock_read_def service_operations_def)
  moreover have "list_all (\<lambda>p. po_source_reachable p \<longrightarrow> operation_name p \<in> {operation_name clock_read})
      X86_64_PC_UEFI_SMP_V1"
    by (simp add: profile_list clock_read_def registry_op_def source_op_def)
  ultimately show ?thesis
    using boundary_close_exact [of "[declaration_of clock_read]" True "\<lparr>bi_names = [operation_name clock_read]\<rparr>"]
    by (simp add: declaration_of_def)
qed

end
