(* ===== verification/Syntax_Ast.thy ===== *)
theory Syntax_Ast
  imports Kernel_Prelude
begin

text \<open>
  The abstract syntax of \<open>thermite-syntax/src/ast.rs\<close>: expressions, statements, patterns, clauses,
  contracts, effect rows and items, with the constructors and the field order of the source. Rust
  structs inside the recursive family are one-constructor datatypes with named selectors; the
  small node types take the type of the expressions they hold as a parameter.
\<close>

type_synonym Ident = string

record Span =
  sp_start :: nat
  sp_len :: nat

datatype PrimType = U8 | U16 | U32 | U64 | Usize | Bool

datatype (plugins only: code size) Type =
    Prim PrimType | Unit | Ref bool Type | Slice Type | Generic Ident Type | Named Ident | Box Type
  | Vec Type | String | Option Type | Result Type Type | Map Type Type | Tuple "Type list"

datatype (plugins only: code size) BinOp =
    Add | Sub | Mul | Div | Rem | Shl | Shr | BitAnd | BitOr | BitXor | Eq | Ne | Lt | Le | Gt | Ge
  | And | Or

datatype UnaryOp = Not

datatype Quant = Forall | Exists

datatype BvWidth = W8 | W16 | W32 | W64

record BvTag =
  bv_width :: BvWidth
  bv_nowrap :: bool
  bv_span :: Span

datatype 'e Clause = Clause (cl_expr: 'e) (cl_text: string) (cl_span: Span) (cl_bv: "BvTag option")

datatype 'e Pattern =
    Wildcard
  | Literal 'e
  | Binding Ident
  | Slice "'e SlicePat list"
  | Enum "Ident list" "'e Pattern list"
  | Struct "Ident list" "(Ident \<times> 'e Pattern) list" bool
  | Or "'e Pattern list"
and 'e SlicePat = Pat "'e Pattern" | Rest Ident

datatype 'e MatchArm = MatchArm (arm_pattern: "'e Pattern") (arm_guard: "'e option") (arm_body: 'e)

datatype 'e IndexArg = Single 'e | RangeTo 'e | RangeFrom 'e | Range 'e 'e

datatype 'e LoopKind = Loop | While 'e

datatype ('e, 'b) LoopNode =
  LoopNode (loop_kind: "'e LoopKind") (loop_invs: "'e Clause list") (loop_dec: "'e Clause") (loop_body: 'b) (loop_span: Span)

datatype (plugins only: code size) Expr =
    IntLit "128 word" string
  | BoolLit bool
  | Path "Ident list"
  | Call Expr "Expr list"
  | MethodCall Expr Ident "Expr list"
  | Field Expr Ident
  | Closure "Ident list" Expr
  | Match Expr "Expr MatchArm list"
  | If Expr Block Block
  | Binary BinOp Expr Expr
  | Unary UnaryOp Expr
  | Index Expr "Expr IndexArg"
  | Cast Expr Type
  | Ref bool Expr
  | StructLit "Ident list" "(Ident \<times> Expr) list"
  | Is Expr "Ident list"
  | Deref Expr
  | StrLit string
  | Tuple "Expr list"
  | TupleProj Expr nat
  | Quantifier Quant Ident Ident Expr Expr
and Block = Block (block_stmts: "Stmt list") (block_tail: "Expr option")
and Stmt =
    Let bool Ident "Type option" Expr
  | Assign Expr Expr
  | Return "Expr option"
  | If Expr Block "Block option"
  | Loop "(Expr, Block) LoopNode"
  | Break
  | Continue
  | Expr Expr


record Param =
  par_name :: Ident
  par_ty :: Type

datatype (plugins only: code size) PlatformDomain =
    Boot | Memory | Mmio | Pio | Irq | Cpu | Atomic | Smp | Dma | Clock | Entropy | Power

fun domain_surface :: "PlatformDomain \<Rightarrow> string" where
  "domain_surface Boot = ''boot''"
| "domain_surface Memory = ''memory''"
| "domain_surface Mmio = ''mmio''"
| "domain_surface Pio = ''pio''"
| "domain_surface Irq = ''irq''"
| "domain_surface Cpu = ''cpu''"
| "domain_surface Atomic = ''atomic''"
| "domain_surface Smp = ''smp''"
| "domain_surface Dma = ''dma''"
| "domain_surface Clock = ''clock''"
| "domain_surface Entropy = ''entropy''"
| "domain_surface Power = ''power''"

definition domain_from_surface :: "string \<Rightarrow> PlatformDomain option" where
  "domain_from_surface surface =
     (if surface = ''boot'' then Some Boot
      else if surface = ''memory'' then Some Memory
      else if surface = ''mmio'' then Some Mmio
      else if surface = ''pio'' then Some Pio
      else if surface = ''irq'' then Some Irq
      else if surface = ''cpu'' then Some Cpu
      else if surface = ''atomic'' then Some Atomic
      else if surface = ''smp'' then Some Smp
      else if surface = ''dma'' then Some Dma
      else if surface = ''clock'' then Some Clock
      else if surface = ''entropy'' then Some Entropy
      else if surface = ''power'' then Some Power
      else None)"

lemma domain_round_trip: "domain_from_surface s = Some d \<longleftrightarrow> s = domain_surface d"
  by (cases d) (auto simp: domain_from_surface_def)

datatype (plugins only: code size) Effect =
    Read Ident | Write Ident | Net Ident | Alloc | Time | Rand | Panic | Diverge | Term
  | Platform PlatformDomain

datatype EffectRow = Pure | Set "Effect list"

record Contract =
  ct_req :: "Expr Clause"
  ct_ens :: "Expr Clause list"
  ct_fx :: EffectRow

record SlagAttr =
  sl_reason :: "string option"
  sl_owner :: "string option"
  sl_review :: "string option"
  sl_span :: Span

record BoundaryAttr =
  bo_target :: string
  bo_span :: Span

datatype HoleContext = Body | Proof

record Hole =
  ho_number :: u32
  ho_span :: Span
  ho_context :: HoleContext

datatype RefinementTarget = Param Ident | Result

record Refinement =
  re_target :: RefinementTarget
  re_pred :: "Expr Clause"

record FnItem =
  fn_slag :: "SlagAttr option"
  fn_boundary :: "BoundaryAttr option"
  fn_name :: Ident
  fn_params :: "Param list"
  fn_ret :: Type
  fn_contract :: Contract
  fn_dec :: "Expr Clause option"
  fn_body :: "Block option"
  fn_holes :: "Hole list"
  fn_refinements :: "Refinement list"
  fn_span :: Span

record SpecFnItem =
  sf_name :: Ident
  sf_params :: "Param list"
  sf_ret :: Type
  sf_dec :: "Expr Clause"
  sf_body :: Block
  sf_span :: Span

record FieldDef =
  fd_name :: Ident
  fd_ty :: Type

record StructItem =
  st_name :: Ident
  st_fields :: "FieldDef list"
  st_inv :: "Expr Clause option"
  st_sealed :: bool
  st_span :: Span

datatype VariantShape = Unit | Tuple "Type list" | Struct "FieldDef list"

record VariantDef =
  va_name :: Ident
  va_shape :: VariantShape

record EnumItem =
  en_name :: Ident
  en_variants :: "VariantDef list"
  en_span :: Span

record ProofBlock =
  pb_text :: string
  pb_holes :: "Hole list"
  pb_span :: Span

record PropFnItem =
  pf_name :: Ident
  pf_params :: "Param list"
  pf_ret :: Type
  pf_dec :: "Expr Clause option"
  pf_body :: Block
  pf_span :: Span

record LemmaItem =
  le_name :: Ident
  le_params :: "Param list"
  le_req :: "Expr Clause"
  le_ens :: "Expr Clause list"
  le_proof :: ProofBlock
  le_span :: Span

record ClauseSelector =
  cs_keyword :: Ident
  cs_index :: "u32 option"

record ProofObligation =
  ob_clause :: ClauseSelector
  ob_proof :: ProofBlock
  ob_span :: Span

record ProofItem =
  pi_target :: Ident
  pi_obligations :: "ProofObligation list"
  pi_span :: Span

record Inhabit =
  ih_args :: "Expr list"
  ih_span :: Span

record Falsify =
  fa_budget :: u64
  fa_span :: Span

record WitnessBlock =
  wb_inhabits :: "Inhabit list"
  wb_falsifies :: "Falsify list"
  wb_span :: Span

datatype ForgeItem = PropFn PropFnItem | Lemma LemmaItem | Proof ProofItem | Witness WitnessBlock

fun forge_name :: "ForgeItem \<Rightarrow> Ident" where
  "forge_name (PropFn p) = pf_name p"
| "forge_name (Lemma l) = le_name l"
| "forge_name (ForgeItem.Proof p) = pi_target p"
| "forge_name (Witness w) = ''witness''"

datatype Item = Fn FnItem | SpecFn SpecFnItem | Struct StructItem | Enum EnumItem | Forge ForgeItem

fun item_name :: "Item \<Rightarrow> Ident" where
  "item_name (Fn f) = fn_name f"
| "item_name (SpecFn s) = sf_name s"
| "item_name (Item.Struct s) = st_name s"
| "item_name (Item.Enum e) = en_name e"
| "item_name (Forge f) = forge_name f"

record Program =
  pr_items :: "Item list"


section \<open>Sizes, for the recursions over the syntax\<close>

named_theorems ast_sizes \<open>parts of a node are smaller than the node\<close>

lemma size_list_member: "x \<in> set xs \<Longrightarrow> f x \<le> size_list f xs"
  by (induction xs) auto

lemma size_of_member [ast_sizes]: "x \<in> set xs \<Longrightarrow> size x \<le> size_list size xs"
  by (rule size_list_member)

lemma size_of_arm_body [ast_sizes]:
  "arm \<in> set arms \<Longrightarrow> size (arm_body arm) \<le> size_list (size_MatchArm size) arms"
  using size_list_member [of arm arms "size_MatchArm size"] by (cases arm) simp

lemma size_of_arm_guard [ast_sizes]:
  "arm \<in> set arms \<Longrightarrow> arm_guard arm = Some g \<Longrightarrow> size g \<le> size_list (size_MatchArm size) arms"
  using size_list_member [of arm arms "size_MatchArm size"] by (cases arm) simp

lemma size_of_clause [ast_sizes]:
  "c \<in> set cs \<Longrightarrow> size (cl_expr c) \<le> size_list (size_Clause size) cs"
  using size_list_member [of c cs "size_Clause size"] by (cases c) simp

lemma size_of_field [ast_sizes]:
  "p \<in> set ps \<Longrightarrow> size (snd p) \<le> size_list (size_prod f size) ps"
  using size_list_member [of p ps "size_prod f size"] by (cases p) simp

lemma size_of_invariant [ast_sizes]:
  "c \<in> set (loop_invs n) \<Longrightarrow> size (cl_expr c) \<le> size_LoopNode size size n"
  using size_of_clause [of c "loop_invs n"] by (cases n) simp

lemma size_of_condition [ast_sizes]: "loop_kind n = While e \<Longrightarrow> size e \<le> size_LoopNode size size n"
  by (cases n) simp

lemma size_of_loop_parts:
  "size (loop_body n) \<le> size_LoopNode size size n"
  "size (cl_expr (loop_dec n)) \<le> size_LoopNode size size n"
proof -
  obtain d t sp bv where "loop_dec n = Clause d t sp bv" by (cases "loop_dec n")
  then show "size (cl_expr (loop_dec n)) \<le> size_LoopNode size size n" by (cases n) simp
qed (cases n; simp)

section \<open>Sample functions\<close>

text \<open>Small functions for the concrete instances of the theorems about programs.\<close>

definition sample_span :: Span where
  "sample_span = \<lparr>sp_start = 0, sp_len = 0\<rparr>"

definition sample_clause :: "Expr \<Rightarrow> Expr Clause" where
  "sample_clause e = Clause e '''' sample_span None"

definition sample_fn :: "Ident \<Rightarrow> EffectRow \<Rightarrow> Expr option \<Rightarrow> FnItem" where
  "sample_fn name row body =
     \<lparr>fn_slag = None,
      fn_boundary = (if body = None then Some \<lparr>bo_target = name, bo_span = sample_span\<rparr> else None),
      fn_name = name, fn_params = [], fn_ret = Type.Unit,
      fn_contract = \<lparr>ct_req = sample_clause (BoolLit True), ct_ens = [], ct_fx = row\<rparr>,
      fn_dec = None, fn_body = map_option (\<lambda>e. Block [] (Some e)) body,
      fn_holes = [], fn_refinements = [], fn_span = sample_span\<rparr>"

definition call_of :: "Ident \<Rightarrow> Expr" where
  "call_of name = Call (Path [name]) []"

lemmas sample_defs = sample_span_def sample_clause_def sample_fn_def call_of_def

end
