(* ===== verification/Spec_Combinators.thy ===== *)
theory Spec_Combinators
  imports Kernel_Prelude "HOL-Library.Multiset"
begin

text \<open>
  The frozen combinator registry of \<open>thermite-spec/src/combinators.rs\<close>: names, arities, argument
  kinds and result kinds. The two text fields of an entry, the Verus and the runtime-check source
  that the lowering copies out, are not part of this model.
\<close>

datatype ArgKind = Slice | Index | Pred | Value

datatype ResultKind = Bool | Usize

record CombinatorSig =
  cb_name :: string
  cb_arity :: nat
  cb_arg_kinds :: "ArgKind list"
  cb_result :: ResultKind

definition COMBINATOR_REGISTRY :: "CombinatorSig list" where
  "COMBINATOR_REGISTRY = [
     \<lparr>cb_name = ''sorted'', cb_arity = 1, cb_arg_kinds = [Slice], cb_result = Bool\<rparr>,
     \<lparr>cb_name = ''forall_in'', cb_arity = 2, cb_arg_kinds = [Slice, Pred], cb_result = Bool\<rparr>,
     \<lparr>cb_name = ''exists_in'', cb_arity = 2, cb_arg_kinds = [Slice, Pred], cb_result = Bool\<rparr>,
     \<lparr>cb_name = ''count_where'', cb_arity = 2, cb_arg_kinds = [Slice, Pred], cb_result = Usize\<rparr>,
     \<lparr>cb_name = ''permutation_of'', cb_arity = 2, cb_arg_kinds = [Slice, Slice], cb_result = Bool\<rparr>,
     \<lparr>cb_name = ''disjoint'', cb_arity = 2, cb_arg_kinds = [Slice, Slice], cb_result = Bool\<rparr>,
     \<lparr>cb_name = ''forall_below'', cb_arity = 3, cb_arg_kinds = [Slice, Index, Pred], cb_result = Bool\<rparr>,
     \<lparr>cb_name = ''forall_from'', cb_arity = 3, cb_arg_kinds = [Slice, Index, Pred], cb_result = Bool\<rparr>]"

definition combinator_lookup :: "string \<Rightarrow> CombinatorSig option" where
  "combinator_lookup name = find (\<lambda>entry. cb_name entry = name) COMBINATOR_REGISTRY"

lemma find_distinct_Some_iff:
  "distinct (map f xs) \<Longrightarrow> find (\<lambda>x. f x = k) xs = Some c \<longleftrightarrow> c \<in> set xs \<and> f c = k"
  by (induction xs) (auto simp: rev_image_eqI)

text \<open>Every entry is found under its name, with as many argument kinds as its arity.\<close>

lemma combinator_lookup_Some_iff:
  "combinator_lookup name = Some c \<longleftrightarrow> c \<in> set COMBINATOR_REGISTRY \<and> cb_name c = name"
proof -
  have "distinct (map cb_name COMBINATOR_REGISTRY)"
    by (simp add: COMBINATOR_REGISTRY_def)
  then show ?thesis unfolding combinator_lookup_def by (rule find_distinct_Some_iff)
qed

lemma combinator_arity: "c \<in> set COMBINATOR_REGISTRY \<Longrightarrow> length (cb_arg_kinds c) = cb_arity c"
  by (auto simp: COMBINATOR_REGISTRY_def)

section \<open>The two definitions of a combinator\<close>

text \<open>
  Each entry carries its meaning twice: \<open>verus_l3\<close>, a specification function over mathematical
  sequences, and \<open>l1\<close>, the loop that is compiled into a runtime check. Both are translated here:
  \<open>l3_*\<close> are the specification texts, \<open>l1_*\<close> the loops, each with its index variable, its
  bound and its early returns.
\<close>

type_synonym seq = "u32 list"

definition l3_sorted :: "seq \<Rightarrow> bool" where
  "l3_sorted s \<longleftrightarrow> (\<forall>i j. i \<le> j \<and> j < length s \<longrightarrow> s ! i \<le> s ! j)"

definition l3_forall_in :: "seq \<Rightarrow> (u32 \<Rightarrow> bool) \<Rightarrow> bool" where
  "l3_forall_in s p \<longleftrightarrow> (\<forall>i. i < length s \<longrightarrow> p (s ! i))"

definition l3_exists_in :: "seq \<Rightarrow> (u32 \<Rightarrow> bool) \<Rightarrow> bool" where
  "l3_exists_in s p \<longleftrightarrow> (\<exists>i. i < length s \<and> p (s ! i))"

fun l3_count_where :: "seq \<Rightarrow> (u32 \<Rightarrow> bool) \<Rightarrow> nat" where
  "l3_count_where s p = (if length s = 0 then 0 else (if p (s ! 0) then 1 else 0) + l3_count_where (drop 1 s) p)"

definition l3_permutation_of :: "seq \<Rightarrow> seq \<Rightarrow> bool" where
  "l3_permutation_of a b \<longleftrightarrow> mset a = mset b"

definition l3_disjoint :: "seq \<Rightarrow> seq \<Rightarrow> bool" where
  "l3_disjoint a b \<longleftrightarrow> (\<forall>i j. i < length a \<and> j < length b \<longrightarrow> a ! i \<noteq> b ! j)"

definition l3_forall_below :: "seq \<Rightarrow> int \<Rightarrow> (u32 \<Rightarrow> bool) \<Rightarrow> bool" where
  "l3_forall_below s n p \<longleftrightarrow> (\<forall>i. int i < n \<and> i < length s \<longrightarrow> p (s ! i))"

definition l3_forall_from :: "seq \<Rightarrow> int \<Rightarrow> (u32 \<Rightarrow> bool) \<Rightarrow> bool" where
  "l3_forall_from s n p \<longleftrightarrow> (\<forall>i. n \<le> int i \<and> i < length s \<longrightarrow> p (s ! i))"

declare l3_count_where.simps [simp del]

function l1_sorted_loop :: "seq \<Rightarrow> nat \<Rightarrow> bool" where
  "l1_sorted_loop s i =
     (if i < length s then (if s ! (i - 1) > s ! i then False else l1_sorted_loop s (i + 1)) else True)"
  by auto
termination by (relation "measure (\<lambda>(s, i). length s - i)") auto

definition l1_sorted :: "seq \<Rightarrow> bool" where "l1_sorted s = l1_sorted_loop s 1"

text \<open>The loops of \<open>forall_in\<close> and \<open>forall_from\<close> differ in their start index only.\<close>

function l1_forall_loop :: "seq \<Rightarrow> (u32 \<Rightarrow> bool) \<Rightarrow> nat \<Rightarrow> bool" where
  "l1_forall_loop s p i =
     (if i < length s then (if \<not> p (s ! i) then False else l1_forall_loop s p (i + 1)) else True)"
  by auto
termination by (relation "measure (\<lambda>(s, p, i). length s - i)") auto

definition l1_forall_in :: "seq \<Rightarrow> (u32 \<Rightarrow> bool) \<Rightarrow> bool" where "l1_forall_in s p = l1_forall_loop s p 0"

definition l1_forall_from :: "seq \<Rightarrow> nat \<Rightarrow> (u32 \<Rightarrow> bool) \<Rightarrow> bool" where
  "l1_forall_from s n p = l1_forall_loop s p n"

function l1_exists_loop :: "seq \<Rightarrow> (u32 \<Rightarrow> bool) \<Rightarrow> nat \<Rightarrow> bool" where
  "l1_exists_loop s p i =
     (if i < length s then (if p (s ! i) then True else l1_exists_loop s p (i + 1)) else False)"
  by auto
termination by (relation "measure (\<lambda>(s, p, i). length s - i)") auto

definition l1_exists_in :: "seq \<Rightarrow> (u32 \<Rightarrow> bool) \<Rightarrow> bool" where "l1_exists_in s p = l1_exists_loop s p 0"

function l1_count_loop :: "seq \<Rightarrow> (u32 \<Rightarrow> bool) \<Rightarrow> nat \<Rightarrow> nat \<Rightarrow> nat" where
  "l1_count_loop s p i c =
     (if i < length s then l1_count_loop s p (i + 1) (if p (s ! i) then c + 1 else c) else c)"
  by auto
termination by (relation "measure (\<lambda>(s, p, i, c). length s - i)") auto

definition l1_count_where :: "seq \<Rightarrow> (u32 \<Rightarrow> bool) \<Rightarrow> nat" where "l1_count_where s p = l1_count_loop s p 0 0"

definition l1_permutation_of :: "seq \<Rightarrow> seq \<Rightarrow> bool" where
  "l1_permutation_of a b = (if length a \<noteq> length b then False else sort a = sort b)"

function l1_disjoint_inner :: "u32 \<Rightarrow> seq \<Rightarrow> nat \<Rightarrow> bool" where
  "l1_disjoint_inner x b j =
     (if j < length b then (if x = b ! j then False else l1_disjoint_inner x b (j + 1)) else True)"
  by auto
termination by (relation "measure (\<lambda>(x, b, j). length b - j)") auto

function l1_disjoint_loop :: "seq \<Rightarrow> seq \<Rightarrow> nat \<Rightarrow> bool" where
  "l1_disjoint_loop a b i =
     (if i < length a then (if \<not> l1_disjoint_inner (a ! i) b 0 then False else l1_disjoint_loop a b (i + 1))
      else True)"
  by auto
termination by (relation "measure (\<lambda>(a, b, i). length a - i)") auto

definition l1_disjoint :: "seq \<Rightarrow> seq \<Rightarrow> bool" where "l1_disjoint a b = l1_disjoint_loop a b 0"

function l1_below_loop :: "seq \<Rightarrow> nat \<Rightarrow> (u32 \<Rightarrow> bool) \<Rightarrow> nat \<Rightarrow> bool" where
  "l1_below_loop s n p i =
     (if i < n \<and> i < length s then (if \<not> p (s ! i) then False else l1_below_loop s n p (i + 1)) else True)"
  by auto
termination by (relation "measure (\<lambda>(s, n, p, i). length s - i)") auto

definition l1_forall_below :: "seq \<Rightarrow> nat \<Rightarrow> (u32 \<Rightarrow> bool) \<Rightarrow> bool" where
  "l1_forall_below s n p = l1_below_loop s n p 0"

lemmas l1_loops_simps = l1_sorted_loop.simps l1_forall_loop.simps l1_exists_loop.simps l1_count_loop.simps
  l1_disjoint_inner.simps l1_disjoint_loop.simps l1_below_loop.simps

declare l1_loops_simps [simp del]

text \<open>
  What each loop computes from an arbitrary index. A bounded quantifier over the rest of the range
  is the test at the index and the same quantifier one further.
\<close>

lemma all_from_step: "(\<forall>k. i \<le> k \<and> k < n \<longrightarrow> P k) \<longleftrightarrow> (i < n \<longrightarrow> P i \<and> (\<forall>k. i + 1 \<le> k \<and> k < n \<longrightarrow> P k))"
  for i n :: nat
proof -
  have "i \<le> k \<longleftrightarrow> k = i \<or> i + 1 \<le> k" for k by auto
  then show ?thesis by (metis le_less_trans)
qed

lemma l1_forall_loop_iff: "l1_forall_loop s p i \<longleftrightarrow> (\<forall>k. i \<le> k \<and> k < length s \<longrightarrow> p (s ! k))"
  by (induction s p i rule: l1_forall_loop.induct)
     (subst l1_forall_loop.simps, subst all_from_step, simp)

lemma l1_exists_loop_iff: "l1_exists_loop s p i \<longleftrightarrow> \<not> (\<forall>k. i \<le> k \<and> k < length s \<longrightarrow> \<not> p (s ! k))"
  by (induction s p i rule: l1_exists_loop.induct)
     (subst l1_exists_loop.simps, subst all_from_step, simp)

lemma l1_sorted_loop_iff: "l1_sorted_loop s i \<longleftrightarrow> (\<forall>k. i \<le> k \<and> k < length s \<longrightarrow> s ! (k - 1) \<le> s ! k)"
  by (induction s i rule: l1_sorted_loop.induct)
     (subst l1_sorted_loop.simps, subst all_from_step [where P = "\<lambda>k. s ! (k - 1) \<le> s ! k" for s], auto simp: not_less)

lemma l1_disjoint_inner_iff: "l1_disjoint_inner x b j \<longleftrightarrow> (\<forall>k. j \<le> k \<and> k < length b \<longrightarrow> x \<noteq> b ! k)"
  by (induction x b j rule: l1_disjoint_inner.induct)
     (subst l1_disjoint_inner.simps, subst all_from_step, simp)

lemma l1_disjoint_loop_iff:
  "l1_disjoint_loop a b i \<longleftrightarrow> (\<forall>k. i \<le> k \<and> k < length a \<longrightarrow> l1_disjoint_inner (a ! k) b 0)"
  by (induction a b i rule: l1_disjoint_loop.induct)
     (subst l1_disjoint_loop.simps, subst all_from_step, simp)

lemma l1_below_loop_iff:
  "l1_below_loop s n p i \<longleftrightarrow> (\<forall>k. i \<le> k \<and> k < min n (length s) \<longrightarrow> p (s ! k))"
  by (induction s n p i rule: l1_below_loop.induct)
     (subst l1_below_loop.simps, subst all_from_step, auto)

lemma l3_count_where_filter: "l3_count_where s p = length (filter p s)"
  by (induction s p rule: l3_count_where.induct)
     (subst l3_count_where.simps, auto simp: neq_Nil_conv)

lemma l1_count_loop_eq: "l1_count_loop s p i c = c + length (filter p (drop i s))"
proof (induction s p i c rule: l1_count_loop.induct)
  case (1 s p i c)
  then show ?case
    by (subst l1_count_loop.simps) (auto simp: Cons_nth_drop_Suc [symmetric])
qed

lemma sorted_nth_steps:
  "sorted (s :: u32 list) \<longleftrightarrow> (\<forall>k. 1 \<le> k \<and> k < length s \<longrightarrow> s ! (k - 1) \<le> s ! k)"
  unfolding sorted_iff_nth_Suc by (metis One_nat_def Suc_le_D Suc_pred diff_Suc_1 le_add1 plus_1_eq_Suc zero_less_Suc)

lemma combinator_checks:
  "l1_sorted s = l3_sorted s"
  "l1_forall_in s p = l3_forall_in s p"
  "l1_exists_in s p = l3_exists_in s p"
  "l1_count_where s p = l3_count_where s p"
  "l1_permutation_of a b = l3_permutation_of a b"
  "l1_disjoint a b = l3_disjoint a b"
  "l1_forall_below s n p = l3_forall_below s (int n) p"
  "l1_forall_from s n p = l3_forall_from s (int n) p"
proof -
  show "l1_sorted s = l3_sorted s"
    unfolding l1_sorted_def l3_sorted_def l1_sorted_loop_iff sorted_nth_steps [symmetric]
    by (auto simp: sorted_iff_nth_mono)
  show "l1_permutation_of a b = l3_permutation_of a b"
  proof -
    have "sort a = sort b \<longleftrightarrow> mset a = mset b"
    proof
      assume "sort a = sort b"
      then have "mset (sort a) = mset (sort b)" by (rule arg_cong)
      then show "mset a = mset b" by simp
    next
      assume "mset a = mset b"
      then show "sort a = sort b" by (intro properties_for_sort) simp_all
    qed
    then show ?thesis
      using mset_eq_length [of a b] by (auto simp: l1_permutation_of_def l3_permutation_of_def)
  qed
qed (auto simp: l1_forall_in_def l3_forall_in_def l1_forall_loop_iff l1_exists_in_def l3_exists_in_def
  l1_exists_loop_iff l1_count_where_def l1_count_loop_eq l3_count_where_filter l1_disjoint_def l3_disjoint_def
  l1_disjoint_loop_iff l1_disjoint_inner_iff l1_forall_below_def l3_forall_below_def l1_below_loop_iff
  l1_forall_from_def l3_forall_from_def)

text \<open>
  C23: for all eight combinators the loop that is compiled into a runtime check computes what the
  specification text says, on every sequence, bound and predicate; all loops end.
\<close>

theorem combinator_checks_match_specifications:
  "l1_sorted s = l3_sorted s \<and>
   l1_forall_in s p = l3_forall_in s p \<and>
   l1_exists_in s p = l3_exists_in s p \<and>
   l1_count_where s p = l3_count_where s p \<and>
   l1_permutation_of a b = l3_permutation_of a b \<and>
   l1_disjoint a b = l3_disjoint a b \<and>
   l1_forall_below s n p = l3_forall_below s (int n) p \<and>
   l1_forall_from s n p = l3_forall_from s (int n) p"
  by (intro conjI combinator_checks)


section \<open>Recursion schemes\<close>

datatype SchemeResult = Accumulator | Bool | SameAdt

datatype StepShape = ElementAcc | Element

fun step_arity :: "StepShape \<Rightarrow> nat" where
  "step_arity ElementAcc = 2"
| "step_arity Element = 1"

record SchemeSig =
  sc_name :: string
  sc_scrutinee_args :: nat
  sc_step_shape :: StepShape
  sc_result :: SchemeResult
  sc_gen_prefix :: string

definition SCHEME_REGISTRY :: "SchemeSig list" where
  "SCHEME_REGISTRY = [
     \<lparr>sc_name = ''fold'', sc_scrutinee_args = 2, sc_step_shape = ElementAcc, sc_result = Accumulator, sc_gen_prefix = ''fold''\<rparr>,
     \<lparr>sc_name = ''traverse'', sc_scrutinee_args = 1, sc_step_shape = ElementAcc, sc_result = Bool, sc_gen_prefix = ''traverse''\<rparr>,
     \<lparr>sc_name = ''map'', sc_scrutinee_args = 1, sc_step_shape = Element, sc_result = SameAdt, sc_gen_prefix = ''map''\<rparr>,
     \<lparr>sc_name = ''for_all'', sc_scrutinee_args = 1, sc_step_shape = Element, sc_result = Bool, sc_gen_prefix = ''for_all''\<rparr>,
     \<lparr>sc_name = ''exists'', sc_scrutinee_args = 1, sc_step_shape = Element, sc_result = Bool, sc_gen_prefix = ''exists''\<rparr>]"

definition total_arity :: "SchemeSig \<Rightarrow> nat" where
  "total_arity s = sc_scrutinee_args s + 1"

definition scheme_lookup :: "string \<Rightarrow> SchemeSig option" where
  "scheme_lookup name = find (\<lambda>entry. sc_name entry = name) SCHEME_REGISTRY"

lemma scheme_lookup_Some_iff:
  "scheme_lookup name = Some c \<longleftrightarrow> c \<in> set SCHEME_REGISTRY \<and> sc_name c = name"
proof -
  have "distinct (map sc_name SCHEME_REGISTRY)"
    by (simp add: SCHEME_REGISTRY_def)
  then show ?thesis unfolding scheme_lookup_def by (rule find_distinct_Some_iff)
qed

text \<open>No name is both a combinator and a scheme, so the two look-ups never compete.\<close>

lemma combinator_scheme_disjoint: "combinator_lookup name = None \<or> scheme_lookup name = None"
  by (auto simp: combinator_lookup_Some_iff scheme_lookup_Some_iff COMBINATOR_REGISTRY_def SCHEME_REGISTRY_def
      simp flip: not_Some_eq)

end
