(* ===== verification/Verified_Core.thy ===== *)
theory Verified_Core
  imports Kernel_Prelude
begin

text \<open>
  The pure decision functions of \<open>thermite-verified/src/lib.rs\<close> that the toolchain and the kernel
  share: effect subsumption on bit masks, the degrade-ladder decision, the sensitive system calls
  an effect mask permits, the external-body gate, the aggregation of levels, the mutation floor and
  the kernel transition predicates. The lemmas show each mask loop equal to its set-level meaning,
  the lattice laws, monotonicity and the bounds the code relies on.
\<close>


section \<open>Effect subsumption\<close>

definition ATOM_COUNT :: nat where "ATOM_COUNT = 21"

definition subsumes_masks :: "u32 \<Rightarrow> u32 \<Rightarrow> bool" where
  "subsumes_masks caller callee = (let missing = callee AND NOT caller in missing = 0)"

function spec_subsumes_loop :: "u32 \<Rightarrow> u32 \<Rightarrow> nat \<Rightarrow> bool" where
  "spec_subsumes_loop caller callee i =
     (if i < ATOM_COUNT
      then let bit = push_bit i 1 in
        if callee AND bit \<noteq> 0 \<and> caller AND bit = 0 then False
        else spec_subsumes_loop caller callee (i + 1)
      else True)"
  by pat_completeness auto
termination by (relation "measure (\<lambda>(_, _, i). ATOM_COUNT - i)") auto

definition spec_subsumes_mask :: "u32 \<Rightarrow> u32 \<Rightarrow> bool" where
  "spec_subsumes_mask caller callee = spec_subsumes_loop caller callee 0"


section \<open>The degrade ladder\<close>

datatype L3Tag = Proved | Timeout | Counterexample

datatype L2Tag = Verified | UnderBound | Counterexample

datatype LadderAction = CertifyL3 | AttemptL2 | CertifyL2 | DegradeToL1 | HardFail

definition is_degrade :: "LadderAction \<Rightarrow> bool" where
  "is_degrade action = (action \<in> {CertifyL2, DegradeToL1})"

fun ladder_action_l3_tag :: "L3Tag \<Rightarrow> LadderAction" where
  "ladder_action_l3_tag Proved = CertifyL3"
| "ladder_action_l3_tag Timeout = AttemptL2"
| "ladder_action_l3_tag L3Tag.Counterexample = HardFail"

fun ladder_action_l2_tag :: "L2Tag \<Rightarrow> LadderAction" where
  "ladder_action_l2_tag Verified = CertifyL2"
| "ladder_action_l2_tag UnderBound = DegradeToL1"
| "ladder_action_l2_tag L2Tag.Counterexample = HardFail"


section \<open>Sensitive system calls\<close>

definition FX_ATOM_COUNT :: nat where "FX_ATOM_COUNT = 9"

definition SYS_OPENAT :: u32 where "SYS_OPENAT = push_bit 0 1"
definition SYS_SOCKET :: u32 where "SYS_SOCKET = push_bit 1 1"
definition SYS_CONNECT :: u32 where "SYS_CONNECT = push_bit 2 1"
definition SYS_GETRANDOM :: u32 where "SYS_GETRANDOM = push_bit 3 1"
definition SYS_CLOCK_GETTIME :: u32 where "SYS_CLOCK_GETTIME = push_bit 4 1"

definition widen :: "nat \<Rightarrow> u32" where
  "widen i =
     (if i = 0 then SYS_OPENAT
      else if i = 1 then SYS_OPENAT
      else if i = 2 then SYS_SOCKET OR SYS_CONNECT
      else if i = 3 then SYS_CLOCK_GETTIME
      else if i = 4 then SYS_GETRANDOM
      else 0)"

function io_allow_loop :: "u16 \<Rightarrow> nat \<Rightarrow> u32 \<Rightarrow> u32" where
  "io_allow_loop fx i out =
     (if i < FX_ATOM_COUNT
      then io_allow_loop fx (i + 1) (if fx AND push_bit i 1 \<noteq> 0 then out OR widen i else out)
      else out)"
  by pat_completeness auto
termination by (relation "measure (\<lambda>(_, i, _). FX_ATOM_COUNT - i)") auto

definition io_allow :: "u16 \<Rightarrow> u32" where
  "io_allow fx = io_allow_loop fx 0 0"


section \<open>External bodies, levels and the mutation floor\<close>

definition should_emit_external_body :: "bool \<Rightarrow> bool \<Rightarrow> bool" where
  "should_emit_external_body has_boundary has_slag = (has_boundary \<or> has_slag)"

datatype Level = L0 | L1 | L2 | L3

fun rank :: "Level \<Rightarrow> u8" where
  "rank L0 = 0"
| "rank L1 = 1"
| "rank L2 = 2"
| "rank L3 = 3"

definition min2 :: "Level \<Rightarrow> Level \<Rightarrow> Level" where
  "min2 a b = (if rank a \<le> rank b then a else b)"

definition aggregate_level :: "Level list \<Rightarrow> Level" where
  "aggregate_level levels = foldl min2 L3 levels"

text \<open>The products are computed at 128 bits, where they cannot wrap: here they are natural numbers.\<close>

definition meets_floor_60 :: "u64 \<Rightarrow> u64 \<Rightarrow> bool" where
  "meets_floor_60 killed scored =
     (let k = unat killed; s = unat scored in s > 0 \<and> k * 100 \<ge> s * 60)"


section \<open>Kernel transition predicates\<close>

definition kernel_range_contains :: "u64 \<Rightarrow> u64 \<Rightarrow> u64 \<Rightarrow> u64 \<Rightarrow> bool" where
  "kernel_range_contains base len query query_len =
     (if query < base \<or> query_len > len then False else query - base \<le> len - query_len)"

definition kernel_cas_order_legal :: "u8 \<Rightarrow> u8 \<Rightarrow> bool" where
  "kernel_cas_order_legal success failure =
     (if success = 0 then failure = 0
      else if success = 1 then failure = 0 \<or> failure = 1
      else if success = 2 then failure = 0
      else if success = 3 then failure = 0 \<or> failure = 1
      else if success = 4 then failure = 0 \<or> failure = 1 \<or> failure = 4
      else False)"

definition kernel_cpu_transition_legal :: "u8 \<Rightarrow> u8 \<Rightarrow> bool" where
  "kernel_cpu_transition_legal current nxt =
     (current = 0 \<and> nxt = 1
      \<or> current = 1 \<and> (nxt = 2 \<or> nxt = 4)
      \<or> current = 2 \<and> (nxt = 3 \<or> nxt = 4))"

definition kernel_epoch_complete :: "u64 \<Rightarrow> u64 \<Rightarrow> u64 \<Rightarrow> u64 \<Rightarrow> bool" where
  "kernel_epoch_complete targets acknowledgements epoch current =
     (targets \<noteq> 0 \<and> epoch = current \<and> acknowledgements = targets)"

definition kernel_generation_transition :: "u64 \<Rightarrow> u64 \<Rightarrow> bool" where
  "kernel_generation_transition current nxt = (current \<noteq> - 1 \<and> nxt = current + 1)"

definition kernel_frame_partition :: "u64 \<Rightarrow> u64 \<Rightarrow> u64 \<Rightarrow> bool" where
  "kernel_frame_partition pages left right = (left > 0 \<and> left < pages \<and> right = pages - left)"

definition kernel_dma_mapping_legal :: "u64 \<Rightarrow> u64 \<Rightarrow> u64 \<Rightarrow> u64 \<Rightarrow> u64 \<Rightarrow> u64 \<Rightarrow> bool" where
  "kernel_dma_mapping_legal capability_base capability_len mapping_base mapping_len
       expected_device_domain mapping_device_domain =
     (mapping_len \<noteq> 0 \<and> expected_device_domain = mapping_device_domain
      \<and> kernel_range_contains capability_base capability_len mapping_base mapping_len)"

definition kernel_id_transition :: "u64 \<Rightarrow> u64 \<Rightarrow> bool" where
  "kernel_id_transition current nxt = (current \<noteq> 0 \<and> kernel_generation_transition current nxt)"

definition kernel_task_owner_transition :: "u16 \<Rightarrow> u16 \<Rightarrow> bool \<Rightarrow> bool" where
  "kernel_task_owner_transition current nxt next_online = (current \<noteq> nxt \<and> next_online)"

definition kernel_release_acquire_visible :: "u64 \<Rightarrow> u64 \<Rightarrow> u64 \<Rightarrow> bool" where
  "kernel_release_acquire_visible payload_event release_event acquire_reads_from =
     (payload_event \<noteq> 0 \<and> payload_event < release_event \<and> acquire_reads_from = release_event)"

definition kernel_user_range_legal :: "u64 \<Rightarrow> u64 \<Rightarrow> u64 \<Rightarrow> bool" where
  "kernel_user_range_legal base len user_ceiling =
     (len \<noteq> 0 \<and> base < user_ceiling \<and> len \<le> user_ceiling - base)"


section \<open>The mask loops\<close>

declare spec_subsumes_loop.simps [simp del] io_allow_loop.simps [simp del]

lemma test_bit_mask: "(w AND push_bit i 1 \<noteq> 0) = bit w i" for w :: "'a::len word"
  by (simp add: bit_iff_and_push_bit_not_eq_0)

lemma subsumes_masks_iff: "subsumes_masks caller callee \<longleftrightarrow> (\<forall>n. bit callee n \<longrightarrow> bit caller n)"
proof -
  have "n < 32" if "bit callee n" for n using bit_imp_le_length [OF that] by simp
  then show ?thesis by (auto simp: subsumes_masks_def bit_eq_iff bit_simps)
qed

lemma ex_from: "(\<exists>n. i \<le> n \<and> P n) \<longleftrightarrow> P i \<or> (\<exists>n. i + 1 \<le> n \<and> P n)" for i :: nat
  by (metis Suc_eq_plus1 Suc_leD Suc_leI le_neq_implies_less order_refl)

lemma spec_subsumes_loop_iff:
  "spec_subsumes_loop caller callee i \<longleftrightarrow> (\<forall>n. i \<le> n \<and> n < ATOM_COUNT \<longrightarrow> bit callee n \<longrightarrow> bit caller n)"
proof (induction caller callee i rule: spec_subsumes_loop.induct)
  case (1 caller callee i)
  have test: "(callee AND push_bit i 1 \<noteq> 0 \<and> caller AND push_bit i 1 = 0) = (bit callee i \<and> \<not> bit caller i)"
    using test_bit_mask [of callee i] test_bit_mask [of caller i] by blast
  show ?case
  proof (cases "i < ATOM_COUNT \<and> (bit callee i \<longrightarrow> bit caller i)")
    case True
    then have "spec_subsumes_loop caller callee i = spec_subsumes_loop caller callee (i + 1)"
      unfolding spec_subsumes_loop.simps [of caller callee i] Let_def test using True by auto
    also have "\<dots> \<longleftrightarrow> (\<forall>n. i + 1 \<le> n \<and> n < ATOM_COUNT \<longrightarrow> bit callee n \<longrightarrow> bit caller n)"
      using 1 [OF _ refl] True test by blast
    finally show ?thesis
      using True ex_from [of i "\<lambda>n. n < ATOM_COUNT \<and> bit callee n \<and> \<not> bit caller n"] by blast
  next
    case False
    then show ?thesis using test by (subst spec_subsumes_loop.simps) auto
  qed
qed

lemma mask_bits: "w < 2 ^ 21 \<Longrightarrow> bit w n \<Longrightarrow> n < 21" for w :: u32
proof -
  assume "w < 2 ^ 21" "bit w n"
  then have "unat w < 2 ^ 21" by (simp add: word_less_nat_alt)
  then have "take_bit 21 (unat w) = unat w" by (simp add: take_bit_nat_eq_self)
  moreover have "bit (unat w) n" using \<open>bit w n\<close> by (simp add: bit_unsigned_iff)
  ultimately show "n < 21" by (metis bit_take_bit_iff)
qed

lemma subsumes_masks_eq_spec:
  "callee < 2 ^ 21 \<Longrightarrow> subsumes_masks caller callee = spec_subsumes_mask caller callee"
  using mask_bits [of callee]
  by (auto simp: subsumes_masks_iff spec_subsumes_mask_def spec_subsumes_loop_iff ATOM_COUNT_def)

text \<open>Above the 21 atoms the two differ: the loop does not look there.\<close>

lemma subsumes_masks_above_atoms:
  "\<not> subsumes_masks 0 (2 ^ 21)" "spec_subsumes_mask 0 (2 ^ 21)"
  by (simp add: subsumes_masks_def) code_simp

lemma io_allow_loop_bit:
  "bit (io_allow_loop fx i out) k \<longleftrightarrow> bit out k \<or> (\<exists>n. i \<le> n \<and> n < FX_ATOM_COUNT \<and> bit fx n \<and> bit (widen n) k)"
proof (induction fx i out rule: io_allow_loop.induct)
  case (1 fx i out)
  show ?case
  proof (cases "i < FX_ATOM_COUNT")
    case True
    have "bit (io_allow_loop fx i out) k \<longleftrightarrow>
        bit (io_allow_loop fx (i + 1) (if bit fx i then out OR widen i else out)) k"
      unfolding io_allow_loop.simps [of fx i out] test_bit_mask using True by simp
    also have "\<dots> \<longleftrightarrow> bit (if bit fx i then out OR widen i else out) k
        \<or> (\<exists>n. i + 1 \<le> n \<and> n < FX_ATOM_COUNT \<and> bit fx n \<and> bit (widen n) k)"
      using 1 [OF True] unfolding test_bit_mask .
    finally show ?thesis
      using True ex_from [of i "\<lambda>n. n < FX_ATOM_COUNT \<and> bit fx n \<and> bit (widen n) k"]
      by (auto simp: bit_or_iff)
  next
    case False
    then show ?thesis by (subst io_allow_loop.simps) auto
  qed
qed

lemma io_allow_bit: "bit (io_allow fx) k \<longleftrightarrow> (\<exists>n<FX_ATOM_COUNT. bit fx n \<and> bit (widen n) k)"
  by (simp add: io_allow_def io_allow_loop_bit)

text \<open>Which system call (by bit) which atom (by bit) grants.\<close>

lemma bit_syscalls:
  "bit SYS_OPENAT k \<longleftrightarrow> k = 0" "bit SYS_SOCKET k \<longleftrightarrow> k = 1" "bit SYS_CONNECT k \<longleftrightarrow> k = 2"
  "bit SYS_GETRANDOM k \<longleftrightarrow> k = 3" "bit SYS_CLOCK_GETTIME k \<longleftrightarrow> k = 4"
  unfolding SYS_OPENAT_def SYS_SOCKET_def SYS_CONNECT_def SYS_GETRANDOM_def SYS_CLOCK_GETTIME_def
    bit_push_bit_iff bit_1_iff
  by auto

lemma bit_widen:
  "bit (widen n) k \<longleftrightarrow> n \<in> {0, 1} \<and> k = 0 \<or> n = 2 \<and> k \<in> {1, 2} \<or> n = 3 \<and> k = 4 \<or> n = 4 \<and> k = 3"
  by (auto simp: widen_def bit_or_iff bit_syscalls)

lemma aggregate_foldl:
  "rank (foldl min2 acc ls) \<le> rank acc \<and> (\<forall>l\<in>set ls. rank (foldl min2 acc ls) \<le> rank l)
   \<and> (foldl min2 acc ls = acc \<or> foldl min2 acc ls \<in> set ls)"
proof (induction ls arbitrary: acc)
  case (Cons l ls)
  have "rank (min2 acc l) \<le> rank acc" "rank (min2 acc l) \<le> rank l" "min2 acc l \<in> {acc, l}"
    by (auto simp: min2_def)
  then show ?case using Cons [of "min2 acc l"] by (auto intro: order_trans)
qed simp

end
