(* ===== verification/Lower_Effects.thy ===== *)
theory Lower_Effects
  imports Syntax_Ast Spec_Combinators Verified_Core
begin

text \<open>
  The effect checker of \<open>thermite-lower/src/effects.rs\<close>: effect kinds and their bit masks, the
  subsumption test, the missing atoms, and the walk over every function body that compares the
  declared effect rows at each resolved call. The lemmas show that the mask test is the subset
  relation on effect kinds, and that a program the checker accepts has, along every chain of
  calls it sees, no callee with an effect its caller does not declare.
\<close>


section \<open>Effect kinds and masks\<close>

datatype EffectKind =
    Read | Write | Net | Alloc | Time | Rand | Panic | Diverge | Term | Platform PlatformDomain

fun domain_index :: "PlatformDomain \<Rightarrow> nat" where
  "domain_index Boot = 0"
| "domain_index Memory = 1"
| "domain_index Mmio = 2"
| "domain_index Pio = 3"
| "domain_index Irq = 4"
| "domain_index Cpu = 5"
| "domain_index Atomic = 6"
| "domain_index Smp = 7"
| "domain_index Dma = 8"
| "domain_index Clock = 9"
| "domain_index Entropy = 10"
| "domain_index Power = 11"

fun effect_index :: "EffectKind \<Rightarrow> nat" where
  "effect_index Read = 0"
| "effect_index Write = 1"
| "effect_index Net = 2"
| "effect_index Alloc = 3"
| "effect_index Time = 4"
| "effect_index Rand = 5"
| "effect_index Panic = 6"
| "effect_index Diverge = 7"
| "effect_index Term = 8"
| "effect_index (Platform domain) = 9 + domain_index domain"

definition effect_bit :: "EffectKind \<Rightarrow> u32" where
  "effect_bit k = push_bit (effect_index k) 1"

fun kind_of :: "Effect \<Rightarrow> EffectKind" where
  "kind_of (Effect.Read _) = Read"
| "kind_of (Effect.Write _) = Write"
| "kind_of (Effect.Net _) = Net"
| "kind_of Effect.Alloc = Alloc"
| "kind_of Effect.Time = Time"
| "kind_of Effect.Rand = Rand"
| "kind_of Effect.Panic = Panic"
| "kind_of Effect.Diverge = Diverge"
| "kind_of Effect.Term = Term"
| "kind_of (Effect.Platform domain) = Platform domain"

fun to_effect :: "EffectKind \<Rightarrow> Effect" where
  "to_effect Read = Effect.Read ''''"
| "to_effect Write = Effect.Write ''''"
| "to_effect Net = Effect.Net ''''"
| "to_effect Alloc = Effect.Alloc"
| "to_effect Time = Effect.Time"
| "to_effect Rand = Effect.Rand"
| "to_effect Panic = Effect.Panic"
| "to_effect Diverge = Effect.Diverge"
| "to_effect Term = Effect.Term"
| "to_effect (Platform domain) = Effect.Platform domain"

text \<open>The derived \<open>Ord\<close> of \<open>EffectKind\<close> is the order of the bit positions.\<close>

lemma domain_index_inject: "domain_index a = domain_index b \<Longrightarrow> a = b"
  by (cases a; cases b) simp_all

lemma domain_index_less: "domain_index d < 12"
  by (cases d) simp_all

lemma effect_index_less: "effect_index k < ATOM_COUNT"
  using domain_index_less by (cases k) (auto simp: ATOM_COUNT_def)

lemma effect_index_inject: "effect_index a = effect_index b \<Longrightarrow> a = b"
  by (cases a; cases b) (auto dest: domain_index_inject)

instantiation EffectKind :: linorder
begin

definition less_eq_EffectKind :: "EffectKind \<Rightarrow> EffectKind \<Rightarrow> bool" where
  "less_eq_EffectKind a b = (effect_index a \<le> effect_index b)"

definition less_EffectKind :: "EffectKind \<Rightarrow> EffectKind \<Rightarrow> bool" where
  "less_EffectKind a b = (effect_index a < effect_index b)"

instance
  by standard (auto simp: less_eq_EffectKind_def less_EffectKind_def intro: effect_index_inject)

end

definition effects :: "EffectRow \<Rightarrow> EffectKind list" where
  "effects row =
     (let kinds = (case row of Pure \<Rightarrow> [] | Set v \<Rightarrow> map kind_of v)
      in remdups_adj (sort kinds))"

definition effect_mask :: "EffectRow \<Rightarrow> u32" where
  "effect_mask row =
     (case row of Pure \<Rightarrow> 0 | Set v \<Rightarrow> foldl (\<lambda>m e. m OR effect_bit (kind_of e)) 0 v)"

definition subsumes :: "EffectRow \<Rightarrow> EffectRow \<Rightarrow> bool" where
  "subsumes caller callee = subsumes_masks (effect_mask caller) (effect_mask callee)"

definition missing_atoms :: "EffectRow \<Rightarrow> EffectRow \<Rightarrow> Effect list" where
  "missing_atoms caller callee =
     (let caller_set = effects caller
      in map to_effect (filter (\<lambda>k. k \<notin> set caller_set) (effects callee)))"


section \<open>The walk\<close>

datatype Callee = Fn EffectRow | Pure | Unresolved

datatype LowerError =
    TooDeep nat Span
  | EffectNotSubsumed Ident Ident "Effect list" Span

definition MAX_WALK_DEPTH :: nat where "MAX_WALK_DEPTH = 256"

text \<open>The caller whose body is walked: its row, its name and its span.\<close>

record Caller =
  ca_fx :: EffectRow
  ca_name :: Ident
  ca_span :: Span

definition check_call :: "(Ident \<Rightarrow> Callee) \<Rightarrow> Caller \<Rightarrow> Ident \<Rightarrow> LowerError list" where
  "check_call resolve caller name =
     (case resolve name of
        Fn callee_fx \<Rightarrow>
          if \<not> subsumes (ca_fx caller) callee_fx
          then [EffectNotSubsumed (ca_name caller) name (missing_atoms (ca_fx caller) callee_fx) (ca_span caller)]
          else []
      | Callee.Pure \<Rightarrow> []
      | Unresolved \<Rightarrow> [])"

text \<open>
  The mutually recursive walk. The error sink of the code is appended to only, so the model
  returns the errors in the order in which the code pushes them.
\<close>

function (sequential) check_block :: "(Ident \<Rightarrow> Callee) \<Rightarrow> Caller \<Rightarrow> nat \<Rightarrow> Block \<Rightarrow> LowerError list"
  and check_stmt :: "(Ident \<Rightarrow> Callee) \<Rightarrow> Caller \<Rightarrow> nat \<Rightarrow> Stmt \<Rightarrow> LowerError list"
  and check_expr :: "(Ident \<Rightarrow> Callee) \<Rightarrow> Caller \<Rightarrow> nat \<Rightarrow> Expr \<Rightarrow> LowerError list" where
  "check_block resolve caller depth (Block stmts tail) =
     (if depth \<ge> MAX_WALK_DEPTH then [TooDeep MAX_WALK_DEPTH (ca_span caller)]
      else let d = depth + 1 in
        concat (map (\<lambda>stmt. check_stmt resolve caller d stmt) stmts)
        @ (case tail of None \<Rightarrow> [] | Some e \<Rightarrow> check_expr resolve caller d e))"
| "check_stmt resolve caller d (Let _ _ _ init) = check_expr resolve caller d init"
| "check_stmt resolve caller d (Assign target value) =
     check_expr resolve caller d target @ check_expr resolve caller d value"
| "check_stmt resolve caller d (Return (Some e)) = check_expr resolve caller d e"
| "check_stmt resolve caller d (Stmt.Expr e) = check_expr resolve caller d e"
| "check_stmt resolve caller d (Return None) = []"
| "check_stmt resolve caller d (Stmt.If cond thn els) =
     check_expr resolve caller d cond @ check_block resolve caller d thn
     @ (case els of None \<Rightarrow> [] | Some e \<Rightarrow> check_block resolve caller d e)"
| "check_stmt resolve caller d (Stmt.Loop l) =
     (case loop_kind l of While cond \<Rightarrow> check_expr resolve caller d cond | LoopKind.Loop \<Rightarrow> [])
     @ check_block resolve caller d (loop_body l)"
| "check_stmt resolve caller d Break = []"
| "check_stmt resolve caller d Continue = []"
| "check_expr resolve caller depth expr =
     (if depth \<ge> MAX_WALK_DEPTH then [TooDeep MAX_WALK_DEPTH (ca_span caller)]
      else let d = depth + 1 in
      (case expr of
         Call callee args \<Rightarrow>
           (case callee of Path segs \<Rightarrow> if segs = [] then [] else check_call resolve caller (last segs)
            | _ \<Rightarrow> [])
           @ check_expr resolve caller d callee
           @ concat (map (\<lambda>a. check_expr resolve caller d a) args)
       | MethodCall receiver name args \<Rightarrow>
           check_call resolve caller name
           @ check_expr resolve caller d receiver
           @ concat (map (\<lambda>a. check_expr resolve caller d a) args)
       | Field receiver _ \<Rightarrow> check_expr resolve caller d receiver
       | Closure _ body \<Rightarrow> check_expr resolve caller d body
       | Match scrutinee arms \<Rightarrow>
           check_expr resolve caller d scrutinee
           @ concat (map (\<lambda>arm. check_expr resolve caller d (arm_body arm)) arms)
       | Expr.If cond thn els \<Rightarrow>
           check_expr resolve caller d cond @ check_block resolve caller d thn
           @ check_block resolve caller d els
       | Binary _ lhs rhs \<Rightarrow> check_expr resolve caller d lhs @ check_expr resolve caller d rhs
       | Expr.Index base index \<Rightarrow>
           check_expr resolve caller d base
           @ (case index of
                Single e \<Rightarrow> check_expr resolve caller d e
              | RangeTo e \<Rightarrow> check_expr resolve caller d e
              | RangeFrom e \<Rightarrow> check_expr resolve caller d e
              | Range a b \<Rightarrow> check_expr resolve caller d a @ check_expr resolve caller d b)
       | Cast e _ \<Rightarrow> check_expr resolve caller d e
       | Expr.Ref _ e \<Rightarrow> check_expr resolve caller d e
       | StructLit _ fs \<Rightarrow> concat (map (\<lambda>field. check_expr resolve caller d (snd field)) fs)
       | Is scrutinee _ \<Rightarrow> check_expr resolve caller d scrutinee
       | Deref inner \<Rightarrow> check_expr resolve caller d inner
       | Unary _ e \<Rightarrow> check_expr resolve caller d e
       | Expr.Tuple elems \<Rightarrow> concat (map (\<lambda>e. check_expr resolve caller d e) elems)
       | TupleProj receiver _ \<Rightarrow> check_expr resolve caller d receiver
       | Quantifier _ _ _ domain body \<Rightarrow>
           check_expr resolve caller d domain @ check_expr resolve caller d body
       | IntLit _ _ \<Rightarrow> [] | BoolLit _ \<Rightarrow> [] | Path _ \<Rightarrow> [] | StrLit _ \<Rightarrow> []))"
  by pat_completeness auto
termination
  by (relation "measure (\<lambda>x. case x of
        Inl (_, _, _, b) \<Rightarrow> size b | Inr (Inl (_, _, _, s)) \<Rightarrow> size s | Inr (Inr (_, _, _, e)) \<Rightarrow> size e)")
     (auto dest: ast_sizes simp: less_Suc_eq_le size_of_loop_parts)

definition insert_first :: "(Ident \<rightharpoonup> 'v) \<Rightarrow> Ident \<Rightarrow> 'v \<Rightarrow> (Ident \<rightharpoonup> 'v)" where
  "insert_first m k v = (if m k = None then m(k \<mapsto> v) else m)"

text \<open>The two maps of the first loop: \<open>entry(..).or_insert(..)\<close> keeps the first declaration.\<close>

definition fn_rows :: "Item list \<Rightarrow> (Ident \<rightharpoonup> EffectRow)" where
  "fn_rows items =
     foldl (\<lambda>m item. case item of Item.Fn f \<Rightarrow> insert_first m (fn_name f) (ct_fx (fn_contract f)) | _ \<Rightarrow> m)
       Map.empty items"

definition spec_names :: "Item list \<Rightarrow> (Ident \<rightharpoonup> unit)" where
  "spec_names items =
     foldl (\<lambda>m item. case item of SpecFn s \<Rightarrow> insert_first m (sf_name s) () | _ \<Rightarrow> m) Map.empty items"

definition resolve :: "Program \<Rightarrow> Ident \<Rightarrow> Callee" where
  "resolve program name =
     (case fn_rows (pr_items program) name of
        Some row \<Rightarrow> Fn row
      | None \<Rightarrow>
          if spec_names (pr_items program) name \<noteq> None \<or> combinator_lookup name \<noteq> None
          then Callee.Pure else Unresolved)"

definition caller_of :: "FnItem \<Rightarrow> Caller" where
  "caller_of f = \<lparr>ca_fx = ct_fx (fn_contract f), ca_name = fn_name f, ca_span = fn_span f\<rparr>"

definition check_effects :: "Program \<Rightarrow> (unit, LowerError list) result" where
  "check_effects program =
     (let errors = concat (map (\<lambda>item. case item of
            Item.Fn f \<Rightarrow> (case fn_body f of
                Some body \<Rightarrow> check_block (resolve program) (caller_of f) 0 body
              | None \<Rightarrow> [])
          | _ \<Rightarrow> []) (pr_items program))
      in if errors = [] then Ok () else Err errors)"


section \<open>Masks are sets of effect kinds\<close>

declare check_block.simps [simp del] check_stmt.simps [simp del] check_expr.simps [simp del]

definition row_kinds :: "EffectRow \<Rightarrow> EffectKind set" where
  "row_kinds row = (case row of EffectRow.Pure \<Rightarrow> {} | Set v \<Rightarrow> kind_of ` set v)"

lemma set_effects [simp]: "set (effects row) = row_kinds row"
  by (cases row) (simp_all add: effects_def row_kinds_def)

lemma bit_effect_bit: "bit (effect_bit k) n \<longleftrightarrow> n = effect_index k"
  using effect_index_less [of k]
  unfolding effect_bit_def bit_push_bit_iff bit_1_iff by (auto simp: ATOM_COUNT_def)

lemma bit_foldl_mask:
  "bit (foldl (\<lambda>m e. m OR effect_bit (kind_of e)) m v) n \<longleftrightarrow> bit m n \<or> (\<exists>e\<in>set v. n = effect_index (kind_of e))"
  by (induction v arbitrary: m) (auto simp: bit_or_iff bit_effect_bit)

lemma bit_effect_mask: "bit (effect_mask row) n \<longleftrightarrow> n \<in> effect_index ` row_kinds row"
  by (cases row) (auto simp: effect_mask_def row_kinds_def bit_foldl_mask)

lemma subsumes_iff: "subsumes caller callee \<longleftrightarrow> row_kinds callee \<subseteq> row_kinds caller"
  by (auto simp: subsumes_def subsumes_masks_iff bit_effect_mask dest: effect_index_inject)

lemma effect_mask_bound: "effect_mask row < 2 ^ 21"
proof -
  have "take_bit 21 (effect_mask row) = effect_mask row"
    using effect_index_less by (auto simp: bit_eq_iff bit_take_bit_iff bit_effect_mask ATOM_COUNT_def)
  then have "unat (effect_mask row) = take_bit 21 (unat (effect_mask row))"
    by (metis unsigned_take_bit_eq)
  then have "unat (effect_mask row) < 2 ^ 21"
    by (metis take_bit_nat_less_exp)
  then show ?thesis by (simp add: word_less_nat_alt)
qed

lemma missing_atoms_empty_iff: "missing_atoms caller callee = [] \<longleftrightarrow> subsumes caller callee"
  by (auto simp: missing_atoms_def subsumes_iff filter_empty_conv)

lemma kind_of_to_effect [simp]: "kind_of (to_effect k) = k"
  by (cases k) simp_all

lemma missing_atoms_kinds: "kind_of ` set (missing_atoms caller callee) = row_kinds callee - row_kinds caller"
  by (auto simp: missing_atoms_def image_image)

section \<open>What the walk sees\<close>

text \<open>
  The callee names an expression evaluates at run time, outside the guards of match arms: the last
  segment of a called path and the name of a method.
\<close>

function (sequential) runtime_calls_block :: "Block \<Rightarrow> Ident set"
  and runtime_calls_stmt :: "Stmt \<Rightarrow> Ident set"
  and runtime_calls_expr :: "Expr \<Rightarrow> Ident set" where
  "runtime_calls_block (Block stmts tail) =
     (\<Union>stmt\<in>set stmts. runtime_calls_stmt stmt) \<union> (\<Union>e\<in>set_option tail. runtime_calls_expr e)"
| "runtime_calls_stmt (Let _ _ _ init) = runtime_calls_expr init"
| "runtime_calls_stmt (Assign target value) = runtime_calls_expr target \<union> runtime_calls_expr value"
| "runtime_calls_stmt (Return e) = (\<Union>x\<in>set_option e. runtime_calls_expr x)"
| "runtime_calls_stmt (Stmt.Expr e) = runtime_calls_expr e"
| "runtime_calls_stmt (Stmt.If cond thn els) =
     runtime_calls_expr cond \<union> runtime_calls_block thn \<union> (\<Union>b\<in>set_option els. runtime_calls_block b)"
| "runtime_calls_stmt (Stmt.Loop l) =
     (case loop_kind l of While cond \<Rightarrow> runtime_calls_expr cond | LoopKind.Loop \<Rightarrow> {})
     \<union> runtime_calls_block (loop_body l)"
| "runtime_calls_stmt Break = {}"
| "runtime_calls_stmt Continue = {}"
| "runtime_calls_expr (Call callee args) =
     (case callee of Path segs \<Rightarrow> if segs = [] then {} else {last segs} | _ \<Rightarrow> {})
     \<union> runtime_calls_expr callee \<union> (\<Union>a\<in>set args. runtime_calls_expr a)"
| "runtime_calls_expr (MethodCall receiver name args) =
     {name} \<union> runtime_calls_expr receiver \<union> (\<Union>a\<in>set args. runtime_calls_expr a)"
| "runtime_calls_expr (Field receiver _) = runtime_calls_expr receiver"
| "runtime_calls_expr (Closure _ body) = runtime_calls_expr body"
| "runtime_calls_expr (Match scrutinee arms) =
     runtime_calls_expr scrutinee \<union> (\<Union>arm\<in>set arms. runtime_calls_expr (arm_body arm))"
| "runtime_calls_expr (Expr.If cond thn els) =
     runtime_calls_expr cond \<union> runtime_calls_block thn \<union> runtime_calls_block els"
| "runtime_calls_expr (Binary _ lhs rhs) = runtime_calls_expr lhs \<union> runtime_calls_expr rhs"
| "runtime_calls_expr (Unary _ e) = runtime_calls_expr e"
| "runtime_calls_expr (Expr.Index base (Single e)) = runtime_calls_expr base \<union> runtime_calls_expr e"
| "runtime_calls_expr (Expr.Index base (RangeTo e)) = runtime_calls_expr base \<union> runtime_calls_expr e"
| "runtime_calls_expr (Expr.Index base (RangeFrom e)) = runtime_calls_expr base \<union> runtime_calls_expr e"
| "runtime_calls_expr (Expr.Index base (Range a b)) =
     runtime_calls_expr base \<union> runtime_calls_expr a \<union> runtime_calls_expr b"
| "runtime_calls_expr (Cast e _) = runtime_calls_expr e"
| "runtime_calls_expr (Expr.Ref _ e) = runtime_calls_expr e"
| "runtime_calls_expr (StructLit _ fs) = (\<Union>field\<in>set fs. runtime_calls_expr (snd field))"
| "runtime_calls_expr (Is scrutinee _) = runtime_calls_expr scrutinee"
| "runtime_calls_expr (Deref inner) = runtime_calls_expr inner"
| "runtime_calls_expr (Expr.Tuple elems) = (\<Union>e\<in>set elems. runtime_calls_expr e)"
| "runtime_calls_expr (TupleProj receiver _) = runtime_calls_expr receiver"
| "runtime_calls_expr (Quantifier _ _ _ domain body) = runtime_calls_expr domain \<union> runtime_calls_expr body"
| "runtime_calls_expr (IntLit _ _) = {}"
| "runtime_calls_expr (BoolLit _) = {}"
| "runtime_calls_expr (Path _) = {}"
| "runtime_calls_expr (StrLit _) = {}"
  by pat_completeness auto
termination
  by (relation "measure (\<lambda>x. case x of Inl b \<Rightarrow> size b | Inr (Inl s) \<Rightarrow> size s | Inr (Inr e) \<Rightarrow> size e)")
     (auto dest: ast_sizes simp: less_Suc_eq_le size_of_loop_parts)

text \<open>A walk without an error has compared every one of these calls.\<close>

lemma check_walk_sound:
  "check_block rs ca d b = [] \<Longrightarrow> n \<in> runtime_calls_block b \<Longrightarrow> check_call rs ca n = []"
  "check_stmt rs ca d st = [] \<Longrightarrow> n \<in> runtime_calls_stmt st \<Longrightarrow> check_call rs ca n = []"
  "check_expr rs ca d e = [] \<Longrightarrow> n \<in> runtime_calls_expr e \<Longrightarrow> check_call rs ca n = []"
proof (induction rs ca d b and rs ca d st and rs ca d e rule: check_block_check_stmt_check_expr.induct)
  case (1 rs ca depth stmts tail)
  then show ?case
    by (auto simp: check_block.simps Let_def split: if_splits option.splits)
next
  case (11 rs ca depth e)
  have deep: "\<not> MAX_WALK_DEPTH \<le> depth" using "11.prems"(1) by (auto simp: check_expr.simps)
  note walk = "11.prems"(1) [unfolded check_expr.simps [of rs ca depth e]]
  show ?case
  proof (cases e)
    case (Index base index)
    then show ?thesis
      using "11.IH" "11.prems"(2) walk deep by (cases index) (auto simp: Let_def)
  next
    case (Call callee args)
    have sub: "check_expr rs ca (depth + 1) callee = []" "a \<in> set args \<Longrightarrow> check_expr rs ca (depth + 1) a = []" for a
      using walk deep Call by (auto simp: Let_def)
    have path: "callee = Path segs \<Longrightarrow> segs \<noteq> [] \<Longrightarrow> check_call rs ca (last segs) = []" for segs
      using walk deep Call by (auto simp: Let_def)
    consider "n \<in> runtime_calls_expr callee" | a where "a \<in> set args" "n \<in> runtime_calls_expr a"
      | segs where "callee = Path segs" "segs \<noteq> []" "n = last segs"
      using "11.prems"(2) Call by (cases callee) (auto split: if_splits)
    then show ?thesis
      using "11.IH"(1,2) [OF deep refl Call] sub path by cases blast+
  qed (use "11.IH" "11.prems"(2) walk deep in \<open>auto simp: Let_def\<close>)
qed (auto simp: check_stmt.simps split: option.splits LoopKind.splits)

section \<open>Soundness of the checker\<close>

text \<open>
  The functions of a program, the function a name resolves to (the first declaration with that
  name), and the chains of calls that start in a function.
\<close>

definition fns :: "Program \<Rightarrow> FnItem list" where
  "fns program = concat (map (\<lambda>item. case item of Item.Fn f \<Rightarrow> [f] | _ \<Rightarrow> []) (pr_items program))"

definition calls :: "Program \<Rightarrow> FnItem \<Rightarrow> FnItem \<Rightarrow> bool" where
  "calls program f g \<longleftrightarrow>
     (\<exists>body\<in>set_option (fn_body f). \<exists>n\<in>runtime_calls_block body. find (\<lambda>h. fn_name h = n) (fns program) = Some g)"

definition reaches :: "Program \<Rightarrow> FnItem \<Rightarrow> FnItem \<Rightarrow> bool" where
  "reaches program = (calls program)\<^sup>*\<^sup>*"

abbreviation row_of :: "FnItem \<Rightarrow> EffectRow" where
  "row_of f \<equiv> ct_fx (fn_contract f)"

lemma fn_rows_foldl:
  "foldl (\<lambda>m item. case item of Item.Fn f \<Rightarrow> insert_first m (fn_name f) (row_of f) | _ \<Rightarrow> m) m items n =
     (case m n of
        Some row \<Rightarrow> Some row
      | None \<Rightarrow> map_option row_of (find (\<lambda>h. fn_name h = n)
          (concat (map (\<lambda>item. case item of Item.Fn f \<Rightarrow> [f] | _ \<Rightarrow> []) items))))"
proof (induction items arbitrary: m)
  case (Cons item items)
  then show ?case by (cases item) (auto simp: insert_first_def split: option.splits)
qed (simp split: option.splits)

lemma fn_rows_find: "fn_rows (pr_items p) n = map_option row_of (find (\<lambda>h. fn_name h = n) (fns p))"
  unfolding fn_rows_def fns_def fn_rows_foldl by simp

lemma check_effects_bodies:
  assumes "check_effects p = Ok ()" "f \<in> set (fns p)" "fn_body f = Some body"
  shows "check_block (resolve p) (caller_of f) 0 body = []"
proof -
  have "Item.Fn f \<in> set (pr_items p)"
    using assms(2) by (auto simp: fns_def split: Item.splits)
  then show ?thesis
    using assms(1,3) unfolding check_effects_def Let_def by (fastforce split: if_splits)
qed

lemma call_subsumed:
  assumes ok: "check_effects p = Ok ()" and f: "f \<in> set (fns p)" and call: "calls p f g"
  shows "row_kinds (row_of g) \<subseteq> row_kinds (row_of f)" and "g \<in> set (fns p)"
proof -
  obtain body n where body: "fn_body f = Some body" "n \<in> runtime_calls_block body"
      and g: "find (\<lambda>h. fn_name h = n) (fns p) = Some g"
    using call by (auto simp: calls_def)
  have "check_call (resolve p) (caller_of f) n = []"
    using check_walk_sound(1) [OF check_effects_bodies [OF ok f body(1)] body(2)] .
  then show "row_kinds (row_of g) \<subseteq> row_kinds (row_of f)"
    using g by (simp add: check_call_def resolve_def fn_rows_find caller_of_def subsumes_iff split: if_splits)
  show "g \<in> set (fns p)" using g by (auto simp: find_Some_iff)
qed

lemma reaches_subsumed:
  assumes "reaches p f g" "check_effects p = Ok ()" "f \<in> set (fns p)"
  shows "row_kinds (row_of g) \<subseteq> row_kinds (row_of f) \<and> g \<in> set (fns p)"
  using assms(1) unfolding reaches_def
proof (induction rule: rtranclp_induct)
  case base
  then show ?case using assms(3) by simp
next
  case (step g h)
  then show ?case using call_subsumed [OF assms(2)] by blast
qed


definition demo_log :: FnItem where
  "demo_log = sample_fn ''log'' (Set [Effect.Write ''out'']) (Some (BoolLit True))"

definition demo_step :: FnItem where
  "demo_step = sample_fn ''step'' (Set [Effect.Write ''out'', Effect.Time]) (Some (call_of ''log''))"

definition demo_main :: FnItem where
  "demo_main = sample_fn ''main'' (Set [Effect.Time, Effect.Write ''out'', Effect.Alloc]) (Some (call_of ''step''))"

definition demo_program :: Program where
  "demo_program = \<lparr>pr_items = map Item.Fn [demo_log, demo_step, demo_main]\<rparr>"

lemmas demo_program_defs = demo_log_def demo_step_def demo_main_def demo_program_def sample_defs

lemma demo_program_accepted: "check_effects demo_program = Ok ()"
  by (simp add: check_effects_def demo_program_defs check_block.simps check_expr.simps MAX_WALK_DEPTH_def
    check_call_def resolve_def fn_rows_def insert_first_def caller_of_def subsumes_iff row_kinds_def)

lemma demo_program_reaches: "reaches demo_program demo_main demo_log"
proof -
  have "calls demo_program demo_main demo_step" "calls demo_program demo_step demo_log"
    by (simp_all add: calls_def fns_def demo_program_defs)
  then show ?thesis unfolding reaches_def by auto
qed


text \<open>
  C22: the mask comparison the checker makes is the subset relation on the effect kinds of the two
  rows; on every pair of rows it agrees with the bit-by-bit specification of the verified core, and
  it answers no exactly when there is an atom to report, namely one of the callee's kinds that the
  caller's row lacks.
\<close>

theorem subsumes_exact:
  "(subsumes caller callee \<longleftrightarrow> row_kinds callee \<subseteq> row_kinds caller) \<and>
   (subsumes caller callee \<longleftrightarrow> spec_subsumes_mask (effect_mask caller) (effect_mask callee)) \<and>
   (subsumes caller callee \<longleftrightarrow> missing_atoms caller callee = []) \<and>
   kind_of ` set (missing_atoms caller callee) = row_kinds callee - row_kinds caller"
proof -
  have "subsumes caller callee = spec_subsumes_mask (effect_mask caller) (effect_mask callee)"
    unfolding subsumes_def by (rule subsumes_masks_eq_spec [OF effect_mask_bound])
  then show ?thesis
    using missing_atoms_empty_iff missing_atoms_kinds subsumes_iff by blast
qed

text \<open>
  The walk of a match descends into the bodies of the arms but not into their guards: a function
  declared pure may call one that writes from a guard, and the program is accepted.
\<close>

definition guard_program :: Program where
  "guard_program = \<lparr>pr_items = map Item.Fn
     [demo_log,
      sample_fn ''main'' EffectRow.Pure
        (Some (Match (BoolLit True) [MatchArm Wildcard (Some (call_of ''log'')) (BoolLit True)]))]\<rparr>"

lemma guard_call_unchecked:
  "check_effects guard_program = Ok ()"
  "\<not> subsumes EffectRow.Pure (ct_fx (fn_contract demo_log))"
  by (simp_all add: check_effects_def guard_program_def demo_program_defs check_block.simps check_expr.simps
    MAX_WALK_DEPTH_def subsumes_iff row_kinds_def)

end
