(* ===== verification/Rust_Text.thy ===== *)
theory Rust_Text
  imports Kernel_Prelude "HOL-Library.Sublist"
begin

text \<open>
  The operations of Rust's \<open>str\<close> that the tool-chain uses on solver reports and messages, on byte
  strings: case folding, substring search, splitting into lines, trimming and prefixes, and the
  number formats. Trimming removes the ASCII white space; the reports the tool-chain reads
  are ASCII text outside the echoed source.
\<close>

definition to_ascii_lowercase :: "string \<Rightarrow> string" where
  "to_ascii_lowercase = map (\<lambda>c. let n = of_char c :: nat in if 65 \<le> n \<and> n \<le> 90 then char_of (n + 32) else c)"

fun str_contains :: "string \<Rightarrow> string \<Rightarrow> bool" where
  "str_contains [] needle = (needle = [])"
| "str_contains (c # cs) needle = (prefix needle (c # cs) \<or> str_contains cs needle)"

lemma str_contains_sublist: "str_contains s needle \<longleftrightarrow> sublist needle s"
  by (induction s) (simp_all add: sublist_Cons_right)

lemma str_contains_iff: "str_contains s needle \<longleftrightarrow> (\<exists>a b. s = a @ needle @ b)"
  by (simp add: str_contains_sublist sublist_def)

definition newline :: char where "newline = CHR 0x0A"

definition is_whitespace :: "char \<Rightarrow> bool" where
  "is_whitespace c = (c \<in> {CHR '' '', CHR 0x09, CHR 0x0A, CHR 0x0B, CHR 0x0C, CHR 0x0D})"

text \<open>
  \<open>str::lines\<close>: a line ends at a newline, a carriage return right before the newline belongs to
  the line ending, and there is no empty line after a final newline. The accumulator holds
  the current line, reversed.
\<close>

fun lines_from :: "string \<Rightarrow> string \<Rightarrow> string list" where
  "lines_from cur [] = (if cur = [] then [] else [rev cur])"
| "lines_from cur (c # cs) =
     (if c = newline
      then rev (case cur of d # ds \<Rightarrow> if d = CHR 0x0D then ds else cur | [] \<Rightarrow> []) # lines_from [] cs
      else lines_from (c # cur) cs)"

definition lines :: "string \<Rightarrow> string list" where
  "lines text = lines_from [] text"

definition trim_start :: "string \<Rightarrow> string" where
  "trim_start = dropWhile is_whitespace"

definition trim :: "string \<Rightarrow> string" where
  "trim s = rev (dropWhile is_whitespace (rev (trim_start s)))"

definition strip_prefix_str :: "string \<Rightarrow> string \<Rightarrow> string option" where
  "strip_prefix_str s pre = (if prefix pre s then Some (drop (length pre) s) else None)"

fun split_once :: "string \<Rightarrow> char \<Rightarrow> (string \<times> string) option" where
  "split_once [] d = None"
| "split_once (c # cs) d =
     (if c = d then Some ([], cs) else map_option (\<lambda>(a, b). (c # a, b)) (split_once cs d))"

definition trim_matches :: "string \<Rightarrow> char \<Rightarrow> string" where
  "trim_matches s d = rev (dropWhile (\<lambda>c. c = d) (rev (dropWhile (\<lambda>c. c = d) s)))"

definition is_ascii_digit :: "char \<Rightarrow> bool" where
  "is_ascii_digit c = (let n = of_char c :: nat in 48 \<le> n \<and> n \<le> 57)"

fun join_with :: "string \<Rightarrow> string list \<Rightarrow> string" where
  "join_with sep [] = []"
| "join_with sep [x] = x"
| "join_with sep (x # xs) = x @ sep @ join_with sep xs"


section \<open>Number formats\<close>

definition digit_char :: "nat \<Rightarrow> char" where
  "digit_char n = (if n < 10 then char_of (48 + n) else char_of (87 + n))"

function digits_in :: "nat \<Rightarrow> nat \<Rightarrow> string" where
  "digits_in base n =
     (if base < 2 \<or> n < base then [digit_char n] else digits_in base (n div base) @ [digit_char (n mod base)])"
  by auto
termination by (relation "measure snd") auto

declare digits_in.simps [simp del]

definition show_nat :: "nat \<Rightarrow> string" where
  "show_nat n = digits_in 10 n"

definition show_int :: "int \<Rightarrow> string" where
  "show_int i = (if i < 0 then ''-'' @ show_nat (nat (- i)) else show_nat (nat i))"

text \<open>The format directive \<open>{:#x}\<close> of a \<open>u64\<close>.\<close>

definition format_hex :: "u64 \<Rightarrow> string" where
  "format_hex n = ''0x'' @ digits_in 16 (unat n)"

text \<open>Reading a decimal number back.\<close>

definition read_digits :: "string \<Rightarrow> nat" where
  "read_digits s = foldl (\<lambda>n c. 10 * n + (of_char c - 48)) 0 s"

lemma digit_char_decimal: "n < 10 \<Longrightarrow> of_char (digit_char n) = 48 + n"
  by (simp add: digit_char_def)

lemma read_digits_show_nat: "read_digits (show_nat n) = n"
proof -
  have "read_digits (digits_in 10 n) = n"
  proof (induction "10 :: nat" n rule: digits_in.induct)
    case (1 n)
    then show ?case
      by (subst digits_in.simps) (auto simp: read_digits_def digit_char_decimal)
  qed
  then show ?thesis by (simp add: show_nat_def)
qed

end
