(* ===== verification/Forge_Manifest.thy ===== *)
theory Forge_Manifest
  imports Syntax_Ast Verified_Core Rust_Text "HOL-Library.List_Lexorder" "HOL-Library.Char_ord"
begin

text \<open>
  The certificates and the assurance manifest of \<open>forge/src/manifest.rs\<close>, with the data types of
  \<open>profile.rs\<close>, \<open>strengthen.rs\<close>, \<open>engine.rs\<close>, \<open>covenant_engine.rs\<close>, \<open>meaning.rs\<close>, \<open>burn.rs\<close>,
  \<open>lean_smt_export.rs\<close> and \<open>verdict.rs\<close> that a certificate carries: every constructor and every
  \<open>with_*\<close> update of a certificate, the oracle subset, the certification test, the aggregate of a
  project and its scope. Strings are byte sequences; the two non-ASCII marks of the messages are
  written out as their UTF-8 bytes. The lemmas show which constructors certify and at which level,
  that the updates never touch a verdict, and that the headline of a project is the least level of
  its functions, or a failure as soon as one function does not certify.
\<close>


section \<open>Text of the messages\<close>

definition em_dash :: string where "em_dash = [CHR 0xE2, CHR 0x80, CHR 0x94]"

definition section_sign :: string where "section_sign = [CHR 0xC2, CHR 0xA7]"


section \<open>The data a certificate carries\<close>

datatype AssuranceScope = EndToEnd | ToBoundary string

definition is_end_to_end :: "AssuranceScope \<Rightarrow> bool" where
  "is_end_to_end s = (case s of EndToEnd \<Rightarrow> True | ToBoundary _ \<Rightarrow> False)"

definition scope_is_end_to_end :: "AssuranceScope option \<Rightarrow> bool" where
  "scope_is_end_to_end scope = (case scope of None \<Rightarrow> True | Some s \<Rightarrow> is_end_to_end s)"

datatype Level = L0 | L1 | L2 | L3 | L4

text \<open>The derived \<open>Ord\<close> of \<open>Level\<close> is the order of the declaration.\<close>

fun level_index :: "Level \<Rightarrow> nat" where
  "level_index L0 = 0"
| "level_index L1 = 1"
| "level_index L2 = 2"
| "level_index L3 = 3"
| "level_index L4 = 4"

lemma level_index_inject: "level_index a = level_index b \<Longrightarrow> a = b"
  by (cases a; cases b) simp_all

instantiation Level :: linorder
begin

definition less_eq_Level :: "Level \<Rightarrow> Level \<Rightarrow> bool" where
  "less_eq_Level a b = (level_index a \<le> level_index b)"

definition less_Level :: "Level \<Rightarrow> Level \<Rightarrow> bool" where
  "less_Level a b = (level_index a < level_index b)"

instance
  by standard (auto simp: less_eq_Level_def less_Level_def intro: level_index_inject)

end

lemmas level_order_defs = less_eq_Level_def less_Level_def

datatype ObligationStatus = Discharged | Failed

record BvShadow =
  bs_flagged :: bool
  bs_semantics :: string
  bs_nowrap_obligation :: "string option"
  bs_note :: string

record ReconstructionEvidence =
  rc_theorem :: string
  rc_source_sha256 :: string
  rc_fragment :: string
  rc_checker :: string
  rc_axioms :: "string list"
  rc_solver_query_sha256 :: "string option"
  rc_canonical_ir_sha256 :: "string option"
  rc_source_clause_sha256 :: "string option"
  rc_ground_sha256 :: "string option"
  rc_instantiation_sha256 :: "string option"
  rc_theory_sha256 :: "string option"
  rc_propositional_problem_sha256 :: "string option"
  rc_cnf_sha256 :: "string option"
  rc_lrat_sha256 :: "string option"
  rc_ground_universe_count :: "nat option"
  rc_instantiation_count :: "nat option"
  rc_theory_clause_count :: "nat option"
  rc_elapsed_ms :: "u64 option"
  rc_budget_outcome :: "string option"
  rc_verdict_key_sha256 :: "string option"
  rc_cache_hit :: "bool option"

record RealPoint =
  rp_assignment :: "(string \<times> string) list"

record CovenantCounterexample =
  cc_input :: string
  cc_seed :: u64

text \<open>An obligation may carry a verdict and a verdict may carry obligations.\<close>

datatype ObligationResult =
  ObligationResult
    (ob_name: string) (ob_status: ObligationStatus) (ob_location: "string option")
    (ob_diagnostic: "string option") (ob_engine: "string option") (ob_trust: "string list")
    (ob_verdict: "CertVerdict option") (ob_bv_shadow: "BvShadow option")
    (ob_reconstruction: "ReconstructionEvidence option")
and CertVerdict =
    Proved
  | Counterexample "ObligationResult list"
  | RealWitness RealPoint
  | CovenantRefuted CovenantCounterexample
  | Stuck "string list" "string option"
  | KernelBudget string
  | Timeout string

definition discharged :: "string \<Rightarrow> ObligationResult" where
  "discharged name = ObligationResult name Discharged None None None [] None None None"

definition failed :: "string \<Rightarrow> string option \<Rightarrow> string option \<Rightarrow> ObligationResult" where
  "failed name location diagnostic = ObligationResult name Failed location diagnostic None [] None None None"

fun with_clause_attribution :: "ObligationResult \<Rightarrow> string \<Rightarrow> string list \<Rightarrow> CertVerdict \<Rightarrow> ObligationResult" where
  "with_clause_attribution (ObligationResult n s l d _ _ _ bv rc) engine trust verdict =
     ObligationResult n s l d (Some engine) trust (Some verdict) bv rc"

fun with_bv_shadow :: "ObligationResult \<Rightarrow> BvShadow \<Rightarrow> ObligationResult" where
  "with_bv_shadow (ObligationResult n s l d e t v _ rc) shadow = ObligationResult n s l d e t v (Some shadow) rc"

fun with_reconstruction :: "ObligationResult \<Rightarrow> ReconstructionEvidence \<Rightarrow> ObligationResult" where
  "with_reconstruction (ObligationResult n s l d e t v bv _) evidence = ObligationResult n s l d e t v bv (Some evidence)"

record ContractQuality =
  cq_tautology :: bool
  cq_vacuous_precondition :: bool
  cq_mutants_killed :: string
  cq_survivor :: "string option"

definition forward_declared :: ContractQuality where
  "forward_declared =
     \<lparr>cq_tautology = False, cq_vacuous_precondition = False, cq_mutants_killed = ''0/0'', cq_survivor = None\<rparr>"

record SuggestedMove =
  sm_kind :: string
  sm_detail :: string

record SlagMeta =
  sg_reason :: string
  sg_owner :: string
  sg_review :: string

record RejectReason =
  rr_cause :: string
  rr_detail :: string

record QuantifierProfile =
  qp_trigger :: string
  qp_instantiations :: u64
  qp_pct_of_total :: u64
  qp_cost :: u64
  qp_cost_x_instantiations :: u64
  qp_span :: string

record SolverProfile =
  so_total_instantiations :: u64
  so_quantifiers :: "QuantifierProfile list"

record Suggestion =
  su_clause :: string
  su_kills_survivor :: "string option"

record EngineAttribution =
  ea_engine :: string
  ea_trust_profile :: "string list"

record CovenantEvidence =
  cv_witness_count :: nat
  cv_falsify_generated :: u64
  cv_falsify_refuted :: u64
  cv_seed :: u64

record MeaningAudit =
  ma_tower_hash :: string
  ma_depth :: nat
  ma_definitions :: nat

record BurnReceipt =
  br_proof_tokens :: nat
  br_authoring_tokens :: "u64 option"
  br_cited_lemmas :: "string list"

record Certificate =
  ce_item :: string
  ce_level :: Level
  ce_solver_time_ms :: u64
  ce_contract_quality :: ContractQuality
  ce_effects :: "string list"
  ce_slag :: bool
  ce_slag_meta :: "SlagMeta option"
  ce_reject :: "RejectReason option"
  ce_obligations :: "ObligationResult list"
  ce_cached :: bool
  ce_solver_profile :: "SolverProfile option"
  ce_suggested_move :: "SuggestedMove option"
  ce_lowered_assurance :: bool
  ce_degrade_reason :: "RejectReason option"
  ce_strengthening :: "Suggestion list"
  ce_boundary :: bool
  ce_boundary_target :: "string option"
  ce_assurance_scope :: "AssuranceScope option"
  ce_engine_attribution :: "EngineAttribution option"
  ce_covenant_evidence :: "CovenantEvidence option"
  ce_meaning_audit :: "MeaningAudit option"
  ce_burn :: "BurnReceipt option"


section \<open>Constructors and updates\<close>

definition Certificate_new ::
    "string \<Rightarrow> Level \<Rightarrow> string list \<Rightarrow> u64 \<Rightarrow> ObligationResult list \<Rightarrow> Certificate" where
  "Certificate_new item level effects solver_time_ms obligations =
     \<lparr>ce_item = item, ce_level = level, ce_solver_time_ms = solver_time_ms,
      ce_contract_quality = forward_declared, ce_effects = effects, ce_slag = False, ce_slag_meta = None,
      ce_reject = None, ce_obligations = obligations, ce_cached = False, ce_solver_profile = None,
      ce_suggested_move = None, ce_lowered_assurance = False, ce_degrade_reason = None,
      ce_strengthening = [], ce_boundary = False, ce_boundary_target = None, ce_assurance_scope = None,
      ce_engine_attribution = None, ce_covenant_evidence = None, ce_meaning_audit = None, ce_burn = None\<rparr>"

definition Certificate_timeout ::
    "string \<Rightarrow> string list \<Rightarrow> u64 \<Rightarrow> SolverProfile \<Rightarrow> SuggestedMove option \<Rightarrow> string \<Rightarrow> Certificate" where
  "Certificate_timeout item effects solver_time_ms profile suggested_move detail =
     (let reason = \<lparr>rr_cause = ''VerusTimeout'', rr_detail = detail\<rparr>;
          obligation = failed (rr_cause reason) None (Some (rr_detail reason))
      in \<lparr>ce_item = item, ce_level = L0, ce_solver_time_ms = solver_time_ms,
          ce_contract_quality = forward_declared, ce_effects = effects, ce_slag = False, ce_slag_meta = None,
          ce_reject = Some reason, ce_obligations = [obligation], ce_cached = False,
          ce_solver_profile = Some profile, ce_suggested_move = suggested_move,
          ce_lowered_assurance = False, ce_degrade_reason = None, ce_strengthening = [],
          ce_boundary = False, ce_boundary_target = None, ce_assurance_scope = None,
          ce_engine_attribution = None, ce_covenant_evidence = None, ce_meaning_audit = None, ce_burn = None\<rparr>)"

definition with_cached :: "Certificate \<Rightarrow> bool \<Rightarrow> Certificate" where
  "with_cached c cached = c\<lparr>ce_cached := cached\<rparr>"

definition graduate_triage_clean :: "Certificate \<Rightarrow> Certificate" where
  "graduate_triage_clean c =
     c\<lparr>ce_contract_quality := (ce_contract_quality c)\<lparr>cq_tautology := False, cq_vacuous_precondition := False\<rparr>\<rparr>"

definition slag_l1 :: "string \<Rightarrow> string list \<Rightarrow> SlagMeta \<Rightarrow> Certificate" where
  "slag_l1 item effects meta = graduate_triage_clean
     \<lparr>ce_item = item, ce_level = L1, ce_solver_time_ms = 0,
      ce_contract_quality = forward_declared, ce_effects = effects, ce_slag = True, ce_slag_meta = Some meta,
      ce_reject = None,
      ce_obligations = [discharged ''contract enforced at L1 (slag); proof exempt by fiat''],
      ce_cached = False, ce_solver_profile = None,
      ce_suggested_move = None, ce_lowered_assurance = False, ce_degrade_reason = None,
      ce_strengthening = [], ce_boundary = False, ce_boundary_target = None, ce_assurance_scope = None,
      ce_engine_attribution = None, ce_covenant_evidence = None, ce_meaning_audit = None, ce_burn = None\<rparr>"

definition boundary_l1 :: "string \<Rightarrow> string list \<Rightarrow> string \<Rightarrow> Certificate" where
  "boundary_l1 item effects target = graduate_triage_clean
     \<lparr>ce_item = item, ce_level = L1, ce_solver_time_ms = 0,
      ce_contract_quality = forward_declared, ce_effects = effects, ce_slag = False, ce_slag_meta = None,
      ce_reject = None,
      ce_obligations = [discharged ''contract enforced at L1 (boundary); foreign body trusted by fiat''],
      ce_cached = False, ce_solver_profile = None,
      ce_suggested_move = None, ce_lowered_assurance = False, ce_degrade_reason = None,
      ce_strengthening = [], ce_boundary = True, ce_boundary_target = Some target, ce_assurance_scope = None,
      ce_engine_attribution = None, ce_covenant_evidence = None, ce_meaning_audit = None, ce_burn = None\<rparr>"

definition Certificate_rejected :: "string \<Rightarrow> string list \<Rightarrow> bool \<Rightarrow> RejectReason \<Rightarrow> Certificate" where
  "Certificate_rejected item effects slag reason =
     (let obligation = failed (rr_cause reason) None (Some (rr_detail reason))
      in \<lparr>ce_item = item, ce_level = L0, ce_solver_time_ms = 0,
          ce_contract_quality = forward_declared, ce_effects = effects, ce_slag = slag, ce_slag_meta = None,
          ce_reject = Some reason, ce_obligations = [obligation], ce_cached = False,
          ce_solver_profile = None, ce_suggested_move = None,
          ce_lowered_assurance = False, ce_degrade_reason = None, ce_strengthening = [],
          ce_boundary = False, ce_boundary_target = None, ce_assurance_scope = None,
          ce_engine_attribution = None, ce_covenant_evidence = None, ce_meaning_audit = None, ce_burn = None\<rparr>)"

definition rejected_vacuity :: "string \<Rightarrow> string list \<Rightarrow> RejectReason \<Rightarrow> bool \<Rightarrow> bool \<Rightarrow> Certificate" where
  "rejected_vacuity item effects reason set_tautology set_vacuous_precondition =
     (let cert = Certificate_rejected item effects False reason
      in cert\<lparr>ce_contract_quality := (ce_contract_quality cert)
            \<lparr>cq_tautology := set_tautology, cq_vacuous_precondition := set_vacuous_precondition\<rparr>\<rparr>)"

definition into_degraded :: "Certificate \<Rightarrow> RejectReason \<Rightarrow> Certificate" where
  "into_degraded c reason = c\<lparr>ce_lowered_assurance := True, ce_degrade_reason := Some reason\<rparr>"

definition with_mutation_score :: "Certificate \<Rightarrow> string \<Rightarrow> string option \<Rightarrow> Certificate" where
  "with_mutation_score c mutants_killed survivor =
     c\<lparr>ce_contract_quality := (ce_contract_quality c)\<lparr>cq_mutants_killed := mutants_killed, cq_survivor := survivor\<rparr>\<rparr>"

definition strengthening_detail :: "Suggestion \<Rightarrow> string" where
  "strengthening_detail sug =
     (case su_kills_survivor sug of
        Some survivor \<Rightarrow>
          ''consider strengthening `ens` with `'' @ su_clause sug @ ''` '' @ em_dash
          @ '' it holds for your body and would kill survivor `'' @ survivor @ ''`''
      | None \<Rightarrow>
          ''consider strengthening `ens` with `'' @ su_clause sug @ ''` '' @ em_dash
          @ '' it holds for your body and pins the result more tightly than the current `ens`'')"

definition with_strengthening :: "Certificate \<Rightarrow> Suggestion list \<Rightarrow> Certificate" where
  "with_strengthening c suggestions =
     (let c' = (case suggestions of
            [] \<Rightarrow> c
          | first # _ \<Rightarrow> c\<lparr>ce_suggested_move :=
              Some \<lparr>sm_kind = ''strengthen-ens'', sm_detail = strengthening_detail first\<rparr>\<rparr>)
      in c'\<lparr>ce_strengthening := suggestions\<rparr>)"

definition rejected_weak_contract :: "string \<Rightarrow> string list \<Rightarrow> string \<Rightarrow> string \<Rightarrow> Certificate" where
  "rejected_weak_contract item effects mutants_killed survivor =
     (let reason = \<lparr>rr_cause = ''WeakContract'',
            rr_detail = section_sign @ ''7 step 4: the contract under-constrains the body '' @ em_dash
              @ '' mutation kill ratio '' @ mutants_killed @ '' is below the floor; mutant `'' @ survivor
              @ ''` survived (verus proved the deliberately-wrong body against this contract), so the contract ''
              @ ''does not distinguish it from the real body '' @ em_dash
              @ '' strengthen the `ens` to pin the behavior `'' @ survivor @ ''` changes''\<rparr>
      in with_mutation_score (Certificate_rejected item effects False reason) mutants_killed (Some survivor))"

definition with_assurance_scope :: "Certificate \<Rightarrow> AssuranceScope \<Rightarrow> Certificate" where
  "with_assurance_scope c scope = c\<lparr>ce_assurance_scope := Some scope\<rparr>"

definition with_engine_attribution :: "Certificate \<Rightarrow> EngineAttribution \<Rightarrow> Certificate" where
  "with_engine_attribution c attribution = c\<lparr>ce_engine_attribution := Some attribution\<rparr>"

definition with_covenant_evidence :: "Certificate \<Rightarrow> CovenantEvidence \<Rightarrow> Certificate" where
  "with_covenant_evidence c evidence = c\<lparr>ce_covenant_evidence := Some evidence\<rparr>"

definition with_meaning_audit :: "Certificate \<Rightarrow> MeaningAudit \<Rightarrow> Certificate" where
  "with_meaning_audit c audit = c\<lparr>ce_meaning_audit := Some audit\<rparr>"

definition with_burn :: "Certificate \<Rightarrow> BurnReceipt \<Rightarrow> Certificate" where
  "with_burn c receipt = c\<lparr>ce_burn := Some receipt\<rparr>"

definition rejected_over_budget_tower :: "string \<Rightarrow> string list \<Rightarrow> string \<Rightarrow> MeaningAudit \<Rightarrow> Certificate" where
  "rejected_over_budget_tower item effects detail audit =
     (let reason = \<lparr>rr_cause = ''DefinitionTowerBudget'', rr_detail = detail\<rparr>
      in (Certificate_rejected item effects False reason)\<lparr>ce_meaning_audit := Some audit\<rparr>)"

definition covenant_refuted ::
    "string \<Rightarrow> string list \<Rightarrow> CovenantCounterexample \<Rightarrow> CovenantEvidence \<Rightarrow> Certificate" where
  "covenant_refuted item effects counterexample evidence =
     (let reason = \<lparr>rr_cause = ''CovenantRefuted'',
            rr_detail = ''the covenant `falsify` run refuted `'' @ item @ ''`: the input ''
              @ cc_input counterexample @ '' satisfies `req` but the executable body violates `ens` ''
              @ ''(deterministic, seed '' @ format_hex (cc_seed counterexample) @ '') '' @ em_dash
              @ '' a hard fail, never degraded (REQ-4 / AC-8)''\<rparr>;
          obligation = failed ''covenant refuted: ens violated on a req-satisfying input'' None
            (Some (''counterexample: '' @ cc_input counterexample))
      in \<lparr>ce_item = item, ce_level = L0, ce_solver_time_ms = 0,
          ce_contract_quality = forward_declared, ce_effects = effects, ce_slag = False, ce_slag_meta = None,
          ce_reject = Some reason, ce_obligations = [obligation], ce_cached = False,
          ce_solver_profile = None, ce_suggested_move = None,
          ce_lowered_assurance = False, ce_degrade_reason = None, ce_strengthening = [],
          ce_boundary = False, ce_boundary_target = None, ce_assurance_scope = None,
          ce_engine_attribution = None, ce_covenant_evidence = Some evidence, ce_meaning_audit = None,
          ce_burn = None\<rparr>)"

definition oracle_subset ::
    "Certificate \<Rightarrow> string \<times> Level \<times> string list \<times> bool \<times> bool \<times> bool \<times> CovenantEvidence option
      \<times> MeaningAudit option \<times> BvShadow list" where
  "oracle_subset c =
     (ce_item c, ce_level c, ce_effects c, ce_slag c, ce_boundary c, scope_is_end_to_end (ce_assurance_scope c),
      ce_covenant_evidence c, ce_meaning_audit c, List.map_filter ob_bv_shadow (ce_obligations c))"

section \<open>The project\<close>

datatype ProjectAssurance = Certified Level | Failed

datatype ProjectScope = EndToEnd | ToBoundary "string list"

record FunctionAssurance =
  fa_item :: string
  fa_level :: Level
  fa_certified :: bool
  fa_lowered_assurance :: bool

record AssuranceManifest =
  am_project :: ProjectAssurance
  am_scope :: ProjectScope
  am_functions :: "FunctionAssurance list"

definition cert_certifies :: "Certificate \<Rightarrow> bool" where
  "cert_certifies cert \<longleftrightarrow> ce_reject cert = None \<and> ce_level cert \<in> {L4, L3, L2, L1}"

text \<open>
  The crossings are inserted into an ordered set, which the model keeps as a sorted list without
  repetition.
\<close>

definition crossing_of :: "Certificate \<Rightarrow> string option" where
  "crossing_of cert = (case ce_assurance_scope cert of Some (AssuranceScope.ToBoundary via) \<Rightarrow> Some via | _ \<Rightarrow> None)"

definition project_scope :: "Certificate list \<Rightarrow> ProjectScope" where
  "project_scope certs =
     (let crossings = foldl (\<lambda>acc cert. case crossing_of cert of
            Some via \<Rightarrow> bt_insert via () acc | None \<Rightarrow> acc) [] certs
      in if crossings = [] then EndToEnd else ToBoundary (map fst crossings))"

definition min_level :: "Level list \<Rightarrow> Level option" where
  "min_level ls = (case ls of [] \<Rightarrow> None | l # rest \<Rightarrow> Some (foldl min l rest))"

definition aggregate :: "Certificate list \<Rightarrow> AssuranceManifest" where
  "aggregate certs =
     (let functions = map (\<lambda>c. \<lparr>fa_item = ce_item c, fa_level = ce_level c, fa_certified = cert_certifies c,
            fa_lowered_assurance = ce_lowered_assurance c\<rparr>) certs;
          project = (if list_ex (\<lambda>f. \<not> fa_certified f) functions then ProjectAssurance.Failed
            else Certified (case min_level (map fa_level functions) of Some l \<Rightarrow> l | None \<Rightarrow> L3));
          scope = project_scope certs
      in \<lparr>am_project = project, am_scope = scope, am_functions = functions\<rparr>)"

fun effect_token :: "Effect \<Rightarrow> string" where
  "effect_token (Effect.Read name) = ''read('' @ name @ '')''"
| "effect_token (Effect.Write name) = ''write('' @ name @ '')''"
| "effect_token (Effect.Net name) = ''net('' @ name @ '')''"
| "effect_token Effect.Alloc = ''alloc''"
| "effect_token Effect.Time = ''time''"
| "effect_token Effect.Rand = ''rand''"
| "effect_token Effect.Panic = ''panic''"
| "effect_token Effect.Diverge = ''diverge''"
| "effect_token Effect.Term = ''term''"
| "effect_token (Effect.Platform domain) = ''platform('' @ domain_surface domain @ '')''"

definition effects_of :: "EffectRow \<Rightarrow> string list" where
  "effects_of fx = (case fx of Pure \<Rightarrow> [''pure''] | Set effects \<Rightarrow> map effect_token effects)"


section \<open>Which certificates certify\<close>

named_theorems cert_defs \<open>constructors and updates of certificates\<close>

declare Certificate_new_def [cert_defs] Certificate_timeout_def [cert_defs] with_cached_def [cert_defs]
  graduate_triage_clean_def [cert_defs] slag_l1_def [cert_defs] boundary_l1_def [cert_defs]
  Certificate_rejected_def [cert_defs] rejected_vacuity_def [cert_defs] into_degraded_def [cert_defs]
  with_mutation_score_def [cert_defs] with_strengthening_def [cert_defs]
  rejected_weak_contract_def [cert_defs] with_assurance_scope_def [cert_defs]
  with_engine_attribution_def [cert_defs] with_covenant_evidence_def [cert_defs]
  with_meaning_audit_def [cert_defs] with_burn_def [cert_defs] rejected_over_budget_tower_def [cert_defs]
  covenant_refuted_def [cert_defs] Let_def [cert_defs]

lemma cert_certifies_iff: "cert_certifies c \<longleftrightarrow> ce_reject c = None \<and> ce_level c \<noteq> L0"
  by (cases "ce_level c") (auto simp: cert_certifies_def)

lemma rejects_never_certify:
  "\<not> cert_certifies (Certificate_timeout item fx t profile move detail)"
  "\<not> cert_certifies (Certificate_rejected item fx slag reason)"
  "\<not> cert_certifies (rejected_vacuity item fx reason a b)"
  "\<not> cert_certifies (rejected_weak_contract item fx ratio survivor)"
  "\<not> cert_certifies (rejected_over_budget_tower item fx detail audit)"
  "\<not> cert_certifies (covenant_refuted item fx cx evidence)"
  by (simp_all add: cert_certifies_iff cert_defs)

lemma fiat_certifies_at_L1:
  "cert_certifies (slag_l1 item fx meta)" "ce_level (slag_l1 item fx meta) = L1"
  "cert_certifies (boundary_l1 item fx target)" "ce_level (boundary_l1 item fx target) = L1"
  by (simp_all add: cert_certifies_iff cert_defs)

text \<open>No update changes whether a certificate certifies, or its level.\<close>

lemma updates_keep_verdict:
  assumes "c' \<in> {with_cached c cached, graduate_triage_clean c, into_degraded c reason, with_mutation_score c ratio s,
    with_strengthening c sugg, with_assurance_scope c scope, with_engine_attribution c attribution,
    with_covenant_evidence c evidence, with_meaning_audit c audit, with_burn c receipt}"
  shows "cert_certifies c' = cert_certifies c \<and> ce_level c' = ce_level c"
  using assms by (auto simp: cert_certifies_iff cert_defs split: list.splits)

text \<open>The provenance-only updates are invisible to the oracle comparison.\<close>

lemma provenance_is_oracle_excluded:
  "oracle_subset (with_cached c cached) = oracle_subset c"
  "oracle_subset (with_burn c receipt) = oracle_subset c"
  "oracle_subset (with_strengthening c sugg) = oracle_subset c"
  "oracle_subset (with_engine_attribution c attribution) = oracle_subset c"
  "oracle_subset (with_mutation_score c ratio s) = oracle_subset c"
  by (cases sugg; simp add: oracle_subset_def cert_defs)+

lemma foldl_min_le: "foldl min l ls \<le> x \<longleftrightarrow> l \<le> x \<or> (\<exists>y\<in>set ls. y \<le> x)" for x :: "'a::linorder"
  by (induction ls arbitrary: l) (auto simp: min_le_iff_disj)

lemma foldl_min_mem: "foldl min l ls \<in> insert l (set ls)" for l :: "'a::linorder"
proof (induction ls arbitrary: l)
  case (Cons a ls)
  then show ?case using Cons [of "min l a"] by (auto simp: min_def split: if_splits)
qed simp

lemma min_level_Some:
  "min_level ls = Some m \<Longrightarrow> m \<in> set ls \<and> (\<forall>x\<in>set ls. m \<le> x)"
  using foldl_min_mem foldl_min_le by (fastforce simp: min_level_def split: list.splits)

lemma crossing_of_Some_iff:
  "crossing_of c = Some via \<longleftrightarrow> ce_assurance_scope c = Some (AssuranceScope.ToBoundary via)"
  by (auto simp: crossing_of_def split: option.splits AssuranceScope.splits)

lemma crossing_of_None_iff: "crossing_of c = None \<longleftrightarrow> scope_is_end_to_end (ce_assurance_scope c)"
  by (auto simp: crossing_of_def scope_is_end_to_end_def is_end_to_end_def split: option.splits AssuranceScope.splits)

definition crossing_set :: "Certificate list \<Rightarrow> (string, unit) btmap" where
  "crossing_set certs =
     foldl (\<lambda>acc cert. case crossing_of cert of Some via \<Rightarrow> bt_insert via () acc | None \<Rightarrow> acc) [] certs"

lemma crossings_snoc:
  "crossing_set (certs @ [c]) = (case crossing_of c of Some via \<Rightarrow> bt_insert via () (crossing_set certs) | None \<Rightarrow> crossing_set certs)"
  unfolding crossing_set_def by simp

lemma crossings_keys: "fst ` set (crossing_set certs) = {via. \<exists>c\<in>set certs. crossing_of c = Some via}"
proof (induction certs rule: rev_induct)
  case (snoc c certs)
  then show ?case by (auto simp: crossings_snoc set_bt_insert_keys split: option.splits)
qed (simp add: crossing_set_def)

lemma crossings_sorted: "sorted (map fst (crossing_set certs))" "distinct (map fst (crossing_set certs))"
proof -
  have "bt_wf (crossing_set certs)"
  proof (induction certs rule: rev_induct)
    case (snoc c certs)
    then show ?case by (auto simp: crossings_snoc split: option.splits)
  qed (simp add: crossing_set_def)
  then show "sorted (map fst (crossing_set certs))" "distinct (map fst (crossing_set certs))"
    by (simp_all add: bt_wf_def strict_sorted_iff)
qed

lemma project_scope_crossings:
  "project_scope certs = (if crossing_set certs = [] then EndToEnd else ToBoundary (map fst (crossing_set certs)))"
  by (simp add: project_scope_def crossing_set_def Let_def)

lemma aggregate_certified:
  "am_project (aggregate certs) = Certified l \<longleftrightarrow>
     list_all cert_certifies certs \<and>
     (if certs = [] then l = L3 else l \<in> ce_level ` set certs \<and> list_all (\<lambda>c. l \<le> ce_level c) certs \<and> l \<noteq> L0)"
proof (cases "certs = [] \<or> \<not> list_all cert_certifies certs")
  case True
  then show ?thesis
    by (auto simp: aggregate_def Let_def list_ex_iff list_all_iff min_level_def)
next
  case False
  then obtain m where m: "min_level (map ce_level certs) = Some m"
    by (cases certs) (auto simp: min_level_def)
  then have least: "m \<in> ce_level ` set certs" "\<forall>c\<in>set certs. m \<le> ce_level c"
    using min_level_Some by fastforce+
  have "am_project (aggregate certs) = Certified m"
    using False m by (auto simp: aggregate_def Let_def list_ex_iff list_all_iff comp_def)
  moreover have "l = m" if "l \<in> ce_level ` set certs" "\<forall>c\<in>set certs. l \<le> ce_level c"
    using that least by (auto intro: order.antisym)
  moreover have "m \<noteq> L0"
    using False least(1) by (auto simp: list_all_iff cert_certifies_iff)
  ultimately show ?thesis
    using False least by (auto simp: list_all_iff)
qed

lemma aggregate_scope:
  "case am_scope (aggregate certs) of
     EndToEnd \<Rightarrow> list_all (\<lambda>c. scope_is_end_to_end (ce_assurance_scope c)) certs
   | ToBoundary crossings \<Rightarrow>
       sorted crossings \<and> distinct crossings \<and> crossings \<noteq> [] \<and>
       set crossings = {via. \<exists>c\<in>set certs. ce_assurance_scope c = Some (AssuranceScope.ToBoundary via)}"
proof (cases "crossing_set certs = []")
  case True
  then show ?thesis
    using crossings_keys [of certs]
    by (auto simp: aggregate_def project_scope_crossings Let_def list_all_iff simp flip: crossing_of_None_iff not_Some_eq)
next
  case False
  then show ?thesis
    using crossings_keys [of certs] crossings_sorted [of certs]
    by (simp add: aggregate_def project_scope_crossings Let_def crossing_of_Some_iff)
qed

text \<open>
  C24: the headline of a project is a failure exactly when some function does not certify;
  otherwise it is the least level of its functions, attained by one of them (L3 for a project
  without functions), and it is never L0. Independently of it, the scope lists exactly the
  crossings that the certificates name, sorted and without repetition, and is end-to-end exactly
  when there is none.
\<close>

theorem aggregate_exact:
  "(am_project (aggregate certs) = ProjectAssurance.Failed \<longleftrightarrow> (\<exists>c\<in>set certs. \<not> cert_certifies c)) \<and>
   (am_project (aggregate certs) = Certified l \<longleftrightarrow>
      list_all cert_certifies certs \<and>
      (if certs = [] then l = L3
       else l \<in> ce_level ` set certs \<and> list_all (\<lambda>c. l \<le> ce_level c) certs \<and> l \<noteq> L0)) \<and>
   (case am_scope (aggregate certs) of
      EndToEnd \<Rightarrow> list_all (\<lambda>c. scope_is_end_to_end (ce_assurance_scope c)) certs
    | ToBoundary crossings \<Rightarrow>
        sorted crossings \<and> distinct crossings \<and> crossings \<noteq> [] \<and>
        set crossings = {via. \<exists>c\<in>set certs. ce_assurance_scope c = Some (AssuranceScope.ToBoundary via)})"
proof -
  have "am_project (aggregate certs) = ProjectAssurance.Failed \<longleftrightarrow> (\<exists>c\<in>set certs. \<not> cert_certifies c)"
    by (simp add: aggregate_def Let_def list_ex_iff)
  then show ?thesis by (intro conjI aggregate_certified aggregate_scope)
qed

end
