(* ===== verification/Forge_Ladder.thy ===== *)
theory Forge_Ladder
  imports Forge_Manifest
begin

text \<open>
  The degrade ladder: the verdicts of the engines and of a certificate (\<open>forge/src/engine.rs\<close>,
  \<open>verdict.rs\<close>), the reading of the bounded model checker's report (\<open>kani.rs\<close>), the ladder itself
  (\<open>degrade.rs\<close>) and the path of one item from the outcome of the proof attempt to its certificate
  (\<open>check.rs\<close>). The fallible closures for the lower rungs are state transformers, so that not
  running a rung is leaving the state alone. The lemmas show that a refuted item never reaches a
  lower rung, that the ladder agrees with the tag functions of the verified core, and that a
  report of a failed check other than an exhausted bound never yields a certifying certificate.
\<close>


section \<open>Verdicts\<close>

datatype EngineName = Verus | LeanAuto | LeanInteractive | Nlsat | BitVector | Epr

record CacheKey =
  ck_engine :: EngineName
  ck_content_address :: string

record Evidence =
  ev_verified :: u64
  ev_key :: CacheKey

datatype Reason = VerusTimeout string | IncompleteUnknown string

datatype Verdict = Proven Evidence | Refuted "ObligationResult list" | Unknown Reason

datatype VerusOutcome =
    Proved u64
  | Timeout SolverProfile string
  | Counterexample "ObligationResult list"

fun verdict_kind :: "CertVerdict \<Rightarrow> string" where
  "verdict_kind CertVerdict.Proved = ''Proved''"
| "verdict_kind (CertVerdict.Counterexample _) = ''Counterexample''"
| "verdict_kind (RealWitness _) = ''RealWitness''"
| "verdict_kind (CovenantRefuted _) = ''CovenantRefuted''"
| "verdict_kind (Stuck _ _) = ''Stuck''"
| "verdict_kind (KernelBudget _) = ''KernelBudget''"
| "verdict_kind (CertVerdict.Timeout _) = ''Timeout''"

definition verdict_is_proved :: "CertVerdict \<Rightarrow> bool" where
  "verdict_is_proved v = (case v of CertVerdict.Proved \<Rightarrow> True | _ \<Rightarrow> False)"

fun reason_detail :: "Reason \<Rightarrow> string" where
  "reason_detail (VerusTimeout detail) = detail"
| "reason_detail (IncompleteUnknown detail) = detail"

fun from_engine_verdict :: "Verdict \<Rightarrow> CertVerdict" where
  "from_engine_verdict (Proven _) = CertVerdict.Proved"
| "from_engine_verdict (Refuted obligations) = CertVerdict.Counterexample obligations"
| "from_engine_verdict (Unknown reason) = CertVerdict.Timeout (reason_detail reason)"

definition counterexample_is_incompleteness_unknown :: "ObligationResult list \<Rightarrow> bool" where
  "counterexample_is_incompleteness_unknown obligations =
     (if list_ex (\<lambda>ob. ob_location ob \<noteq> None) obligations then False
      else if list_ex (\<lambda>ob. case ob_diagnostic ob of Some d \<Rightarrow> str_contains d ''error[E'' | None \<Rightarrow> False) obligations
      then False
      else list_ex (\<lambda>ob. case ob_diagnostic ob of
          Some d \<Rightarrow> str_contains (to_ascii_lowercase d) ''unknown'' | None \<Rightarrow> False) obligations)"

definition first_diagnostic :: "ObligationResult list \<Rightarrow> string option" where
  "first_diagnostic obligations = (case obligations of [] \<Rightarrow> None | ob # _ \<Rightarrow> ob_diagnostic ob)"

fun verdict_of :: "VerusOutcome \<Rightarrow> CacheKey \<Rightarrow> Verdict" where
  "verdict_of (Proved verified) key = Proven \<lparr>ev_verified = verified, ev_key = key\<rparr>"
| "verdict_of (Timeout _ detail) key = Unknown (VerusTimeout detail)"
| "verdict_of (Counterexample obligations) key =
     (if counterexample_is_incompleteness_unknown obligations
      then Unknown (IncompleteUnknown (case first_diagnostic obligations of
          Some d \<Rightarrow> d | None \<Rightarrow> ''verus returned an SMT-incompleteness `unknown`''))
      else Refuted obligations)"


section \<open>The bounded model checker's report\<close>

text \<open>
  The errors of this path: a failure of the lowering (of its own error type), a missing or
  unstartable checker, and a report without a verdict.
\<close>

datatype 'l ForgeError = Lower 'l | KaniAbsent string | KaniSpawn string | KaniOutput string

record L2Result =
  l2_level :: Level
  l2_obligations :: "ObligationResult list"
  l2_solver_time_ms :: u64

definition first_lines :: "string \<Rightarrow> nat \<Rightarrow> string" where
  "first_lines text n = join_with [newline] (take n (filter (\<lambda>l. trim l \<noteq> []) (lines text)))"

definition parse_file_line :: "string \<Rightarrow> string option" where
  "parse_file_line line =
     (case strip_prefix_str line ''File: '' of None \<Rightarrow> None | Some rest \<Rightarrow>
      (case split_once rest (CHR '','') of None \<Rightarrow> None | Some (quoted, after) \<Rightarrow>
       (let src = trim_matches (trim quoted) (CHR 0x22); after = trim after in
        case strip_prefix_str after ''line '' of None \<Rightarrow> None | Some n \<Rightarrow>
        (let line_no = takeWhile is_ascii_digit n in
         if src = [] \<or> line_no = [] then None else Some (src @ '':'' @ line_no)))))"

fun find_first :: "('a \<Rightarrow> 'b option) \<Rightarrow> 'a list \<Rightarrow> 'b option" where
  "find_first f [] = None"
| "find_first f (x # xs) = (case f x of Some y \<Rightarrow> Some y | None \<Rightarrow> find_first f xs)"

text \<open>The loop over the lines; the rest of the list are the lines after the current one.\<close>

fun failed_checks_loop :: "string list \<Rightarrow> ObligationResult list \<Rightarrow> ObligationResult list" where
  "failed_checks_loop [] out = out"
| "failed_checks_loop (line # rest) out =
     (case strip_prefix_str (trim_start line) ''Failed Checks: '' of
        None \<Rightarrow> failed_checks_loop rest out
      | Some desc \<Rightarrow>
          (let desc = trim desc in
           if list_ex (\<lambda>ob. ob_name ob = desc) out then failed_checks_loop rest out
           else failed_checks_loop rest
             (out @ [failed desc (find_first (\<lambda>l. parse_file_line (trim_start l)) (take 2 rest))
                (Some (''Failed Checks: '' @ desc))])))"

definition parse_failed_checks :: "string \<Rightarrow> ObligationResult list" where
  "parse_failed_checks text = failed_checks_loop (lines text) []"

definition show_exit :: "int option \<Rightarrow> string" where
  "show_exit code = (case code of None \<Rightarrow> ''None'' | Some i \<Rightarrow> ''Some('' @ show_int i @ '')'')"

definition parse_kani_output ::
    "string \<Rightarrow> string \<Rightarrow> int option \<Rightarrow> string \<Rightarrow> u64 \<Rightarrow> (L2Result, 'l ForgeError) result" where
  "parse_kani_output stdout stderr exit_code bound solver_time_ms =
     (let combined = stdout @ [newline] @ stderr;
          succeeded = str_contains combined ''VERIFICATION:- SUCCESSFUL'';
          failing = str_contains combined ''VERIFICATION:- FAILED''
      in if \<not> succeeded \<and> \<not> failing then
           Err (KaniOutput (''no `VERIFICATION:- SUCCESSFUL/FAILED` summary in kani output (exit ''
             @ show_exit exit_code @ ''); head: '' @ first_lines combined 12))
         else if succeeded \<and> failing then
           Err (KaniOutput (''kani output contains BOTH `VERIFICATION:- SUCCESSFUL` and `FAILED` ''
             @ ''(contradictory); refusing to guess the verdict''))
         else if succeeded then
           Ok \<lparr>l2_level = L2, l2_obligations = [discharged (''bounded model check passed ('' @ bound @ '')'')],
               l2_solver_time_ms = solver_time_ms\<rparr>
         else
           (let failures = parse_failed_checks combined;
                obligations = (if failures = []
                  then [failed ''kani reported VERIFICATION:- FAILED'' None (Some (first_lines combined 12))]
                  else failures)
            in Ok \<lparr>l2_level = L0, l2_obligations = obligations, l2_solver_time_ms = solver_time_ms\<rparr>))"

datatype L2Verdict = Verified | UnderBound | Counterexample

definition is_under_bound_failure :: "string \<Rightarrow> bool" where
  "is_under_bound_failure description = str_contains (to_ascii_lowercase description) ''unwinding assertion''"

definition classify_l2_outcome :: "L2Result \<Rightarrow> L2Verdict" where
  "classify_l2_outcome r =
     (if l2_level r = L2 then Verified
      else let failing = filter (\<lambda>ob. ob_status ob = ObligationStatus.Failed) (l2_obligations r)
        in if failing = [] then L2Verdict.Counterexample
           else if list_all (\<lambda>ob. is_under_bound_failure (ob_name ob)) failing then UnderBound
           else L2Verdict.Counterexample)"

definition assemble_l2_certificate :: "string \<Rightarrow> string list \<Rightarrow> L2Result \<Rightarrow> Certificate" where
  "assemble_l2_certificate item effects r =
     Certificate_new item (l2_level r) effects (l2_solver_time_ms r) (l2_obligations r)"


section \<open>The ladder\<close>

datatype L3Verdict =
    Proved Certificate
  | Timeout RejectReason
  | Counterexample Certificate
  | CovenantRefuted Certificate

record L2Attempt =
  la_verdict :: L2Verdict
  la_cert :: Certificate

datatype LadderAction = CertifyL3 | AttemptL2 | CertifyL2 | DegradeToL1 | HardFail

definition action_is_degrade :: "LadderAction \<Rightarrow> bool" where
  "action_is_degrade action = (case action of CertifyL2 \<Rightarrow> True | DegradeToL1 \<Rightarrow> True | _ \<Rightarrow> False)"

fun ladder_action_l3 :: "L3Verdict \<Rightarrow> LadderAction" where
  "ladder_action_l3 (L3Verdict.Proved _) = CertifyL3"
| "ladder_action_l3 (L3Verdict.Timeout _) = AttemptL2"
| "ladder_action_l3 (L3Verdict.Counterexample _) = HardFail"
| "ladder_action_l3 (L3Verdict.CovenantRefuted _) = HardFail"

fun ladder_action_l2 :: "L2Verdict \<Rightarrow> LadderAction" where
  "ladder_action_l2 Verified = CertifyL2"
| "ladder_action_l2 UnderBound = DegradeToL1"
| "ladder_action_l2 L2Verdict.Counterexample = HardFail"

text \<open>A rung: a fallible computation with effects on the environment.\<close>

type_synonym ('s, 'a, 'e) rung = "'s \<Rightarrow> ('a, 'e) result \<times> 's"

definition stamped :: "RejectReason \<Rightarrow> (Certificate, 'e) result \<times> 's \<Rightarrow> (Certificate, 'e) result \<times> 's" where
  "stamped reason r = (case r of (Ok c, s) \<Rightarrow> (Ok (into_degraded c reason), s) | (Err e, s) \<Rightarrow> (Err e, s))"

definition ladder_after_timeout ::
    "RejectReason \<Rightarrow> ('s, L2Attempt, 'e) rung \<Rightarrow> ('s, Certificate, 'e) rung \<Rightarrow> ('s, Certificate, 'e) rung" where
  "ladder_after_timeout reason attempt_l2 attempt_l1 s =
     (case attempt_l2 s of
        (Err e, s) \<Rightarrow> (Err e, s)
      | (Ok l2, s) \<Rightarrow>
          (case ladder_action_l2 (la_verdict l2) of
             CertifyL2 \<Rightarrow> (Ok (into_degraded (la_cert l2) reason), s)
           | DegradeToL1 \<Rightarrow> stamped reason (attempt_l1 s)
           | HardFail \<Rightarrow> (Ok (la_cert l2), s)
           | _ \<Rightarrow> (case la_verdict l2 of
                 Verified \<Rightarrow> (Ok (into_degraded (la_cert l2) reason), s)
               | L2Verdict.Counterexample \<Rightarrow> (Ok (la_cert l2), s)
               | UnderBound \<Rightarrow> stamped reason (attempt_l1 s))))"

definition run_ladder ::
    "L3Verdict \<Rightarrow> ('s, L2Attempt, 'e) rung \<Rightarrow> ('s, Certificate, 'e) rung \<Rightarrow> ('s, Certificate, 'e) rung" where
  "run_ladder l3 attempt_l2 attempt_l1 s =
     (case (ladder_action_l3 l3, l3) of
        (CertifyL3, L3Verdict.Proved cert) \<Rightarrow> (Ok cert, s)
      | (HardFail, L3Verdict.Counterexample cert) \<Rightarrow> (Ok cert, s)
      | (HardFail, L3Verdict.CovenantRefuted cert) \<Rightarrow> (Ok cert, s)
      | (AttemptL2, L3Verdict.Timeout reason) \<Rightarrow> ladder_after_timeout reason attempt_l2 attempt_l1 s
      | (_, L3Verdict.Proved cert) \<Rightarrow> (Ok cert, s)
      | (_, L3Verdict.Counterexample cert) \<Rightarrow> (Ok cert, s)
      | (_, L3Verdict.CovenantRefuted cert) \<Rightarrow> (Ok cert, s)
      | (_, L3Verdict.Timeout reason) \<Rightarrow> ladder_after_timeout reason attempt_l2 attempt_l1 s)"

datatype ObligationRole = Certification

fun verdict_ladder_action :: "Verdict \<Rightarrow> ObligationRole \<Rightarrow> Certificate \<Rightarrow> Certificate \<Rightarrow> L3Verdict" where
  "verdict_ladder_action (Proven _) Certification proved_cert cx_cert = L3Verdict.Proved proved_cert"
| "verdict_ladder_action (Unknown reason) Certification proved_cert cx_cert =
     L3Verdict.Timeout \<lparr>rr_cause = ''VerusTimeout'',
       rr_detail = (case reason of
          VerusTimeout d \<Rightarrow> d
        | IncompleteUnknown d \<Rightarrow> ''verus returned an incompleteness-`unknown` (no witnessing input); ''
            @ ''degrading per the ladder (REQ-3.1): '' @ d)\<rparr>"
| "verdict_ladder_action (Refuted _) Certification proved_cert cx_cert = L3Verdict.Counterexample cx_cert"

section \<open>From the outcome of a proof attempt to the certificate\<close>

record VerusResult =
  vr_outcome :: VerusOutcome
  vr_solver_time_ms :: u64

definition DOMINANCE_PCT :: u64 where "DOMINANCE_PCT = 50"

definition render_prompt :: "u64 \<Rightarrow> nat \<Rightarrow> QuantifierProfile \<Rightarrow> SuggestedMove" where
  "render_prompt observed place q =
     (let dominant = (qp_pct_of_total q \<ge> DOMINANCE_PCT);
          hint = (if dominant
            then ''likely a trigger loop / the bottleneck '' @ em_dash
              @ '' narrow its range, add a tighter trigger, or introduce a lemma''
            else ''consider a tighter trigger or a supporting lemma if the proof times out'');
          detail = ''quantifier `'' @ qp_trigger q @ ''` (at '' @ qp_span q @ '') instantiated ''
            @ show_nat (unat (qp_instantiations q)) @ '' times ('' @ show_nat (unat (qp_pct_of_total q))
            @ ''% of the '' @ show_nat (unat observed) @ '' total, cost '' @ show_nat (unat (qp_cost q)) @ '') ''
            @ em_dash @ '' '' @ hint;
          kind = (if place = 0 \<and> dominant then ''trigger-loop'' else ''trigger-hint'')
      in \<lparr>sm_kind = kind, sm_detail = detail\<rparr>)"

definition render_prompts :: "SolverProfile \<Rightarrow> SuggestedMove list" where
  "render_prompts profile =
     map (\<lambda>(place, q). render_prompt (so_total_instantiations profile) place q)
       (enumerate 0 (so_quantifiers profile))"

definition suggested_move :: "SolverProfile \<Rightarrow> SuggestedMove option" where
  "suggested_move profile = (case render_prompts profile of [] \<Rightarrow> None | m # _ \<Rightarrow> Some m)"

definition assemble_certificate :: "Item \<Rightarrow> VerusResult \<Rightarrow> Certificate" where
  "assemble_certificate item verus =
     (let effects = (case item of Item.Fn f \<Rightarrow> effects_of (ct_fx (fn_contract f)) | _ \<Rightarrow> [''pure'']) in
      case vr_outcome verus of
        VerusOutcome.Proved verified \<Rightarrow>
          Certificate_new (item_name item) L3 effects (vr_solver_time_ms verus)
            [discharged (show_nat (unat verified) @ '' obligations discharged'')]
      | VerusOutcome.Timeout profile detail \<Rightarrow>
          Certificate_timeout (item_name item) effects (vr_solver_time_ms verus) profile (suggested_move profile) detail
      | VerusOutcome.Counterexample obligations \<Rightarrow>
          Certificate_new (item_name item) L0 effects (vr_solver_time_ms verus) obligations)"

fun engine_tag :: "EngineName \<Rightarrow> string" where
  "engine_tag Verus = ''verus''"
| "engine_tag LeanAuto = ''lean-auto''"
| "engine_tag LeanInteractive = ''lean-interactive''"
| "engine_tag Nlsat = ''nlsat''"
| "engine_tag BitVector = ''bitvector''"
| "engine_tag Epr = ''epr''"

definition verus_trust_profile :: "string list" where
  "verus_trust_profile = [''Z3'', ''Verus VC-gen'', ''TV/lowering theorem (lowering_faithful)'']"

text \<open>
  What a run of the checker gives: the two output streams, the exit code and the time. The run
  itself, like the two lowerings, is a parameter of the rungs.
\<close>

record KaniRun =
  kr_stdout :: string
  kr_stderr :: string
  kr_exit_code :: "int option"
  kr_solver_time_ms :: u64

definition run_kani ::
    "(string \<Rightarrow> string \<Rightarrow> ('s, KaniRun, 'l ForgeError) rung) \<Rightarrow> string \<Rightarrow> string \<Rightarrow> string
      \<Rightarrow> ('s, L2Result, 'l ForgeError) rung" where
  "run_kani spawn harness label bound s =
     (case spawn harness label s of
        (Err e, s) \<Rightarrow> (Err e, s)
      | (Ok run, s) \<Rightarrow>
          (parse_kani_output (kr_stdout run) (kr_stderr run) (kr_exit_code run) bound (kr_solver_time_ms run), s))"

definition l2_rung ::
    "(string \<Rightarrow> string \<Rightarrow> ('s, KaniRun, 'l ForgeError) rung) \<Rightarrow> (string, 'l) result \<Rightarrow> string \<Rightarrow> string \<Rightarrow> string list
      \<Rightarrow> ('s, L2Attempt, 'l ForgeError) rung" where
  "l2_rung spawn lower_l2 bound fname effects s =
     (case lower_l2 of
        Err e \<Rightarrow> (Err (Lower e), s)
      | Ok harness \<Rightarrow>
          (case run_kani spawn harness fname bound s of
             (Err e, s) \<Rightarrow> (Err e, s)
           | (Ok l2, s) \<Rightarrow>
               (Ok \<lparr>la_verdict = classify_l2_outcome l2, la_cert = assemble_l2_certificate fname effects l2\<rparr>, s)))"

definition l1_rung :: "(string, 'l) result \<Rightarrow> string \<Rightarrow> string list \<Rightarrow> ('s, Certificate, 'l ForgeError) rung" where
  "l1_rung lower_l1 fname effects s =
     (case lower_l1 of
        Err e \<Rightarrow> (Err (Lower e), s)
      | Ok _ \<Rightarrow>
          (Ok (Certificate_new fname L1 effects 0
             [discharged (''contract recorded at L1 (runtime checks emitted at build by ''
                @ ''thermite_lower::lower_l1); L3 proof and L2 bounded check both inconclusive within budget'')]), s))"

definition annotate_unknown :: "Verdict \<Rightarrow> Verdict" where
  "annotate_unknown verdict =
     (case verdict of
        Unknown (IncompleteUnknown d) \<Rightarrow>
          Unknown (IncompleteUnknown (d @ '' [engine '' @ engine_tag Verus @ '', trust base: ''
            @ join_with '', '' verus_trust_profile @ '']''))
      | other \<Rightarrow> other)"

definition ladder_for_timeout ::
    "(string \<Rightarrow> string \<Rightarrow> ('s, KaniRun, 'l ForgeError) rung) \<Rightarrow> (string, 'l) result \<Rightarrow> string \<Rightarrow> (string, 'l) result
      \<Rightarrow> FnItem \<Rightarrow> VerusOutcome \<Rightarrow> Certificate \<Rightarrow> ObligationRole \<Rightarrow> CacheKey
      \<Rightarrow> ('s, Certificate, 'l ForgeError) rung" where
  "ladder_for_timeout spawn lower_l2 bound lower_l1 f outcome l3_cert role evidence_key s =
     (let verdict = annotate_unknown (verdict_of outcome evidence_key);
          timeout_reason = ce_reject l3_cert;
          l3 = verdict_ladder_action verdict role l3_cert l3_cert;
          l3 = (case (l3, timeout_reason) of
              (L3Verdict.Timeout generic, Some reject) \<Rightarrow>
                if rr_cause reject = ''VerusTimeout'' then L3Verdict.Timeout reject else l3
            | _ \<Rightarrow> l3);
          effects = effects_of (ct_fx (fn_contract f))
      in run_ladder l3 (l2_rung spawn lower_l2 bound (fn_name f) effects) (l1_rung lower_l1 (fn_name f) effects) s)"


section \<open>The ladder and the verified core\<close>

text \<open>The tags of the verified core; a refuted covenant has the tag of a counterexample.\<close>

fun l3_tag :: "L3Verdict \<Rightarrow> L3Tag" where
  "l3_tag (L3Verdict.Proved _) = L3Tag.Proved"
| "l3_tag (L3Verdict.Timeout _) = L3Tag.Timeout"
| "l3_tag (L3Verdict.Counterexample _) = L3Tag.Counterexample"
| "l3_tag (L3Verdict.CovenantRefuted _) = L3Tag.Counterexample"

fun l2_tag :: "L2Verdict \<Rightarrow> L2Tag" where
  "l2_tag Verified = L2Tag.Verified"
| "l2_tag UnderBound = L2Tag.UnderBound"
| "l2_tag L2Verdict.Counterexample = L2Tag.Counterexample"

fun action_tag :: "LadderAction \<Rightarrow> Verified_Core.LadderAction" where
  "action_tag CertifyL3 = Verified_Core.CertifyL3"
| "action_tag AttemptL2 = Verified_Core.AttemptL2"
| "action_tag CertifyL2 = Verified_Core.CertifyL2"
| "action_tag DegradeToL1 = Verified_Core.DegradeToL1"
| "action_tag HardFail = Verified_Core.HardFail"

lemma ladder_actions_match_core:
  "action_tag (ladder_action_l3 v) = ladder_action_l3_tag (l3_tag v)"
  "action_tag (ladder_action_l2 w) = ladder_action_l2_tag (l2_tag w)"
  "action_is_degrade a = is_degrade (action_tag a)"
proof -
  show "action_tag (ladder_action_l3 v) = ladder_action_l3_tag (l3_tag v)" by (cases v) simp_all
  show "action_tag (ladder_action_l2 w) = ladder_action_l2_tag (l2_tag w)" by (cases w) simp_all
  show "action_is_degrade a = is_degrade (action_tag a)"
    by (cases a) (simp_all add: action_is_degrade_def is_degrade_def)
qed

text \<open>The unreachable arms of the two matches never fire: the ladder is decided by the verdict.\<close>

lemma run_ladder_simps [simp]:
  "run_ladder (L3Verdict.Proved c) a2 a1 s = (Ok c, s)"
  "run_ladder (L3Verdict.Counterexample c) a2 a1 s = (Ok c, s)"
  "run_ladder (L3Verdict.CovenantRefuted c) a2 a1 s = (Ok c, s)"
  "run_ladder (L3Verdict.Timeout reason) a2 a1 s = ladder_after_timeout reason a2 a1 s"
  by (simp_all add: run_ladder_def)

lemma ladder_after_timeout_cases:
  "ladder_after_timeout reason a2 a1 s =
     (case a2 s of
        (Err e, s) \<Rightarrow> (Err e, s)
      | (Ok l2, s) \<Rightarrow>
          (case la_verdict l2 of
             Verified \<Rightarrow> (Ok (into_degraded (la_cert l2) reason), s)
           | UnderBound \<Rightarrow> stamped reason (a1 s)
           | L2Verdict.Counterexample \<Rightarrow> (Ok (la_cert l2), s)))"
  by (auto simp: ladder_after_timeout_def split: prod.splits result.splits L2Verdict.splits)

section \<open>Certificates are earned\<close>

text \<open>
  The description a line of the report gives for a failed check, the verdicts a report can carry,
  and the outcomes the engine treats as undecided.
\<close>

definition failed_check :: "string \<Rightarrow> string option" where
  "failed_check line = map_option trim (strip_prefix_str (trim_start line) ''Failed Checks: '')"

definition report :: "KaniRun \<Rightarrow> string" where
  "report run = kr_stdout run @ [newline] @ kr_stderr run"

definition reports_success :: "KaniRun \<Rightarrow> bool" where
  "reports_success run \<longleftrightarrow>
     str_contains (report run) ''VERIFICATION:- SUCCESSFUL'' \<and> \<not> str_contains (report run) ''VERIFICATION:- FAILED''"

definition failed_checks :: "KaniRun \<Rightarrow> string set" where
  "failed_checks run = {d. \<exists>line\<in>set (lines (report run)). failed_check line = Some d}"

definition reports_bound_exhausted :: "KaniRun \<Rightarrow> bool" where
  "reports_bound_exhausted run \<longleftrightarrow>
     str_contains (report run) ''VERIFICATION:- FAILED'' \<and> \<not> str_contains (report run) ''VERIFICATION:- SUCCESSFUL'' \<and>
     failed_checks run \<noteq> {} \<and> (\<forall>d\<in>failed_checks run. is_under_bound_failure d)"

definition undecided :: "VerusOutcome \<Rightarrow> bool" where
  "undecided outcome =
     (case outcome of
        VerusOutcome.Proved _ \<Rightarrow> False
      | VerusOutcome.Timeout _ _ \<Rightarrow> True
      | VerusOutcome.Counterexample obs \<Rightarrow> counterexample_is_incompleteness_unknown obs)"

lemma failed_sel [simp]:
  "ob_name (failed n l d) = n" "ob_status (failed n l d) = ObligationStatus.Failed"
  by (simp_all add: failed_def)

lemma failed_checks_loop_Cons:
  "failed_checks_loop (line # rest) out =
     (case failed_check line of
        None \<Rightarrow> failed_checks_loop rest out
      | Some d \<Rightarrow>
          if d \<in> ob_name ` set out then failed_checks_loop rest out
          else failed_checks_loop rest
            (out @ [failed d (find_first (\<lambda>l. parse_file_line (trim_start l)) (take 2 rest)) (Some (''Failed Checks: '' @ d))]))"
  by (auto simp: failed_check_def Let_def list_ex_iff image_iff split: option.splits)

lemma failed_checks_loop_names:
  "ob_name ` set (failed_checks_loop ls out) = ob_name ` set out \<union> {d. \<exists>l\<in>set ls. failed_check l = Some d}"
proof (induction ls arbitrary: out)
  case (Cons line rest)
  show ?case
    unfolding failed_checks_loop_Cons by (cases "failed_check line") (simp_all add: Cons, blast+)
qed simp

lemma failed_checks_loop_failed:
  "\<forall>ob\<in>set out. ob_status ob = ObligationStatus.Failed \<Longrightarrow>
     \<forall>ob\<in>set (failed_checks_loop ls out). ob_status ob = ObligationStatus.Failed"
  by (induction ls out rule: failed_checks_loop.induct) (auto simp: Let_def split: option.splits)

lemma parse_failed_checks_spec:
  "ob_name ` set (parse_failed_checks (report run)) = failed_checks run"
  "ob \<in> set (parse_failed_checks (report run)) \<Longrightarrow> ob_status ob = ObligationStatus.Failed"
  using failed_checks_loop_names [of "lines (report run)" "[]"]
    failed_checks_loop_failed [of "[]" "lines (report run)"]
  by (auto simp: parse_failed_checks_def failed_checks_def)

lemma bare_failure_is_not_under_bound: "\<not> is_under_bound_failure ''kani reported VERIFICATION:- FAILED''"
  by (simp add: is_under_bound_failure_def to_ascii_lowercase_def Let_def)

abbreviation parsed :: "KaniRun \<Rightarrow> string \<Rightarrow> (L2Result, 'l ForgeError) result" where
  "parsed run bound \<equiv> parse_kani_output (kr_stdout run) (kr_stderr run) (kr_exit_code run) bound (kr_solver_time_ms run)"

lemma parsed_cases:
  assumes "parsed run bound = Ok r"
  shows "l2_level r = L2 \<and> reports_success run \<or>
    l2_level r = L0 \<and> str_contains (report run) ''VERIFICATION:- FAILED'' \<and>
      \<not> str_contains (report run) ''VERIFICATION:- SUCCESSFUL'' \<and>
      l2_obligations r = (if parse_failed_checks (report run) = []
        then [failed ''kani reported VERIFICATION:- FAILED'' None (Some (first_lines (report run) 12))]
        else parse_failed_checks (report run))"
  using assms
  by (auto simp: parse_kani_output_def reports_success_def report_def Let_def split: if_splits)

text \<open>What the classification of a parsed report says about its text.\<close>

lemma classified_report:
  assumes "parsed run bound = Ok r"
  shows "classify_l2_outcome r = Verified \<Longrightarrow> l2_level r = L2 \<and> reports_success run"
    and "classify_l2_outcome r = UnderBound \<Longrightarrow> reports_bound_exhausted run"
    and "classify_l2_outcome r = L2Verdict.Counterexample \<Longrightarrow> l2_level r = L0"
proof -
  show "l2_level r = L2 \<and> reports_success run" if "classify_l2_outcome r = Verified"
    using parsed_cases [OF assms] that by (auto simp: classify_l2_outcome_def Let_def split: if_splits)
  show "l2_level r = L0" if "classify_l2_outcome r = L2Verdict.Counterexample"
    using parsed_cases [OF assms] that by (auto simp: classify_l2_outcome_def)
  assume bound: "classify_l2_outcome r = UnderBound"
  let ?found = "parse_failed_checks (report run)"
  have markers: "str_contains (report run) ''VERIFICATION:- FAILED''"
      "\<not> str_contains (report run) ''VERIFICATION:- SUCCESSFUL''"
    and obs: "l2_obligations r = (if ?found = []
        then [failed ''kani reported VERIFICATION:- FAILED'' None (Some (first_lines (report run) 12))] else ?found)"
    using parsed_cases [OF assms] bound by (auto simp: classify_l2_outcome_def)
  have under: "\<forall>ob\<in>set (l2_obligations r). ob_status ob = ObligationStatus.Failed \<longrightarrow> is_under_bound_failure (ob_name ob)"
    using bound by (auto simp: classify_l2_outcome_def Let_def list_all_iff split: if_splits)
  have "?found \<noteq> []"
    using under obs bare_failure_is_not_under_bound by auto
  then have "failed_checks run \<noteq> {}" "\<forall>d\<in>failed_checks run. is_under_bound_failure d"
    using parse_failed_checks_spec(2) [of _ run] under obs by (auto simp flip: parse_failed_checks_spec(1))
  then show "reports_bound_exhausted run"
    using markers by (simp add: reports_bound_exhausted_def)
qed

lemma l2_rung_Ok:
  fixes spawn :: "string \<Rightarrow> string \<Rightarrow> ('s, KaniRun, 'l ForgeError) rung"
  assumes "l2_rung spawn lower_l2 bound fname fx s = (Ok a, s')"
  obtains harness run r where "lower_l2 = Ok harness" "spawn harness fname s = (Ok run, s')"
    "parsed run bound = (Ok r :: (L2Result, 'l ForgeError) result)"
    "a = \<lparr>la_verdict = classify_l2_outcome r, la_cert = assemble_l2_certificate fname fx r\<rparr>"
  using assms
  by (auto simp: l2_rung_def run_kani_def split: result.splits prod.splits)

text \<open>The verdict that enters the ladder, by the outcome of the proof attempt.\<close>

definition entering :: "VerusOutcome \<Rightarrow> Certificate \<Rightarrow> CacheKey \<Rightarrow> L3Verdict" where
  "entering outcome cert key =
     (case (verdict_ladder_action (annotate_unknown (verdict_of outcome key)) Certification cert cert, ce_reject cert) of
        (L3Verdict.Timeout generic, Some reject) \<Rightarrow>
          if rr_cause reject = ''VerusTimeout'' then L3Verdict.Timeout reject else L3Verdict.Timeout generic
      | (l3, _) \<Rightarrow> l3)"

lemma ladder_for_timeout_entering:
  "ladder_for_timeout spawn lower_l2 bound lower_l1 f outcome cert Certification key s =
     run_ladder (entering outcome cert key)
       (l2_rung spawn lower_l2 bound (fn_name f) (effects_of (ct_fx (fn_contract f))))
       (l1_rung lower_l1 (fn_name f) (effects_of (ct_fx (fn_contract f)))) s"
  by (auto simp: ladder_for_timeout_def entering_def Let_def split: L3Verdict.splits option.splits)

lemma entering_cases:
  "outcome = VerusOutcome.Proved v \<Longrightarrow> entering outcome cert key = L3Verdict.Proved cert"
  "undecided outcome \<Longrightarrow> \<exists>reason. entering outcome cert key = L3Verdict.Timeout reason"
  "outcome = VerusOutcome.Counterexample obs \<Longrightarrow> \<not> undecided outcome \<Longrightarrow>
     entering outcome cert key = L3Verdict.Counterexample cert"
  by (auto simp: entering_def annotate_unknown_def undecided_def split: VerusOutcome.splits option.splits)

lemma verus_outcome_cases:
  obtains v where "outcome = VerusOutcome.Proved v" | "undecided outcome"
  | obs where "outcome = VerusOutcome.Counterexample obs" "\<not> undecided outcome"
  by (cases outcome) (auto simp: undecided_def)

lemma degraded_certifies [simp]:
  "cert_certifies (into_degraded c reason) = cert_certifies c" "ce_level (into_degraded c reason) = ce_level c"
  "ce_lowered_assurance (into_degraded c reason)" "ce_degrade_reason (into_degraded c reason) = Some reason"
  by (simp_all add: cert_certifies_iff into_degraded_def)

lemma earned:
  fixes spawn :: "string \<Rightarrow> string \<Rightarrow> ('s, KaniRun, 'l ForgeError) rung"
  assumes run: "ladder_for_timeout spawn lower_l2 bound lower_l1 f outcome
      (assemble_certificate (Item.Fn f) \<lparr>vr_outcome = outcome, vr_solver_time_ms = ms\<rparr>) Certification key s = (Ok c, s')"
  shows "\<not> undecided outcome \<Longrightarrow> s' = s \<and> \<not> ce_lowered_assurance c \<and> (cert_certifies c \<longleftrightarrow> (\<exists>v. outcome = VerusOutcome.Proved v))
           \<and> (cert_certifies c \<longrightarrow> ce_level c = L3)"
    and "undecided outcome \<Longrightarrow> cert_certifies c \<Longrightarrow> ce_lowered_assurance c \<and>
           (\<exists>harness run. lower_l2 = Ok harness \<and> spawn harness (fn_name f) s = (Ok run, s') \<and>
              (ce_level c = L2 \<and> reports_success run \<or> ce_level c = L1 \<and> reports_bound_exhausted run))"
proof -
  let ?cert = "assemble_certificate (Item.Fn f) \<lparr>vr_outcome = outcome, vr_solver_time_ms = ms\<rparr>"
  let ?fx = "effects_of (ct_fx (fn_contract f))"
  note run = run [unfolded ladder_for_timeout_entering]
  show "s' = s \<and> \<not> ce_lowered_assurance c \<and> (cert_certifies c \<longleftrightarrow> (\<exists>v. outcome = VerusOutcome.Proved v))
      \<and> (cert_certifies c \<longrightarrow> ce_level c = L3)" if "\<not> undecided outcome"
  proof (cases outcome rule: verus_outcome_cases)
    case (1 v)
    then show ?thesis
      using run entering_cases(1) [OF 1] by (auto simp: assemble_certificate_def Certificate_new_def cert_certifies_iff)
  next
    case (3 obs)
    then show ?thesis
      using run entering_cases(3) [OF 3] by (auto simp: assemble_certificate_def Certificate_new_def cert_certifies_iff)
  qed (use that in simp)
  assume unknown: "undecided outcome" and certifies: "cert_certifies c"
  obtain reason where "entering outcome ?cert key = L3Verdict.Timeout reason"
    using entering_cases(2) [OF unknown] by blast
  then have rungs: "ladder_after_timeout reason (l2_rung spawn lower_l2 bound (fn_name f) ?fx)
      (l1_rung lower_l1 (fn_name f) ?fx) s = (Ok c, s')"
    using run by simp
  then obtain a s1 where a: "l2_rung spawn lower_l2 bound (fn_name f) ?fx s = (Ok a, s1)"
    by (auto simp: ladder_after_timeout_cases split: prod.splits result.splits)
  obtain harness kani r where l2: "lower_l2 = Ok harness" "spawn harness (fn_name f) s = (Ok kani, s1)"
      "parsed kani bound = (Ok r :: (L2Result, 'l ForgeError) result)"
      "a = \<lparr>la_verdict = classify_l2_outcome r, la_cert = assemble_l2_certificate (fn_name f) ?fx r\<rparr>"
    using l2_rung_Ok [OF a] .
  show "ce_lowered_assurance c \<and> (\<exists>harness run. lower_l2 = Ok harness \<and> spawn harness (fn_name f) s = (Ok run, s') \<and>
      (ce_level c = L2 \<and> reports_success run \<or> ce_level c = L1 \<and> reports_bound_exhausted run))"
    using rungs a l2 certifies classified_report [OF l2(3)]
    by (cases "classify_l2_outcome r")
       (auto simp: ladder_after_timeout_cases stamped_def l1_rung_def assemble_l2_certificate_def
          Certificate_new_def cert_certifies_iff into_degraded_def split: result.splits)
qed

text \<open>
  C25: the certificate of an item is earned. Whatever the two lowerings and the model checker
  answer, when the ladder returns a certificate that certifies, then either the prover proved the
  item and this is its L3 certificate, with no lower rung touched; or the prover was undecided, the
  certificate is marked as lowered, and the model checker's report either announces success and
  no failure (L2), or announces a failure whose failed checks, of which there is at least
  one, are all exhausted loop bounds (L1). When the prover refuted the item the answer is the
  refutation itself, which does not certify, and no lower rung runs.
\<close>

theorem certificate_is_earned:
  fixes spawn :: "string \<Rightarrow> string \<Rightarrow> ('s, KaniRun, 'l ForgeError) rung"
  assumes "ladder_for_timeout spawn lower_l2 bound lower_l1 f outcome
      (assemble_certificate (Item.Fn f) \<lparr>vr_outcome = outcome, vr_solver_time_ms = ms\<rparr>) Certification key s = (Ok c, s')"
  shows "if undecided outcome
    then cert_certifies c \<longrightarrow> ce_lowered_assurance c \<and>
      (\<exists>harness run. lower_l2 = Ok harness \<and> spawn harness (fn_name f) s = (Ok run, s') \<and>
        (ce_level c = L2 \<and> reports_success run \<or> ce_level c = L1 \<and> reports_bound_exhausted run))
    else s' = s \<and> \<not> ce_lowered_assurance c \<and> (cert_certifies c \<longrightarrow> ce_level c = L3) \<and>
      (cert_certifies c \<longleftrightarrow> (\<exists>v. outcome = VerusOutcome.Proved v))"
  using earned [OF assms] by auto

text \<open>
  A concrete run: the prover timed out and the checker reports an exhausted loop bound, so the item
  is certified at L1, marked as lowered.
\<close>

definition demo_item :: FnItem where
  "demo_item = sample_fn ''sum'' EffectRow.Pure (Some (BoolLit True))"

definition demo_outcome :: VerusOutcome where
  "demo_outcome = VerusOutcome.Timeout \<lparr>so_total_instantiations = 9, so_quantifiers = []\<rparr> ''rlimit''"

definition demo_key :: CacheKey where
  "demo_key = \<lparr>ck_engine = Verus, ck_content_address = ''00''\<rparr>"

definition demo_run :: KaniRun where
  "demo_run = \<lparr>kr_stdout = ''Failed Checks: unwinding assertion loop 0'' @ [newline] @ ''VERIFICATION:- FAILED'',
     kr_stderr = '''', kr_exit_code = Some 1, kr_solver_time_ms = 5\<rparr>"

definition demo_spawn :: "string \<Rightarrow> string \<Rightarrow> (nat, KaniRun, unit ForgeError) rung" where
  "demo_spawn harness label n = (Ok demo_run, n + 1)"

definition demo_certificate :: Certificate where
  "demo_certificate = into_degraded
     (Certificate_new ''sum'' L1 [''pure''] 0
        [discharged (''contract recorded at L1 (runtime checks emitted at build by ''
           @ ''thermite_lower::lower_l1); L3 proof and L2 bounded check both inconclusive within budget'')])
     \<lparr>rr_cause = ''VerusTimeout'', rr_detail = ''rlimit''\<rparr>"

lemma demo_classified:
  "\<exists>r. parsed demo_run bound = (Ok r :: (L2Result, unit ForgeError) result) \<and> classify_l2_outcome r = UnderBound"
  by (simp add: parse_kani_output_def demo_run_def parse_failed_checks_def lines_def newline_def
      strip_prefix_str_def trim_start_def trim_def is_whitespace_def classify_l2_outcome_def failed_def
      is_under_bound_failure_def to_ascii_lowercase_def Let_def)

lemma demo_ladder:
  "ladder_for_timeout demo_spawn (Ok ''harness'') ''unwind 5'' (Ok '''') demo_item demo_outcome
     (assemble_certificate (Item.Fn demo_item) \<lparr>vr_outcome = demo_outcome, vr_solver_time_ms = 7\<rparr>) Certification demo_key 0
   = (Ok demo_certificate, 1)"
proof -
  obtain r where "parsed demo_run ''unwind 5'' = (Ok r :: (L2Result, unit ForgeError) result)" "classify_l2_outcome r = UnderBound"
    using demo_classified by blast
  then show ?thesis
    by (simp add: ladder_for_timeout_def demo_outcome_def annotate_unknown_def assemble_certificate_def
        Certificate_timeout_def ladder_after_timeout_cases l2_rung_def run_kani_def demo_spawn_def l1_rung_def
        stamped_def demo_certificate_def demo_item_def sample_fn_def effects_of_def Let_def)
qed

theorem certificate_is_earned_witness:
  "cert_certifies demo_certificate \<and> ce_level demo_certificate = L1 \<and> ce_lowered_assurance demo_certificate
   \<and> reports_bound_exhausted demo_run"
proof -
  have certifies: "cert_certifies demo_certificate" "ce_level demo_certificate = L1"
    by (simp_all add: demo_certificate_def cert_certifies_iff Certificate_new_def into_degraded_def)
  moreover have "undecided demo_outcome" by (simp add: undecided_def demo_outcome_def)
  ultimately show ?thesis
    using certificate_is_earned [OF demo_ladder] by (auto simp: demo_spawn_def)
qed

text \<open>
  The test for an undecided solver looks for the bare word in the diagnostics. A refutation
  without a source location whose echoed clause mentions an identifier such as \<open>unknown_count\<close> is
  taken for an undecided run and sent down the ladder.
\<close>

definition echoed_refutation :: "ObligationResult list" where
  "echoed_refutation =
     [failed ''verus reported obligation failure'' None (Some ''error: postcondition not satisfied: result == unknown_count(xs)'')]"

lemma echoed_identifier_degrades:
  "undecided (VerusOutcome.Counterexample echoed_refutation)"
  "\<exists>reason. entering (VerusOutcome.Counterexample echoed_refutation) cert key = L3Verdict.Timeout reason"
proof -
  show unknown: "undecided (VerusOutcome.Counterexample echoed_refutation)"
    by (simp add: undecided_def echoed_refutation_def counterexample_is_incompleteness_unknown_def failed_def
      to_ascii_lowercase_def Let_def)
  then show "\<exists>reason. entering (VerusOutcome.Counterexample echoed_refutation) cert key = L3Verdict.Timeout reason"
    by (rule entering_cases(2))
qed

end
