(* ===== verification/Forge_Closure.thy ===== *)
theory Forge_Closure
  imports Forge_Manifest Spec_Combinators
begin

text \<open>
  The call closures of \<open>forge/src/closure.rs\<close>: the walk that collects the calls of a body, the call
  graph of a file, the depth-first searches for reachable functions and for the first crossing, the
  classification of every function as verified end to end or to the boundary, and the fail-closed
  closure of a verified build. An ordered set of names is a set, the work stack a list with its
  top first. The lemmas show that both searches end and compute exactly graph reachability, that a
  function is classified end to end exactly when no boundary or slag function is reachable from it, and that
  a verified closure is closed under calls, rooted in the exports and free of unresolved calls.
\<close>


section \<open>Collecting the calls of a body\<close>

definition record_call :: "Ident set \<Rightarrow> Ident \<Rightarrow> Ident list" where
  "record_call in_file name = (if name \<in> in_file then [name] else [])"

text \<open>The out-parameter of the code is appended to only; the model returns what is appended.\<close>

function (sequential) walk_block :: "Ident set \<Rightarrow> Block \<Rightarrow> Ident list"
  and walk_stmt :: "Ident set \<Rightarrow> Stmt \<Rightarrow> Ident list"
  and walk_expr :: "Ident set \<Rightarrow> Expr \<Rightarrow> Ident list" where
  "walk_block in_file (Block stmts tail) =
     concat (map (\<lambda>stmt. walk_stmt in_file stmt) stmts)
     @ (case tail of None \<Rightarrow> [] | Some e \<Rightarrow> walk_expr in_file e)"
| "walk_stmt in_file (Let _ _ _ init) = walk_expr in_file init"
| "walk_stmt in_file (Assign target value) = walk_expr in_file target @ walk_expr in_file value"
| "walk_stmt in_file (Return opt) = (case opt of None \<Rightarrow> [] | Some e \<Rightarrow> walk_expr in_file e)"
| "walk_stmt in_file (Stmt.If cond thn els) =
     walk_expr in_file cond @ walk_block in_file thn
     @ (case els of None \<Rightarrow> [] | Some b \<Rightarrow> walk_block in_file b)"
| "walk_stmt in_file (Stmt.Loop node) =
     concat (map (\<lambda>inv. walk_expr in_file (cl_expr inv)) (loop_invs node))
     @ walk_expr in_file (cl_expr (loop_dec node))
     @ (case loop_kind node of While cond \<Rightarrow> walk_expr in_file cond | LoopKind.Loop \<Rightarrow> [])
     @ walk_block in_file (loop_body node)"
| "walk_stmt in_file (Stmt.Expr e) = walk_expr in_file e"
| "walk_stmt in_file Break = []"
| "walk_stmt in_file Continue = []"
| "walk_expr in_file (Call callee args) =
     (case callee of
        Path segments \<Rightarrow> (case segments of [] \<Rightarrow> [] | first # _ \<Rightarrow> record_call in_file first)
      | _ \<Rightarrow> walk_expr in_file callee)
     @ concat (map (\<lambda>arg. walk_expr in_file arg) args)"
| "walk_expr in_file (MethodCall receiver name args) =
     record_call in_file name @ walk_expr in_file receiver @ concat (map (\<lambda>arg. walk_expr in_file arg) args)"
| "walk_expr in_file (Field receiver _) = walk_expr in_file receiver"
| "walk_expr in_file (Closure _ body) = walk_expr in_file body"
| "walk_expr in_file (Match scrutinee arms) =
     walk_expr in_file scrutinee
     @ concat (map (\<lambda>arm. (case arm_guard arm of None \<Rightarrow> [] | Some guard \<Rightarrow> walk_expr in_file guard)
         @ walk_expr in_file (arm_body arm)) arms)"
| "walk_expr in_file (Expr.If cond thn els) =
     walk_expr in_file cond @ walk_block in_file thn @ walk_block in_file els"
| "walk_expr in_file (Binary _ lhs rhs) = walk_expr in_file lhs @ walk_expr in_file rhs"
| "walk_expr in_file (Expr.Index base index) =
     walk_expr in_file base
     @ (case index of
          Single e \<Rightarrow> walk_expr in_file e
        | RangeTo e \<Rightarrow> walk_expr in_file e
        | RangeFrom e \<Rightarrow> walk_expr in_file e
        | Range a b \<Rightarrow> walk_expr in_file a @ walk_expr in_file b)"
| "walk_expr in_file (Cast e _) = walk_expr in_file e"
| "walk_expr in_file (Expr.Ref _ e) = walk_expr in_file e"
| "walk_expr in_file (StructLit _ fs) = concat (map (\<lambda>field. walk_expr in_file (snd field)) fs)"
| "walk_expr in_file (Is scrutinee _) = walk_expr in_file scrutinee"
| "walk_expr in_file (Deref inner) = walk_expr in_file inner"
| "walk_expr in_file (Unary _ e) = walk_expr in_file e"
| "walk_expr in_file (Expr.Tuple elems) = concat (map (\<lambda>e. walk_expr in_file e) elems)"
| "walk_expr in_file (TupleProj receiver _) = walk_expr in_file receiver"
| "walk_expr in_file (Quantifier _ _ _ domain body) = walk_expr in_file domain @ walk_expr in_file body"
| "walk_expr in_file (IntLit _ _) = []"
| "walk_expr in_file (BoolLit _) = []"
| "walk_expr in_file (Path _) = []"
| "walk_expr in_file (StrLit _) = []"
  by pat_completeness auto
termination
  by (relation "measure (\<lambda>x. case x of
        Inl (_, b) \<Rightarrow> size b | Inr (Inl (_, s)) \<Rightarrow> size s | Inr (Inr (_, e)) \<Rightarrow> size e)")
     (auto dest: ast_sizes simp: less_Suc_eq_le size_of_loop_parts)

definition collect_in_file_calls :: "Block \<Rightarrow> Ident set \<Rightarrow> Ident list" where
  "collect_in_file_calls block in_file = walk_block in_file block"


section \<open>The call graph\<close>

record Node =
  nd_is_crossing :: bool
  nd_is_fn :: bool
  nd_callees :: "Ident list"

type_synonym CallGraph = "(Ident, Node) btmap"

definition insert_item :: "Ident set \<Rightarrow> CallGraph \<Rightarrow> Item \<Rightarrow> CallGraph" where
  "insert_item in_file nodes item =
     (case item of
        Item.Fn f \<Rightarrow>
          bt_insert (fn_name f)
            \<lparr>nd_is_crossing = (fn_boundary f \<noteq> None \<or> fn_slag f \<noteq> None), nd_is_fn = True,
             nd_callees = (case fn_body f of Some body \<Rightarrow> collect_in_file_calls body in_file | None \<Rightarrow> [])\<rparr> nodes
      | SpecFn s \<Rightarrow>
          bt_insert (sf_name s)
            \<lparr>nd_is_crossing = False, nd_is_fn = False, nd_callees = collect_in_file_calls (sf_body s) in_file\<rparr> nodes
      | _ \<Rightarrow> nodes)"

definition from_program :: "Program \<Rightarrow> CallGraph" where
  "from_program program =
     (let in_file = set (map item_name (pr_items program))
      in foldl (insert_item in_file) [] (pr_items program))"

text \<open>Pushing the callees in reverse, so that they are popped in source order.\<close>

definition push_unvisited :: "Ident set \<Rightarrow> Ident list \<Rightarrow> Ident list \<Rightarrow> Ident list" where
  "push_unvisited visited callees stack =
     foldl (\<lambda>st callee. if callee \<notin> visited then callee # st else st) stack (rev callees)"

text \<open>
  The number of nodes not yet visited, and the height of the stack: the first search step of a
  node lowers the one, every other step keeps it and lowers the other.
\<close>

definition unvisited :: "('k, 'v) btmap \<Rightarrow> 'k set \<Rightarrow> nat" where
  "unvisited nodes visited = card (fst ` set nodes - visited)"

lemma unvisited_insert_less:
  "bt_get nodes name = Some node \<Longrightarrow> name \<notin> visited \<Longrightarrow> unvisited nodes (insert name visited) < unvisited nodes visited"
  unfolding unvisited_def
  by (rule psubset_card_mono) (use bt_get_in_set [of nodes name node] in \<open>force+\<close>)

lemma unvisited_insert_same:
  "bt_get nodes name = None \<Longrightarrow> unvisited nodes (insert name visited) = unvisited nodes visited"
  by (simp add: unvisited_def bt_get_None_iff insert_Diff_if Diff_insert0)

function (sequential) reachable_loop ::
    "CallGraph \<Rightarrow> Ident \<Rightarrow> Ident set \<Rightarrow> Ident set \<Rightarrow> Ident list \<Rightarrow> Ident set" where
  "reachable_loop nodes start visited found [] = found"
| "reachable_loop nodes start visited found (name # stack) =
     (if name \<in> visited then reachable_loop nodes start visited found stack
      else let visited' = insert name visited in
        (case bt_get nodes name of
           None \<Rightarrow> reachable_loop nodes start visited' found stack
         | Some node \<Rightarrow>
             reachable_loop nodes start visited'
               (if name \<noteq> start \<and> nd_is_fn node then insert name found else found)
               (push_unvisited visited' (nd_callees node) stack)))"
  by pat_completeness auto
termination
  by (relation "measures [\<lambda>(nodes, start, visited, found, stack). unvisited nodes visited,
                          \<lambda>(nodes, start, visited, found, stack). length stack]")
     (auto simp: unvisited_insert_same intro: unvisited_insert_less)

definition reachable_fns :: "CallGraph \<Rightarrow> Ident \<Rightarrow> Ident set" where
  "reachable_fns nodes start = reachable_loop nodes start {} {} [start]"

function (sequential) crossing_loop :: "CallGraph \<Rightarrow> Ident set \<Rightarrow> Ident list \<Rightarrow> Ident option" where
  "crossing_loop nodes visited [] = None"
| "crossing_loop nodes visited (name # stack) =
     (if name \<in> visited then crossing_loop nodes visited stack
      else let visited' = insert name visited in
        (case bt_get nodes name of
           None \<Rightarrow> crossing_loop nodes visited' stack
         | Some node \<Rightarrow>
             if nd_is_crossing node then Some name
             else crossing_loop nodes visited' (push_unvisited visited' (nd_callees node) stack)))"
  by pat_completeness auto
termination
  by (relation "measures [\<lambda>(nodes, visited, stack). unvisited nodes visited,
                          \<lambda>(nodes, visited, stack). length stack]")
     (auto simp: unvisited_insert_same intro: unvisited_insert_less)

definition reach_crossing :: "CallGraph \<Rightarrow> Ident \<Rightarrow> Ident option" where
  "reach_crossing nodes start = crossing_loop nodes {} [start]"

definition scope_of :: "CallGraph \<Rightarrow> Ident \<Rightarrow> AssuranceScope" where
  "scope_of graph name =
     (case reach_crossing graph name of
        Some via \<Rightarrow> AssuranceScope.ToBoundary via | None \<Rightarrow> AssuranceScope.EndToEnd)"

definition classify :: "Program \<Rightarrow> (Ident, AssuranceScope) btmap" where
  "classify program =
     (let graph = from_program program
      in foldl (\<lambda>scopes name. bt_insert name (scope_of graph name) scopes) [] (map fst graph))"

definition reachable_in_file_fns :: "Program \<Rightarrow> Ident \<Rightarrow> Ident set" where
  "reachable_in_file_fns program start = reachable_fns (from_program program) start"

section \<open>The searches compute reachability\<close>

definition edge :: "CallGraph \<Rightarrow> Ident \<Rightarrow> Ident \<Rightarrow> bool" where
  "edge nodes a b \<longleftrightarrow> (\<exists>node. bt_get nodes a = Some node \<and> b \<in> set (nd_callees node))"

definition is_crossing_at :: "CallGraph \<Rightarrow> Ident \<Rightarrow> bool" where
  "is_crossing_at nodes a \<longleftrightarrow> (\<exists>node. bt_get nodes a = Some node \<and> nd_is_crossing node)"

definition is_fn_at :: "CallGraph \<Rightarrow> Ident \<Rightarrow> bool" where
  "is_fn_at nodes a \<longleftrightarrow> (\<exists>node. bt_get nodes a = Some node \<and> nd_is_fn node)"

lemma set_push_unvisited: "set (push_unvisited visited callees stack) = set stack \<union> (set callees - visited)"
proof -
  have "set (foldl (\<lambda>st c. if c \<notin> visited then c # st else st) stack cs) = set stack \<union> (set cs - visited)" for cs
    by (induction cs arbitrary: stack) auto
  then show ?thesis by (simp add: push_unvisited_def)
qed

text \<open>
  A set with the stack that leaves no edge out contains everything reachable from it, once the stack is
  empty; and everything reachable from the stack or the visited set is what the search covers.
\<close>

definition frontier :: "CallGraph \<Rightarrow> Ident set \<Rightarrow> Ident list \<Rightarrow> bool" where
  "frontier nodes visited stack \<longleftrightarrow> (\<forall>a\<in>visited. \<forall>b. edge nodes a b \<longrightarrow> b \<in> visited \<union> set stack)"

lemma frontier_start: "frontier nodes {} stack"
  by (simp add: frontier_def)

lemma frontier_skip: "frontier nodes visited (name # stack) \<Longrightarrow> name \<in> visited \<Longrightarrow> frontier nodes visited stack"
  by (auto simp: frontier_def)

lemma frontier_leaf:
  "frontier nodes visited (name # stack) \<Longrightarrow> bt_get nodes name = None \<Longrightarrow> frontier nodes (insert name visited) stack"
  by (auto simp: frontier_def edge_def)

lemma frontier_node:
  "frontier nodes visited (name # stack) \<Longrightarrow> bt_get nodes name = Some node \<Longrightarrow>
     frontier nodes (insert name visited) (push_unvisited (insert name visited) (nd_callees node) stack)"
  by (auto simp: frontier_def edge_def set_push_unvisited)

lemma frontier_closed:
  assumes "frontier nodes visited []" "(edge nodes)\<^sup>*\<^sup>* a b" "a \<in> visited"
  shows "b \<in> visited"
  using assms(2,3) by (induction rule: rtranclp_induct) (use assms(1) in \<open>auto simp: frontier_def\<close>)

lemma crossing_loop_None:
  "crossing_loop nodes visited stack = None \<Longrightarrow> frontier nodes visited stack \<Longrightarrow>
     \<forall>a\<in>visited. \<not> is_crossing_at nodes a \<Longrightarrow>
     a \<in> visited \<union> set stack \<Longrightarrow> (edge nodes)\<^sup>*\<^sup>* a b \<Longrightarrow> \<not> is_crossing_at nodes b"
proof (induction nodes visited stack arbitrary: a rule: crossing_loop.induct)
  case (1 nodes visited)
  then show ?case using frontier_closed by auto
next
  case (2 nodes visited name stack)
  show ?case
  proof (cases "name \<in> visited")
    case True
    then show ?thesis using 2 frontier_skip by auto
  next
    case fresh: False
    show ?thesis
    proof (cases "bt_get nodes name")
      case None
      then have "\<forall>a\<in>insert name visited. \<not> is_crossing_at nodes a"
        using "2.prems"(3) by (auto simp: is_crossing_at_def)
      then show ?thesis
        using "2.IH"(2) [OF fresh refl None] "2.prems" fresh None frontier_leaf [OF "2.prems"(2) None] by (auto simp: Let_def)
    next
      case (Some node)
      have "\<not> nd_is_crossing node"
        using "2.prems"(1) fresh Some by (auto simp: Let_def)
      moreover from this have "\<forall>a\<in>insert name visited. \<not> is_crossing_at nodes a"
        using "2.prems"(3) Some by (auto simp: is_crossing_at_def)
      ultimately show ?thesis
        using "2.IH"(3) [OF fresh refl Some, where ?a = a] "2.prems" fresh Some frontier_node [OF "2.prems"(2) Some]
        by (auto simp: Let_def set_push_unvisited)
    qed
  qed
qed

lemma crossing_loop_Some:
  "crossing_loop nodes visited stack = Some via \<Longrightarrow> \<exists>a\<in>set stack. (edge nodes)\<^sup>*\<^sup>* a via \<and> is_crossing_at nodes via"
proof (induction nodes visited stack rule: crossing_loop.induct)
  case (2 nodes visited name stack)
  show ?case
  proof (cases "name \<in> visited \<or> bt_get nodes name = None")
    case True
    then show ?thesis using 2 by (auto simp: Let_def split: if_splits)
  next
    case False
    then obtain node where node: "bt_get nodes name = Some node" and fresh: "name \<notin> visited" by auto
    show ?thesis
    proof (cases "nd_is_crossing node")
      case True
      then show ?thesis using "2.prems" node fresh by (auto simp: Let_def is_crossing_at_def)
    next
      case False
      then obtain a where a: "a \<in> set stack \<union> set (nd_callees node)" "(edge nodes)\<^sup>*\<^sup>* a via" "is_crossing_at nodes via"
        using "2.IH"(3) [OF fresh refl node False] "2.prems" node fresh by (auto simp: Let_def set_push_unvisited)
      have "(edge nodes)\<^sup>*\<^sup>* name via" if "a \<in> set (nd_callees node)"
        by (rule converse_rtranclp_into_rtranclp [OF _ a(2)]) (use that node in \<open>auto simp: edge_def\<close>)
      then show ?thesis using a by auto
    qed
  qed
qed simp

lemma reach_crossing_exact:
  "reach_crossing nodes start = None \<longleftrightarrow> (\<forall>b. (edge nodes)\<^sup>*\<^sup>* start b \<longrightarrow> \<not> is_crossing_at nodes b)"
  "reach_crossing nodes start = Some via \<Longrightarrow> (edge nodes)\<^sup>*\<^sup>* start via \<and> is_crossing_at nodes via"
proof -
  show some: "(edge nodes)\<^sup>*\<^sup>* start via \<and> is_crossing_at nodes via" if "reach_crossing nodes start = Some via" for via
    using crossing_loop_Some [of nodes "{}" "[start]" via] that by (simp add: reach_crossing_def)
  show "reach_crossing nodes start = None \<longleftrightarrow> (\<forall>b. (edge nodes)\<^sup>*\<^sup>* start b \<longrightarrow> \<not> is_crossing_at nodes b)"
  proof
    assume "reach_crossing nodes start = None"
    then show "\<forall>b. (edge nodes)\<^sup>*\<^sup>* start b \<longrightarrow> \<not> is_crossing_at nodes b"
      using crossing_loop_None [of nodes "{}" "[start]" start] frontier_start by (simp add: reach_crossing_def)
  next
    assume "\<forall>b. (edge nodes)\<^sup>*\<^sup>* start b \<longrightarrow> \<not> is_crossing_at nodes b"
    then show "reach_crossing nodes start = None"
      using some by (cases "reach_crossing nodes start") auto
  qed
qed

text \<open>
  The other search collects what it visits: it finds exactly the functions other than the start
  that are reachable.
\<close>

lemma reachable_loop_sound:
  "b \<in> reachable_loop nodes start visited found stack \<Longrightarrow>
     b \<in> found \<or> b \<noteq> start \<and> is_fn_at nodes b \<and> (\<exists>a\<in>set stack. (edge nodes)\<^sup>*\<^sup>* a b)"
proof (induction nodes start visited found stack rule: reachable_loop.induct)
  case (2 nodes start visited found name stack)
  show ?case
  proof (cases "name \<in> visited \<or> bt_get nodes name = None")
    case True
    then have "b \<in> found \<or> b \<noteq> start \<and> is_fn_at nodes b \<and> (\<exists>a\<in>set stack. (edge nodes)\<^sup>*\<^sup>* a b)"
      using "2.IH"(1,2) "2.prems" by (cases "name \<in> visited") (simp_all add: Let_def)
    then show ?thesis by auto
  next
    case False
    then obtain node where node: "bt_get nodes name = Some node" "name \<notin> visited" by auto
    have step: "(edge nodes)\<^sup>*\<^sup>* name b" if "a \<in> set (nd_callees node)" "(edge nodes)\<^sup>*\<^sup>* a b" for a
      by (rule converse_rtranclp_into_rtranclp [OF _ that(2)]) (use that(1) node in \<open>auto simp: edge_def\<close>)
    have hit: "is_fn_at nodes name" if "nd_is_fn node" using that node by (auto simp: is_fn_at_def)
    let ?found = "if name \<noteq> start \<and> nd_is_fn node then insert name found else found"
    have "b \<in> ?found \<or> b \<noteq> start \<and> is_fn_at nodes b \<and>
        (\<exists>a\<in>set stack \<union> set (nd_callees node). (edge nodes)\<^sup>*\<^sup>* a b)"
      using "2.IH"(3) [OF node(2) refl node(1)] "2.prems" node by (auto simp: Let_def set_push_unvisited)
    then show ?thesis
      using step hit by (cases "b \<in> found") (auto split: if_splits)
  qed
qed simp

lemma reachable_loop_complete:
  "frontier nodes visited stack \<Longrightarrow> \<forall>a\<in>visited. a \<noteq> start \<and> is_fn_at nodes a \<longrightarrow> a \<in> found \<Longrightarrow>
     a \<in> visited \<union> set stack \<Longrightarrow> (edge nodes)\<^sup>*\<^sup>* a b \<Longrightarrow> b \<noteq> start \<Longrightarrow> is_fn_at nodes b \<Longrightarrow>
     b \<in> reachable_loop nodes start visited found stack"
proof (induction nodes start visited found stack arbitrary: a rule: reachable_loop.induct)
  case (1 nodes start visited found)
  then show ?case using frontier_closed by auto
next
  case (2 nodes start visited found name stack)
  show ?case
  proof (cases "name \<in> visited")
    case True
    then show ?thesis using 2 frontier_skip by auto
  next
    case fresh: False
    show ?thesis
    proof (cases "bt_get nodes name")
      case None
      then have "\<forall>a\<in>insert name visited. a \<noteq> start \<and> is_fn_at nodes a \<longrightarrow> a \<in> found"
        using "2.prems"(2) by (auto simp: is_fn_at_def)
      then show ?thesis
        using "2.IH"(2) [OF fresh refl None] "2.prems" fresh None frontier_leaf [OF "2.prems"(1) None] by (auto simp: Let_def)
    next
      case (Some node)
      let ?found = "if name \<noteq> start \<and> nd_is_fn node then insert name found else found"
      have "\<forall>a\<in>insert name visited. a \<noteq> start \<and> is_fn_at nodes a \<longrightarrow> a \<in> ?found"
        using "2.prems"(2) Some by (auto simp: is_fn_at_def)
      moreover have "a \<in> insert name visited \<union> set (push_unvisited (insert name visited) (nd_callees node) stack)"
        using "2.prems"(3) by (auto simp: set_push_unvisited)
      ultimately show ?thesis
        using "2.IH"(3) [OF fresh refl Some frontier_node [OF "2.prems"(1) Some]] "2.prems" fresh Some
        by (simp add: Let_def)
    qed
  qed
qed

lemma reachable_fns_exact:
  "reachable_fns nodes start = {b. b \<noteq> start \<and> is_fn_at nodes b \<and> (edge nodes)\<^sup>*\<^sup>* start b}"
  using reachable_loop_sound [of _ nodes start "{}" "{}" "[start]"]
    reachable_loop_complete [OF frontier_start, of start nodes "{}" start "[start]"]
  by (auto simp: reachable_fns_def)

lemma classify_get:
  "bt_get (classify program) name =
     (if bt_get (from_program program) name = None then None else Some (scope_of (from_program program) name))"
proof -
  have "bt_get (foldl (\<lambda>scopes name. bt_insert name (f name) scopes) m ns) k = (if k \<in> set ns then Some (f k) else bt_get m k)"
    for f :: "Ident \<Rightarrow> AssuranceScope" and m ns k
    by (induction ns arbitrary: m) auto
  then show ?thesis
    by (auto simp: classify_def Let_def bt_get_None_iff)
qed

text \<open>What the nodes of the graph are: the last declaration of a name decides.\<close>

definition node_of :: "Ident set \<Rightarrow> Item \<Rightarrow> Node option" where
  "node_of in_file item =
     (case item of
        Item.Fn f \<Rightarrow> Some \<lparr>nd_is_crossing = (fn_boundary f \<noteq> None \<or> fn_slag f \<noteq> None), nd_is_fn = True,
          nd_callees = (case fn_body f of Some body \<Rightarrow> walk_block in_file body | None \<Rightarrow> [])\<rparr>
      | SpecFn s \<Rightarrow> Some \<lparr>nd_is_crossing = False, nd_is_fn = False, nd_callees = walk_block in_file (sf_body s)\<rparr>
      | _ \<Rightarrow> None)"

lemma insert_item_node:
  "insert_item in_file nodes item =
     (case node_of in_file item of None \<Rightarrow> nodes | Some node \<Rightarrow> bt_insert (item_name item) node nodes)"
  by (cases item) (simp_all add: insert_item_def node_of_def collect_in_file_calls_def cong: option.case_cong)

lemma from_program_get:
  "bt_get (from_program program) name =
     (case filter (\<lambda>i. item_name i = name \<and> node_of (item_name ` set (pr_items program)) i \<noteq> None) (pr_items program) of
        [] \<Rightarrow> None | is \<Rightarrow> node_of (item_name ` set (pr_items program)) (last is))"
proof -
  have "bt_get (foldl (insert_item names) m items) name =
      (case filter (\<lambda>i. item_name i = name \<and> node_of names i \<noteq> None) items of [] \<Rightarrow> bt_get m name | is \<Rightarrow> node_of names (last is))"
    for names m items
  proof (induction items rule: rev_induct)
    case (snoc item items)
    then show ?case
      by (cases "node_of names item") (auto simp: insert_item_node split: list.splits)
  qed simp
  then show ?thesis
    unfolding from_program_def Let_def set_map by (simp split: list.split)
qed



section \<open>The closure of a verified build\<close>

datatype VerifiedCall = Named Ident | Qualified Ident | Indirect

datatype VerifiedClosureError =
    UnknownExport Ident
  | ExportNotFunction Ident
  | UnresolvedCall "Ident list" Ident
  | IndirectCall "Ident list"

record VerifiedClosure =
  vc_roots :: "Ident list"
  vc_functions :: "Ident set"
  vc_spec_functions :: "Ident set"
  vc_edges :: "(Ident \<times> Ident) set"

function (sequential) verified_block_calls :: "Block \<Rightarrow> VerifiedCall list"
  and verified_stmt_calls :: "Stmt \<Rightarrow> VerifiedCall list"
  and verified_expr_calls :: "Expr \<Rightarrow> VerifiedCall list" where
  "verified_block_calls (Block stmts tail) =
     concat (map (\<lambda>stmt. verified_stmt_calls stmt) stmts)
     @ (case tail of None \<Rightarrow> [] | Some e \<Rightarrow> verified_expr_calls e)"
| "verified_stmt_calls (Let _ _ _ init) = verified_expr_calls init"
| "verified_stmt_calls (Assign target value) = verified_expr_calls target @ verified_expr_calls value"
| "verified_stmt_calls (Return opt) = (case opt of None \<Rightarrow> [] | Some e \<Rightarrow> verified_expr_calls e)"
| "verified_stmt_calls (Stmt.If cond thn els) =
     verified_expr_calls cond @ verified_block_calls thn
     @ (case els of None \<Rightarrow> [] | Some b \<Rightarrow> verified_block_calls b)"
| "verified_stmt_calls (Stmt.Loop node) =
     concat (map (\<lambda>inv. verified_expr_calls (cl_expr inv)) (loop_invs node))
     @ verified_expr_calls (cl_expr (loop_dec node))
     @ (case loop_kind node of While cond \<Rightarrow> verified_expr_calls cond | LoopKind.Loop \<Rightarrow> [])
     @ verified_block_calls (loop_body node)"
| "verified_stmt_calls (Stmt.Expr e) = verified_expr_calls e"
| "verified_stmt_calls Break = []"
| "verified_stmt_calls Continue = []"
| "verified_expr_calls (Call callee args) =
     (case callee of
        Path parts \<Rightarrow>
          (case parts of [] \<Rightarrow> [] | first # rest \<Rightarrow> if rest = [] then [Named first] else [Qualified first])
      | other \<Rightarrow> Indirect # verified_expr_calls callee)
     @ concat (map (\<lambda>arg. verified_expr_calls arg) args)"
| "verified_expr_calls (MethodCall receiver _ args) =
     verified_expr_calls receiver @ concat (map (\<lambda>arg. verified_expr_calls arg) args)"
| "verified_expr_calls (Field receiver _) = verified_expr_calls receiver"
| "verified_expr_calls (TupleProj receiver _) = verified_expr_calls receiver"
| "verified_expr_calls (Closure _ body) = verified_expr_calls body"
| "verified_expr_calls (Match scrutinee arms) =
     verified_expr_calls scrutinee
     @ concat (map (\<lambda>arm. (case arm_guard arm of None \<Rightarrow> [] | Some guard \<Rightarrow> verified_expr_calls guard)
         @ verified_expr_calls (arm_body arm)) arms)"
| "verified_expr_calls (Expr.If cond thn els) =
     verified_expr_calls cond @ verified_block_calls thn @ verified_block_calls els"
| "verified_expr_calls (Binary _ lhs rhs) = verified_expr_calls lhs @ verified_expr_calls rhs"
| "verified_expr_calls (Expr.Index base index) =
     verified_expr_calls base
     @ (case index of
          Single e \<Rightarrow> verified_expr_calls e
        | RangeTo e \<Rightarrow> verified_expr_calls e
        | RangeFrom e \<Rightarrow> verified_expr_calls e
        | Range a b \<Rightarrow> verified_expr_calls a @ verified_expr_calls b)"
| "verified_expr_calls (Cast e _) = verified_expr_calls e"
| "verified_expr_calls (Expr.Ref _ e) = verified_expr_calls e"
| "verified_expr_calls (Deref e) = verified_expr_calls e"
| "verified_expr_calls (Unary _ e) = verified_expr_calls e"
| "verified_expr_calls (Is e _) = verified_expr_calls e"
| "verified_expr_calls (StructLit _ fs) = concat (map (\<lambda>field. verified_expr_calls (snd field)) fs)"
| "verified_expr_calls (Expr.Tuple vs) = concat (map (\<lambda>v. verified_expr_calls v) vs)"
| "verified_expr_calls (Quantifier _ _ _ domain body) = verified_expr_calls domain @ verified_expr_calls body"
| "verified_expr_calls (IntLit _ _) = []"
| "verified_expr_calls (BoolLit _) = []"
| "verified_expr_calls (Path _) = []"
| "verified_expr_calls (StrLit _) = []"
  by pat_completeness auto
termination
  by (relation "measure (\<lambda>x. case x of Inl b \<Rightarrow> size b | Inr (Inl s) \<Rightarrow> size s | Inr (Inr e) \<Rightarrow> size e)")
     (auto dest: ast_sizes simp: less_Suc_eq_le size_of_loop_parts)

fun collect_verified_calls :: "Item \<Rightarrow> VerifiedCall list" where
  "collect_verified_calls (Item.Fn f) =
     verified_expr_calls (cl_expr (ct_req (fn_contract f)))
     @ concat (map (\<lambda>ens. verified_expr_calls (cl_expr ens)) (ct_ens (fn_contract f)))
     @ (case fn_dec f of None \<Rightarrow> [] | Some d \<Rightarrow> verified_expr_calls (cl_expr d))
     @ (case fn_body f of None \<Rightarrow> [] | Some body \<Rightarrow> verified_block_calls body)"
| "collect_verified_calls (SpecFn s) = verified_expr_calls (cl_expr (sf_dec s)) @ verified_block_calls (sf_body s)"
| "collect_verified_calls (Item.Struct s) = (case st_inv s of None \<Rightarrow> [] | Some clause \<Rightarrow> verified_expr_calls (cl_expr clause))"
| "collect_verified_calls (Item.Enum _) = []"
| "collect_verified_calls (Forge _) = []"

definition VERIFIED_BUILTINS :: "string list" where
  "VERIFIED_BUILTINS =
     [''Some'', ''None'', ''Ok'', ''Err'', ''parse_u64'', ''bytes_eq'', ''all_digits'', ''is_digit'', ''parse_be'',
      ''pow10'', ''occurs_at'', ''contains_sub'', ''count_sep'', ''sep_free'', ''is_space'']"

definition is_verified_builtin :: "Ident \<Rightarrow> Ident set \<Rightarrow> bool" where
  "is_verified_builtin name variants \<longleftrightarrow>
     combinator_lookup name \<noteq> None \<or> scheme_lookup name \<noteq> None \<or> name \<in> variants \<or> name \<in> set VERIFIED_BUILTINS"

definition is_verified_qualified_root :: "Ident \<Rightarrow> Program \<Rightarrow> bool" where
  "is_verified_qualified_root root program \<longleftrightarrow>
     root \<in> {''u32'', ''u64'', ''usize'', ''bool'', ''Option'', ''Result''} \<or>
     list_ex (\<lambda>item. case item of Item.Struct s \<Rightarrow> st_name s = root | Item.Enum e \<Rightarrow> en_name e = root | _ \<Rightarrow> False)
       (pr_items program)"

definition item_kinds :: "Program \<Rightarrow> (Ident, bool) btmap" where
  "item_kinds program =
     foldl (\<lambda>kinds item. case item of
         Item.Fn f \<Rightarrow> bt_insert (fn_name f) True kinds
       | SpecFn s \<Rightarrow> bt_insert (sf_name s) False kinds
       | _ \<Rightarrow> kinds) [] (pr_items program)"

definition program_variants :: "Program \<Rightarrow> Ident set" where
  "program_variants program =
     (\<Union>item\<in>set (pr_items program). case item of Item.Enum e \<Rightarrow> va_name ` set (en_variants e) | _ \<Rightarrow> {})"

fun check_roots :: "(Ident, bool) btmap \<Rightarrow> Ident list \<Rightarrow> (unit, VerifiedClosureError) result" where
  "check_roots kinds [] = Ok ()"
| "check_roots kinds (root # roots) =
     (case bt_get kinds root of
        None \<Rightarrow> Err (UnknownExport root)
      | Some False \<Rightarrow> Err (ExportNotFunction root)
      | Some True \<Rightarrow> check_roots kinds roots)"

text \<open>The inner loop over the calls of one item: the edges and the stack grow, or an error ends the search.\<close>

fun follow_calls ::
    "Program \<Rightarrow> Ident \<Rightarrow> Ident list \<Rightarrow> VerifiedCall list \<Rightarrow> (Ident \<times> Ident) set \<Rightarrow> (Ident \<times> Ident list) list
      \<Rightarrow> ((Ident \<times> Ident) set \<times> (Ident \<times> Ident list) list, VerifiedClosureError) result" where
  "follow_calls program name path [] edges stack = Ok (edges, stack)"
| "follow_calls program name path (Named callee # calls) edges stack =
     (if bt_contains (item_kinds program) callee
      then follow_calls program name path calls (insert (name, callee) edges) ((callee, path @ [callee]) # stack)
      else if is_verified_builtin callee (program_variants program)
      then follow_calls program name path calls edges stack
      else Err (UnresolvedCall path callee))"
| "follow_calls program name path (Qualified root # calls) edges stack =
     (if is_verified_qualified_root root program
      then follow_calls program name path calls edges stack
      else Err (UnresolvedCall path root))"
| "follow_calls program name path (Indirect # calls) edges stack = Err (IndirectCall path)"

record ClosureState =
  cl_functions :: "Ident set"
  cl_spec_functions :: "Ident set"
  cl_edges :: "(Ident \<times> Ident) set"
  cl_visited :: "Ident set"

function (sequential) closure_loop ::
    "Program \<Rightarrow> ClosureState \<Rightarrow> (Ident \<times> Ident list) list \<Rightarrow> (ClosureState, VerifiedClosureError) result" where
  "closure_loop program st [] = Ok st"
| "closure_loop program st ((name, path) # stack) =
     (if name \<in> cl_visited st then closure_loop program st stack
      else let st = st\<lparr>cl_visited := insert name (cl_visited st)\<rparr> in
        (case bt_get (item_kinds program) name of
           None \<Rightarrow> closure_loop program st stack
         | Some is_fn \<Rightarrow>
             let st = (if is_fn then st\<lparr>cl_functions := insert name (cl_functions st)\<rparr>
                       else st\<lparr>cl_spec_functions := insert name (cl_spec_functions st)\<rparr>) in
             (case find (\<lambda>item. item_name item = name) (pr_items program) of
                None \<Rightarrow> closure_loop program st stack
              | Some item \<Rightarrow>
                  (case follow_calls program name path (rev (collect_verified_calls item)) (cl_edges st) stack of
                     Err e \<Rightarrow> Err e
                   | Ok (edges, stack) \<Rightarrow> closure_loop program (st\<lparr>cl_edges := edges\<rparr>) stack))))"
  by pat_completeness auto
termination
  by (relation "measures [\<lambda>(program, st, stack). unvisited (item_kinds program) (cl_visited st),
                          \<lambda>(program, st, stack). length stack]")
     (auto simp: unvisited_insert_same intro: unvisited_insert_less split: if_splits)

definition verified_closure :: "Program \<Rightarrow> Ident list \<Rightarrow> (VerifiedClosure, VerifiedClosureError) result" where
  "verified_closure program exports =
     (let roots = remdups_adj (sort exports) in
      case check_roots (item_kinds program) roots of
        Err e \<Rightarrow> Err e
      | Ok _ \<Rightarrow>
          (case closure_loop program
               \<lparr>cl_functions = {}, cl_spec_functions = {}, cl_edges = {}, cl_visited = {}\<rparr>
               (map (\<lambda>root. (root, [root])) roots) of
             Err e \<Rightarrow> Err e
           | Ok st \<Rightarrow> Ok \<lparr>vc_roots = roots, vc_functions = cl_functions st,
               vc_spec_functions = cl_spec_functions st, vc_edges = cl_edges st\<rparr>))"

section \<open>A verified closure is complete\<close>

text \<open>
  A call is resolved when its callee is an item, a builtin or an admitted qualified name; an
  indirect call never is. The calls of a name are those of the first item with that name.
\<close>

fun resolved :: "Program \<Rightarrow> VerifiedCall \<Rightarrow> bool" where
  "resolved program (Named callee) \<longleftrightarrow>
     bt_contains (item_kinds program) callee \<or> is_verified_builtin callee (program_variants program)"
| "resolved program (Qualified root) \<longleftrightarrow> is_verified_qualified_root root program"
| "resolved program Indirect \<longleftrightarrow> False"

definition calls_of :: "Program \<Rightarrow> Ident \<Rightarrow> VerifiedCall list" where
  "calls_of program name =
     (case find (\<lambda>item. item_name item = name) (pr_items program) of None \<Rightarrow> [] | Some item \<Rightarrow> collect_verified_calls item)"

definition callees_of :: "Program \<Rightarrow> Ident \<Rightarrow> Ident set" where
  "callees_of program name = {c. Named c \<in> set (calls_of program name) \<and> bt_contains (item_kinds program) c}"

definition calls_item :: "Program \<Rightarrow> Ident \<Rightarrow> Ident \<Rightarrow> bool" where
  "calls_item program a b \<longleftrightarrow> b \<in> callees_of program a"

lemma follow_calls_Ok:
  "follow_calls program name path calls edges stack = Ok (edges', stack') \<Longrightarrow>
     list_all (resolved program) calls \<and>
     edges' = edges \<union> {(name, c) | c. Named c \<in> set calls \<and> bt_contains (item_kinds program) c} \<and>
     fst ` set stack' = fst ` set stack \<union> {c. Named c \<in> set calls \<and> bt_contains (item_kinds program) c}"
  by (induction program name path calls edges stack rule: follow_calls.induct) (auto split: if_splits)

lemma follow_calls_Err: "follow_calls program name path calls edges stack = Err e \<Longrightarrow> \<not> list_all (resolved program) calls"
  by (induction program name path calls edges stack rule: follow_calls.induct) (auto split: if_splits)

text \<open>
  The invariant of the search: what is visited and an item has resolved calls, whose item callees are
  visited or on the stack; functions and specification functions are the visited items.
\<close>

definition closure_inv :: "Program \<Rightarrow> ClosureState \<Rightarrow> Ident list \<Rightarrow> bool" where
  "closure_inv program st stack \<longleftrightarrow>
     cl_functions st = {n \<in> cl_visited st. bt_get (item_kinds program) n = Some True} \<and>
     cl_spec_functions st = {n \<in> cl_visited st. bt_get (item_kinds program) n = Some False} \<and>
     cl_edges st = {(n, c). n \<in> cl_functions st \<union> cl_spec_functions st \<and> calls_item program n c} \<and>
     (\<forall>n\<in>cl_functions st \<union> cl_spec_functions st.
        list_all (resolved program) (calls_of program n) \<and> callees_of program n \<subseteq> cl_visited st \<union> set stack)"

definition marked :: "ClosureState \<Rightarrow> Ident \<Rightarrow> bool \<Rightarrow> (Ident \<times> Ident) set \<Rightarrow> ClosureState" where
  "marked st name is_fn edges =
     (if is_fn then st\<lparr>cl_functions := insert name (cl_functions st), cl_visited := insert name (cl_visited st), cl_edges := edges\<rparr>
      else st\<lparr>cl_spec_functions := insert name (cl_spec_functions st), cl_visited := insert name (cl_visited st), cl_edges := edges\<rparr>)"

lemma cl_visited_marked [simp]: "cl_visited (marked st name is_fn edges) = insert name (cl_visited st)"
  by (simp add: marked_def)

lemma closure_inv_skip:
  "closure_inv program st (name # stack) \<Longrightarrow> name \<in> cl_visited st \<Longrightarrow> closure_inv program st stack"
  by (auto simp: closure_inv_def)

lemma closure_inv_unknown:
  "closure_inv program st (name # stack) \<Longrightarrow> bt_get (item_kinds program) name = None \<Longrightarrow>
     closure_inv program (st\<lparr>cl_visited := insert name (cl_visited st)\<rparr>) stack"
  by (auto simp: closure_inv_def)

lemma closure_inv_item:
  assumes inv: "closure_inv program st (name # map fst entries)" and fresh: "name \<notin> cl_visited st"
    and kind: "bt_get (item_kinds program) name = Some is_fn"
    and follow: "follow_calls program name path (rev (calls_of program name)) (cl_edges st) entries = Ok (edges, entries')"
  shows "closure_inv program (marked st name is_fn edges) (map fst entries')"
proof -
  have "list_all (resolved program) (calls_of program name)"
    and edges: "edges = cl_edges st \<union> {(name, c) | c. calls_item program name c}"
    and "set (map fst entries') = set (map fst entries) \<union> callees_of program name"
    using follow_calls_Ok [OF follow] by (auto simp: callees_of_def calls_item_def list_all_iff)
  then show ?thesis
    using inv fresh kind by (auto simp: closure_inv_def marked_def edges calls_item_def)
qed

text \<open>One step of the loop on a fresh item: follow its calls, mark it and go on.\<close>

lemma closure_loop_item:
  assumes "name \<notin> cl_visited st" "bt_get (item_kinds program) name = Some is_fn"
  shows "closure_loop program st ((name, path) # entries) =
     (case follow_calls program name path (rev (calls_of program name)) (cl_edges st) entries of
        Err e \<Rightarrow> Err e
      | Ok (edges, entries') \<Rightarrow> closure_loop program (marked st name is_fn edges) entries')"
  using assms
  by (cases st) (auto simp: Let_def calls_of_def marked_def split: option.splits result.splits prod.splits)

lemma closure_loop_induct [consumes 1, case_names finished skip unknown failing item]:
  assumes "closure_loop program st entries = r"
    and "\<And>st. P st [] (Ok st)"
    and "\<And>st name path entries r. name \<in> cl_visited st \<Longrightarrow> P st entries r \<Longrightarrow> P st ((name, path) # entries) r"
    and "\<And>st name path entries r. name \<notin> cl_visited st \<Longrightarrow> bt_get (item_kinds program) name = None \<Longrightarrow>
          P (st\<lparr>cl_visited := insert name (cl_visited st)\<rparr>) entries r \<Longrightarrow> P st ((name, path) # entries) r"
    and "\<And>st name path entries is_fn e. name \<notin> cl_visited st \<Longrightarrow> bt_get (item_kinds program) name = Some is_fn \<Longrightarrow>
          follow_calls program name path (rev (calls_of program name)) (cl_edges st) entries = Err e \<Longrightarrow>
          P st ((name, path) # entries) (Err e)"
    and "\<And>st name path entries is_fn edges entries' r. name \<notin> cl_visited st \<Longrightarrow>
          bt_get (item_kinds program) name = Some is_fn \<Longrightarrow>
          follow_calls program name path (rev (calls_of program name)) (cl_edges st) entries = Ok (edges, entries') \<Longrightarrow>
          P (marked st name is_fn edges) entries' r \<Longrightarrow> P st ((name, path) # entries) r"
  shows "P st entries r"
  using assms(1)
proof (induction "(unvisited (item_kinds program) (cl_visited st), length entries)" arbitrary: st entries
    rule: wf_induct_rule [OF wf_lex_prod [OF wf_less_than wf_less_than]])
  case ind: 1
  show ?case
  proof (cases entries)
    case Nil
    then show ?thesis using ind.prems assms(2) by auto
  next
    case (Cons entry rest)
    obtain name path where entry: "entry = (name, path)" by (cases entry)
    consider (seen) "name \<in> cl_visited st"
      | (unknown) "name \<notin> cl_visited st" "bt_get (item_kinds program) name = None"
      | (item) is_fn where "name \<notin> cl_visited st" "bt_get (item_kinds program) name = Some is_fn"
      by (cases "bt_get (item_kinds program) name") auto
    then show ?thesis
    proof cases
      case seen
      then show ?thesis using ind.hyps [of st rest] assms(3) ind.prems Cons entry by simp
    next
      case unknown
      then show ?thesis
        using ind.hyps [of "st\<lparr>cl_visited := insert name (cl_visited st)\<rparr>" rest] assms(4) ind.prems Cons entry
        by (simp add: Let_def unvisited_insert_same)
    next
      case (item is_fn)
      note loop = ind.prems [unfolded Cons entry closure_loop_item [OF item]]
      show ?thesis
      proof (cases "follow_calls program name path (rev (calls_of program name)) (cl_edges st) rest")
        case (Ok a)
        obtain edges entries' where a: "a = (edges, entries')" by (cases a)
        have "P (marked st name is_fn edges) entries' r"
          by (rule ind.hyps) (use loop Ok a unvisited_insert_less [OF item(2,1)] in simp_all)
        then show ?thesis using assms(6) [OF item] Ok a Cons entry by simp
      next
        case (Err e)
        then show ?thesis using assms(5) [OF item Err] loop Cons entry by simp
      qed
    qed
  qed
qed

text \<open>When the search succeeds its invariant holds with nothing left to visit, and it has visited
  exactly what the calls reach; when it fails, a call it reached is unresolved.\<close>

lemma closure_loop_inv:
  "closure_loop program st entries = r \<Longrightarrow> r = Ok st' \<Longrightarrow> closure_inv program st (map fst entries) \<Longrightarrow> closure_inv program st' []"
proof (induction rule: closure_loop_induct)
  case (item st name path entries is_fn edges entries' r)
  then show ?case using closure_inv_item by simp
qed (use closure_inv_skip closure_inv_unknown in auto)

lemma closure_loop_covers:
  "closure_loop program st entries = r \<Longrightarrow> r = Ok st' \<Longrightarrow> cl_visited st \<union> fst ` set entries \<subseteq> cl_visited st'"
proof (induction rule: closure_loop_induct)
  case (item st name path entries is_fn edges entries' r)
  then show ?case using follow_calls_Ok [OF item(3)] by auto
qed auto

lemma follow_calls_reach:
  assumes "follow_calls program name path (rev (calls_of program name)) edges entries = Ok (edges', entries')"
    and "a \<in> fst ` set entries'" "(calls_item program)\<^sup>*\<^sup>* a b"
  shows "\<exists>a\<in>insert name (fst ` set entries). (calls_item program)\<^sup>*\<^sup>* a b"
proof (cases "a \<in> fst ` set entries")
  case False
  then have "calls_item program name a"
    using follow_calls_Ok [OF assms(1)] assms(2) by (auto simp: callees_of_def calls_item_def)
  then show ?thesis using assms(3) converse_rtranclp_into_rtranclp by fast
qed (use assms in blast)

lemma closure_loop_reached:
  "closure_loop program st entries = r \<Longrightarrow> r = Ok st' \<Longrightarrow> b \<in> cl_visited st' \<Longrightarrow>
     b \<in> cl_visited st \<or> (\<exists>a\<in>fst ` set entries. (calls_item program)\<^sup>*\<^sup>* a b)"
proof (induction rule: closure_loop_induct)
  case (item st name path entries is_fn edges entries' r)
  then show ?case using follow_calls_reach [OF item(3)] by auto
qed auto

lemma closure_loop_fails:
  "closure_loop program st entries = r \<Longrightarrow> r = Err e \<Longrightarrow>
     \<exists>a\<in>fst ` set entries. \<exists>b. (calls_item program)\<^sup>*\<^sup>* a b \<and> \<not> list_all (resolved program) (calls_of program b)"
proof (induction rule: closure_loop_induct)
  case (failing st name path entries is_fn e')
  then have "\<not> list_all (resolved program) (calls_of program name)"
    using follow_calls_Err by fastforce
  then show ?case by auto
next
  case (item st name path entries is_fn edges entries' r)
  then show ?case using follow_calls_reach [OF item(3)] by fastforce
qed auto

lemma visited_items_closed:
  assumes inv: "closure_inv program st []" and "(calls_item program)\<^sup>*\<^sup>* a b" "a \<in> cl_visited st"
    "bt_contains (item_kinds program) a"
  shows "b \<in> cl_visited st \<and> bt_contains (item_kinds program) b"
  using assms(2-4)
proof (induction rule: rtranclp_induct)
  case (step b c)
  then have "b \<in> cl_functions st \<union> cl_spec_functions st"
    using inv by (auto simp: closure_inv_def bt_contains_def)
  then show ?case
    using inv step(2) by (auto simp: closure_inv_def callees_of_def calls_item_def)
qed simp

lemma check_roots_Ok_iff: "check_roots kinds roots = Ok () \<longleftrightarrow> (\<forall>r\<in>set roots. bt_get kinds r = Some True)"
  by (induction kinds roots rule: check_roots.induct) (auto split: option.splits bool.splits)

definition start_state :: ClosureState where
  "start_state = \<lparr>cl_functions = {}, cl_spec_functions = {}, cl_edges = {}, cl_visited = {}\<rparr>"

definition export_reach :: "Program \<Rightarrow> Ident list \<Rightarrow> Ident set" where
  "export_reach program exports = {b. \<exists>r\<in>set exports. (calls_item program)\<^sup>*\<^sup>* r b}"

lemma closure_from_exports:
  assumes roots: "\<forall>r\<in>set exports. bt_get (item_kinds program) r = Some True"
    and loop: "closure_loop program start_state (map (\<lambda>r. (r, [r])) (remdups_adj (sort exports))) = Ok st"
  shows "cl_functions st \<union> cl_spec_functions st = export_reach program exports"
    and "cl_edges st = {(n, c). n \<in> export_reach program exports \<and> calls_item program n c}"
    and "b \<in> export_reach program exports \<Longrightarrow> list_all (resolved program) (calls_of program b)"
proof -
  let ?entries = "map (\<lambda>r. (r, [r])) (remdups_adj (sort exports))"
  have inv: "closure_inv program st []"
    using closure_loop_inv [OF loop refl] by (simp add: closure_inv_def start_state_def)
  have covered: "set exports \<subseteq> cl_visited st"
    using closure_loop_covers [OF loop refl] by (auto simp: image_image)
  have reach: "b \<in> cl_visited st \<and> bt_contains (item_kinds program) b \<longleftrightarrow> b \<in> export_reach program exports" for b
  proof
    assume "b \<in> export_reach program exports"
    then obtain r where "r \<in> set exports" "(calls_item program)\<^sup>*\<^sup>* r b" by (auto simp: export_reach_def)
    then show "b \<in> cl_visited st \<and> bt_contains (item_kinds program) b"
      using visited_items_closed [OF inv, of r b] covered roots by (auto simp: bt_contains_def)
  next
    assume "b \<in> cl_visited st \<and> bt_contains (item_kinds program) b"
    then show "b \<in> export_reach program exports"
      using closure_loop_reached [OF loop refl, of b] by (auto simp: start_state_def export_reach_def image_image)
  qed
  have "cl_functions st \<union> cl_spec_functions st = {b. b \<in> cl_visited st \<and> bt_contains (item_kinds program) b}"
    using inv by (auto simp: closure_inv_def bt_contains_def)
  then show nodes: "cl_functions st \<union> cl_spec_functions st = export_reach program exports"
    unfolding reach by simp
  show "cl_edges st = {(n, c). n \<in> export_reach program exports \<and> calls_item program n c}"
    using inv by (auto simp: closure_inv_def simp flip: nodes)
  show "list_all (resolved program) (calls_of program b)" if "b \<in> export_reach program exports"
    using inv that by (auto simp: closure_inv_def simp flip: nodes)
qed


end
