(* ===== verification/Forge_Sandbox.thy ===== *)
theory Forge_Sandbox
  imports Forge_Closure
begin

text \<open>
  The runtime sandbox of \<open>forge/src/sandbox.rs\<close>: the system-call tables of both architectures, the
  tokens of the effects an entry point can reach, and the allow-list derived from them. An ordered
  set is the key list of an ordered map. The emission of the filter program as source text and the probe
  of the self-test are not modelled. The lemmas show that the allow-list is the base line plus
  exactly what declared effects grant, and that on the five sensitive calls it
  agrees with the verified core for every set of effects.
\<close>


section \<open>The tables\<close>

definition BASELINE_SYSCALLS :: "u32 list" where
  "BASELINE_SYSCALLS =
     [0, 1, 3, 7, 9, 10, 11, 12, 13, 14, 15, 28, 60, 131, 158, 186, 202, 204, 218, 231, 273, 302, 334]"

definition READ_SYSCALLS :: "u32 list" where "READ_SYSCALLS = [8, 257, 262, 332]"
definition WRITE_SYSCALLS :: "u32 list" where "WRITE_SYSCALLS = [74, 257, 262]"
definition NET_SYSCALLS :: "u32 list" where "NET_SYSCALLS = [41, 42, 44, 45, 54, 55]"
definition TIME_SYSCALLS :: "u32 list" where "TIME_SYSCALLS = [228, 230]"
definition RAND_SYSCALLS :: "u32 list" where "RAND_SYSCALLS = [318]"
definition TERM_SYSCALLS :: "u32 list" where "TERM_SYSCALLS = [16]"

definition BASELINE_AARCH64_SYSCALLS :: "u32 list" where
  "BASELINE_AARCH64_SYSCALLS =
     [57, 63, 64, 93, 94, 96, 98, 99, 123, 132, 134, 135, 139, 178, 214, 215, 222, 226, 233, 261, 293]"

definition READ_AARCH64_SYSCALLS :: "u32 list" where "READ_AARCH64_SYSCALLS = [56, 62, 79, 291]"
definition WRITE_AARCH64_SYSCALLS :: "u32 list" where "WRITE_AARCH64_SYSCALLS = [56, 79, 82]"
definition NET_AARCH64_SYSCALLS :: "u32 list" where "NET_AARCH64_SYSCALLS = [198, 203, 206, 207, 208, 209]"
definition TIME_AARCH64_SYSCALLS :: "u32 list" where "TIME_AARCH64_SYSCALLS = [113, 115]"
definition RAND_AARCH64_SYSCALLS :: "u32 list" where "RAND_AARCH64_SYSCALLS = [278]"
definition TERM_AARCH64_SYSCALLS :: "u32 list" where "TERM_AARCH64_SYSCALLS = [29]"

datatype SeccompArch = X86_64 | Aarch64

definition SeccompArch_host :: "string \<Rightarrow> SeccompArch option" where
  "SeccompArch_host arch =
     (if arch = ''x86_64'' then Some X86_64 else if arch = ''aarch64'' then Some Aarch64 else None)"

fun baseline_syscalls :: "SeccompArch \<Rightarrow> u32 list" where
  "baseline_syscalls X86_64 = BASELINE_SYSCALLS"
| "baseline_syscalls Aarch64 = BASELINE_AARCH64_SYSCALLS"

definition widening_syscalls :: "SeccompArch \<Rightarrow> string \<Rightarrow> u32 list" where
  "widening_syscalls arch verb =
     (case arch of
        X86_64 \<Rightarrow>
          if verb = ''read'' then READ_SYSCALLS
          else if verb = ''write'' then WRITE_SYSCALLS
          else if verb = ''net'' then NET_SYSCALLS
          else if verb = ''time'' then TIME_SYSCALLS
          else if verb = ''rand'' then RAND_SYSCALLS
          else if verb = ''term'' then TERM_SYSCALLS
          else []
      | Aarch64 \<Rightarrow>
          if verb = ''read'' then READ_AARCH64_SYSCALLS
          else if verb = ''write'' then WRITE_AARCH64_SYSCALLS
          else if verb = ''net'' then NET_AARCH64_SYSCALLS
          else if verb = ''time'' then TIME_AARCH64_SYSCALLS
          else if verb = ''rand'' then RAND_AARCH64_SYSCALLS
          else if verb = ''term'' then TERM_AARCH64_SYSCALLS
          else [])"


section \<open>From a program to its allow-list\<close>

type_synonym 'a btset = "('a, unit) btmap"

definition bts_insert_all :: "'a::linorder list \<Rightarrow> 'a btset \<Rightarrow> 'a btset" where
  "bts_insert_all xs s = foldl (\<lambda>acc x. bt_insert x () acc) s xs"

definition transitive_fx :: "Program \<Rightarrow> Ident \<Rightarrow> string btset" where
  "transitive_fx program entry =
     (let names = insert entry (reachable_in_file_fns program entry)
      in foldl (\<lambda>tokens item. case item of
            Item.Fn f \<Rightarrow> if fn_name f \<in> names then bts_insert_all (effects_of (ct_fx (fn_contract f))) tokens else tokens
          | _ \<Rightarrow> tokens) [] (pr_items program))"

definition verb_of :: "string \<Rightarrow> string" where
  "verb_of tok = takeWhile (\<lambda>c. c \<noteq> CHR ''('') tok"

definition syscall_allowlist_for_arch :: "string btset \<Rightarrow> SeccompArch \<Rightarrow> u32 list" where
  "syscall_allowlist_for_arch fx arch =
     map fst (foldl (\<lambda>acc tok. bts_insert_all (widening_syscalls arch (verb_of tok)) acc)
       (bts_insert_all (baseline_syscalls arch) []) (map fst fx))"

definition syscall_allowlist :: "string btset \<Rightarrow> u32 list" where
  "syscall_allowlist fx = syscall_allowlist_for_arch fx X86_64"

text \<open>The name of the host architecture is a parameter.\<close>

definition syscall_allowlist_for_host :: "string \<Rightarrow> string btset \<Rightarrow> u32 list" where
  "syscall_allowlist_for_host host fx =
     (case (case SeccompArch_host host of Some arch \<Rightarrow> arch | None \<Rightarrow> X86_64) of
        X86_64 \<Rightarrow> syscall_allowlist fx
      | Aarch64 \<Rightarrow> syscall_allowlist_for_arch fx Aarch64)"


section \<open>The allow-list is exact\<close>

lemma bts_insert_all_keys: "fst ` set (bts_insert_all xs s) = fst ` set s \<union> set xs"
  by (induction xs arbitrary: s) (auto simp: bts_insert_all_def set_bt_insert_keys)

lemma bts_insert_all_wf: "bt_wf s \<Longrightarrow> bt_wf (bts_insert_all xs s)"
  by (induction xs arbitrary: s) (simp_all add: bts_insert_all_def)

lemma allowlist_members:
  "set (syscall_allowlist_for_arch fx arch) =
     set (baseline_syscalls arch) \<union> (\<Union>tok\<in>fst ` set fx. set (widening_syscalls arch (verb_of tok)))"
proof -
  have "fst ` set (foldl (\<lambda>acc tok. bts_insert_all (widening_syscalls arch (verb_of tok)) acc) s toks) =
      fst ` set s \<union> (\<Union>tok\<in>set toks. set (widening_syscalls arch (verb_of tok)))" for s and toks :: "string list"
    by (induction toks arbitrary: s) (auto simp: bts_insert_all_keys)
  then show ?thesis
    by (simp add: syscall_allowlist_for_arch_def bts_insert_all_keys)
qed

lemma allowlist_sorted:
  "sorted (syscall_allowlist_for_arch fx arch)" "distinct (syscall_allowlist_for_arch fx arch)"
proof -
  have "bt_wf (foldl (\<lambda>acc tok. bts_insert_all (widening_syscalls arch (verb_of tok)) acc) s toks)"
    if "bt_wf s" for s and toks :: "string list"
    using that by (induction toks arbitrary: s) (auto simp: bts_insert_all_wf)
  from this [OF bts_insert_all_wf [OF bt_wf_Nil], of "baseline_syscalls arch" "map fst fx"]
  show "sorted (syscall_allowlist_for_arch fx arch)" "distinct (syscall_allowlist_for_arch fx arch)"
    by (simp_all add: syscall_allowlist_for_arch_def bt_wf_def strict_sorted_iff)
qed

lemma transitive_fx_tokens:
  "fst ` set (transitive_fx program entry) =
     {tok. \<exists>f. Item.Fn f \<in> set (pr_items program) \<and> fn_name f \<in> insert entry (reachable_in_file_fns program entry) \<and>
        tok \<in> set (effects_of (ct_fx (fn_contract f)))}"
proof -
  have tokens: "fst ` set (foldl (\<lambda>tokens item. case item of
            Item.Fn f \<Rightarrow> if fn_name f \<in> names then bts_insert_all (effects_of (ct_fx (fn_contract f))) tokens else tokens
          | _ \<Rightarrow> tokens) s items) =
      fst ` set s \<union> {tok. \<exists>f. Item.Fn f \<in> set items \<and> fn_name f \<in> names \<and> tok \<in> set (effects_of (ct_fx (fn_contract f)))}"
    for names s items
  proof (induction items arbitrary: s)
    case (Cons item items)
    then show ?case by (cases item) (auto simp: bts_insert_all_keys)
  qed simp
  show ?thesis unfolding transitive_fx_def Let_def tokens by simp
qed

fun grants :: "SeccompArch \<Rightarrow> Effect \<Rightarrow> u32 set" where
  "grants arch (Effect.Read _) = set (widening_syscalls arch ''read'')"
| "grants arch (Effect.Write _) = set (widening_syscalls arch ''write'')"
| "grants arch (Effect.Net _) = set (widening_syscalls arch ''net'')"
| "grants arch Effect.Time = set (widening_syscalls arch ''time'')"
| "grants arch Effect.Rand = set (widening_syscalls arch ''rand'')"
| "grants arch Effect.Term = set (widening_syscalls arch ''term'')"
| "grants arch _ = {}"

text \<open>A token is read back by its verb: the name in parentheses plays no role.\<close>

lemma verb_of_token: "set (widening_syscalls arch (verb_of (effect_token e))) = grants arch e"
  by (cases e; cases arch) (simp_all add: verb_of_def widening_syscalls_def)

lemma pure_grants_nothing: "widening_syscalls arch (verb_of ''pure'') = []"
  by (cases arch) (simp_all add: verb_of_def widening_syscalls_def)

definition declared :: "EffectRow \<Rightarrow> Effect set" where
  "declared row = (case row of Pure \<Rightarrow> {} | Set es \<Rightarrow> set es)"

lemma tokens_grant:
  "(\<Union>tok\<in>set (effects_of row). set (widening_syscalls arch (verb_of tok))) = (\<Union>e\<in>declared row. grants arch e)"
  by (cases row) (simp_all add: effects_of_def declared_def pure_grants_nothing verb_of_token)

text \<open>
  C28: the filter of an entry point is exact. It allows a system call exactly when the call
  belongs to the base line of the architecture, or some function with the name of the entry, or of a
  function reachable from it through the calls of the file, declares an effect that grants it;
  and the list is sorted without repetition.
\<close>

theorem allowlist_exact:
  "set (syscall_allowlist_for_arch (transitive_fx program entry) arch) =
     set (baseline_syscalls arch) \<union>
     {nr. \<exists>f e. Item.Fn f \<in> set (pr_items program) \<and> e \<in> declared (ct_fx (fn_contract f)) \<and> nr \<in> grants arch e \<and>
        (fn_name f = entry \<or>
         is_fn_at (from_program program) (fn_name f) \<and> (edge (from_program program))\<^sup>*\<^sup>* entry (fn_name f))} \<and>
   sorted (syscall_allowlist_for_arch (transitive_fx program entry) arch) \<and>
   distinct (syscall_allowlist_for_arch (transitive_fx program entry) arch)"
proof -
  have "(\<Union>tok\<in>fst ` set (transitive_fx program entry). set (widening_syscalls arch (verb_of tok))) =
      (\<Union>f\<in>{f. Item.Fn f \<in> set (pr_items program) \<and> fn_name f \<in> insert entry (reachable_in_file_fns program entry)}.
         \<Union>e\<in>declared (ct_fx (fn_contract f)). grants arch e)"
    unfolding transitive_fx_tokens by (auto simp flip: tokens_grant)
  then show ?thesis
    unfolding allowlist_members reachable_in_file_fns_def reachable_fns_exact by (auto simp: allowlist_sorted)
qed


section \<open>Agreement with the verified core\<close>

text \<open>The bit of an effect in the masks of \<open>io_allow\<close>; platform effects have none.\<close>

fun core_bit :: "Effect \<Rightarrow> nat option" where
  "core_bit (Effect.Read _) = Some 0"
| "core_bit (Effect.Write _) = Some 1"
| "core_bit (Effect.Net _) = Some 2"
| "core_bit Effect.Time = Some 3"
| "core_bit Effect.Rand = Some 4"
| "core_bit Effect.Alloc = Some 5"
| "core_bit Effect.Panic = Some 6"
| "core_bit Effect.Diverge = Some 7"
| "core_bit Effect.Term = Some 8"
| "core_bit (Effect.Platform _) = None"

fun core_mask :: "Effect list \<Rightarrow> u16" where
  "core_mask [] = 0"
| "core_mask (e # es) = core_mask es OR (case core_bit e of Some n \<Rightarrow> push_bit n 1 | None \<Rightarrow> 0)"

lemma core_bit_less: "core_bit e = Some n \<Longrightarrow> n < 9"
  by (cases e) auto

lemma bit_core_mask: "bit (core_mask es) n \<longleftrightarrow> (\<exists>e\<in>set es. core_bit e = Some n)"
proof (induction es)
  case (Cons e es)
  have "bit (push_bit m 1 :: u16) n \<longleftrightarrow> n = m" if "m < 9" for m
    using that unfolding bit_push_bit_iff bit_1_iff by auto
  then show ?case
    using Cons core_bit_less [of e] by (auto simp: bit_or_iff split: option.splits)
qed simp

definition row_tokens :: "Effect list \<Rightarrow> string btset" where
  "row_tokens es = bts_insert_all (effects_of (Set es)) []"

lemma row_allowlist: "nr \<in> set (syscall_allowlist (row_tokens es)) \<longleftrightarrow> nr \<in> set BASELINE_SYSCALLS \<or> (\<exists>e\<in>set es. nr \<in> grants X86_64 e)"
  using tokens_grant [of X86_64 "Set es"]
  by (auto simp: syscall_allowlist_def allowlist_members row_tokens_def bts_insert_all_keys declared_def)

lemma sensitive_grants:
  "257 \<in> grants X86_64 e \<longleftrightarrow> core_bit e \<in> {Some 0, Some 1}"
  "41 \<in> grants X86_64 e \<longleftrightarrow> core_bit e = Some 2"
  "42 \<in> grants X86_64 e \<longleftrightarrow> core_bit e = Some 2"
  "318 \<in> grants X86_64 e \<longleftrightarrow> core_bit e = Some 4"
  "228 \<in> grants X86_64 e \<longleftrightarrow> core_bit e = Some 3"
  by (cases e; simp add: widening_syscalls_def READ_SYSCALLS_def WRITE_SYSCALLS_def NET_SYSCALLS_def
      TIME_SYSCALLS_def RAND_SYSCALLS_def TERM_SYSCALLS_def)+

text \<open>
  C29: on the five sensitive system calls (opening files, sockets, connections, random numbers
  and the clock) the table-driven allow-list and the bit set computed by the verified core
  agree, for every list of effects.
\<close>

theorem allowlist_matches_core:
  "(257 \<in> set (syscall_allowlist (row_tokens es)) \<longleftrightarrow> io_allow (core_mask es) AND SYS_OPENAT \<noteq> 0) \<and>
   (41 \<in> set (syscall_allowlist (row_tokens es)) \<longleftrightarrow> io_allow (core_mask es) AND SYS_SOCKET \<noteq> 0) \<and>
   (42 \<in> set (syscall_allowlist (row_tokens es)) \<longleftrightarrow> io_allow (core_mask es) AND SYS_CONNECT \<noteq> 0) \<and>
   (318 \<in> set (syscall_allowlist (row_tokens es)) \<longleftrightarrow> io_allow (core_mask es) AND SYS_GETRANDOM \<noteq> 0) \<and>
   (228 \<in> set (syscall_allowlist (row_tokens es)) \<longleftrightarrow> io_allow (core_mask es) AND SYS_CLOCK_GETTIME \<noteq> 0)"
proof -
  have bits: "bit (io_allow (core_mask es)) k \<longleftrightarrow> (\<exists>e\<in>set es. \<exists>n. core_bit e = Some n \<and> bit (widen n) k)" for k
    using core_bit_less by (auto simp: io_allow_bit bit_core_mask FX_ATOM_COUNT_def)
  have base: "257 \<notin> set BASELINE_SYSCALLS" "41 \<notin> set BASELINE_SYSCALLS" "42 \<notin> set BASELINE_SYSCALLS"
      "318 \<notin> set BASELINE_SYSCALLS" "228 \<notin> set BASELINE_SYSCALLS"
    by (simp_all add: BASELINE_SYSCALLS_def)
  show ?thesis
    unfolding row_allowlist sensitive_grants SYS_OPENAT_def SYS_SOCKET_def SYS_CONNECT_def SYS_GETRANDOM_def
      SYS_CLOCK_GETTIME_def test_bit_mask bits bit_widen
    using base by auto
qed

end
