(* ===== verification/Syntax_Lexer.thy ===== *)
theory Syntax_Lexer
  imports Syntax_Ast
begin

text \<open>
  The scanner of \<open>thermite-syntax/src/lexer.rs\<close>, on the bytes of the source text: trivia,
  words and keywords, integer literals in three radices, character and string literals with their
  escapes, holes, and punctuation by longest match. A diagnostic does not stop the scan. Slicing
  the source inside a UTF-8 character is a panic in Rust, so the scan answers \<open>None\<close> there. The
  lemmas show that every round moves forward (so the scan ends), that tokens lie inside the source
  in order and without overlap and spell the text they cover, that a source of ASCII bytes is
  never a panic, and the shortest source that is one.
\<close>

type_synonym u128 = "128 word"

section \<open>Spans and tokens\<close>

definition Span_end :: "Span \<Rightarrow> nat" where
  "Span_end s = sp_start s + sp_len s"

definition Span_to :: "Span \<Rightarrow> Span \<Rightarrow> Span" where
  "Span_to s t =
     (let start = min (sp_start s) (sp_start t); e = max (Span_end s) (Span_end t)
      in \<lparr>sp_start = start, sp_len = e - start\<rparr>)"

datatype (plugins only: size) TokKind =
    Fn | Spec | Req | Ens | Fx | Inv | Dec | Pure | Let | Mut | Return | Break | Continue | If | Else
  | Loop | While | Match | As | Struct | Enum | Is | Forall | Exists
  | Ident string | Int u128 string | Bool bool | Str string
  | HashBracket | Hash
  | Arrow | FatArrow | EqEq | Ne | Le | Ge | AndAnd | OrOr | ColonCol | DotDot | Shl | Shr
  | LBrace | RBrace | LParen | RParen | LBracket | RBracket | Comma | Semi | Colon | Dot | Eq
  | Lt | Gt | Plus | Minus | Star | Slash | Percent | Caret | Amp | Pipe | Bang | At
  | Hole u32 bool
  | Eof

record Token =
  tok_kind :: TokKind
  tok_span :: Span

datatype (plugins only: code size) SyntaxError =
    StrayChar string Span
  | UnterminatedString Span
  | Unexpected string string Span
  | MissingClause string string Span
  | ClauseOrder string string Span
  | UnexpectedEof string Span
  | ExpressionTooDeep nat Span
  | BreakContinueOutsideLoop string Span
  | HoleOutsideFnBody u32 Span
  | ProofHoleOutsideProofBlock u32 Span
  | BodyHoleInProofBlock u32 Span
  | BvTagWithoutShadowPlumbing Span
  | BvTagOnPrecondition Span
  | BvWidthInvalid string Span

fun error_span :: "SyntaxError \<Rightarrow> Span" where
  "error_span (StrayChar _ s) = s"
| "error_span (UnterminatedString s) = s"
| "error_span (Unexpected _ _ s) = s"
| "error_span (MissingClause _ _ s) = s"
| "error_span (ClauseOrder _ _ s) = s"
| "error_span (UnexpectedEof _ s) = s"
| "error_span (ExpressionTooDeep _ s) = s"
| "error_span (BreakContinueOutsideLoop _ s) = s"
| "error_span (HoleOutsideFnBody _ s) = s"
| "error_span (ProofHoleOutsideProofBlock _ s) = s"
| "error_span (BodyHoleInProofBlock _ s) = s"
| "error_span (BvTagWithoutShadowPlumbing s) = s"
| "error_span (BvTagOnPrecondition s) = s"
| "error_span (BvWidthInvalid _ s) = s"

definition keyword_kind :: "string \<Rightarrow> TokKind option" where
  "keyword_kind word = map_of
     [(''fn'', Fn), (''spec'', Spec), (''req'', Req), (''ens'', Ens), (''fx'', Fx), (''inv'', Inv),
      (''dec'', Dec), (''pure'', Pure), (''let'', Let), (''mut'', Mut), (''return'', Return),
      (''break'', Break), (''continue'', Continue), (''if'', If), (''else'', Else),
      (''loop'', Loop), (''while'', While), (''match'', Match), (''as'', As),
      (''struct'', Struct), (''enum'', Enum), (''is'', Is), (''forall'', Forall),
      (''exists'', Exists), (''true'', Bool True), (''false'', Bool False)] word"


section \<open>Bytes and slices\<close>

abbreviation byte :: "char \<Rightarrow> nat" where
  "byte c \<equiv> of_char c"

definition is_ascii_digit :: "char \<Rightarrow> bool" where
  "is_ascii_digit c = (48 \<le> byte c \<and> byte c \<le> 57)"

definition is_ascii_alphabetic :: "char \<Rightarrow> bool" where
  "is_ascii_alphabetic c = (65 \<le> byte c \<and> byte c \<le> 90 \<or> 97 \<le> byte c \<and> byte c \<le> 122)"

definition slice :: "string \<Rightarrow> nat \<Rightarrow> nat \<Rightarrow> string" where
  "slice bs a b = take (b - a) (drop a bs)"

text \<open>\<open>b as char\<close> reads a byte as the code point of the same number; a \<open>String\<close> stores its UTF-8 form.\<close>

definition byte_as_char :: "char \<Rightarrow> string" where
  "byte_as_char c =
     (if byte c < 128 then [c] else [char_of (192 + byte c div 64), char_of (128 + byte c mod 64)])"

definition bytes_as_chars :: "string \<Rightarrow> string" where
  "bytes_as_chars bs = concat (map byte_as_char bs)"

text \<open>\<open>src[a..b]\<close> panics unless both ends are on character boundaries.\<close>

definition is_char_boundary :: "string \<Rightarrow> nat \<Rightarrow> bool" where
  "is_char_boundary bs i =
     (i = 0 \<or> i = length bs \<or> i < length bs \<and> \<not> (128 \<le> byte (bs ! i) \<and> byte (bs ! i) < 192))"

definition str_slice :: "string \<Rightarrow> nat \<Rightarrow> nat \<Rightarrow> string option" where
  "str_slice bs a b =
     (if a \<le> b \<and> is_char_boundary bs a \<and> is_char_boundary bs b then Some (slice bs a b) else None)"

definition utf8_char_len :: "char \<Rightarrow> nat" where
  "utf8_char_len c =
     (if byte c < 0x80 then 1
      else if byte c div 2 ^ 5 = 6 then 2
      else if byte c div 2 ^ 4 = 14 then 3
      else if byte c div 2 ^ 3 = 30 then 4
      else 1)"

text \<open>\<open>while i < n && p(bytes[i]) { i += 1 }\<close>.\<close>

function scan_while :: "(char \<Rightarrow> bool) \<Rightarrow> string \<Rightarrow> nat \<Rightarrow> nat" where
  "scan_while p bs i = (if i < length bs \<and> p (bs ! i) then scan_while p bs (i + 1) else i)"
  by pat_completeness auto
termination by (relation "measure (\<lambda>(p, bs, i). length bs - i)") auto

declare scan_while.simps [simp del]

lemma scan_while_ge: "i \<le> scan_while p bs i"
  by (induction p bs i rule: scan_while.induct) (subst scan_while.simps, auto)

lemma scan_while_le: "i \<le> length bs \<Longrightarrow> scan_while p bs i \<le> length bs"
  by (induction p bs i rule: scan_while.induct) (subst scan_while.simps, auto)

lemma scan_while_all: "i \<le> k \<Longrightarrow> k < scan_while p bs i \<Longrightarrow> k < length bs \<and> p (bs ! k)"
proof (induction p bs i rule: scan_while.induct)
  case (1 p bs i)
  show ?case
  proof (cases "i < length bs \<and> p (bs ! i)")
    case True
    then have "scan_while p bs i = scan_while p bs (i + 1)" by (subst scan_while.simps) simp
    then show ?thesis using 1 True by (cases "i = k") auto
  next
    case False
    then have "scan_while p bs i = i" by (subst scan_while.simps) auto
    then show ?thesis using 1 by simp
  qed
qed

lemma scan_while_stop:
  "scan_while p bs i < length bs \<Longrightarrow> \<not> p (bs ! scan_while p bs i)"
proof (induction p bs i rule: scan_while.induct)
  case (1 p bs i)
  then show ?case by (cases "i < length bs \<and> p (bs ! i)") (simp_all add: scan_while.simps [of p bs i] split: if_splits)
qed


section \<open>Trivia\<close>

definition is_trivia_byte :: "char \<Rightarrow> bool" where
  "is_trivia_byte c = (c \<in> {CHR '' '', CHR 0x09, CHR 0x0D, CHR 0x0A})"

function skip_trivia :: "string \<Rightarrow> nat \<Rightarrow> nat" where
  "skip_trivia bs i =
     (let j = scan_while is_trivia_byte bs i in
      if j + 1 < length bs \<and> bs ! j = CHR ''/'' \<and> bs ! (j + 1) = CHR ''/''
      then skip_trivia bs (scan_while (\<lambda>c. c \<noteq> CHR 0x0A) bs (j + 2))
      else j)"
  by pat_completeness auto
termination
proof (relation "measure (\<lambda>(bs, i). length bs - i)", goal_cases)
  case (2 bs i j)
  then show ?case
    using scan_while_ge [of i is_trivia_byte bs] scan_while_ge [of "j + 2" "\<lambda>c. c \<noteq> CHR 0x0A" bs]
    by auto
qed simp

declare skip_trivia.simps [simp del]

lemma skip_trivia_ge: "i \<le> skip_trivia bs i"
proof (induction bs i rule: skip_trivia.induct)
  case (1 bs i)
  then show ?case
    using scan_while_ge [of i is_trivia_byte bs]
      scan_while_ge [of "scan_while is_trivia_byte bs i + 2" "\<lambda>c. c \<noteq> CHR 0x0A" bs]
    by (subst skip_trivia.simps) (auto simp: Let_def)
qed

section \<open>Words, integers and holes\<close>

definition is_ident_start :: "char \<Rightarrow> bool" where
  "is_ident_start c = (is_ascii_alphabetic c \<or> c = CHR ''_'')"

definition is_ident_continue :: "char \<Rightarrow> bool" where
  "is_ident_continue c = (is_ascii_alphabetic c \<or> is_ascii_digit c \<or> c = CHR ''_'')"

definition token_at :: "TokKind \<Rightarrow> nat \<Rightarrow> nat \<Rightarrow> Token" where
  "token_at kind i j = \<lparr>tok_kind = kind, tok_span = \<lparr>sp_start = i, sp_len = j - i\<rparr>\<rparr>"

definition lex_word :: "string \<Rightarrow> nat \<Rightarrow> Token \<times> nat" where
  "lex_word bs i =
     (let j = scan_while is_ident_continue bs i; word = slice bs i j
      in (token_at (case keyword_kind word of Some kind \<Rightarrow> kind | None \<Rightarrow> Ident word) i j, j))"

definition radix_digit :: "char \<Rightarrow> nat \<Rightarrow> nat option" where
  "radix_digit c radix =
     (case (if is_ascii_digit c then Some (byte c - 48)
            else if 97 \<le> byte c \<and> byte c \<le> 102 then Some (byte c - 97 + 10)
            else if 65 \<le> byte c \<and> byte c \<le> 70 then Some (byte c - 65 + 10)
            else None) of
        None \<Rightarrow> None
      | Some d \<Rightarrow> if d < radix then Some d else None)"

text \<open>The loop of \<open>lex_int\<close>: the cursor, the value, one past the last digit, and whether a digit was seen.\<close>

function int_loop :: "string \<Rightarrow> nat \<Rightarrow> nat \<Rightarrow> u128 \<Rightarrow> nat \<Rightarrow> bool \<Rightarrow> nat \<times> u128 \<times> nat \<times> bool" where
  "int_loop bs radix j value last_digit saw_digit =
     (if j < length bs then
        (case radix_digit (bs ! j) radix of
           Some d \<Rightarrow> int_loop bs radix (j + 1)
              (saturating_add (saturating_mul value (of_nat radix)) (of_nat d)) (j + 1) True
         | None \<Rightarrow> if bs ! j = CHR ''_'' then int_loop bs radix (j + 1) value last_digit saw_digit
                   else (j, value, last_digit, saw_digit))
      else (j, value, last_digit, saw_digit))"
  by pat_completeness auto
termination by (relation "measure (\<lambda>(bs, radix, j, _). length bs - j)") auto

definition int_prefix :: "string \<Rightarrow> nat \<Rightarrow> nat \<times> nat" where
  "int_prefix bs i =
     (if i + 1 < length bs \<and> bs ! i = CHR ''0'' then
        (if bs ! (i + 1) \<in> {CHR ''x'', CHR ''X''} then (16, i + 2)
         else if bs ! (i + 1) \<in> {CHR ''b'', CHR ''B''} then (2, i + 2)
         else (10, i))
      else (10, i))"

definition lex_int :: "string \<Rightarrow> nat \<Rightarrow> (Token \<times> nat, SyntaxError) result" where
  "lex_int bs i =
     (let (radix, digits_start) = int_prefix bs i;
          (j, value, last_digit, saw_digit) = int_loop bs radix digits_start 0 digits_start False
      in if radix \<noteq> 10 \<and> \<not> saw_digit then
           let bad_end = min (max digits_start j) (length bs)
           in Err (StrayChar (bytes_as_chars (slice bs i bad_end)) \<lparr>sp_start = i, sp_len = bad_end - i\<rparr>)
         else Ok (token_at (TokKind.Int value (bytes_as_chars (slice bs i last_digit))) i last_digit, last_digit))"

function hole_loop :: "string \<Rightarrow> nat \<Rightarrow> u32 \<Rightarrow> bool \<Rightarrow> nat \<times> u32 \<times> bool" where
  "hole_loop bs j value saw_digit =
     (if j < length bs \<and> is_ascii_digit (bs ! j)
      then hole_loop bs (j + 1)
             (saturating_add (saturating_mul value 10) (of_nat (byte (bs ! j) - 48))) True
      else (j, value, saw_digit))"
  by pat_completeness auto
termination by (relation "measure (\<lambda>(bs, j, _). length bs - j)") auto

definition lex_hole :: "string \<Rightarrow> nat \<Rightarrow> (TokKind \<times> nat) option" where
  "lex_hole bs i =
     (let proof = (i + 1 < length bs \<and> bs ! (i + 1) = CHR ''p'');
          (j, value, saw_digit) = hole_loop bs (if proof then i + 2 else i + 1) 0 False
      in if \<not> saw_digit then None else Some (Hole value proof, j - i))"

declare int_loop.simps [simp del] hole_loop.simps [simp del]


section \<open>Character and string literals\<close>

definition hex_digit :: "char \<Rightarrow> nat option" where
  "hex_digit c =
     (if is_ascii_digit c then Some (byte c - 48)
      else if 97 \<le> byte c \<and> byte c \<le> 102 then Some (byte c - 97 + 10)
      else if 65 \<le> byte c \<and> byte c \<le> 70 then Some (byte c - 65 + 10)
      else None)"

definition parse_hex_escape :: "string \<Rightarrow> nat \<Rightarrow> nat option" where
  "parse_hex_escape bs at =
     (if at + 1 \<ge> length bs then None
      else case hex_digit (bs ! at) of None \<Rightarrow> None | Some hi \<Rightarrow>
           case hex_digit (bs ! (at + 1)) of None \<Rightarrow> None | Some lo \<Rightarrow> Some (hi * 16 + lo))"

text \<open>The bounded window of \<open>resume_past_char\<close> is the prefix of the source of length \<open>limit\<close>.\<close>

definition resume_past_char :: "string \<Rightarrow> nat \<Rightarrow> nat" where
  "resume_past_char bs from =
     (let limit = min (from + 4) (length bs);
          k = scan_while (\<lambda>c. c \<noteq> CHR 0x27) (take limit bs) from
      in if k < limit then k + 1 else from)"

type_synonym lexed = "(Token \<times> nat, SyntaxError \<times> nat) result"

definition stray :: "string \<Rightarrow> nat \<Rightarrow> nat \<Rightarrow> nat \<Rightarrow> lexed" where
  "stray bs i bad_end recover_to =
     Err (StrayChar (bytes_as_chars (slice bs i bad_end)) \<lparr>sp_start = i, sp_len = bad_end - i\<rparr>, recover_to)"

definition char_escape :: "char \<Rightarrow> nat option" where
  "char_escape esc = map_of
     [(CHR ''n'', 10), (CHR ''t'', 9), (CHR ''r'', 13), (CHR ''0'', 0),
      (CHR 0x5C, 92), (CHR 0x27, 39)] esc"

text \<open>The byte of the literal and the index after its content.\<close>

definition char_content :: "string \<Rightarrow> nat \<Rightarrow> (nat \<times> nat, SyntaxError \<times> nat) result" where
  "char_content bs i =
     (let n = length bs;
          fail = (\<lambda>bad_end recover_to. Err (StrayChar (bytes_as_chars (slice bs i bad_end))
                    \<lparr>sp_start = i, sp_len = bad_end - i\<rparr>, recover_to))
      in if i + 1 \<ge> n then fail n n
      else if bs ! (i + 1) = CHR 0x5C then
        (if i + 2 \<ge> n then fail n n
         else case char_escape (bs ! (i + 2)) of
             Some b \<Rightarrow> Ok (b, i + 3)
           | None \<Rightarrow>
               if bs ! (i + 2) = CHR ''x'' then
                 (let bad_end = min (i + 5) n in
                  case parse_hex_escape bs (i + 3) of
                    Some b \<Rightarrow> if b < 0x80 then Ok (b, i + 5)
                              else fail bad_end (resume_past_char bs bad_end)
                  | None \<Rightarrow> fail bad_end (resume_past_char bs bad_end))
               else let bad_end = min (i + 3) n in fail bad_end (resume_past_char bs bad_end))
      else if byte (bs ! (i + 1)) \<ge> 0x80 then
        (let bad_end = resume_past_char bs (i + 1) in fail bad_end bad_end)
      else if bs ! (i + 1) = CHR 0x27 then fail (i + 2) (i + 2)
      else Ok (byte (bs ! (i + 1)), i + 2))"

definition lex_char :: "string \<Rightarrow> nat \<Rightarrow> lexed" where
  "lex_char bs i =
     (case char_content bs i of Err e \<Rightarrow> Err e
      | Ok (b, content_end) \<Rightarrow>
          if content_end < length bs \<and> bs ! content_end = CHR 0x27
          then Ok (token_at (TokKind.Int (of_nat b) (bytes_as_chars (slice bs i (content_end + 1)))) i (content_end + 1),
                   content_end + 1)
          else let bad_end = resume_past_char bs content_end in stray bs i bad_end bad_end)"

function resume_past_string :: "string \<Rightarrow> nat \<Rightarrow> nat" where
  "resume_past_string bs k =
     (if k < length bs then
        (if bs ! k = CHR 0x5C \<and> k + 1 < length bs then resume_past_string bs (k + 2)
         else if bs ! k = CHR 0x22 then k + 1
         else resume_past_string bs (k + 1))
      else length bs)"
  by pat_completeness auto
termination by (relation "measure (\<lambda>(bs, k). length bs - k)") auto

definition string_escape :: "char \<Rightarrow> char option" where
  "string_escape esc = map_of
     [(CHR ''n'', CHR 0x0A), (CHR ''t'', CHR 0x09), (CHR ''r'', CHR 0x0D), (CHR ''0'', CHR 0x00),
      (CHR 0x22, CHR 0x22), (CHR 0x5C, CHR 0x5C)] esc"

text \<open>
  The loop of \<open>lex_string\<close>. A raw byte above ASCII is reported with the whole character it starts,
  which is valid UTF-8, so the lossy conversion of its bytes is the identity.
\<close>

function string_loop :: "string \<Rightarrow> nat \<Rightarrow> nat \<Rightarrow> string \<Rightarrow> lexed" where
  "string_loop bs i j content =
     (let n = length bs in
      if j < n then
        (let c = bs ! j in
         if c = CHR 0x22 then Ok (token_at (Str content) i (j + 1), j + 1)
         else if c = CHR 0x5C \<and> j + 1 < n then
           (case string_escape (bs ! (j + 1)) of
              Some ch \<Rightarrow> string_loop bs i (j + 2) (content @ [ch])
            | None \<Rightarrow>
                if bs ! (j + 1) = CHR ''x'' then
                  (let bad_end = min (j + 4) n in
                   case parse_hex_escape bs (j + 2) of
                     Some b \<Rightarrow> if b < 0x80 then string_loop bs i (j + 4) (content @ [char_of b])
                               else stray bs j bad_end (resume_past_string bs bad_end)
                   | None \<Rightarrow> stray bs j bad_end (resume_past_string bs bad_end))
                else stray bs j (min (j + 2) n) (resume_past_string bs (j + 2)))
         else if byte c \<ge> 0x80 then
           (let bad_end = min (j + utf8_char_len c) n
            in Err (StrayChar (slice bs j bad_end) \<lparr>sp_start = j, sp_len = bad_end - j\<rparr>,
                    resume_past_string bs bad_end))
         else string_loop bs i (j + 1) (content @ [c]))
      else Err (UnterminatedString \<lparr>sp_start = i, sp_len = n - i\<rparr>, n))"
  by pat_completeness auto
termination by (relation "measure (\<lambda>(bs, i, j, content). length bs - j)") auto

declare resume_past_string.simps [simp del] string_loop.simps [simp del]

definition lex_string :: "string \<Rightarrow> nat \<Rightarrow> lexed" where
  "lex_string bs i = string_loop bs i (i + 1) []"


section \<open>Punctuation\<close>

definition punct_two :: "char \<Rightarrow> char \<Rightarrow> TokKind option" where
  "punct_two c d = map_of
     [(''->'', Arrow), (''=>'', FatArrow), (''=='', EqEq), (''!='', Ne), (''<='', Le), (''>='', Ge),
      (''&&'', AndAnd), (''||'', OrOr), (''::'', ColonCol), (''..'', DotDot), (''<<'', Shl),
      (''>>'', Shr)] [c, d]"

definition punct_one :: "char \<Rightarrow> TokKind option" where
  "punct_one c = map_of
     [(CHR ''{'', LBrace), (CHR ''}'', RBrace), (CHR ''('', LParen), (CHR '')'', RParen),
      (CHR ''['', LBracket), (CHR '']'', RBracket), (CHR '','', Comma), (CHR '';'', Semi),
      (CHR '':'', Colon), (CHR ''.'', Dot), (CHR ''='', Eq), (CHR ''<'', Lt), (CHR ''>'', Gt),
      (CHR ''+'', Plus), (CHR ''-'', Minus), (CHR ''*'', Star), (CHR ''/'', Slash),
      (CHR ''%'', Percent), (CHR ''^'', Caret), (CHR ''&'', Amp), (CHR ''|'', Pipe),
      (CHR ''!'', Bang), (CHR ''@'', At)] c"

definition lex_punct :: "string \<Rightarrow> nat \<Rightarrow> (TokKind \<times> nat) option" where
  "lex_punct bs i =
     (case (if i + 1 < length bs then punct_two (bs ! i) (bs ! (i + 1)) else None) of
        Some kind \<Rightarrow> Some (kind, 2)
      | None \<Rightarrow> map_option (\<lambda>kind. (kind, 1)) (punct_one (bs ! i)))"


section \<open>The scan\<close>

text \<open>
  One round of the loop, after the trivia: a token or a diagnostic, and where the next round
  starts. \<open>None\<close> is the panic of a slice inside a character.
\<close>

datatype lexeme = Tok Token | Diag SyntaxError

definition of_lexed :: "lexed \<Rightarrow> lexeme \<times> nat" where
  "of_lexed r = (case r of Ok (t, next) \<Rightarrow> (Tok t, next) | Err (e, recover_to) \<Rightarrow> (Diag e, recover_to))"

definition lex_one :: "string \<Rightarrow> nat \<Rightarrow> (lexeme \<times> nat) option" where
  "lex_one src i =
     (let n = length src; c = src ! i in
      if c = CHR ''#'' \<and> i + 1 < n \<and> src ! (i + 1) = CHR ''['' then
        Some (Tok (token_at HashBracket i (i + 2)), i + 2)
      else if c = CHR ''#'' then Some (Tok (token_at Hash i (i + 1)), i + 1)
      else if c = CHR 0x22 then Some (of_lexed (lex_string src i))
      else if is_ascii_digit c then
        (case lex_int src i of
           Ok (t, next) \<Rightarrow> Some (Tok t, next)
         | Err e \<Rightarrow> Some (Diag e, min (max (Span_end (error_span e)) (i + 1)) n))
      else if c = CHR 0x27 then Some (of_lexed (lex_char src i))
      else if c = CHR ''?'' then
        (case lex_hole src i of
           Some (kind, len) \<Rightarrow> Some (Tok (token_at kind i (i + len)), i + len)
         | None \<Rightarrow>
             map_option (\<lambda>ch. (Diag (StrayChar ch \<lparr>sp_start = i, sp_len = 1\<rparr>), i + 1))
               (str_slice src i (min (i + 1) n)))
      else if is_ident_start c then
        (let (t, next) = lex_word src i in Some (Tok t, next))
      else case lex_punct src i of
          Some (kind, len) \<Rightarrow> Some (Tok (token_at kind i (i + len)), i + len)
        | None \<Rightarrow>
            let ch_len = utf8_char_len c in
            map_option (\<lambda>ch. (Diag (StrayChar ch \<lparr>sp_start = i, sp_len = ch_len\<rparr>), i + ch_len))
              (str_slice src i (min (i + ch_len) n)))"

section \<open>Progress\<close>

lemma scan_while_bounds: "i \<le> length bs \<Longrightarrow> i \<le> scan_while p bs i \<and> scan_while p bs i \<le> length bs"
  by (simp add: scan_while_ge scan_while_le)

lemma resume_past_char_ge: "from \<le> resume_past_char bs from"
  using scan_while_ge [of "from" "\<lambda>c. c \<noteq> CHR 0x27" "take (min (from + 4) (length bs)) bs"]
  by (auto simp: resume_past_char_def Let_def)

lemma resume_past_string_bounds:
  "k \<le> length bs \<Longrightarrow> k \<le> resume_past_string bs k \<and> resume_past_string bs k \<le> length bs"
proof (induction bs k rule: resume_past_string.induct)
  case (1 bs k)
  then show ?case by (subst (1 2) resume_past_string.simps) (auto split: if_splits)
qed

lemma parse_hex_escape_bound: "parse_hex_escape bs at = Some b \<Longrightarrow> at + 1 < length bs"
  by (auto simp: parse_hex_escape_def split: if_splits)

lemma utf8_char_len_pos: "0 < utf8_char_len c"
  by (simp add: utf8_char_len_def)

lemma char_content_Ok: "char_content bs i = Ok (b, e) \<Longrightarrow> i + 1 < e"
  by (auto simp: char_content_def Let_def split: if_splits option.splits)

lemma char_content_Err: "char_content bs i = Err (e, k) \<Longrightarrow> i < length bs \<Longrightarrow> i < k"
  using resume_past_char_ge [of "min (i + 3) (length bs)" bs] resume_past_char_ge [of "min (i + 5) (length bs)" bs]
    resume_past_char_ge [of "i + 1" bs]
  by (auto simp: char_content_def Let_def split: if_splits option.splits)

lemma lex_char_progress:
  assumes "of_lexed (lex_char bs i) = (l, k)" "i < length bs"
  shows "i < k"
proof (cases "char_content bs i")
  case (Ok c)
  obtain b e where c: "c = (b, e)" by (cases c)
  then have "i < e" using char_content_Ok Ok by fastforce
  moreover have "i < resume_past_char bs e" using resume_past_char_ge [of e bs] \<open>i < e\<close> by simp
  ultimately show ?thesis
    using assms Ok c by (auto simp: lex_char_def of_lexed_def stray_def Let_def split: if_splits)
next
  case (Err c)
  then show ?thesis
    using assms char_content_Err by (cases c) (auto simp: lex_char_def of_lexed_def)
qed

lemma string_loop_progress:
  "of_lexed (string_loop bs i j content) = (l, k) \<Longrightarrow> i < j \<Longrightarrow> i < length bs \<Longrightarrow> i < k"
proof (induction "length bs - j" arbitrary: j content rule: less_induct)
  case less
  have resume: "i < resume_past_string bs m" if "i < m" "m \<le> length bs" for m
    using resume_past_string_bounds [OF that(2)] that(1) by simp
  have IH: "i < k" if "of_lexed (string_loop bs i j' content') = (l, k)" "j < j'" "j < length bs" for j' content'
    using less.hyps [OF _ that(1)] that(2,3) less.prems by simp
  show ?case
    using less.prems(1) [unfolded string_loop.simps [of bs i j content]] less.prems(2,3)
    by (auto simp: Let_def of_lexed_def stray_def utf8_char_len_pos
        intro: resume IH [unfolded of_lexed_def] split: if_splits option.splits)
qed

text \<open>The value of a digit run, underscores skipped, before it saturates.\<close>

definition digits_from :: "nat \<Rightarrow> nat \<Rightarrow> string \<Rightarrow> nat" where
  "digits_from radix = foldl (\<lambda>a c. case radix_digit c radix of Some d \<Rightarrow> a * radix + d | None \<Rightarrow> a)"

lemma digits_from_append [simp]: "digits_from r a (s @ t) = digits_from r (digits_from r a s) t"
  by (simp add: digits_from_def)

lemma digits_from_underscores: "radix_digit CHR ''_'' r = None"
  by (simp add: radix_digit_def is_ascii_digit_def)

lemma slice_extend: "i \<le> j \<Longrightarrow> j < length bs \<Longrightarrow> slice bs i (Suc j) = slice bs i j @ [bs ! j]"
  by (simp add: slice_def Suc_diff_le take_Suc_conv_app_nth)

lemma slice_append:
  assumes "i \<le> j" "j \<le> k"
  shows "slice bs i k = slice bs i j @ slice bs j k"
proof -
  have "take (k - i) (drop i bs) = take ((j - i) + (k - j)) (drop i bs)" using assms by simp
  also have "\<dots> = take (j - i) (drop i bs) @ take (k - j) (drop j bs)"
    using assms(1) by (simp only: take_add drop_drop) simp
  finally show ?thesis by (simp add: slice_def)
qed

lemma slice_empty [simp]: "slice bs i i = []"
  by (simp add: slice_def)

lemma length_slice [simp]: "j \<le> length bs \<Longrightarrow> length (slice bs i j) = j - i"
  by (simp add: slice_def)

lemma nth_slice: "k < j - i \<Longrightarrow> j \<le> length bs \<Longrightarrow> slice bs i j ! k = bs ! (i + k)"
  by (simp add: slice_def)

lemma slice_all:
  assumes "\<And>k. i \<le> k \<Longrightarrow> k < j \<Longrightarrow> P (bs ! k)" "j \<le> length bs" "c \<in> set (slice bs i j)"
  shows "P c"
proof -
  obtain k where "k < j - i" "c = slice bs i j ! k" using assms(2,3) by (auto simp: in_set_conv_nth)
  then show ?thesis using assms(1) [of "i + k"] assms(2) by (simp add: nth_slice)
qed

definition run_ok :: "nat \<Rightarrow> char \<Rightarrow> bool" where
  "run_ok radix c = (radix_digit c radix \<noteq> None \<or> c = CHR ''_'')"

lemma radix_digit_less: "radix_digit c r = Some d \<Longrightarrow> d < r"
  by (auto simp: radix_digit_def split: option.splits if_splits)

lemma min_digit: "0 < r \<Longrightarrow> min (min (min x m * r) m + d) m = min (x * r + d) m" for x m r d :: nat
proof (cases "x \<le> m")
  case True
  then show ?thesis by (auto simp: min_def)
next
  case False
  assume "0 < r"
  then have "m \<le> m * r" "m < x * r" using False less_le_trans [of m x "x * r"] by simp_all
  then have "min (x * r + d) m = m" "min (m * r) m = m" by simp_all
  then show ?thesis using False by (simp add: min_def)
qed

lemma saturating_digit:
  assumes "unat (v :: 'a::len word) = min x (2 ^ LENGTH('a) - 1)" "d < r" "r < 2 ^ LENGTH('a)"
  shows "unat (saturating_add (saturating_mul v (of_nat r)) (of_nat d)) = min (x * r + d) (2 ^ LENGTH('a) - 1)"
proof -
  have "unat (of_nat r :: 'a word) = r" "unat (of_nat d :: 'a word) = d"
    using assms(2,3) by (simp_all add: unat_of_nat take_bit_nat_eq_self)
  then show ?thesis
    using min_digit [of r x "2 ^ LENGTH('a) - 1" d] assms(2)
    by (simp add: saturating_add_unat saturating_mul_unat assms(1))
qed

definition int_inv :: "string \<Rightarrow> nat \<Rightarrow> nat \<Rightarrow> nat \<times> u128 \<times> nat \<times> bool \<Rightarrow> bool" where
  "int_inv bs r s = (\<lambda>(j, v, last_digit, saw).
     s \<le> last_digit \<and> last_digit \<le> j \<and> j \<le> length bs \<and> (saw \<longleftrightarrow> s < last_digit) \<and>
     (\<forall>k. s \<le> k \<and> k < j \<longrightarrow> run_ok r (bs ! k)) \<and>
     (\<forall>k. last_digit \<le> k \<and> k < j \<longrightarrow> bs ! k = CHR ''_'') \<and>
     (saw \<longrightarrow> radix_digit (bs ! (last_digit - 1)) r \<noteq> None) \<and>
     unat v = min (digits_from r 0 (slice bs s j)) (2 ^ 128 - 1))"

lemma int_inv_digit:
  assumes "int_inv bs r s (j, v, l, saw)" "j < length bs" "radix_digit (bs ! j) r = Some d" "r \<le> 16"
  shows "int_inv bs r s (j + 1, saturating_add (saturating_mul v (of_nat r)) (of_nat d), j + 1, True)"
proof -
  have "unat (saturating_add (saturating_mul v (of_nat r)) (of_nat d))
      = min (digits_from r 0 (slice bs s j) * r + d) (2 ^ 128 - 1)"
    using saturating_digit [of v "digits_from r 0 (slice bs s j)" d r] assms radix_digit_less [OF assms(3)]
    by (simp add: int_inv_def)
  moreover have "digits_from r 0 (slice bs s (j + 1)) = digits_from r 0 (slice bs s j) * r + d"
    using assms by (simp add: int_inv_def slice_extend digits_from_def)
  ultimately show ?thesis
    using assms(1-3) unfolding int_inv_def run_ok_def by (auto simp: less_Suc_eq)
qed

lemma int_inv_underscore:
  assumes "int_inv bs r s (j, v, l, saw)" "j < length bs" "bs ! j = CHR ''_''"
  shows "int_inv bs r s (j + 1, v, l, saw)"
proof -
  have "digits_from r 0 (slice bs s (j + 1)) = digits_from r 0 (slice bs s j)"
    using assms by (simp add: int_inv_def slice_extend digits_from_def digits_from_underscores)
  then show ?thesis using assms unfolding int_inv_def run_ok_def by (auto simp: less_Suc_eq)
qed

lemma int_loop_inv:
  assumes "r \<le> 16"
  shows "int_inv bs r s (j, v, l, saw) \<Longrightarrow> int_inv bs r s (int_loop bs r j v l saw)"
proof (induction "length bs - j" arbitrary: j v l saw rule: less_induct)
  case less
  show ?case
  proof (cases "j < length bs")
    case True
    then show ?thesis
      using less int_inv_digit [OF less.prems True _ assms] int_inv_underscore [OF less.prems True]
      by (subst int_loop.simps) (simp split: option.split)
  next
    case False
    then show ?thesis using less.prems by (subst int_loop.simps) simp
  qed
qed

lemma int_inv_start: "s \<le> length bs \<Longrightarrow> int_inv bs r s (s, 0, s, False)"
  by (auto simp: int_inv_def digits_from_def)

section \<open>What a token spells\<close>

inductive char_body :: "string \<Rightarrow> nat \<Rightarrow> bool" where
  plain: "byte c < 128 \<Longrightarrow> c \<noteq> CHR 0x27 \<Longrightarrow> c \<noteq> CHR 0x5C \<Longrightarrow> char_body [c] (byte c)"
| escape: "char_escape e = Some b \<Longrightarrow> char_body [CHR 0x5C, e] b"
| hex: "hex_digit h = Some x \<Longrightarrow> hex_digit l = Some y \<Longrightarrow> x * 16 + y < 128 \<Longrightarrow>
    char_body [CHR 0x5C, CHR ''x'', h, l] (x * 16 + y)"

inductive string_body :: "string \<Rightarrow> string \<Rightarrow> bool" where
  empty: "string_body [] []"
| plain: "string_body s t \<Longrightarrow> byte c < 128 \<Longrightarrow> c \<noteq> CHR 0x22 \<Longrightarrow> c \<noteq> CHR 0x5C \<Longrightarrow>
    string_body (s @ [c]) (t @ [c])"
| escape: "string_body s t \<Longrightarrow> string_escape e = Some c \<Longrightarrow> string_body (s @ [CHR 0x5C, e]) (t @ [c])"
| hex: "string_body s t \<Longrightarrow> hex_digit h = Some x \<Longrightarrow> hex_digit l = Some y \<Longrightarrow> x * 16 + y < 128 \<Longrightarrow>
    string_body (s @ [CHR 0x5C, CHR ''x'', h, l]) (t @ [char_of (x * 16 + y)])"

definition radix_prefix :: "(nat \<times> string) set" where
  "radix_prefix = {(10, ''''), (16, ''0x''), (16, ''0X''), (2, ''0b''), (2, ''0B'')}"

inductive spells :: "TokKind \<Rightarrow> string \<Rightarrow> bool" where
  keyword: "keyword_kind w = Some k \<Longrightarrow> spells k w"
| ident: "keyword_kind w = None \<Longrightarrow> w \<noteq> [] \<Longrightarrow> is_ident_start (hd w) \<Longrightarrow> list_all is_ident_continue w \<Longrightarrow>
    spells (Ident w) w"
| number: "(radix, pre) \<in> radix_prefix \<Longrightarrow> ds \<noteq> [] \<Longrightarrow> list_all (run_ok radix) ds \<Longrightarrow>
    radix_digit (last ds) radix \<noteq> None \<Longrightarrow> unat v = min (digits_from radix 0 ds) (2 ^ 128 - 1) \<Longrightarrow>
    spells (TokKind.Int v (pre @ ds)) (pre @ ds)"
| character: "char_body s b \<Longrightarrow> text = [CHR 0x27] @ s @ [CHR 0x27] \<Longrightarrow> spells (TokKind.Int (of_nat b) text) text"
| string_literal: "string_body s t \<Longrightarrow> spells (Str t) ([CHR 0x22] @ s @ [CHR 0x22])"
| hole: "ds \<noteq> [] \<Longrightarrow> list_all is_ascii_digit ds \<Longrightarrow> unat v = min (digits_from 10 0 ds) (2 ^ 32 - 1) \<Longrightarrow>
    spells (Hole v p) ([CHR ''?''] @ (if p then ''p'' else '''') @ ds)"
| punct2: "punct_two c d = Some k \<Longrightarrow> spells k [c, d]"
| punct1: "punct_one c = Some k \<Longrightarrow> spells k [c]"
| hash_bracket: "spells HashBracket ''#[''"
| hash: "spells Hash ''#''"

definition token_ok :: "string \<Rightarrow> nat \<Rightarrow> Token \<Rightarrow> nat \<Rightarrow> bool" where
  "token_ok bs i t next \<longleftrightarrow> i < next \<and> next \<le> length bs \<and>
     tok_span t = \<lparr>sp_start = i, sp_len = next - i\<rparr> \<and> spells (tok_kind t) (slice bs i next)"

fun lexeme_ok :: "string \<Rightarrow> nat \<Rightarrow> lexeme \<times> nat \<Rightarrow> bool" where
  "lexeme_ok bs i (Tok t, next) = token_ok bs i t next"
| "lexeme_ok bs i (Diag e, next) = (i < next)"

lemma token_okI:
  "i < j \<Longrightarrow> j \<le> length bs \<Longrightarrow> spells k (slice bs i j) \<Longrightarrow> token_ok bs i (token_at k i j) j"
  by (simp add: token_ok_def token_at_def)

lemma bytes_as_chars_ascii: "(\<And>c. c \<in> set s \<Longrightarrow> byte c < 128) \<Longrightarrow> bytes_as_chars s = s"
  by (induction s) (auto simp: bytes_as_chars_def byte_as_char_def)

lemma slice_Cons: "i < j \<Longrightarrow> j \<le> length bs \<Longrightarrow> slice bs i j = bs ! i # slice bs (Suc i) j"
  using slice_append [of i "Suc i" j bs] slice_extend [of i i bs] by simp

lemma slice_one: "i < length bs \<Longrightarrow> slice bs i (Suc i) = [bs ! i]"
  by (simp add: slice_extend)

lemma slice_two: "Suc i < length bs \<Longrightarrow> slice bs i (i + 2) = [bs ! i, bs ! Suc i]"
  by (simp add: slice_Cons)

lemma hd_slice: "i < j \<Longrightarrow> j \<le> length bs \<Longrightarrow> hd (slice bs i j) = bs ! i"
  by (simp add: slice_Cons)

lemma last_slice: "i < j \<Longrightarrow> j \<le> length bs \<Longrightarrow> last (slice bs i j) = bs ! (j - 1)"
  by (cases j) (simp_all add: slice_extend)

lemma lex_word_ok:
  assumes "i < length bs" "is_ident_start (bs ! i)"
  shows "case lex_word bs i of (t, next) \<Rightarrow> token_ok bs i t next"
proof -
  let ?j = "scan_while is_ident_continue bs i"
  let ?w = "slice bs i ?j"
  have "is_ident_continue (bs ! i)" using assms(2) by (auto simp: is_ident_start_def is_ident_continue_def)
  then have j: "i < ?j" "?j \<le> length bs"
    using assms(1) scan_while_ge [of "i + 1" is_ident_continue bs] scan_while_le [of i bs is_ident_continue]
    by (simp_all add: scan_while.simps [of is_ident_continue bs i])
  have all: "list_all is_ident_continue ?w"
    unfolding list_all_iff using slice_all [of i ?j is_ident_continue bs] scan_while_all j by blast
  have "spells (case keyword_kind ?w of Some kind \<Rightarrow> kind | None \<Rightarrow> Ident ?w) ?w"
  proof (cases "keyword_kind ?w")
    case None
    have "?w \<noteq> []" using j by (simp add: slice_Cons)
    then show ?thesis using None all j assms(2) by (simp add: spells.ident hd_slice)
  qed (simp add: spells.keyword)
  then show ?thesis using j by (simp add: lex_word_def Let_def token_okI)
qed

lemma run_ok_ascii: "run_ok r c \<Longrightarrow> byte c < 128"
  by (auto simp: run_ok_def radix_digit_def is_ascii_digit_def split: if_splits)

lemma radix_prefix_ascii: "(r, p) \<in> radix_prefix \<Longrightarrow> c \<in> set p \<Longrightarrow> byte c < 128"
  by (auto simp: radix_prefix_def)

lemma int_prefix_ok:
  assumes "i < length bs" "int_prefix bs i = (radix, s)"
  shows "(radix, slice bs i s) \<in> radix_prefix \<and> i \<le> s \<and> s \<le> length bs \<and> radix \<le> 16 \<and>
    (radix = 10 \<longrightarrow> s = i)"
  using assms by (auto simp: int_prefix_def radix_prefix_def slice_Cons split: if_splits)

lemma int_inv_underscore_free:
  assumes "int_inv bs r s (j, v, l, True)"
  shows "unat v = min (digits_from r 0 (slice bs s l)) (2 ^ 128 - 1)"
proof -
  have sl: "s \<le> l" "l \<le> j" "j \<le> length bs" and u: "\<And>k. l \<le> k \<Longrightarrow> k < j \<Longrightarrow> bs ! k = CHR ''_''"
    using assms by (auto simp: int_inv_def)
  have "c = CHR ''_''" if "c \<in> set (slice bs l j)" for c
    using slice_all [of l j "\<lambda>c. c = CHR ''_''" bs c] u sl that by blast
  then have u: "\<forall>c\<in>set (slice bs l j). c = CHR ''_''" by blast
  have "digits_from r a t = a" if "\<forall>c\<in>set t. c = CHR ''_''" for a t
    using that by (induction t arbitrary: a) (auto simp: digits_from_def digits_from_underscores)
  from this [OF u] show ?thesis using assms slice_append [OF sl(1,2), of bs] by (simp add: int_inv_def)
qed

lemma int_loop_saw: "snd (snd (snd (int_loop bs r j v l True)))"
proof (induction "length bs - j" arbitrary: j v l rule: less_induct)
  case less
  show ?case using less by (subst int_loop.simps) (simp split: option.split)
qed

lemma digit_seen:
  assumes "i < length bs" "is_ascii_digit (bs ! i)" "int_loop bs 10 i 0 i False = (j, v, l, saw)"
  shows saw
proof -
  have "byte (bs ! i) - 48 < 10" using assms(2) by (auto simp: is_ascii_digit_def)
  then obtain d where "radix_digit (bs ! i) 10 = Some d"
    using assms(2) by (simp add: radix_digit_def)
  then show ?thesis
    using int_loop_saw [of bs 10 "i + 1"] assms(1,3) by (simp add: int_loop.simps [of bs 10 i]) (metis snd_conv)
qed

lemma lex_int_ok:
  assumes "i < length bs" "is_ascii_digit (bs ! i)" "lex_int bs i = Ok (t, next)"
  shows "token_ok bs i t next"
proof -
  obtain radix s where p: "int_prefix bs i = (radix, s)" by force
  note q = int_prefix_ok [OF assms(1) p]
  obtain j v l saw where lp: "int_loop bs radix s 0 s False = (j, v, l, saw)" by (metis prod_cases4)
  have inv: "int_inv bs radix s (j, v, l, saw)"
    using int_loop_inv [OF _ int_inv_start, of radix s bs] q lp by simp
  have t: "t = token_at (TokKind.Int v (bytes_as_chars (slice bs i l))) i l" "next = l" "radix \<noteq> 10 \<Longrightarrow> saw"
    using assms(3) p lp by (auto simp: lex_int_def Let_def split: if_splits)
  have saw: "saw"
  proof (cases "radix = 10")
    case True
    then show ?thesis using digit_seen [OF assms(1,2)] q lp by simp
  qed (rule t(3))
  have b: "s < l" "l \<le> length bs" using inv saw by (auto simp: int_inv_def)
  have ok: "run_ok radix c" if "c \<in> set (slice bs s l)" for c
    using slice_all [of s l "run_ok radix" bs c] inv b that by (auto simp: int_inv_def)
  have text_eq: "slice bs i l = slice bs i s @ slice bs s l" using q b by (intro slice_append) auto
  have "byte c < 128" if "c \<in> set (slice bs i l)" for c
    using that ok run_ok_ascii radix_prefix_ascii q unfolding text_eq set_append by blast
  then have raw: "bytes_as_chars (slice bs i l) = slice bs i l" by (rule bytes_as_chars_ascii)
  have "spells (TokKind.Int v (slice bs i s @ slice bs s l)) (slice bs i s @ slice bs s l)"
  proof (rule spells.number)
    show "(radix, slice bs i s) \<in> radix_prefix" using q by simp
    show "slice bs s l \<noteq> []" using b by (simp add: slice_Cons)
    show "list_all (run_ok radix) (slice bs s l)" using ok by (simp add: list_all_iff)
    show "radix_digit (last (slice bs s l)) radix \<noteq> None"
      using inv saw b by (simp add: last_slice int_inv_def)
    show "unat v = min (digits_from radix 0 (slice bs s l)) (2 ^ 128 - 1)"
      using int_inv_underscore_free inv saw by simp
  qed
  then show ?thesis using t q b raw by (simp add: token_okI text_eq)
qed

lemma radix_digit_decimal: "is_ascii_digit c \<Longrightarrow> radix_digit c 10 = Some (byte c - 48)"
  by (auto simp: radix_digit_def is_ascii_digit_def)

lemma hole_loop_ok:
  assumes "hole_loop bs j v saw = (j', v', saw')" "s \<le> j" "j \<le> length bs" "saw \<longleftrightarrow> s < j"
    "list_all is_ascii_digit (slice bs s j)" "unat v = min (digits_from 10 0 (slice bs s j)) (2 ^ 32 - 1)"
  shows "s \<le> j' \<and> j' \<le> length bs \<and> (saw' \<longleftrightarrow> s < j') \<and> list_all is_ascii_digit (slice bs s j') \<and>
    unat v' = min (digits_from 10 0 (slice bs s j')) (2 ^ 32 - 1)"
  using assms
proof (induction "length bs - j" arbitrary: j v saw rule: less_induct)
  case less
  show ?case
  proof (cases "j < length bs \<and> is_ascii_digit (bs ! j)")
    case True
    let ?d = "byte (bs ! j) - 48"
    have d: "radix_digit (bs ! j) 10 = Some ?d" using True by (simp add: radix_digit_decimal)
    have ext: "slice bs s (j + 1) = slice bs s j @ [bs ! j]" using less.prems True by (simp add: slice_extend)
    have "unat (saturating_add (saturating_mul v (of_nat 10)) (of_nat ?d))
        = min (digits_from 10 0 (slice bs s j) * 10 + ?d) (2 ^ 32 - 1)"
      using saturating_digit [of v "digits_from 10 0 (slice bs s j)" ?d 10] less.prems radix_digit_less [OF d]
      by simp
    moreover have "hole_loop bs (j + 1) (saturating_add (saturating_mul v 10) (of_nat ?d)) True = (j', v', saw')"
      using less.prems(1) True by (simp add: hole_loop.simps [of bs j])
    moreover have "digits_from 10 0 (slice bs s (j + 1)) = digits_from 10 0 (slice bs s j) * 10 + ?d"
      using d unfolding ext by (simp add: digits_from_def)
    moreover have "list_all is_ascii_digit (slice bs s (j + 1))" using less.prems True unfolding ext by simp
    ultimately show ?thesis
      using less.hyps [of "j + 1" "saturating_add (saturating_mul v 10) (of_nat ?d)" True] less.prems(2) True
      by (simp add: diff_less_mono2)
  next
    case False
    then have "hole_loop bs j v saw = (j, v, saw)" by (subst hole_loop.simps) auto
    then show ?thesis using less.prems by auto
  qed
qed

lemma lex_hole_ok:
  assumes "i < length bs" "bs ! i = CHR ''?''" "lex_hole bs i = Some (k, n)"
  shows "token_ok bs i (token_at k i (i + n)) (i + n)"
proof -
  define p where "p = (i + 1 < length bs \<and> bs ! (i + 1) = CHR ''p'')"
  define s where "s = (if p then i + 2 else i + 1)"
  obtain j v saw where h: "hole_loop bs s 0 False = (j, v, saw)" by (metis prod_cases3)
  have s: "s \<le> length bs" "i < s" using assms(1) by (auto simp: s_def p_def)
  have r: "lex_hole bs i = (if \<not> saw then None else Some (Hole v p, j - i))"
    using h by (simp add: lex_hole_def Let_def s_def p_def)
  have j: "s < j" "j \<le> length bs" "list_all is_ascii_digit (slice bs s j)"
      "unat v = min (digits_from 10 0 (slice bs s j)) (2 ^ 32 - 1)" "k = Hole v p" "n = j - i"
    using hole_loop_ok [OF h, of s] s assms(3) r by (auto simp: digits_from_def split: if_splits)
  have "slice bs i s = [CHR ''?''] @ (if p then ''p'' else '''')"
    using assms(1,2) by (auto simp: s_def p_def slice_Cons)
  then have "slice bs i j = [CHR ''?''] @ (if p then ''p'' else '''') @ slice bs s j"
    using slice_append [of i s j bs] s j by simp
  moreover have "slice bs s j \<noteq> []" using j by (simp add: slice_Cons)
  ultimately have "spells (Hole v p) (slice bs i j)" using j spells.hole [of "slice bs s j" v p] by simp
  then show ?thesis using token_okI [of i j bs "Hole v p"] j s by simp
qed

lemma lex_punct_ok:
  assumes "i < length bs" "lex_punct bs i = Some (k, n)"
  shows "token_ok bs i (token_at k i (i + n)) (i + n)"
  using assms slice_two [of i bs] slice_one [of i bs] token_okI [of i "i + n" bs k]
  by (auto simp: lex_punct_def spells.punct2 spells.punct1 split: option.splits if_splits)

lemma char_content_escape:
  assumes "char_content bs i = Ok (b, e)" "bs ! (i + 1) = CHR 0x5C"
  obtains "char_escape (bs ! (i + 2)) = Some b" "e = i + 3"
  | x y where "bs ! (i + 2) = CHR ''x''" "hex_digit (bs ! (i + 3)) = Some x" "hex_digit (bs ! (i + 4)) = Some y"
      "b = x * 16 + y" "b < 128" "e = i + 5"
  using assms
  by (auto simp: char_content_def Let_def parse_hex_escape_def ac_simps split: if_splits option.splits)

lemma slice_step: "i < j \<Longrightarrow> j \<le> length bs \<Longrightarrow> slice bs i j = bs ! i # slice bs (i + 1) j"
  by (simp add: slice_Cons)

lemma char_content_body:
  assumes "char_content bs i = Ok (b, e)" "bs ! i = CHR 0x27" "e \<le> length bs"
  shows "char_body (slice bs (i + 1) e) b"
proof (cases "bs ! (i + 1) = CHR 0x5C")
  case True
  from assms(1) True show ?thesis
  proof (cases rule: char_content_escape)
    case 1
    then have "slice bs (i + 1) e = [CHR 0x5C, bs ! (i + 2)]" using assms(3) True
      by (simp add: slice_Cons eval_nat_numeral)
    then show ?thesis using 1 by (simp add: char_body.escape)
  next
    case (2 x y)
    then have "slice bs (i + 1) e = [CHR 0x5C, CHR ''x'', bs ! (i + 3), bs ! (i + 4)]" using assms(3) True
      by (simp add: slice_Cons eval_nat_numeral)
    then show ?thesis using 2 char_body.hex [OF 2(2,3)] by simp
  qed
next
  case False
  then have "e = i + 2" "b = byte (bs ! (i + 1))" "byte (bs ! (i + 1)) < 128" "bs ! (i + 1) \<noteq> CHR 0x27"
    using assms(1) by (auto simp: char_content_def Let_def split: if_splits)
  then show ?thesis using char_body.plain [of "bs ! (i + 1)"] False assms(3) by (simp add: slice_Cons)
qed

lemma char_escape_ascii: "char_escape e = Some b \<Longrightarrow> byte e < 128"
  by (auto simp: char_escape_def split: if_splits)

lemma hex_digit_ascii: "hex_digit h = Some x \<Longrightarrow> byte h < 128"
  by (auto simp: hex_digit_def is_ascii_digit_def split: if_splits)

lemma char_body_ascii: "char_body s b \<Longrightarrow> c \<in> set s \<Longrightarrow> byte c < 128"
  by (induction rule: char_body.induct) (auto dest: char_escape_ascii hex_digit_ascii)

lemma lex_char_ok:
  assumes "i < length bs" "bs ! i = CHR 0x27" "lex_char bs i = Ok (t, next)"
  shows "token_ok bs i t next"
proof -
  obtain b e where c: "char_content bs i = Ok (b, e)"
    using assms(3) by (cases "char_content bs i") (auto simp: lex_char_def)
  have e: "e < length bs \<and> bs ! e = CHR 0x27"
    using assms(3) unfolding lex_char_def c stray_def Let_def by (simp split: if_splits)
  then have t: "t = token_at (TokKind.Int (of_nat b) (bytes_as_chars (slice bs i (e + 1)))) i (e + 1)" "next = e + 1"
    using assms(3) unfolding lex_char_def c by auto
  have ie: "i + 1 < e" using char_content_Ok [OF c] .
  have body: "char_body (slice bs (i + 1) e) b" using char_content_body [OF c assms(2)] e by simp
  have text_eq: "slice bs i (e + 1) = [CHR 0x27] @ slice bs (i + 1) e @ [CHR 0x27]"
    using slice_extend [of i e bs] ie e assms by (simp add: slice_Cons [of i e])
  have "bytes_as_chars (slice bs i (e + 1)) = slice bs i (e + 1)"
    unfolding text_eq by (rule bytes_as_chars_ascii) (use char_body_ascii [OF body] in auto)
  then show ?thesis
    using t token_okI [of i "e + 1" bs] spells.character [OF body text_eq] ie e by simp
qed

lemma slice_four:
  "i \<le> j \<Longrightarrow> j + 4 \<le> length bs \<Longrightarrow>
     slice bs i (j + 4) = slice bs i j @ [bs ! j, bs ! (j + 1), bs ! (j + 2), bs ! (j + 3)]"
  using slice_append [of i j "j + 4" bs] by (simp add: slice_Cons eval_nat_numeral)

lemma slice_more_two:
  "i \<le> j \<Longrightarrow> j + 2 \<le> length bs \<Longrightarrow> slice bs i (j + 2) = slice bs i j @ [bs ! j, bs ! (j + 1)]"
  using slice_append [of i j "j + 2" bs] by (simp add: slice_Cons)

lemma string_loop_escape:
  assumes "string_loop bs i j content = Ok (t, next)" "i < j" "bs ! j = CHR 0x5C" "j + 1 < length bs"
    "string_body (slice bs (i + 1) j) content"
  obtains j' content' where "string_loop bs i j' content' = Ok (t, next)" "j < j'" "j' \<le> length bs"
    "string_body (slice bs (i + 1) j') content'"
proof (cases "string_escape (bs ! (j + 1))")
  note loop = assms(1) [unfolded string_loop.simps [of bs i j content] Let_def stray_def]
  case (Some ch)
  then have "string_loop bs i (j + 2) (content @ [ch]) = Ok (t, next)" using loop assms(3,4) by simp
  moreover have "string_body (slice bs (i + 1) (j + 2)) (content @ [ch])"
    using string_body.escape [OF assms(5) Some] slice_more_two [of "i + 1" j bs] assms(2-4) by simp
  ultimately show ?thesis using that assms(4) by simp
next
  note loop = assms(1) [unfolded string_loop.simps [of bs i j content] Let_def stray_def]
  case None
  then obtain b where b: "bs ! (j + 1) = CHR ''x''" "parse_hex_escape bs (j + 2) = Some b" "b < 128"
      "string_loop bs i (j + 4) (content @ [char_of b]) = Ok (t, next)"
    using loop assms(3,4) by (auto split: if_splits option.splits)
  then obtain x y where h: "hex_digit (bs ! (j + 2)) = Some x" "hex_digit (bs ! (j + 3)) = Some y"
      "b = x * 16 + y" "j + 4 \<le> length bs"
    by (auto simp: parse_hex_escape_def eval_nat_numeral split: if_splits option.splits)
  have "string_body (slice bs (i + 1) (j + 4)) (content @ [char_of b])"
    using string_body.hex [OF assms(5) h(1,2)] slice_four [of "i + 1" j bs] assms(2-4) b h by simp
  then show ?thesis using that b(4) h(4) by simp
qed

lemma string_loop_ok:
  assumes "string_loop bs i j content = Ok (t, next)" "i < j" "j \<le> length bs" "bs ! i = CHR 0x22"
    "string_body (slice bs (i + 1) j) content"
  shows "token_ok bs i t next"
  using assms
proof (induction "length bs - j" arbitrary: j content rule: less_induct)
  case less
  note loop = less.prems(1) [unfolded string_loop.simps [of bs i j content] Let_def stray_def]
  have j: "j < length bs" using loop by (simp split: if_splits)
  have IH: "token_ok bs i t next"
    if "string_loop bs i j' content' = Ok (t, next)" "j < j'" "j' \<le> length bs"
      "string_body (slice bs (i + 1) j') content'" for j' content'
    using less.hyps [OF _ that(1)] that j less.prems by simp
  consider (quote) "bs ! j = CHR 0x22" | (escape) "bs ! j = CHR 0x5C" "j + 1 < length bs"
    | (plain) "bs ! j \<noteq> CHR 0x22" "\<not> (bs ! j = CHR 0x5C \<and> j + 1 < length bs)" by fastforce
  then show ?case
  proof cases
    case quote
    then have t: "t = token_at (Str content) i (j + 1)" "next = j + 1" using loop j by auto
    have "slice bs i (j + 1) = [CHR 0x22] @ slice bs (i + 1) j @ [CHR 0x22]"
      using slice_extend [of i j bs] less.prems j quote by (simp add: slice_Cons [of i j])
    then show ?thesis
      using spells.string_literal [OF less.prems(5)] t token_okI [of i "j + 1" bs] less.prems j by simp
  next
    case escape
    then show ?thesis using string_loop_escape [OF less.prems(1,2) escape less.prems(5)] IH by metis
  next
    case plain
    then have l: "string_loop bs i (j + 1) (content @ [bs ! j]) = Ok (t, next)" and a: "byte (bs ! j) < 128"
      using loop j by (auto split: if_splits)
    have "bs ! j \<noteq> CHR 0x5C"
    proof
      assume "bs ! j = CHR 0x5C"
      then have "\<not> j + 1 < length bs" using plain by simp
      then show False using l by (subst (asm) string_loop.simps) (simp add: Let_def)
    qed
    then have "string_body (slice bs (i + 1) (j + 1)) (content @ [bs ! j])"
      using string_body.plain [OF less.prems(5) a] slice_extend [of "i + 1" j bs] plain less.prems j by simp
    then show ?thesis using IH l j by simp
  qed
qed

lemma lex_string_ok:
  assumes "i < length bs" "bs ! i = CHR 0x22" "lex_string bs i = Ok (t, next)"
  shows "token_ok bs i t next"
  using assms string_loop_ok [of bs i "i + 1" "[]" t "next"] by (simp add: lex_string_def string_body.empty)

lemma of_lexed_cases:
  assumes "of_lexed r = (l, next)"
  obtains t where "r = Ok (t, next)" "l = Tok t" | e where "r = Err (e, next)" "l = Diag e"
  using assms by (auto simp: of_lexed_def split: result.splits)

text \<open>One round of the scan moves forward, and a token it yields spells the text it covers.\<close>

lemma lex_one_ok:
  assumes "i < length src" "lex_one src i = Some (l, next)"
  shows "lexeme_ok src i (l, next)"
proof -
  let ?c = "src ! i"
  note r = assms(2) [unfolded lex_one_def Let_def]
  have hash: "lexeme_ok src i (l, next)" if "?c = CHR ''#''"
    using r that assms(1) token_okI [of i "i + 2" src HashBracket] token_okI [of i "i + 1" src Hash]
      slice_two [of i src] slice_one [of i src] by (auto simp: spells.hash_bracket spells.hash split: if_splits)
  have str: "lexeme_ok src i (l, next)" if "?c = CHR 0x22"
  proof -
    have q: "of_lexed (lex_string src i) = (l, next)" using r that by simp
    have "i < next" using string_loop_progress [of src i "i + 1" "[]"] q assms(1) by (simp add: lex_string_def)
    with q show ?thesis using lex_string_ok [OF assms(1) that] by (auto elim!: of_lexed_cases)
  qed
  have chr: "lexeme_ok src i (l, next)" if "?c = CHR 0x27"
  proof -
    have q: "of_lexed (lex_char src i) = (l, next)" using r that by (simp add: is_ascii_digit_def)
    have "i < next" using lex_char_progress [OF q assms(1)] .
    with q show ?thesis using lex_char_ok [OF assms(1) that] by (auto elim!: of_lexed_cases)
  qed
  have num: "lexeme_ok src i (l, next)" if "is_ascii_digit ?c" "?c \<noteq> CHR ''#''" "?c \<noteq> CHR 0x22"
    using r that lex_int_ok [OF assms(1) that(1)] assms(1) by (auto split: result.splits)
  have hol: "lexeme_ok src i (l, next)" if "?c = CHR ''?''"
    using r that lex_hole_ok [OF assms(1) that] by (auto simp: is_ascii_digit_def split: option.splits)
  have "lexeme_ok src i (l, next)"
    if "?c \<notin> {CHR ''#'', CHR 0x22, CHR 0x27, CHR ''?''}" "\<not> is_ascii_digit ?c"
    using r that lex_word_ok [OF assms(1)] lex_punct_ok [OF assms(1)] utf8_char_len_pos [of ?c]
    by (auto split: if_splits option.splits prod.splits)
  then show ?thesis using hash str chr num hol by blast
qed

lemma lex_one_progress: "i < length src \<Longrightarrow> lex_one src i = Some (l, next) \<Longrightarrow> i < next"
  using lex_one_ok [of i src l "next"] by (cases l) (auto simp: token_ok_def)


section \<open>The whole scan\<close>

fun emit :: "lexeme \<Rightarrow> Token list \<times> SyntaxError list \<Rightarrow> Token list \<times> SyntaxError list" where
  "emit (Tok t) (ts, es) = (t # ts, es)"
| "emit (Diag e) (ts, es) = (ts, e # es)"

function tokenize_loop :: "string \<Rightarrow> nat \<Rightarrow> (Token list \<times> SyntaxError list) option" where
  "tokenize_loop src i =
     (if i < length src then
        let j = skip_trivia src i in
        if j \<ge> length src then Some ([], [])
        else case lex_one src j of
            None \<Rightarrow> None
          | Some (l, next) \<Rightarrow> map_option (emit l) (tokenize_loop src next)
      else Some ([], []))"
  by pat_completeness auto
termination
proof (relation "measure (\<lambda>(src, i). length src - i)", goal_cases)
  case (2 src i j x l "next")
  have "i \<le> j" "j < length src" using 2 skip_trivia_ge [of i src] by auto
  moreover have "j < next" using 2 lex_one_progress [of j src l "next"] by auto
  ultimately show ?case using 2 by auto
qed simp

declare tokenize_loop.simps [simp del]

definition tokenize :: "string \<Rightarrow> (Token list \<times> SyntaxError list) option" where
  "tokenize src = map_option (\<lambda>(ts, es). (ts @ [token_at Eof (length src) (length src)], es)) (tokenize_loop src 0)"

text \<open>White space and line comments; a comment runs to a newline or to the end.\<close>

inductive trivia :: "string \<Rightarrow> bool" where
  nil: "trivia []"
| space: "trivia t \<Longrightarrow> is_trivia_byte c \<Longrightarrow> trivia (c # t)"
| comment: "trivia t \<Longrightarrow> list_all (\<lambda>c. c \<noteq> CHR 0x0A) u \<Longrightarrow> t = [] \<or> hd t = CHR 0x0A \<Longrightarrow>
    trivia (''//'' @ u @ t)"

lemma trivia_spaces: "list_all is_trivia_byte s \<Longrightarrow> trivia t \<Longrightarrow> trivia (s @ t)"
  by (induction s) (auto intro: trivia.space)

lemma scan_while_slice:
  assumes "i \<le> length bs"
  shows "list_all p (slice bs i (scan_while p bs i))"
  unfolding list_all_iff
  using slice_all [of i "scan_while p bs i" p bs] scan_while_all [of i _ p bs] scan_while_le [OF assms] by blast

lemma skip_trivia_le: "i \<le> length bs \<Longrightarrow> skip_trivia bs i \<le> length bs"
proof (induction bs i rule: skip_trivia.induct)
  case (1 bs i)
  then show ?case
    using scan_while_le [of i bs is_trivia_byte]
      scan_while_le [of "scan_while is_trivia_byte bs i + 2" bs "\<lambda>c. c \<noteq> CHR 0x0A"]
    by (subst skip_trivia.simps) (auto simp: Let_def)
qed

lemma skip_trivia_ok: "i \<le> length bs \<Longrightarrow> trivia (slice bs i (skip_trivia bs i))"
proof (induction bs i rule: skip_trivia.induct)
  case (1 bs i)
  let ?j = "scan_while is_trivia_byte bs i"
  let ?k = "scan_while (\<lambda>c. c \<noteq> CHR 0x0A) bs (?j + 2)"
  have j: "i \<le> ?j" "?j \<le> length bs" using scan_while_bounds [OF 1(2)] by auto
  note ws = scan_while_slice [OF 1(2), of is_trivia_byte]
  show ?case
  proof (cases "?j + 1 < length bs \<and> bs ! ?j = CHR ''/'' \<and> bs ! (?j + 1) = CHR ''/''")
    case True
    have k: "?j + 2 \<le> ?k" "?k \<le> length bs" using True scan_while_bounds [of "?j + 2" bs] by auto
    let ?e = "skip_trivia bs ?k"
    have e: "?k \<le> ?e" "?e \<le> length bs" using skip_trivia_ge skip_trivia_le k by auto
    have tr: "trivia (slice bs ?k ?e)" using 1(1) [OF refl True] k by simp
    have "slice bs ?k ?e = [] \<or> hd (slice bs ?k ?e) = CHR 0x0A"
    proof (cases "?k < ?e")
      case True
      then show ?thesis using scan_while_stop [of "\<lambda>c. c \<noteq> CHR 0x0A" bs "?j + 2"] e by (simp add: hd_slice)
    next
      case False
      then have "?e = ?k" using e by simp
      then show ?thesis by simp
    qed
    then have "trivia (''//'' @ slice bs (?j + 2) ?k @ slice bs ?k ?e)"
      using tr scan_while_slice [of "?j + 2" bs "\<lambda>c. c \<noteq> CHR 0x0A"] True by (intro trivia.comment) auto
    moreover have "slice bs i ?e = slice bs i ?j @ ''//'' @ slice bs (?j + 2) ?k @ slice bs ?k ?e"
      using slice_append [of i ?j ?e bs] slice_append [of ?j "?j + 2" ?e bs] slice_append [of "?j + 2" ?k ?e bs]
        slice_two [of ?j bs] True j k e by simp
    moreover have "skip_trivia bs i = ?e" using True by (subst skip_trivia.simps) (simp add: Let_def)
    ultimately show ?thesis using trivia_spaces [OF ws] by simp
  next
    case False
    then have "skip_trivia bs i = ?j" by (subst skip_trivia.simps) (auto simp: Let_def)
    then show ?thesis using trivia_spaces [OF ws trivia.nil] by simp
  qed
qed

text \<open>
  How the tokens lie in the source from a byte on: each spells a non-empty stretch after the
  previous one, and in a scan without diagnostics only trivia lies between them and after them.
\<close>

fun tiles :: "bool \<Rightarrow> string \<Rightarrow> nat \<Rightarrow> Token list \<Rightarrow> bool" where
  "tiles clean src i [] = (clean \<longrightarrow> trivia (slice src i (length src)))"
| "tiles clean src i (t # ts) =
     (let start = sp_start (tok_span t); e = Span_end (tok_span t) in
      i \<le> start \<and> start < e \<and> e \<le> length src \<and> spells (tok_kind t) (slice src start e) \<and>
      (clean \<longrightarrow> trivia (slice src i start)) \<and> tiles clean src e ts)"

lemma tiles_skip:
  assumes "tiles False src j ts" "i \<le> j"
  shows "tiles False src i ts"
  using assms by (cases ts) (auto simp: Let_def)

lemma tiles_relax: "tiles b src k ts \<Longrightarrow> tiles False src k ts"
  by (induction b src k ts rule: tiles.induct) (auto simp: Let_def)

lemma tokenize_loop_tiles:
  assumes "tokenize_loop src i = Some (ts, es)" "i \<le> length src"
  shows "tiles (es = []) src i ts"
  using assms
proof (induction "length src - i" arbitrary: i ts es rule: less_induct)
  case less
  let ?j = "skip_trivia src i"
  have j: "i \<le> ?j" "?j \<le> length src" using skip_trivia_ge skip_trivia_le [OF less.prems(2)] by auto
  have tr: "trivia (slice src i ?j)" using skip_trivia_ok less.prems(2) by simp
  show ?case
  proof (cases "i < length src \<and> ?j < length src")
    case True
    obtain l k where l: "lex_one src ?j = Some (l, k)"
      using less.prems(1) True by (auto simp: tokenize_loop.simps [of src i] Let_def split: option.splits)
    then obtain ts' es' where r: "tokenize_loop src k = Some (ts', es')" "emit l (ts', es') = (ts, es)"
      using less.prems(1) True by (auto simp: tokenize_loop.simps [of src i] Let_def)
    have ok: "lexeme_ok src ?j (l, k)" and "?j < k" using lex_one_ok lex_one_progress True l by auto
    have "length src - k < length src - i" using \<open>?j < k\<close> j True by linarith
    then have rest: "tiles (es' = []) src k ts'" if "k \<le> length src" using less.hyps [OF _ r(1) that] by simp
    show ?thesis
    proof (cases l)
      case (Tok t)
      then show ?thesis using ok rest r(2) tr j by (auto simp: token_ok_def Span_end_def Let_def)
    next
      case (Diag e)
      then have "es \<noteq> []" "ts = ts'" using r(2) by auto
      moreover have "tiles False src k ts'"
        using tiles_relax rest r(1) by (cases "k \<le> length src") (auto simp: tokenize_loop.simps [of src k])
      ultimately show ?thesis using tiles_skip \<open>?j < k\<close> j by auto
    qed
  next
    case False
    then have "ts = []" "es = []" using less.prems(1)
      by (auto simp: tokenize_loop.simps [of src i] Let_def split: if_splits)
    moreover have "?j = length src" using False j less.prems(2) by auto
    ultimately show ?thesis using tr by simp
  qed
qed

text \<open>
  C31: the tokens of a scan lie in the source. Unless the scan panics, the stream ends with one
  end-of-file token at the length of the source; every other token covers a non-empty stretch
  inside the source, after the token before it and without overlap, and spells exactly the text it
  covers: a keyword or identifier, a number with its saturated value in its radix, a character or
  string literal with its decoded content, a hole, or an operator. When no diagnostic was
  reported, everything between and after the tokens is white space and comments.
\<close>

theorem tokens_tile_source:
  "case tokenize src of
     None \<Rightarrow> True
   | Some (ts, es) \<Rightarrow> ts \<noteq> [] \<and> last ts = token_at Eof (length src) (length src) \<and>
       tiles (es = []) src 0 (butlast ts)"
  using tokenize_loop_tiles [of src 0] by (auto simp: tokenize_def split: option.split)

text \<open>A source of single-byte characters has no slice inside a character.\<close>

definition ascii :: "string \<Rightarrow> bool" where
  "ascii src = list_all (\<lambda>c. byte c < 128) src"

lemma ascii_boundary: "ascii src \<Longrightarrow> i \<le> length src \<Longrightarrow> is_char_boundary src i"
  unfolding ascii_def is_char_boundary_def list_all_length by (metis le_neq_implies_less leD)

lemma lex_one_ascii:
  assumes "ascii src" "i < length src"
  shows "lex_one src i \<noteq> None"
proof -
  have "str_slice src i (min (i + n) (length src)) \<noteq> None" for n
    using ascii_boundary [OF assms(1)] assms(2) by (simp add: str_slice_def)
  from this [of 1] this [of "utf8_char_len (src ! i)"] show ?thesis
    unfolding lex_one_def Let_def
    by (simp split: option.split result.split prod.split del: not_None_eq)
qed

lemma tokenize_loop_ascii: "ascii src \<Longrightarrow> tokenize_loop src i \<noteq> None"
proof (induction src i rule: tokenize_loop.induct)
  case (1 src i)
  show ?case
  proof (cases "i < length src \<and> skip_trivia src i < length src")
    case True
    then obtain l k where l: "lex_one src (skip_trivia src i) = Some (l, k)"
      using lex_one_ascii [OF 1(2)] by fastforce
    then have "tokenize_loop src k \<noteq> None" using 1 True by simp
    then show ?thesis using True l by (subst tokenize_loop.simps) (auto simp: Let_def)
  next
    case False
    then show ?thesis by (subst tokenize_loop.simps) (auto simp: Let_def)
  qed
qed

text \<open>
  C32: scanning an ASCII source always returns: the loop ends and no slice of the source panics,
  whatever diagnostics are reported on the way, and its answer ends with the end-of-file token.
\<close>

theorem ascii_scan_returns:
  assumes "ascii src"
  shows "\<exists>ts es. tokenize src = Some (ts @ [token_at Eof (length src) (length src)], es)"
  using tokenize_loop_ascii [OF assms, of 0] by (auto simp: tokenize_def)

theorem ascii_scan_returns_witness:
  "ascii ''fn f?7 0x1G~'' \<and>
   (\<exists>ts es. tokenize ''fn f?7 0x1G~'' = Some (ts @ [token_at Eof 12 12], es))"
  using ascii_scan_returns [of "''fn f?7 0x1G~''"] by (simp add: ascii_def eval_nat_numeral)

text \<open>
  The scan is not free of panics on every source: after an escape that starts with a multi-byte
  character the scan resumes inside that character, and the next diagnostic slices the source
  there. The four bytes are a quote, a backslash and the two bytes of one accented letter.
\<close>

lemma scan_panics_after_bad_escape:
  "tokenize [CHR 0x27, CHR 0x5C, CHR 0xC3, CHR 0xA9] = None"
  by (simp add: tokenize_def tokenize_loop.simps skip_trivia.simps scan_while.simps lex_one_def
      lex_char_def char_content_def char_escape_def resume_past_char_def of_lexed_def
      is_trivia_byte_def is_ascii_digit_def is_ident_start_def is_ascii_alphabetic_def
      lex_punct_def punct_one_def punct_two_def utf8_char_len_def str_slice_def is_char_boundary_def
      Let_def)

end
