(* ===== verification/Syntax_Desugar.thy ===== *)
theory Syntax_Desugar
  imports Syntax_Lexer
begin

text \<open>
  The pass after parsing of \<open>thermite-syntax/src/desugar.rs\<close>: the refinements of parameters become
  conjuncts of the precondition and those of the result become postconditions. The lemmas show
  that nothing else changes, that the pass is idempotent, and that, for every reading of
  expressions that takes \<open>&&\<close> as conjunction, the desugared contract says what the original
  contract and the refinements say together.
\<close>

definition conjoin :: "Expr Clause \<Rightarrow> Expr Clause \<Rightarrow> Expr Clause" where
  "conjoin a b =
     Clause (Binary And (cl_expr a) (cl_expr b)) (''('' @ cl_text a @ '') && ('' @ cl_text b @ '')'')
       (Span_to (cl_span a) (cl_span b)) (case cl_bv a of Some t \<Rightarrow> Some t | None \<Rightarrow> cl_bv b)"

definition fold_refinement :: "FnItem \<Rightarrow> Refinement \<Rightarrow> FnItem" where
  "fold_refinement f r =
     (case re_target r of
        Param _ \<Rightarrow> f\<lparr>fn_contract := (fn_contract f)\<lparr>ct_req := conjoin (ct_req (fn_contract f)) (re_pred r)\<rparr>\<rparr>
      | RefinementTarget.Result \<Rightarrow>
          f\<lparr>fn_contract := (fn_contract f)\<lparr>ct_ens := ct_ens (fn_contract f) @ [re_pred r]\<rparr>\<rparr>)"

definition desugar_item :: "Item \<Rightarrow> Item" where
  "desugar_item item =
     (case item of
        Item.Fn f \<Rightarrow>
          if fn_refinements f = [] then Item.Fn f
          else Item.Fn (foldl fold_refinement (f\<lparr>fn_refinements := []\<rparr>) (fn_refinements f))
      | _ \<Rightarrow> item)"

definition desugar_refinements :: "Program \<Rightarrow> Program" where
  "desugar_refinements p = p\<lparr>pr_items := map desugar_item (pr_items p)\<rparr>"

definition desugar :: "Program \<Rightarrow> Program" where
  "desugar p = desugar_refinements p"


section \<open>What the pass does\<close>

lemma fold_refinement_contract:
  "fold_refinement f r = f\<lparr>fn_contract := fn_contract (fold_refinement f r)\<rparr>"
  by (simp add: fold_refinement_def split: RefinementTarget.split)

lemma foldl_refinement_contract:
  "foldl fold_refinement f rs = f\<lparr>fn_contract := fn_contract (foldl fold_refinement f rs)\<rparr>"
proof (induction rs arbitrary: f)
  case (Cons r rs)
  let ?g = "fold_refinement f r"
  have "foldl fold_refinement ?g rs = ?g\<lparr>fn_contract := fn_contract (foldl fold_refinement ?g rs)\<rparr>"
    by (rule Cons)
  also have "\<dots> = f\<lparr>fn_contract := fn_contract (foldl fold_refinement ?g rs)\<rparr>"
    by (subst (1) fold_refinement_contract) simp
  finally show ?case by simp
qed simp

definition params_of :: "Refinement list \<Rightarrow> Expr Clause list" where
  "params_of rs = map re_pred (filter (\<lambda>r. re_target r \<noteq> RefinementTarget.Result) rs)"

definition results_of :: "Refinement list \<Rightarrow> Expr Clause list" where
  "results_of rs = map re_pred (filter (\<lambda>r. re_target r = RefinementTarget.Result) rs)"

lemma foldl_refinement_parts:
  "ct_req (fn_contract (foldl fold_refinement f rs)) = foldl conjoin (ct_req (fn_contract f)) (params_of rs)"
  "ct_ens (fn_contract (foldl fold_refinement f rs)) = ct_ens (fn_contract f) @ results_of rs"
  "ct_fx (fn_contract (foldl fold_refinement f rs)) = ct_fx (fn_contract f)"
  by (induction rs arbitrary: f)
     (simp_all add: params_of_def results_of_def fold_refinement_def split: RefinementTarget.split)

lemma conjoin_reading:
  assumes "\<And>a b. holds (Binary And a b) \<longleftrightarrow> holds a \<and> holds b"
  shows "holds (cl_expr (foldl conjoin c cs)) \<longleftrightarrow> holds (cl_expr c) \<and> (\<forall>d\<in>set cs. holds (cl_expr d))"
  by (induction cs arbitrary: c) (auto simp: conjoin_def assms)

lemma desugar_item_Fn:
  "desugar_item (Item.Fn f) = Item.Fn (f\<lparr>fn_refinements := [],
     fn_contract := fn_contract (foldl fold_refinement (f\<lparr>fn_refinements := []\<rparr>) (fn_refinements f))\<rparr>)"
proof (cases "fn_refinements f = []")
  case True
  then have "f\<lparr>fn_refinements := []\<rparr> = f" by (cases f) simp
  then show ?thesis using True by (simp add: desugar_item_def)
next
  case False
  show ?thesis
    using foldl_refinement_contract [of "f\<lparr>fn_refinements := []\<rparr>" "fn_refinements f"] False
    by (simp add: desugar_item_def)
qed

lemma desugar_item_idem: "desugar_item (desugar_item i) = desugar_item i"
proof (cases i)
  case (Fn f)
  then show ?thesis by (simp only: desugar_item_Fn) simp
qed (simp_all add: desugar_item_def)

text \<open>
  The two halves of the pass on one function, for every reading of expressions that takes the
  conjunction operator as conjunction.
\<close>

definition desugared :: "(Expr \<Rightarrow> bool) \<Rightarrow> FnItem \<Rightarrow> FnItem \<Rightarrow> bool" where
  "desugared holds f g \<longleftrightarrow>
     g = f\<lparr>fn_refinements := [], fn_contract := fn_contract g\<rparr> \<and>
     ct_fx (fn_contract g) = ct_fx (fn_contract f) \<and>
     ct_ens (fn_contract g) = ct_ens (fn_contract f) @ results_of (fn_refinements f) \<and>
     (holds (cl_expr (ct_req (fn_contract g))) \<longleftrightarrow>
        holds (cl_expr (ct_req (fn_contract f))) \<and>
        (\<forall>d\<in>set (params_of (fn_refinements f)). holds (cl_expr d)))"

lemma desugar_item_reading:
  assumes "\<And>a b. holds (Binary And a b) \<longleftrightarrow> holds a \<and> holds b"
  shows "case i of Item.Fn f \<Rightarrow> \<exists>g. desugar_item i = Item.Fn g \<and> desugared holds f g
    | _ \<Rightarrow> desugar_item i = i"
proof (cases i)
  case (Fn f)
  then show ?thesis
    by (simp add: desugar_item_Fn desugared_def foldl_refinement_parts conjoin_reading [OF assms])
qed (simp_all add: desugar_item_def)

text \<open>
  C33: the desugaring keeps the program's items one for one and is idempotent. A function keeps
  everything but its contract and loses its refinements; its effects are untouched, its
  postconditions are the old ones followed by the refinements of the result, and its precondition
  holds exactly when the old precondition and every refinement of a parameter hold. Items of
  other kinds are unchanged.
\<close>

theorem desugar_preserves_meaning:
  assumes "\<And>a b. holds (Binary And a b) \<longleftrightarrow> holds a \<and> holds b"
  shows "desugar (desugar p) = desugar p \<and> length (pr_items (desugar p)) = length (pr_items p) \<and>
    list_all2 (\<lambda>i j. case i of Item.Fn f \<Rightarrow> \<exists>g. j = Item.Fn g \<and> desugared holds f g | _ \<Rightarrow> j = i)
      (pr_items p) (pr_items (desugar p))"
  using desugar_item_reading [OF assms]
  by (auto simp: desugar_def desugar_refinements_def desugar_item_idem list_all2_map2 list_all2_same
      split: Item.split)

text \<open>A reading of the literal expressions: a conjunction of literals.\<close>

fun literal_holds :: "Expr \<Rightarrow> bool" where
  "literal_holds (BoolLit b) = b"
| "literal_holds (Binary And a b) = (literal_holds a \<and> literal_holds b)"
| "literal_holds _ = False"

theorem desugar_preserves_meaning_witness:
  "list_all2 (\<lambda>i j. case i of Item.Fn f \<Rightarrow> \<exists>g. j = Item.Fn g \<and> desugared literal_holds f g | _ \<Rightarrow> j = i)
     [Item.Fn (sample_fn ''f'' EffectRow.Pure (Some (BoolLit True))
        \<lparr>fn_refinements := [\<lparr>re_target = Param ''x'', re_pred = sample_clause (BoolLit False)\<rparr>]\<rparr>)]
     (pr_items (desugar \<lparr>pr_items = [Item.Fn (sample_fn ''f'' EffectRow.Pure (Some (BoolLit True))
        \<lparr>fn_refinements := [\<lparr>re_target = Param ''x'', re_pred = sample_clause (BoolLit False)\<rparr>]\<rparr>)]\<rparr>))"
  using desugar_preserves_meaning [of literal_holds "\<lparr>pr_items = [Item.Fn (sample_fn ''f'' EffectRow.Pure (Some (BoolLit True))
        \<lparr>fn_refinements := [\<lparr>re_target = Param ''x'', re_pred = sample_clause (BoolLit False)\<rparr>]\<rparr>)]\<rparr>"]
  by simp

end
