(* ===== verification/Parser_Core.thy ===== *)
theory Parser_Core
  imports Syntax_Desugar Rust_Text
begin

text \<open>
  The state of the recursive-descent parser of \<open>thermite-syntax/src/parser.rs\<close> and its cursor
  primitives. A method is a function from the parser state to its answer and the state it leaves,
  also when it answers an error, since the recovery reads the cursor then. Loops and calls between the grammar's levels
  carry fuel, and an answer of \<open>None\<close> is fuel that ran out. The second half is a small program
  logic for these functions: a parser keeps the flags of the state, never moves the cursor back,
  and, given enough tokens of fuel, answers. Its rules carry the proofs about the grammar.
\<close>

record Parser =
  ps_src :: string
  ps_tokens :: "Token list"
  ps_pos :: nat
  ps_items :: "Item list"
  ps_errors :: "SyntaxError list"
  ps_recursion_depth :: nat
  ps_no_struct_literal :: bool
  ps_no_dot :: bool
  ps_loop_depth :: nat
  ps_fn_body_depth :: nat
  ps_pending_holes :: "Hole list"

definition MAX_RECURSION_DEPTH :: nat where
  "MAX_RECURSION_DEPTH = 64"

type_synonym 'a parser = "Parser \<Rightarrow> (('a, SyntaxError) result \<times> Parser) option"

definition pa_ret :: "'a \<Rightarrow> 'a parser" where
  "pa_ret x st = Some (Ok x, st)"

definition pa_err :: "SyntaxError \<Rightarrow> 'a parser" where
  "pa_err e st = Some (Err e, st)"

definition pa_bind :: "'a parser \<Rightarrow> ('a \<Rightarrow> 'b parser) \<Rightarrow> 'b parser" where
  "pa_bind p f st =
     (case p st of None \<Rightarrow> None | Some (Err e, st) \<Rightarrow> Some (Err e, st) | Some (Ok x, st) \<Rightarrow> f x st)"

definition pa_get :: "(Parser \<Rightarrow> 'a) \<Rightarrow> 'a parser" where
  "pa_get g st = Some (Ok (g st), st)"


section \<open>Descriptions of tokens\<close>

definition token_text :: "TokKind \<Rightarrow> string" where
  "token_text kind =
     (case map_of
        [(Fn, ''fn''), (Spec, ''spec''), (Req, ''req''), (Ens, ''ens''), (Fx, ''fx''), (TokKind.Inv, ''inv''),
         (Dec, ''dec''), (TokKind.Pure, ''pure''), (TokKind.Let, ''let''), (Mut, ''mut''),
         (TokKind.Return, ''return''), (TokKind.Break, ''break''), (TokKind.Continue, ''continue''),
         (TokKind.If, ''if''), (Else, ''else''), (TokKind.Loop, ''loop''), (TokKind.While, ''while''),
         (TokKind.Match, ''match''), (As, ''as''), (TokKind.Struct, ''struct''), (TokKind.Enum, ''enum''),
         (TokKind.Is, ''is''), (TokKind.Forall, ''forall''), (TokKind.Exists, ''exists''),
         (HashBracket, ''#[''), (Hash, ''#''), (Arrow, ''->''), (FatArrow, ''=>''), (EqEq, ''==''),
         (TokKind.Ne, ''!=''), (TokKind.Le, ''<=''), (TokKind.Ge, ''>=''), (AndAnd, ''&&''),
         (OrOr, ''||''), (ColonCol, ''::''), (DotDot, ''..''), (TokKind.Shl, ''<<''), (TokKind.Shr, ''>>''),
         (LBrace, ''{''), (RBrace, ''}''), (LParen, ''(''), (RParen, '')''), (LBracket, ''[''),
         (RBracket, '']''), (Comma, '',''), (Semi, '';''), (Colon, '':''), (Dot, ''.''), (TokKind.Eq, ''=''),
         (TokKind.Lt, ''<''), (TokKind.Gt, ''>''), (Plus, ''+''), (Minus, ''-''), (Star, ''*''), (Slash, ''/''),
         (Percent, ''%''), (Caret, ''^''), (Amp, ''&''), (Pipe, ''|''), (Bang, ''!''), (At, ''@'')] kind of
        Some text \<Rightarrow> text
      | None \<Rightarrow> ''<token>'')"

text \<open>The debug form of a string literal, whose characters the scanner keeps below 128.\<close>

definition debug_char :: "char \<Rightarrow> string" where
  "debug_char c =
     (if c = CHR 0x22 then [CHR 0x5C, CHR 0x22]
      else if c = CHR 0x5C then [CHR 0x5C, CHR 0x5C]
      else if c = CHR 0x00 then [CHR 0x5C, CHR ''0'']
      else if c = CHR 0x09 then [CHR 0x5C, CHR ''t'']
      else if c = CHR 0x0A then [CHR 0x5C, CHR ''n'']
      else if c = CHR 0x0D then [CHR 0x5C, CHR ''r'']
      else if byte c < 32 \<or> byte c = 127 then [CHR 0x5C] @ ''u{'' @ digits_in 16 (byte c) @ ''}''
      else [c])"

definition debug_str :: "string \<Rightarrow> string" where
  "debug_str s = [CHR 0x22] @ concat (map debug_char s) @ [CHR 0x22]"

definition describe :: "TokKind \<Rightarrow> string" where
  "describe kind =
     (case kind of
        Ident s \<Rightarrow> ''identifier `'' @ s @ ''`''
      | TokKind.Int value _ \<Rightarrow> ''integer `'' @ show_nat (unat value) @ ''`''
      | TokKind.Bool b \<Rightarrow> ''`'' @ (if b then ''true'' else ''false'') @ ''`''
      | Str s \<Rightarrow> ''string '' @ debug_str s
      | TokKind.Hole number proof \<Rightarrow>
          (if proof then ''proof hole `?p'' else ''hole `?'') @ show_nat (unat number) @ ''`''
      | Eof \<Rightarrow> ''end of input''
      | _ \<Rightarrow> ''`'' @ token_text kind @ ''`'')"

definition ident_of :: "TokKind \<Rightarrow> string option" where
  "ident_of kind = (case kind of Ident s \<Rightarrow> Some s | _ \<Rightarrow> None)"

definition int_of :: "TokKind \<Rightarrow> (u128 \<times> string) option" where
  "int_of kind = (case kind of TokKind.Int value raw \<Rightarrow> Some (value, raw) | _ \<Rightarrow> None)"

definition bool_of :: "TokKind \<Rightarrow> bool option" where
  "bool_of kind = (case kind of TokKind.Bool b \<Rightarrow> Some b | _ \<Rightarrow> None)"

definition str_of :: "TokKind \<Rightarrow> string option" where
  "str_of kind = (case kind of Str s \<Rightarrow> Some s | _ \<Rightarrow> None)"

definition hole_of :: "TokKind \<Rightarrow> (u32 \<times> bool) option" where
  "hole_of kind = (case kind of TokKind.Hole number proof \<Rightarrow> Some (number, proof) | _ \<Rightarrow> None)"


section \<open>The cursor\<close>

definition token_under :: "Parser \<Rightarrow> nat \<Rightarrow> Token" where
  "token_under st n = ps_tokens st ! min (ps_pos st + n) (length (ps_tokens st) - 1)"

definition peek :: "Parser \<Rightarrow> TokKind" where
  "peek st = tok_kind (token_under st 0)"

definition peek_span :: "Parser \<Rightarrow> Span" where
  "peek_span st = tok_span (token_under st 0)"

definition peek_nth :: "Parser \<Rightarrow> nat \<Rightarrow> TokKind" where
  "peek_nth st n = tok_kind (token_under st n)"

definition at_eof :: "Parser \<Rightarrow> bool" where
  "at_eof st = (peek st = Eof)"

definition prev_span :: "Parser \<Rightarrow> Span" where
  "prev_span st = tok_span (ps_tokens st ! (ps_pos st - 1))"

definition advance :: "Parser \<Rightarrow> Parser" where
  "advance st = (if ps_pos st < length (ps_tokens st) - 1 then st\<lparr>ps_pos := ps_pos st + 1\<rparr> else st)"

definition bump :: "Token parser" where
  "bump st = Some (Ok (token_under st 0), advance st)"

definition check :: "TokKind \<Rightarrow> Parser \<Rightarrow> bool" where
  "check kind st = (peek st = kind)"

definition eat :: "TokKind \<Rightarrow> bool parser" where
  "eat kind st = (if check kind st then Some (Ok True, advance st) else Some (Ok False, st))"

definition unexpected_error :: "string \<Rightarrow> Parser \<Rightarrow> SyntaxError" where
  "unexpected_error expected st =
     (if at_eof st then UnexpectedEof expected (peek_span st)
      else Unexpected expected (describe (peek st)) (peek_span st))"

definition unexpected :: "string \<Rightarrow> 'a parser" where
  "unexpected expected st = Some (Err (unexpected_error expected st), st)"

definition consume :: "TokKind \<Rightarrow> string \<Rightarrow> Token parser" where
  "consume kind what st = (if check kind st then bump st else unexpected what st)"

text \<open>\<open>src.get(a..b)\<close> is \<open>None\<close> outside the source or inside a character.\<close>

definition span_text :: "Span \<Rightarrow> Parser \<Rightarrow> string" where
  "span_text span st =
     trim (if Span_end span \<le> length (ps_src st) then
             (case str_slice (ps_src st) (sp_start span) (Span_end span) of Some s \<Rightarrow> s | None \<Rightarrow> [])
           else [])"

text \<open>A token of a certain form is looked at and then taken: \<open>match self.peek()\<close> followed by \<open>bump\<close>.\<close>

definition eat_map :: "(TokKind \<Rightarrow> 'a option) \<Rightarrow> 'a option parser" where
  "eat_map g st = (case g (peek st) of Some x \<Rightarrow> Some (Ok (Some x), advance st) | None \<Rightarrow> Some (Ok None, st))"

definition take_ident :: "string \<Rightarrow> Ident parser" where
  "take_ident what st =
     (case ident_of (peek st) of Some name \<Rightarrow> Some (Ok name, advance st) | None \<Rightarrow> unexpected what st)"

definition take_string :: "string \<Rightarrow> string parser" where
  "take_string what st =
     (case str_of (peek st) of Some s \<Rightarrow> Some (Ok s, advance st) | None \<Rightarrow> unexpected what st)"

definition eat_contextual :: "string \<Rightarrow> bool parser" where
  "eat_contextual word st =
     (if ident_of (peek st) = Some word then Some (Ok True, advance st) else Some (Ok False, st))"

definition expect_contextual :: "string \<Rightarrow> unit parser" where
  "expect_contextual word = pa_bind (eat_contextual word) (\<lambda>b.
     if b then pa_ret () else unexpected (''`'' @ word @ ''`''))"

text \<open>\<open>if b { Some(p()?) } else { None }\<close>.\<close>

definition pa_when :: "bool \<Rightarrow> 'a parser \<Rightarrow> 'a option parser" where
  "pa_when b p = (if b then pa_bind p (\<lambda>x. pa_ret (Some x)) else pa_ret None)"

text \<open>Running a parser under changed flags, which are put back whatever it answers.\<close>

definition under :: "(Parser \<Rightarrow> Parser) \<Rightarrow> (Parser \<Rightarrow> Parser \<Rightarrow> Parser) \<Rightarrow> 'a parser \<Rightarrow> 'a parser" where
  "under enter leave inner st =
     (case inner (enter st) of None \<Rightarrow> None | Some (r, st') \<Rightarrow> Some (r, leave st st'))"

definition with_no_struct_literal :: "'a parser \<Rightarrow> 'a parser" where
  "with_no_struct_literal =
     under (\<lambda>st. st\<lparr>ps_no_struct_literal := True\<rparr>)
       (\<lambda>st st'. st'\<lparr>ps_no_struct_literal := ps_no_struct_literal st\<rparr>)"

definition with_struct_literal :: "'a parser \<Rightarrow> 'a parser" where
  "with_struct_literal =
     under (\<lambda>st. st\<lparr>ps_no_struct_literal := False, ps_no_dot := False\<rparr>)
       (\<lambda>st st'. st'\<lparr>ps_no_struct_literal := ps_no_struct_literal st, ps_no_dot := ps_no_dot st\<rparr>)"

definition with_no_dot :: "'a parser \<Rightarrow> 'a parser" where
  "with_no_dot = under (\<lambda>st. st\<lparr>ps_no_dot := True\<rparr>) (\<lambda>st st'. st'\<lparr>ps_no_dot := ps_no_dot st\<rparr>)"

definition in_loop_body :: "'a parser \<Rightarrow> 'a parser" where
  "in_loop_body =
     under (\<lambda>st. st\<lparr>ps_loop_depth := ps_loop_depth st + 1\<rparr>)
       (\<lambda>st st'. st'\<lparr>ps_loop_depth := ps_loop_depth st' - 1\<rparr>)"

definition guard_recursion :: "'a parser \<Rightarrow> 'a parser" where
  "guard_recursion inner st =
     (if ps_recursion_depth st \<ge> MAX_RECURSION_DEPTH
      then pa_err (ExpressionTooDeep MAX_RECURSION_DEPTH (peek_span st)) st
      else under (\<lambda>st. st\<lparr>ps_recursion_depth := ps_recursion_depth st + 1\<rparr>)
             (\<lambda>st st'. st'\<lparr>ps_recursion_depth := ps_recursion_depth st' - 1\<rparr>) inner st)"

text \<open>
  A loop whose body answers the new value and whether to go round again. The fuel is the number of
  tokens left: every round that goes on takes a token.
\<close>

definition remaining :: "Parser \<Rightarrow> nat" where
  "remaining st = length (ps_tokens st) - 1 - ps_pos st"

fun pa_loop :: "nat \<Rightarrow> ('a \<Rightarrow> ('a \<times> bool) parser) \<Rightarrow> 'a \<Rightarrow> 'a parser" where
  "pa_loop 0 body acc st = None"
| "pa_loop (Suc n) body acc st =
     pa_bind (body acc) (\<lambda>(acc, more). if more then pa_loop n body acc else pa_ret acc) st"

definition pa_while :: "('a \<Rightarrow> ('a \<times> bool) parser) \<Rightarrow> 'a \<Rightarrow> 'a parser" where
  "pa_while body acc st = pa_loop (Suc (remaining st)) body acc st"

text \<open>
  The loop shape of every bracketed list: an element, then stop unless a comma follows, and also
  stop when the comma was a trailing one.
\<close>

definition comma_list :: "TokKind \<Rightarrow> 'a parser \<Rightarrow> 'a list parser" where
  "comma_list close elem =
     pa_while (\<lambda>acc. pa_bind elem (\<lambda>x. pa_bind (eat Comma) (\<lambda>comma.
       if \<not> comma then pa_ret (acc @ [x], False)
       else pa_bind (pa_get (check close)) (\<lambda>closing. pa_ret (acc @ [x], \<not> closing))))) []"

text \<open>A possibly empty such list, up to its closing token.\<close>

definition opt_comma_list :: "TokKind \<Rightarrow> 'a parser \<Rightarrow> 'a list parser" where
  "opt_comma_list close elem =
     pa_bind (pa_get (check close)) (\<lambda>empty. if empty then pa_ret [] else comma_list close elem)"

text \<open>The rest of a tuple: \<open>while self.eat(&TokKind::Comma)\<close> with a \<open>break\<close> on a trailing comma.\<close>

definition tuple_rest :: "TokKind \<Rightarrow> 'a parser \<Rightarrow> 'a list \<Rightarrow> 'a list parser" where
  "tuple_rest close elem =
     pa_while (\<lambda>acc. pa_bind (eat Comma) (\<lambda>comma.
       if \<not> comma then pa_ret (acc, False)
       else pa_bind (pa_get (check close)) (\<lambda>closing.
         if closing then pa_ret (acc, False) else pa_bind elem (\<lambda>x. pa_ret (acc @ [x], True)))))"

text \<open>\<open>while self.check(kind) { xs.push(elem()?) }\<close> and \<open>while self.eat(kind) { xs.push(elem()?) }\<close>.\<close>

definition while_check :: "TokKind \<Rightarrow> 'a parser \<Rightarrow> 'a list \<Rightarrow> 'a list parser" where
  "while_check kind elem =
     pa_while (\<lambda>acc. pa_bind (pa_get (check kind)) (\<lambda>go.
       if go then pa_bind elem (\<lambda>x. pa_ret (acc @ [x], True)) else pa_ret (acc, False)))"

text \<open>
  A family of clauses of which one is mandatory: \<open>MissingClause\<close> unless the keyword is next, then
  \<open>while self.check(kind)\<close>.
\<close>

definition some_clauses :: "string \<Rightarrow> string \<Rightarrow> TokKind \<Rightarrow> 'a parser \<Rightarrow> 'a list parser" where
  "some_clauses item clause kind elem = pa_bind (pa_get (\<lambda>st. (check kind st, peek_span st))) (\<lambda>(here, span).
     if \<not> here then pa_err (MissingClause item clause span) else while_check kind elem [])"

text \<open>\<open>loop { xs.push(elem()?); if !self.eat(&TokKind::Comma) { break; } }\<close>, which admits no trailing comma.\<close>

definition strict_comma_list :: "'a parser \<Rightarrow> 'a list parser" where
  "strict_comma_list elem =
     pa_while (\<lambda>acc. pa_bind elem (\<lambda>x. pa_bind (eat Comma) (\<lambda>comma. pa_ret (acc @ [x], comma)))) []"

definition while_eat :: "TokKind \<Rightarrow> 'a parser \<Rightarrow> 'a list \<Rightarrow> 'a list parser" where
  "while_eat kind elem =
     pa_while (\<lambda>acc. pa_bind (eat kind) (\<lambda>go.
       if go then pa_bind elem (\<lambda>x. pa_ret (acc @ [x], True)) else pa_ret (acc, False)))"

text \<open>The equations that evaluate the primitives on a concrete list of tokens.\<close>

lemmas cursor_eval =
  MAX_RECURSION_DEPTH_def pa_ret_def pa_err_def pa_bind_def pa_get_def token_text_def describe_def
  ident_of_def int_of_def bool_of_def str_of_def hole_of_def token_under_def peek_def peek_span_def peek_nth_def at_eof_def
  prev_span_def advance_def bump_def check_def eat_def unexpected_error_def unexpected_def consume_def
  span_text_def eat_map_def take_ident_def eat_contextual_def expect_contextual_def pa_when_def under_def
  with_no_struct_literal_def with_struct_literal_def with_no_dot_def in_loop_body_def guard_recursion_def
  remaining_def pa_while_def comma_list_def opt_comma_list_def tuple_rest_def while_check_def some_clauses_def
  strict_comma_list_def while_eat_def eval_nat_numeral


section \<open>A logic of parsers\<close>

definition wf_ps :: "Parser \<Rightarrow> bool" where
  "wf_ps st \<longleftrightarrow> ps_pos st < length (ps_tokens st) \<and> tok_kind (last (ps_tokens st)) = Eof"

text \<open>Nothing but the cursor may change and, inside a function body, the collected holes.\<close>

definition same_flags :: "Parser \<Rightarrow> Parser \<Rightarrow> bool" where
  "same_flags st st' \<longleftrightarrow> ps_src st' = ps_src st \<and> ps_tokens st' = ps_tokens st \<and>
     ps_items st' = ps_items st \<and> ps_errors st' = ps_errors st \<and>
     ps_recursion_depth st' = ps_recursion_depth st \<and> ps_no_struct_literal st' = ps_no_struct_literal st \<and>
     ps_no_dot st' = ps_no_dot st \<and> ps_loop_depth st' = ps_loop_depth st \<and>
     ps_fn_body_depth st' = ps_fn_body_depth st \<and>
     (ps_fn_body_depth st = 0 \<longrightarrow> ps_pending_holes st' = ps_pending_holes st)"

text \<open>
  With at most \<open>k\<close> tokens left, at loop depth \<open>d\<close>, the parser answers, keeps the flags, does not move
  back, and a value it answers satisfies \<open>Q\<close>; when the value satisfies \<open>S\<close>, a token has been taken.
\<close>

definition outcome_ok ::
  "('a \<Rightarrow> bool) \<Rightarrow> ('a \<Rightarrow> bool) \<Rightarrow> Parser \<Rightarrow> ('a, SyntaxError) result \<times> Parser \<Rightarrow> bool" where
  "outcome_ok S Q st = (\<lambda>(r, st'). same_flags st st' \<and> wf_ps st' \<and> ps_pos st \<le> ps_pos st' \<and>
     (case r of Err _ \<Rightarrow> True | Ok x \<Rightarrow> Q x \<and> (S x \<longrightarrow> ps_pos st < ps_pos st')))"

definition parses :: "('a \<Rightarrow> bool) \<Rightarrow> nat \<Rightarrow> nat \<Rightarrow> ('a \<Rightarrow> bool) \<Rightarrow> 'a parser \<Rightarrow> bool" where
  "parses S d k Q p \<longleftrightarrow> (\<forall>st. wf_ps st \<and> remaining st \<le> k \<and> ps_loop_depth st = d \<longrightarrow>
     (case p st of None \<Rightarrow> False | Some out \<Rightarrow> outcome_ok S Q st out))"

abbreviation never :: "'a \<Rightarrow> bool" where "never \<equiv> (\<lambda>_. False)"
abbreviation any :: "'a \<Rightarrow> bool" where "any \<equiv> (\<lambda>_. True)"

lemma same_flags_refl [simp]: "same_flags st st"
  by (simp add: same_flags_def)

lemma same_flags_trans: "same_flags a b \<Longrightarrow> same_flags b c \<Longrightarrow> same_flags a c"
  by (simp add: same_flags_def)

lemma remaining_mono: "same_flags st st' \<Longrightarrow> ps_pos st \<le> ps_pos st' \<Longrightarrow> remaining st' \<le> remaining st"
  by (simp add: same_flags_def remaining_def)

lemma remaining_strict:
  "same_flags st st' \<Longrightarrow> wf_ps st' \<Longrightarrow> ps_pos st < ps_pos st' \<Longrightarrow> remaining st' < remaining st"
  by (auto simp: same_flags_def remaining_def wf_ps_def)

lemma outcome_ok_simps [simp]:
  "outcome_ok S Q st (Err e, st') \<longleftrightarrow> same_flags st st' \<and> wf_ps st' \<and> ps_pos st \<le> ps_pos st'"
  "outcome_ok S Q st (Ok x, st') \<longleftrightarrow> same_flags st st' \<and> wf_ps st' \<and> ps_pos st \<le> ps_pos st' \<and>
     Q x \<and> (S x \<longrightarrow> ps_pos st < ps_pos st')"
  by (auto simp: outcome_ok_def)

lemma parsesI:
  assumes "\<And>st. wf_ps st \<Longrightarrow> remaining st \<le> k \<Longrightarrow> ps_loop_depth st = d \<Longrightarrow>
    \<exists>r st'. p st = Some (r, st') \<and> outcome_ok S Q st (r, st')"
  shows "parses S d k Q p"
  unfolding parses_def using assms by fastforce

lemma parsesE:
  assumes "parses S d k Q p" "wf_ps st" "remaining st \<le> k" "ps_loop_depth st = d"
  obtains x st' where "p st = Some (Ok x, st')" "outcome_ok S Q st (Ok x, st')"
    | e st' where "p st = Some (Err e, st')" "outcome_ok S Q st (Err e, st')"
proof -
  have "case p st of None \<Rightarrow> False | Some out \<Rightarrow> outcome_ok S Q st out" using assms by (simp add: parses_def)
  then obtain r st' where "p st = Some (r, st')" "outcome_ok S Q st (r, st')" by (cases "p st") auto
  then show thesis using that by (cases r) auto
qed

lemma parses_mono:
  assumes "parses S d k Q p" "j \<le> k" "\<And>x. S' x \<Longrightarrow> S x" "\<And>x. Q x \<Longrightarrow> Q' x"
  shows "parses S' d j Q' p"
proof (rule parsesI)
  fix st
  assume "wf_ps st" "remaining st \<le> j" "ps_loop_depth st = d"
  with assms(2) have "wf_ps st" "remaining st \<le> k" "ps_loop_depth st = d" by simp_all
  with assms(1) show "\<exists>r st'. p st = Some (r, st') \<and> outcome_ok S' Q' st (r, st')"
    by (rule parsesE) (auto intro: assms(3,4))
qed

lemma after_Ok:
  assumes "outcome_ok S Q st (Ok x, st')" "remaining st \<le> k" "ps_loop_depth st = d"
  shows "wf_ps st'" "remaining st' \<le> k" "ps_loop_depth st' = d" "Q x" "S x \<Longrightarrow> remaining st' < k"
proof -
  have *: "same_flags st st'" "wf_ps st'" "ps_pos st \<le> ps_pos st'" "Q x" "S x \<Longrightarrow> ps_pos st < ps_pos st'"
    using assms(1) by simp_all
  show "wf_ps st'" "Q x" by (fact *)+
  show "remaining st' \<le> k" using remaining_mono [OF *(1,3)] assms(2) by simp
  show "ps_loop_depth st' = d" using *(1) assms(3) by (simp add: same_flags_def)
  show "remaining st' < k" if "S x" using remaining_strict [OF *(1,2) *(5) [OF that]] assms(2) by simp
qed

lemma outcome_trans:
  assumes "outcome_ok S Q st (Ok x, st')" "outcome_ok T R st' out"
    "\<And>y. T' y \<Longrightarrow> S x \<or> T y"
  shows "outcome_ok T' R st out"
  using assms by (auto simp: outcome_ok_def intro: same_flags_trans split: result.splits prod.splits)

text \<open>
  The two rules for sequences: what follows a step that has taken a token runs with fewer tokens
  and need not take one itself.
\<close>

lemma bind_outcome:
  assumes "p st = Some (Ok x, st')" "outcome_ok S Q st (Ok x, st')" "parses T d k R (f x)"
    "remaining st' \<le> k" "ps_loop_depth st = d" "\<And>y. T' y \<Longrightarrow> S x \<or> T y"
  shows "\<exists>r st''. pa_bind p f st = Some (r, st'') \<and> outcome_ok T' R st (r, st'')"
proof -
  have "wf_ps st'" "ps_loop_depth st' = d" using assms(2,5) by (simp_all add: same_flags_def)
  then obtain r st'' where "f x st' = Some (r, st'')" "outcome_ok T R st' (r, st'')"
    using assms(3,4) by (metis parsesE)
  then show ?thesis using outcome_trans [OF assms(2) _ assms(6)] by (auto simp: pa_bind_def assms(1))
qed

lemma parses_bind_strict:
  assumes "parses any d k Q p" "\<And>x j. Q x \<Longrightarrow> j < k \<Longrightarrow> parses never d j R (f x)"
  shows "parses T d k R (pa_bind p f)"
proof (rule parsesI)
  fix st
  assume st: "wf_ps st" "remaining st \<le> k" "ps_loop_depth st = d"
  from assms(1) st show "\<exists>r st'. pa_bind p f st = Some (r, st') \<and> outcome_ok T R st (r, st')"
  proof (rule parsesE)
    fix x st'
    assume p: "p st = Some (Ok x, st')" "outcome_ok any Q st (Ok x, st')"
    note after = after_Ok [OF p(2) st(2,3)]
    show ?thesis using assms(2) [OF after(4,5)] by (rule bind_outcome [where p = p and st = st, OF p]) (simp_all add: st)
  qed (auto simp: pa_bind_def)
qed

lemma parses_bind:
  assumes "parses never d k Q p" "\<And>x. Q x \<Longrightarrow> parses T d k R (f x)"
  shows "parses T d k R (pa_bind p f)"
proof (rule parsesI)
  fix st
  assume st: "wf_ps st" "remaining st \<le> k" "ps_loop_depth st = d"
  from assms(1) st show "\<exists>r st'. pa_bind p f st = Some (r, st') \<and> outcome_ok T R st (r, st')"
  proof (rule parsesE)
    fix x st'
    assume p: "p st = Some (Ok x, st')" "outcome_ok never Q st (Ok x, st')"
    note after = after_Ok [OF p(2) st(2,3)]
    show ?thesis using assms(2) [OF after(4)] after(2) by (rule bind_outcome [where p = p and st = st, OF p]) (simp_all add: st)
  qed (auto simp: pa_bind_def)
qed

lemma parses_ret: "Q x \<Longrightarrow> \<not> S x \<Longrightarrow> parses S d k Q (pa_ret x)"
  by (auto intro!: parsesI simp: pa_ret_def)

lemma parses_err: "parses S d k Q (pa_err e)"
  by (auto intro!: parsesI simp: pa_err_def)

lemma parses_unexpected: "parses S d k Q (unexpected w)"
  by (auto intro!: parsesI simp: unexpected_def)

lemma parses_get: "(\<And>x. parses S d k Q (f x)) \<Longrightarrow> parses S d k Q (pa_bind (pa_get g) f)"
  by (rule parses_bind [where Q = any]) (auto intro!: parsesI simp: pa_get_def)

lemma parses_if: "(b \<Longrightarrow> parses S d k Q p) \<Longrightarrow> (\<not> b \<Longrightarrow> parses S d k Q q) \<Longrightarrow> parses S d k Q (if b then p else q)"
  by simp

lemma parses_option:
  "(m = None \<Longrightarrow> parses S d k Q p) \<Longrightarrow> (\<And>x. m = Some x \<Longrightarrow> parses S d k Q (f x)) \<Longrightarrow>
     parses S d k Q (case m of None \<Rightarrow> p | Some x \<Rightarrow> f x)"
  by (cases m) simp_all

lemma parses_prod: "(\<And>a b. x = (a, b) \<Longrightarrow> parses S d k Q (f a b)) \<Longrightarrow> parses S d k Q (case x of (a, b) \<Rightarrow> f a b)"
  by (cases x) simp

lemma parses_Let: "parses S d k Q (f x) \<Longrightarrow> parses S d k Q (let y = x in f y)"
  by simp


section \<open>The primitives in the logic\<close>

lemma eof_at_end:
  assumes "wf_ps st" "peek st \<noteq> Eof"
  shows "ps_pos st < length (ps_tokens st) - 1"
proof (rule ccontr)
  assume "\<not> ?thesis"
  then have "ps_pos st = length (ps_tokens st) - 1" "ps_tokens st \<noteq> []" using assms(1) by (auto simp: wf_ps_def)
  then have "peek st = Eof" using assms(1) by (simp add: peek_def token_under_def wf_ps_def last_conv_nth)
  with assms(2) show False ..
qed

lemma advance_ok: "wf_ps st \<Longrightarrow> same_flags st (advance st) \<and> wf_ps (advance st) \<and> ps_pos st \<le> ps_pos (advance st)"
  by (auto simp: advance_def same_flags_def wf_ps_def)

lemma advance_strict: "wf_ps st \<Longrightarrow> peek st \<noteq> Eof \<Longrightarrow> ps_pos st < ps_pos (advance st)"
  using eof_at_end by (auto simp: advance_def)

lemma parses_bump: "parses never d k any bump"
  using advance_ok by (auto intro!: parsesI simp: bump_def)

lemma parses_consume: "kind \<noteq> Eof \<Longrightarrow> parses S d k any (consume kind what)"
  using advance_ok advance_strict
  by (auto intro!: parsesI simp: consume_def check_def bump_def unexpected_def)

lemma parses_eat: "kind \<noteq> Eof \<Longrightarrow> parses (\<lambda>b. b) d k any (eat kind)"
  using advance_ok advance_strict by (auto intro!: parsesI simp: eat_def check_def)

lemma parses_eat_map: "g Eof = None \<Longrightarrow> parses (\<lambda>m. m \<noteq> None) d k (\<lambda>m. \<forall>x. m = Some x \<longrightarrow> (\<exists>kind. g kind = Some x)) (eat_map g)"
  using advance_ok advance_strict
  by (intro parsesI) (force simp: eat_map_def split: option.splits)

lemma ident_not_Eof: "ident_of kind = Some w \<Longrightarrow> kind \<noteq> Eof"
  by (auto simp: ident_of_def)

lemma parses_eat_contextual: "parses (\<lambda>b. b) d k any (eat_contextual word)"
  using advance_ok advance_strict by (auto intro!: parsesI simp: eat_contextual_def ident_not_Eof)

lemma parses_take_ident: "parses S d k any (take_ident what)"
  using advance_ok advance_strict
  by (intro parsesI) (force simp: take_ident_def unexpected_def ident_of_def split: option.splits)

lemma parses_take_string: "parses S d k any (take_string what)"
  using advance_ok advance_strict
  by (intro parsesI) (force simp: take_string_def unexpected_def str_of_def split: option.splits)

lemma parses_expect_contextual: "parses S d k any (expect_contextual word)"
  using advance_ok advance_strict
  by (intro parsesI)
    (force simp: expect_contextual_def eat_contextual_def pa_bind_def pa_ret_def unexpected_def ident_of_def)

text \<open>A step that says whether it has taken a token.\<close>

lemma parses_bind_if:
  assumes "parses (\<lambda>b. b) d k any p" "\<And>j. j < k \<Longrightarrow> parses never d j R (f True)" "parses T d k R (f False)"
  shows "parses T d k R (pa_bind p f)"
proof (rule parsesI)
  fix st
  assume st: "wf_ps st" "remaining st \<le> k" "ps_loop_depth st = d"
  from assms(1) st show "\<exists>r st'. pa_bind p f st = Some (r, st') \<and> outcome_ok T R st (r, st')"
  proof (rule parsesE)
    fix b st'
    assume p: "p st = Some (Ok b, st')" "outcome_ok (\<lambda>b. b) any st (Ok b, st')"
    note after = after_Ok [OF p(2) st(2,3)]
    show ?thesis
    proof (cases b)
      case True
      with assms(2) [of "remaining st'"] after(5) show ?thesis
        by (intro bind_outcome [where p = p and st = st and T = never and k = "remaining st'", OF p]) (simp_all add: st)
    next
      case False
      with assms(3) after(2) show ?thesis by (intro bind_outcome [where p = p and st = st and T = T and k = k, OF p]) (simp_all add: st)
    qed
  qed (auto simp: pa_bind_def)
qed

lemma parses_bind_option:
  assumes "parses (\<lambda>m. m \<noteq> None) d k Q p" "\<And>x j. Q (Some x) \<Longrightarrow> j < k \<Longrightarrow> parses never d j R (f (Some x))"
    "parses T d k R (f None)"
  shows "parses T d k R (pa_bind p f)"
proof (rule parsesI)
  fix st
  assume st: "wf_ps st" "remaining st \<le> k" "ps_loop_depth st = d"
  from assms(1) st show "\<exists>r st'. pa_bind p f st = Some (r, st') \<and> outcome_ok T R st (r, st')"
  proof (rule parsesE)
    fix m st'
    assume p: "p st = Some (Ok m, st')" "outcome_ok (\<lambda>m. m \<noteq> None) Q st (Ok m, st')"
    note after = after_Ok [OF p(2) st(2,3)]
    show ?thesis
    proof (cases m)
      case (Some x)
      with assms(2) [of x "remaining st'"] after(4,5) show ?thesis
        by (intro bind_outcome [where p = p and st = st and T = never and k = "remaining st'", OF p]) (simp_all add: st)
    next
      case None
      with assms(3) after(2) show ?thesis by (intro bind_outcome [where p = p and st = st and T = T and k = k, OF p]) (simp_all add: st)
    qed
  qed (auto simp: pa_bind_def)
qed


lemmas parses_bind_consume = parses_bind_strict [OF parses_consume]
lemmas parses_bind_ident = parses_bind_strict [OF parses_take_ident]
lemmas parses_bind_string = parses_bind_strict [OF parses_take_string]
lemmas parses_bind_expect = parses_bind_strict [OF parses_expect_contextual]
lemmas parses_bind_eat = parses_bind_if [OF parses_eat]
lemmas parses_bind_contextual = parses_bind_if [OF parses_eat_contextual]
lemmas parses_bind_eat_map = parses_bind_option [OF parses_eat_map]


lemma parses_when: "(b \<Longrightarrow> parses never d k Q p) \<Longrightarrow> parses never d k (pred_option Q) (pa_when b p)"
  unfolding pa_when_def by (intro parses_if parses_bind [where Q = Q and p = p] parses_ret) simp_all


section \<open>Changed flags\<close>

lemma parses_under:
  assumes "parses S d' k Q p"
    "\<And>st. wf_ps st \<Longrightarrow> ps_loop_depth st = d \<Longrightarrow>
       wf_ps (enter st) \<and> remaining (enter st) = remaining st \<and> ps_loop_depth (enter st) = d'"
    "\<And>st r st'. outcome_ok S Q (enter st) (r, st') \<Longrightarrow> outcome_ok S Q st (r, leave st st')"
  shows "parses S d k Q (under enter leave p)"
proof (rule parsesI)
  fix st
  assume st: "wf_ps st" "remaining st \<le> k" "ps_loop_depth st = d"
  then have "wf_ps (enter st)" "remaining (enter st) \<le> k" "ps_loop_depth (enter st) = d'" using assms(2) by auto
  with assms(1) show "\<exists>r st'. under enter leave p st = Some (r, st') \<and> outcome_ok S Q st (r, st')"
    by (rule parsesE) (auto simp: under_def intro!: assms(3) simp del: outcome_ok_simps)
qed

lemmas under_simps = outcome_ok_def same_flags_def wf_ps_def remaining_def

lemma parses_no_struct: "parses S d k Q p \<Longrightarrow> parses S d k Q (with_no_struct_literal p)"
  unfolding with_no_struct_literal_def
  by (rule parses_under) (auto simp: under_simps split: result.splits)

lemma parses_struct: "parses S d k Q p \<Longrightarrow> parses S d k Q (with_struct_literal p)"
  unfolding with_struct_literal_def
  by (rule parses_under) (auto simp: under_simps split: result.splits)

lemma parses_no_dot: "parses S d k Q p \<Longrightarrow> parses S d k Q (with_no_dot p)"
  unfolding with_no_dot_def
  by (rule parses_under) (auto simp: under_simps split: result.splits)

lemma parses_in_loop: "parses S (Suc d) k Q p \<Longrightarrow> parses S d k Q (in_loop_body p)"
  unfolding in_loop_body_def
  by (rule parses_under) (auto simp: under_simps split: result.splits)

lemma parses_guard:
  assumes "parses S d k Q p"
  shows "parses S d k Q (guard_recursion p)"
proof -
  have "parses S d k Q (under (\<lambda>st. st\<lparr>ps_recursion_depth := ps_recursion_depth st + 1\<rparr>)
             (\<lambda>st st'. st'\<lparr>ps_recursion_depth := ps_recursion_depth st' - 1\<rparr>) p)"
    using assms by (rule parses_under) (auto simp: under_simps split: result.splits)
  then show ?thesis unfolding parses_def guard_recursion_def by (simp add: pa_err_def)
qed


section \<open>Loops\<close>

text \<open>
  The body keeps \<open>I\<close> of the value it goes round with and takes a token then; the value it stops
  with satisfies \<open>R\<close>.
\<close>

lemma parses_loop:
  assumes "\<And>a j. I a \<Longrightarrow> j \<le> k \<Longrightarrow> parses snd d j (\<lambda>(a, more). if more then I a else R a) (body a)"
  shows "I a \<Longrightarrow> k < n \<Longrightarrow> parses never d k R (pa_loop n body a)"
  using assms
proof (induction n arbitrary: k a)
  case (Suc n)
  let ?Q = "\<lambda>(a, more). if more then I a else R a"
  show ?case
  proof (rule parsesI)
    fix st
    assume st: "wf_ps st" "remaining st \<le> k" "ps_loop_depth st = d"
    have "parses snd d k ?Q (body a)" by (rule Suc.prems(3)) (simp_all add: Suc.prems)
    then show "\<exists>r st'. pa_loop (Suc n) body a st = Some (r, st') \<and> outcome_ok never R st (r, st')"
      unfolding pa_loop.simps using st
    proof (rule parsesE)
      fix x st'
      assume p: "body a st = Some (Ok x, st')" "outcome_ok snd ?Q st (Ok x, st')"
      note after = after_Ok [OF p(2) st(2,3)]
      obtain b more where x: "x = (b, more)" by (cases x)
      show "\<exists>r st''. pa_bind (body a) (\<lambda>(acc, more). if more then pa_loop n body acc else pa_ret acc) st
          = Some (r, st'') \<and> outcome_ok never R st (r, st'')"
      proof (cases more)
        case True
        then have "I b" "remaining st' < k" using after(4,5) x by auto
        then have "parses never d (remaining st') R (pa_loop n body b)"
          using Suc.prems(2,3) by (intro Suc.IH) simp_all
        then show ?thesis
          by (intro bind_outcome [where p = "body a" and st = st and T = never and k = "remaining st'", OF p])
            (simp_all add: st x True)
      next
        case False
        have "parses never d k R (pa_ret b)" by (rule parses_ret) (use after(4) x False in simp_all)
        then show ?thesis using after(2)
          by (intro bind_outcome [where p = "body a" and st = st and T = never, OF p]) (simp_all add: st x False)
      qed
    qed (auto simp: pa_bind_def)
  qed
qed simp

lemma parses_while:
  assumes "I a" "\<And>a j. I a \<Longrightarrow> j \<le> k \<Longrightarrow> parses snd d j (\<lambda>(a, more). if more then I a else R a) (body a)"
  shows "parses never d k R (pa_while body a)"
proof (rule parsesI)
  fix st
  assume st: "wf_ps st" "remaining st \<le> k" "ps_loop_depth st = d"
  have "parses never d (remaining st) R (pa_loop (Suc (remaining st)) body a)"
    by (rule parses_loop [where I = I]) (use assms st in auto)
  from this st(1) order_refl st(3)
  show "\<exists>r st'. pa_while body a st = Some (r, st') \<and> outcome_ok never R st (r, st')"
    unfolding pa_while_def by (rule parsesE) (auto simp del: outcome_ok_simps)
qed


text \<open>The lists of the grammar: every element satisfies what the element parser promises.\<close>

lemma parses_comma_list:
  assumes "close \<noteq> Eof" "\<And>j. j \<le> k \<Longrightarrow> parses any d j Q elem"
  shows "parses never d k (\<lambda>xs. xs \<noteq> [] \<and> list_all Q xs) (comma_list close elem)"
  unfolding comma_list_def
proof (rule parses_while [where I = "list_all Q"])
  fix acc j
  assume "list_all Q acc" "j \<le> k"
  then show "parses snd d j (\<lambda>(a, more). if more then list_all Q a else a \<noteq> [] \<and> list_all Q a)
      (pa_bind elem (\<lambda>x. pa_bind (eat Comma) (\<lambda>comma.
         if \<not> comma then pa_ret (acc @ [x], False)
         else pa_bind (pa_get (check close)) (\<lambda>closing. pa_ret (acc @ [x], \<not> closing)))))"
    by (intro parses_bind_strict [OF assms(2)] parses_bind_eat parses_if parses_get parses_ret) simp_all
qed simp

lemma parses_opt_comma_list:
  assumes "close \<noteq> Eof" "\<And>j. j \<le> k \<Longrightarrow> parses any d j Q elem"
  shows "parses never d k (list_all Q) (opt_comma_list close elem)"
proof -
  have "parses never d k (list_all Q) (comma_list close elem)"
    by (rule parses_mono [OF parses_comma_list [OF assms] order_refl]) auto
  then show ?thesis unfolding opt_comma_list_def by (intro parses_get parses_if parses_ret) simp_all
qed

lemma parses_strict_comma_list:
  assumes "\<And>j. j \<le> k \<Longrightarrow> parses any d j Q elem"
  shows "parses never d k (\<lambda>xs. xs \<noteq> [] \<and> list_all Q xs) (strict_comma_list elem)"
  unfolding strict_comma_list_def
proof (rule parses_while [where I = "list_all Q"])
  fix acc j
  assume "list_all Q acc" "j \<le> k"
  then show "parses snd d j (\<lambda>(a, more). if more then list_all Q a else a \<noteq> [] \<and> list_all Q a)
      (pa_bind elem (\<lambda>x. pa_bind (eat Comma) (\<lambda>comma. pa_ret (acc @ [x], comma))))"
    by (intro parses_bind_strict [OF assms] parses_bind_eat parses_ret) simp_all
qed simp

lemma parses_tuple_rest:
  assumes "\<And>j. j < k \<Longrightarrow> parses any d j Q elem" "list_all Q acc"
  shows "parses never d k (\<lambda>xs. length acc \<le> length xs \<and> list_all Q xs) (tuple_rest close elem acc)"
  unfolding tuple_rest_def
proof (rule parses_while [where I = "\<lambda>xs. length acc \<le> length xs \<and> list_all Q xs"])
  fix a j
  assume "length acc \<le> length a \<and> list_all Q a" "j \<le> k"
  then show "parses snd d j (\<lambda>(a, more). if more then length acc \<le> length a \<and> list_all Q a
         else length acc \<le> length a \<and> list_all Q a)
      (pa_bind (eat Comma) (\<lambda>comma.
       if \<not> comma then pa_ret (a, False)
       else pa_bind (pa_get (check close)) (\<lambda>closing.
         if closing then pa_ret (a, False) else pa_bind elem (\<lambda>x. pa_ret (a @ [x], True)))))"
    by (intro parses_bind_eat) (auto intro!: parses_get parses_if parses_bind_strict [OF assms(1)] parses_ret)
qed (simp add: assms)

lemma parses_while_eat:
  assumes "kind \<noteq> Eof" "\<And>j. j < k \<Longrightarrow> parses any d j Q elem" "list_all Q acc"
  shows "parses never d k (\<lambda>xs. length acc \<le> length xs \<and> list_all Q xs) (while_eat kind elem acc)"
  unfolding while_eat_def
proof (rule parses_while [where I = "\<lambda>xs. length acc \<le> length xs \<and> list_all Q xs"])
  fix a j
  assume "length acc \<le> length a \<and> list_all Q a" "j \<le> k"
  then show "parses snd d j (\<lambda>(a, more). if more then length acc \<le> length a \<and> list_all Q a
         else length acc \<le> length a \<and> list_all Q a)
      (pa_bind (eat kind) (\<lambda>go. if go then pa_bind elem (\<lambda>x. pa_ret (a @ [x], True)) else pa_ret (a, False)))"
    by (intro parses_bind_eat assms(1)) (auto intro!: parses_bind_strict [OF assms(2)] parses_ret)
qed (simp add: assms)

lemma parses_while_check:
  assumes "\<And>j. j \<le> k \<Longrightarrow> parses any d j Q elem" "list_all Q acc"
  shows "parses never d k (\<lambda>xs. length acc \<le> length xs \<and> list_all Q xs) (while_check kind elem acc)"
  unfolding while_check_def
proof (rule parses_while [where I = "\<lambda>xs. length acc \<le> length xs \<and> list_all Q xs"])
  fix a j
  assume "length acc \<le> length a \<and> list_all Q a" "j \<le> k"
  then show "parses snd d j (\<lambda>(a, more). if more then length acc \<le> length a \<and> list_all Q a
         else length acc \<le> length a \<and> list_all Q a)
      (pa_bind (pa_get (check kind)) (\<lambda>go. if go then pa_bind elem (\<lambda>x. pa_ret (a @ [x], True)) else pa_ret (a, False)))"
    by (intro parses_get parses_if parses_bind_strict [OF assms(1)] parses_ret) simp_all
qed (simp add: assms)


lemma while_check_first:
  assumes "check kind st" "remaining st = Suc n"
  shows "while_check kind elem [] st =
    pa_bind elem (\<lambda>x. pa_loop (Suc n)
      (\<lambda>acc. pa_bind (pa_get (check kind)) (\<lambda>go.
         if go then pa_bind elem (\<lambda>x. pa_ret (acc @ [x], True)) else pa_ret (acc, False))) [x]) st"
  using assms by (simp add: while_check_def pa_while_def pa_bind_def pa_get_def pa_ret_def split: option.split result.split prod.split)


lemma parses_while_first:
  assumes "\<And>j. j \<le> k \<Longrightarrow> parses any d j Q elem"
  shows "parses S d k (\<lambda>xs. xs \<noteq> [] \<and> list_all Q xs)
    (pa_bind elem (\<lambda>x. pa_loop k
      (\<lambda>acc. pa_bind (pa_get (check kind)) (\<lambda>go.
         if go then pa_bind elem (\<lambda>x. pa_ret (acc @ [x], True)) else pa_ret (acc, False))) [x]))"
proof (rule parses_bind_strict [OF assms [OF order_refl]])
  fix x j
  assume "Q x" "j < k"
  then show "parses never d j (\<lambda>xs. xs \<noteq> [] \<and> list_all Q xs)
      (pa_loop k (\<lambda>acc. pa_bind (pa_get (check kind)) (\<lambda>go.
         if go then pa_bind elem (\<lambda>x. pa_ret (acc @ [x], True)) else pa_ret (acc, False))) [x])"
    by (intro parses_loop [where I = "\<lambda>xs. xs \<noteq> [] \<and> list_all Q xs"] parses_get parses_if
        parses_bind_strict [OF assms] parses_ret) simp_all
qed

lemma parses_some_clauses:
  assumes "kind \<noteq> Eof" "\<And>j. j \<le> k \<Longrightarrow> parses any d j Q elem"
  shows "parses S d k (\<lambda>xs. xs \<noteq> [] \<and> list_all Q xs) (some_clauses item clause kind elem)"
proof (rule parsesI)
  fix st
  assume st: "wf_ps st" "remaining st \<le> k" "ps_loop_depth st = d"
  show "\<exists>r st'. some_clauses item clause kind elem st = Some (r, st') \<and>
      outcome_ok S (\<lambda>xs. xs \<noteq> [] \<and> list_all Q xs) st (r, st')"
  proof (cases "check kind st")
    case True
    then have "peek st \<noteq> Eof" using assms(1) by (simp add: check_def)
    from eof_at_end [OF st(1) this] obtain n where n: "remaining st = Suc n"
      by (cases "remaining st") (simp_all add: remaining_def)
    then have "parses any d j Q elem" if "j \<le> Suc n" for j using assms(2) st(2) that by simp
    from parses_while_first [OF this, where S = S and kind = kind] st(1) eq_imp_le [OF n] st(3) show ?thesis
      by (rule parsesE)
        (auto simp: some_clauses_def pa_bind_def [of "pa_get _"] pa_get_def True while_check_first [OF True n]
          simp del: outcome_ok_simps)
  next
    case False
    then show ?thesis using st(1) by (simp add: some_clauses_def pa_bind_def pa_get_def pa_err_def)
  qed
qed

end
