(* ===== verification/Parser_Type.thy ===== *)
theory Parser_Type
  imports Parser_Core
begin

text \<open>
  Types and patterns of the grammar (\<open>parse_type\<close>, \<open>parse_pattern\<close> and what they call in
  \<open>thermite-syntax/src/parser.rs\<close>). A function of the source that calls back into the grammar takes the
  parser it calls as an argument; the knot is tied on fuel, of which one unit per token left
  is enough because every call takes a token first.
\<close>

definition ellipsis :: string where
  "ellipsis = [CHR 0xE2, CHR 0x80, CHR 0xA6]"

definition em_dash :: string where
  "em_dash = [CHR 0xE2, CHR 0x80, CHR 0x94]"


section \<open>Types\<close>

definition parse_paren_type :: "Type parser \<Rightarrow> Type parser" where
  "parse_paren_type T =
     pa_bind (eat RParen) (\<lambda>b. if b then pa_ret Type.Unit else
     pa_bind T (\<lambda>first.
     pa_bind (pa_get (check Comma)) (\<lambda>comma.
       if \<not> comma then
         pa_bind (consume RParen ''`)` to close the parenthesised type `(T)`'') (\<lambda>_. pa_ret first)
       else
         pa_bind (tuple_rest RParen T [first]) (\<lambda>elems.
         pa_bind (consume RParen (''`)` to close the tuple type `(T, U, '' @ ellipsis @ '')`'')) (\<lambda>_.
         pa_ret (Type.Tuple elems))))))"

definition parse_ref_type :: "Type parser \<Rightarrow> Type parser" where
  "parse_ref_type T =
     pa_bind (eat Mut) (\<lambda>mutable.
     pa_bind (eat LBracket) (\<lambda>slice.
       if slice then
         pa_bind T (\<lambda>inner. pa_bind (consume RBracket ''`]`'') (\<lambda>_. pa_ret (Type.Ref mutable (Type.Slice inner))))
       else pa_bind T (\<lambda>inner. pa_ret (Type.Ref mutable inner))))"

definition parse_type_arg :: "Type parser \<Rightarrow> string \<Rightarrow> (Type \<Rightarrow> Type) \<Rightarrow> Type parser" where
  "parse_type_arg T name mk =
     pa_bind (consume TokKind.Lt (''`<` after `'' @ name @ ''`'')) (\<lambda>_.
     pa_bind T (\<lambda>inner.
     pa_bind (consume TokKind.Gt (''`>` to close `'' @ name @ ''<'' @ ellipsis @ ''>`'')) (\<lambda>_. pa_ret (mk inner))))"

definition parse_type_args2 :: "Type parser \<Rightarrow> string \<Rightarrow> string \<Rightarrow> (Type \<Rightarrow> Type \<Rightarrow> Type) \<Rightarrow> Type parser" where
  "parse_type_args2 T name args mk =
     pa_bind (consume TokKind.Lt (''`<` after `'' @ name @ ''`'')) (\<lambda>_.
     pa_bind T (\<lambda>a.
     pa_bind (consume Comma (''`,` between `'' @ name @ ''<'' @ args @ ''>` args'')) (\<lambda>_.
     pa_bind T (\<lambda>b.
     pa_bind (consume TokKind.Gt (''`>` to close `'' @ name @ ''<'' @ ellipsis @ '', '' @ ellipsis @ ''>`'')) (\<lambda>_.
     pa_ret (mk a b))))))"

definition parse_named_type :: "Type parser \<Rightarrow> string \<Rightarrow> Type parser" where
  "parse_named_type T name =
     (if name = ''u8'' then pa_ret (Prim U8)
      else if name = ''u16'' then pa_ret (Prim U16)
      else if name = ''u32'' then pa_ret (Prim U32)
      else if name = ''u64'' then pa_ret (Prim U64)
      else if name = ''usize'' then pa_ret (Prim Usize)
      else if name = ''bool'' then pa_ret (Prim PrimType.Bool)
      else if name = ''Box'' then parse_type_arg T ''Box'' Type.Box
      else if name = ''Vec'' then parse_type_arg T ''Vec'' Type.Vec
      else if name = ''String'' then pa_ret Type.String
      else if name = ''Option'' then parse_type_arg T ''Option'' Type.Option
      else if name = ''Result'' then parse_type_args2 T ''Result'' ''T, E'' Type.Result
      else if name = ''Map'' then parse_type_args2 T ''Map'' ''K, V'' Type.Map
      else
        pa_bind (eat TokKind.Lt) (\<lambda>b.
          if b then
            pa_bind T (\<lambda>arg. pa_bind (consume TokKind.Gt ''`>`'') (\<lambda>_. pa_ret (Type.Generic name arg)))
          else pa_ret (Type.Named name)))"

definition parse_type_inner :: "Type parser \<Rightarrow> Type parser" where
  "parse_type_inner T =
     pa_bind (eat LParen) (\<lambda>b. if b then parse_paren_type T else
     pa_bind (eat Amp) (\<lambda>b. if b then parse_ref_type T else
     pa_bind (eat_map ident_of) (\<lambda>m. case m of
         Some name \<Rightarrow> parse_named_type T name
       | None \<Rightarrow> unexpected ''a type'')))"

fun parse_type_fuel :: "nat \<Rightarrow> Type parser" where
  "parse_type_fuel 0 st = None"
| "parse_type_fuel (Suc n) st = guard_recursion (parse_type_inner (parse_type_fuel n)) st"

definition parse_type :: "Type parser" where
  "parse_type st = parse_type_fuel (Suc (remaining st)) st"

lemmas type_eval =
  parse_paren_type_def parse_ref_type_def parse_type_arg_def parse_named_type_def parse_type_inner_def
  parse_type_def

text \<open>
  The types the grammar has: a slice stands behind a reference, a tuple has a component, and a
  plain name is none of the names with a meaning of their own.
\<close>

definition type_words :: "string list" where
  "type_words = [''u8'', ''u16'', ''u32'', ''u64'', ''usize'', ''bool'', ''Box'', ''Vec'', ''String'', ''Option'',
     ''Result'', ''Map'']"

fun wf_type :: "Type \<Rightarrow> bool" where
  "wf_type (Prim _) = True"
| "wf_type Type.Unit = True"
| "wf_type (Type.Ref _ (Type.Slice t)) = wf_type t"
| "wf_type (Type.Ref _ t) = wf_type t"
| "wf_type (Type.Slice _) = False"
| "wf_type (Type.Generic name t) = (name \<notin> set type_words \<and> wf_type t)"
| "wf_type (Type.Named name) = (name \<notin> set type_words)"
| "wf_type (Type.Box t) = wf_type t"
| "wf_type (Type.Vec t) = wf_type t"
| "wf_type Type.String = True"
| "wf_type (Type.Option t) = wf_type t"
| "wf_type (Type.Result t u) = (wf_type t \<and> wf_type u)"
| "wf_type (Type.Map t u) = (wf_type t \<and> wf_type u)"
| "wf_type (Type.Tuple ts) = (ts \<noteq> [] \<and> list_all wf_type ts)"

lemma wf_type_Ref: "wf_type t \<Longrightarrow> wf_type (Type.Ref m t)"
  by (cases t) auto

lemmas parses_rules = parses_bind_consume parses_bind_ident parses_bind_string parses_bind_expect
  parses_bind_eat parses_bind_contextual parses_bind_eat_map parses_get parses_if parses_option parses_prod
  parses_Let parses_ret parses_err parses_unexpected

lemma parses_type_inner:
  assumes "\<And>j. j < k \<Longrightarrow> parses any d j wf_type T"
  shows "parses S d k wf_type (parse_type_inner T)"
proof -
  note T = parses_bind_strict [OF assms]
  have arg: "parses never d j wf_type (parse_type_arg T name mk)"
    if "\<And>t. wf_type t \<Longrightarrow> wf_type (mk t)" "j < k" for j name mk
    unfolding parse_type_arg_def using that by (intro parses_rules T) simp_all
  have args2: "parses never d j wf_type (parse_type_args2 T name args mk)"
    if "\<And>t u. wf_type t \<Longrightarrow> wf_type u \<Longrightarrow> wf_type (mk t u)" "j < k" for j name args mk
    unfolding parse_type_args2_def using that by (intro parses_rules T) simp_all
  have "parses never d j wf_type (parse_paren_type T)" if "j < k" for j
    unfolding parse_paren_type_def using that
    by (intro parses_rules T parses_bind [OF parses_tuple_rest [OF assms]]) auto
  moreover have "parses never d j wf_type (parse_ref_type T)" if "j < k" for j
    unfolding parse_ref_type_def using that by (intro parses_rules T) (auto intro: wf_type_Ref)
  moreover have "parses never d j wf_type (parse_named_type T name)" if "j < k" for j name
    unfolding parse_named_type_def using that
    by (intro parses_rules T arg args2) (simp_all add: type_words_def)
  ultimately show ?thesis
    unfolding parse_type_inner_def by (intro parses_rules) (auto simp: ident_of_def)
qed

lemma parses_type_fuel: "k < n \<Longrightarrow> parses S d k wf_type (parse_type_fuel n)"
proof (induction n arbitrary: S k)
  case (Suc n)
  have "parses S d k wf_type (guard_recursion (parse_type_inner (parse_type_fuel n)))"
    by (intro parses_guard parses_type_inner Suc.IH) (use Suc.prems in simp)
  then show ?case by (simp add: parses_def)
qed simp

lemma parses_type: "parses S d k wf_type parse_type"
  using parses_type_fuel unfolding parses_def parse_type_def by blast



section \<open>Patterns\<close>

definition parse_slice_pattern :: "Expr Pattern parser \<Rightarrow> Expr Pattern parser" where
  "parse_slice_pattern P =
     pa_bind (consume LBracket ''`[`'') (\<lambda>_.
     pa_bind (opt_comma_list RBracket
       (pa_bind (eat DotDot) (\<lambda>rest.
          if rest then pa_bind (take_ident ''a rest binding name'') (\<lambda>name. pa_ret (Rest name))
          else pa_bind P (\<lambda>p. pa_ret (Pat p))))) (\<lambda>elems.
     pa_bind (consume RBracket ''`]`'') (\<lambda>_. pa_ret (Pattern.Slice elems))))"

text \<open>One round of the loop of a struct pattern, which stops at \<open>..\<close> and sets the flag.\<close>

definition parse_field_pattern ::
  "Expr Pattern parser \<Rightarrow> (Ident \<times> Expr Pattern) list \<times> bool \<Rightarrow>
     (((Ident \<times> Expr Pattern) list \<times> bool) \<times> bool) parser" where
  "parse_field_pattern P acc =
     (case acc of (fs, rest) \<Rightarrow>
       pa_bind (eat DotDot) (\<lambda>dots.
         if dots then pa_ret ((fs, True), False) else
         pa_bind (take_ident ''a field name'') (\<lambda>name.
         pa_bind (eat Colon) (\<lambda>colon.
         pa_bind (if colon then P else pa_ret (Binding name)) (\<lambda>pat.
         pa_bind (eat Comma) (\<lambda>comma.
           if \<not> comma then pa_ret ((fs @ [(name, pat)], rest), False)
           else pa_bind (pa_get (check RBrace)) (\<lambda>closing.
             pa_ret ((fs @ [(name, pat)], rest), \<not> closing))))))))"

definition parse_struct_pattern :: "Expr Pattern parser \<Rightarrow> Ident list \<Rightarrow> Expr Pattern parser" where
  "parse_struct_pattern P path =
     pa_bind (consume LBrace ''`{`'') (\<lambda>_.
     pa_bind (pa_get (check RBrace)) (\<lambda>empty.
     pa_bind (if empty then pa_ret ([], False) else pa_while (parse_field_pattern P) ([], False)) (\<lambda>(fields, rest).
     pa_bind (consume RBrace ''`}`'') (\<lambda>_. pa_ret (Pattern.Struct path fields rest)))))"

text \<open>Identifiers are ASCII, so upper case is that of ASCII.\<close>

definition starts_uppercase :: "string \<Rightarrow> bool" where
  "starts_uppercase name = (case name of [] \<Rightarrow> False | c # _ \<Rightarrow> 65 \<le> byte c \<and> byte c \<le> 90)"

definition parse_path_segments :: "string \<Rightarrow> string \<Rightarrow> Ident list parser" where
  "parse_path_segments first segment =
     pa_bind (take_ident first) (\<lambda>name. while_eat ColonCol (take_ident segment) [name])"

definition parse_path_pattern :: "Expr Pattern parser \<Rightarrow> Expr Pattern parser" where
  "parse_path_pattern P =
     pa_bind (parse_path_segments ''a pattern path'' ''a path segment'') (\<lambda>path.
     pa_bind (eat LParen) (\<lambda>paren.
       if paren then
         pa_bind (pa_get (check RParen)) (\<lambda>empty.
         pa_bind (if empty then pa_ret [] else strict_comma_list P) (\<lambda>fields.
         pa_bind (consume RParen ''`)`'') (\<lambda>_. pa_ret (Pattern.Enum path fields))))
       else pa_bind (pa_get (check LBrace)) (\<lambda>brace.
         if brace then parse_struct_pattern P path
         else if length path = 1 then
           (if starts_uppercase (path ! 0) then pa_ret (Pattern.Enum path [])
            else pa_ret (Binding (path ! 0)))
         else pa_ret (Pattern.Enum path []))))"

definition parse_pattern_inner :: "Expr Pattern parser \<Rightarrow> Expr Pattern parser" where
  "parse_pattern_inner P =
     pa_bind (eat_contextual ''_'') (\<lambda>wild. if wild then pa_ret Wildcard else
     pa_bind (eat_map int_of) (\<lambda>m. case m of Some (value, raw) \<Rightarrow> pa_ret (Literal (IntLit value raw)) | None \<Rightarrow>
     pa_bind (eat_map bool_of) (\<lambda>m. case m of Some b \<Rightarrow> pa_ret (Literal (BoolLit b)) | None \<Rightarrow>
     pa_bind (pa_get (check LBracket)) (\<lambda>bracket. if bracket then parse_slice_pattern P else
     pa_bind (pa_get peek) (\<lambda>kind. if ident_of kind \<noteq> None then parse_path_pattern P
       else unexpected ''a pattern'')))))"

definition parse_pattern_with :: "Expr Pattern parser \<Rightarrow> Expr Pattern parser" where
  "parse_pattern_with P =
     pa_bind (guard_recursion (parse_pattern_inner P)) (\<lambda>first.
     pa_bind (pa_get (check Pipe)) (\<lambda>pipe.
       if \<not> pipe then pa_ret first
       else pa_bind (while_eat Pipe (guard_recursion (parse_pattern_inner P)) [first]) (\<lambda>alts.
         pa_ret (Pattern.Or alts))))"

fun parse_pattern_fuel :: "nat \<Rightarrow> Expr Pattern parser" where
  "parse_pattern_fuel 0 st = None"
| "parse_pattern_fuel (Suc n) st = parse_pattern_with (parse_pattern_fuel n) st"

definition parse_pattern :: "Expr Pattern parser" where
  "parse_pattern st = parse_pattern_fuel (Suc (remaining st)) st"

text \<open>
  The patterns the grammar has: literals are numbers and truth values, paths have a segment, and an
  alternative is not itself a list of alternatives.
\<close>

fun literal :: "Expr \<Rightarrow> bool" where
  "literal (IntLit _ _) = True"
| "literal (BoolLit _) = True"
| "literal _ = False"

fun is_or :: "'e Pattern \<Rightarrow> bool" where
  "is_or (Pattern.Or _) = True"
| "is_or _ = False"

fun wf_pattern :: "Expr Pattern \<Rightarrow> bool" and wf_slice_pat :: "Expr SlicePat \<Rightarrow> bool" where
  "wf_pattern Wildcard = True"
| "wf_pattern (Literal e) = literal e"
| "wf_pattern (Binding _) = True"
| "wf_pattern (Pattern.Slice ps) = list_all wf_slice_pat ps"
| "wf_pattern (Pattern.Enum path ps) = (path \<noteq> [] \<and> list_all wf_pattern ps)"
| "wf_pattern (Pattern.Struct path fs _) = (path \<noteq> [] \<and> list_all (\<lambda>f. wf_pattern (snd f)) fs)"
| "wf_pattern (Pattern.Or ps) = (ps \<noteq> [] \<and> list_all wf_pattern ps \<and> list_all (\<lambda>p. \<not> is_or p) ps)"
| "wf_slice_pat (Pat p) = wf_pattern p"
| "wf_slice_pat (Rest _) = True"


lemma parses_path_segments: "parses S d k (\<lambda>path. path \<noteq> []) (parse_path_segments first segment)"
proof -
  have "parses never d j (\<lambda>path. path \<noteq> []) (while_eat ColonCol (take_ident segment) [name])" for j name
    by (rule parses_mono [OF parses_while_eat [where Q = any, OF _ parses_take_ident] order_refl]) auto
  then show ?thesis unfolding parse_path_segments_def by (intro parses_rules)
qed

lemma parses_field_pattern:
  assumes "\<And>j. j < k \<Longrightarrow> parses any d j wf_pattern P" "list_all (\<lambda>f. wf_pattern (snd f)) (fst acc)"
  shows "parses snd d k (\<lambda>(a, _). list_all (\<lambda>f. wf_pattern (snd f)) (fst a)) (parse_field_pattern P acc)"
proof -
  have "parses never d j wf_pattern (if colon then P else pa_ret (Binding name))" if "j < k" for j colon name
    using that by (intro parses_if parses_mono [OF assms(1) order_refl] parses_ret) simp_all
  note P = parses_bind [OF this]
  show ?thesis unfolding parse_field_pattern_def using assms(2)
    by (cases acc) (simp only: prod.case, intro parses_rules P, simp_all)
qed

lemma parses_struct_pattern:
  assumes "\<And>j. j < k \<Longrightarrow> parses any d j wf_pattern P" "path \<noteq> []"
  shows "parses S d k (\<lambda>p. wf_pattern p \<and> \<not> is_or p) (parse_struct_pattern P path)"
proof -
  have "parses never d i (\<lambda>(fields, _). list_all (\<lambda>f. wf_pattern (snd f)) fields)
      (pa_while (parse_field_pattern P) ([], False))" if "i < k" for i
    by (rule parses_while [where I = "\<lambda>a. list_all (\<lambda>f. wf_pattern (snd f)) (fst a)"])
      (use that in \<open>auto intro!: parses_mono [OF parses_field_pattern [OF assms(1)] order_refl]\<close>)
  note loop = parses_bind [OF parses_if [OF parses_ret this]]
  show ?thesis unfolding parse_struct_pattern_def using assms(2) by (intro parses_rules loop) auto
qed

lemma parses_slice_pattern:
  assumes "\<And>j. j < k \<Longrightarrow> parses any d j wf_pattern P"
  shows "parses S d k (\<lambda>p. wf_pattern p \<and> \<not> is_or p) (parse_slice_pattern P)"
proof -
  have "parses any d j wf_slice_pat (pa_bind (eat DotDot) (\<lambda>rest.
          if rest then pa_bind (take_ident ''a rest binding name'') (\<lambda>name. pa_ret (Rest name))
          else pa_bind P (\<lambda>p. pa_ret (Pat p))))" if "j < k" for j
    using that by (intro parses_rules parses_bind_strict [OF assms]) simp_all
  note elem = parses_bind [OF parses_opt_comma_list [OF _ this]]
  show ?thesis unfolding parse_slice_pattern_def by (intro parses_rules elem) auto
qed

lemma parses_path_pattern:
  assumes "\<And>j. j < k \<Longrightarrow> parses any d j wf_pattern P"
  shows "parses S d k (\<lambda>p. wf_pattern p \<and> \<not> is_or p) (parse_path_pattern P)"
proof -
  have "parses never d j (list_all wf_pattern) (if empty then pa_ret [] else strict_comma_list P)" if "j < k" for j empty
    using that by (intro parses_if parses_ret parses_mono [OF parses_strict_comma_list [OF assms] order_refl]) auto
  note fields = parses_bind [OF this]
  show ?thesis unfolding parse_path_pattern_def
    by (intro parses_rules parses_bind_strict [OF parses_path_segments] fields parses_struct_pattern assms) auto
qed

lemma parses_pattern_inner:
  assumes "\<And>j. j < k \<Longrightarrow> parses any d j wf_pattern P"
  shows "parses S d k (\<lambda>p. wf_pattern p \<and> \<not> is_or p) (parse_pattern_inner P)"
  unfolding parse_pattern_inner_def
  by (intro parses_rules parses_slice_pattern parses_path_pattern assms) (auto simp: int_of_def bool_of_def)

lemma parses_pattern_with:
  assumes "\<And>j. j < k \<Longrightarrow> parses any d j wf_pattern P"
  shows "parses S d k wf_pattern (parse_pattern_with P)"
proof -
  let ?Q = "\<lambda>p. wf_pattern p \<and> \<not> is_or p"
  have inner: "parses any d j ?Q (guard_recursion (parse_pattern_inner P))" if "j \<le> k" for j
    using that by (intro parses_guard parses_pattern_inner assms) simp
  have "parses never d j (\<lambda>alts. alts \<noteq> [] \<and> list_all ?Q alts)
      (while_eat Pipe (guard_recursion (parse_pattern_inner P)) [first])" if "j < k" "?Q first" for j first
    by (rule parses_mono [OF parses_while_eat [where Q = ?Q, OF _ inner] order_refl]) (use that in auto)
  note alts = parses_bind [OF this]
  show ?thesis unfolding parse_pattern_with_def
    by (intro parses_bind_strict [OF inner] parses_rules alts) (auto simp: list_all_iff)
qed

lemma parses_pattern_fuel: "k < n \<Longrightarrow> parses S d k wf_pattern (parse_pattern_fuel n)"
proof (induction n arbitrary: S k)
  case (Suc n)
  have "parses S d k wf_pattern (parse_pattern_with (parse_pattern_fuel n))"
    by (intro parses_pattern_with Suc.IH) (use Suc.prems in simp)
  then show ?case by (simp add: parses_def)
qed simp

lemma parses_pattern: "parses S d k wf_pattern parse_pattern"
  using parses_pattern_fuel unfolding parses_def parse_pattern_def by blast

end
