(* ===== verification/Parser_Expr.thy ===== *)
theory Parser_Expr
  imports Parser_Type
begin

text \<open>
  Expressions, clauses, statements and blocks of the grammar in \<open>thermite-syntax/src/parser.rs\<close>. The
  functions take the expression parser \<open>E\<close> and the block parser \<open>B\<close> they call back; \<open>bv\<close> says whether
  the crate is built with the feature that admits bit-vector tags. The lemmas show that with one
  unit of fuel per token left every function answers, and that what it answers is well formed: a
  loop has an invariant, \<open>break\<close> and \<open>continue\<close> stand inside a loop, a path has a segment.
\<close>

section \<open>Clauses\<close>

definition width_of :: "string \<Rightarrow> BvWidth option" where
  "width_of w =
     (if w = ''bv8'' then Some W8 else if w = ''bv16'' then Some W16
      else if w = ''bv32'' then Some W32 else if w = ''bv64'' then Some W64 else None)"

definition parse_bv_width :: "BvWidth parser" where
  "parse_bv_width =
     pa_bind (pa_get (\<lambda>st. (peek st, peek_span st))) (\<lambda>(kind, span).
       case ident_of kind of
         None \<Rightarrow> pa_err (BvWidthInvalid (token_text kind) span)
       | Some w \<Rightarrow>
           (case width_of w of
              None \<Rightarrow> pa_err (BvWidthInvalid w span)
            | Some width \<Rightarrow> pa_bind bump (\<lambda>_. pa_ret width)))"

definition parse_nowrap :: "bool parser" where
  "parse_nowrap =
     pa_bind (eat LParen) (\<lambda>paren.
       if \<not> paren then pa_ret False else
       pa_bind (take_ident ''`nowrap`'') (\<lambda>marker.
         if marker \<noteq> ''nowrap'' then
           pa_bind (pa_get prev_span) (\<lambda>span.
             pa_err (Unexpected ''`nowrap`'' (''identifier `'' @ marker @ ''`'') span))
         else pa_bind (consume RParen ''`)` to close `(nowrap)`'') (\<lambda>_. pa_ret True)))"

definition parse_bv_tag :: "bool \<Rightarrow> BvTag option parser" where
  "parse_bv_tag bv =
     pa_bind (pa_get (\<lambda>st. (check At st, peek_span st))) (\<lambda>(at, at_span).
       if \<not> at then pa_ret None
       else if \<not> bv then pa_err (BvTagWithoutShadowPlumbing at_span)
       else
         pa_bind bump (\<lambda>_.
         pa_bind parse_bv_width (\<lambda>width.
         pa_bind parse_nowrap (\<lambda>nowrap.
         pa_bind (pa_get prev_span) (\<lambda>end_span.
           pa_ret (Some \<lparr>bv_width = width, bv_nowrap = nowrap, bv_span = Span_to at_span end_span\<rparr>))))))"

text \<open>An expression with the stretch of the source it was read from.\<close>

definition spanned_clause :: "Span \<Rightarrow> BvTag option \<Rightarrow> Expr parser \<Rightarrow> Expr Clause parser" where
  "spanned_clause start tag p =
     pa_bind p (\<lambda>expr.
     pa_bind (pa_get (\<lambda>st. Span_to start (prev_span st))) (\<lambda>span.
     pa_bind (pa_get (span_text span)) (\<lambda>text.
       pa_ret (Clause expr text span tag))))"

definition parse_clause :: "bool \<Rightarrow> Expr parser \<Rightarrow> TokKind \<Rightarrow> Expr Clause parser" where
  "parse_clause bv E keyword =
     pa_bind (consume keyword ''a clause keyword'') (\<lambda>_.
     pa_bind (parse_bv_tag bv) (\<lambda>tag.
       if keyword = Req \<and> tag \<noteq> None then pa_err (BvTagOnPrecondition (bv_span (the tag)))
       else
         pa_bind (pa_get peek_span) (\<lambda>start.
           spanned_clause start tag (with_no_struct_literal E))))"

definition nth_starts_expr :: "nat \<Rightarrow> Parser \<Rightarrow> bool" where
  "nth_starts_expr n st \<longleftrightarrow>
     peek_nth st n \<notin> set [LBrace, RBrace, RParen, Semi, Comma, Eof, Req, Ens, Fx, TokKind.Inv, Dec]"

definition parse_dec_clause :: "Expr parser \<Rightarrow> Expr Clause parser" where
  "parse_dec_clause E =
     pa_bind (consume Dec ''`dec`'') (\<lambda>_.
     pa_bind (pa_get (\<lambda>st. (peek_span st, ident_of (peek st) = Some ''wf'' \<and> nth_starts_expr 1 st))) (\<lambda>(start, wf).
       if wf then
         pa_bind bump (\<lambda>_.
           spanned_clause start None
             (pa_bind (with_no_struct_literal E) (\<lambda>rel. pa_ret (Call (Path [''wf'']) [rel]))))
       else spanned_clause start None (with_no_struct_literal E)))"


section \<open>Expressions\<close>

definition parse_call_args :: "Expr parser \<Rightarrow> Expr list parser" where
  "parse_call_args E =
     pa_bind (consume LParen ''`(`'') (\<lambda>_.
     pa_bind (pa_get (check RParen)) (\<lambda>empty.
     pa_bind (if empty then pa_ret [] else with_struct_literal (comma_list RParen E)) (\<lambda>args.
     pa_bind (consume RParen ''`)`'') (\<lambda>_. pa_ret args))))"

definition parse_index_arg_inner :: "Expr parser \<Rightarrow> Expr IndexArg parser" where
  "parse_index_arg_inner E =
     pa_bind (eat DotDot) (\<lambda>dots.
       if dots then pa_bind E (\<lambda>hi. pa_ret (RangeTo hi))
       else
         pa_bind E (\<lambda>lo.
         pa_bind (eat DotDot) (\<lambda>dots.
           if dots then
             pa_bind (pa_get (check RBracket)) (\<lambda>closing.
               if closing then pa_ret (RangeFrom lo) else pa_bind E (\<lambda>hi. pa_ret (Range lo hi)))
           else pa_ret (Single lo))))"

definition parse_index_arg :: "Expr parser \<Rightarrow> Expr IndexArg parser" where
  "parse_index_arg E = with_struct_literal (parse_index_arg_inner E)"

definition quant_of :: "TokKind \<Rightarrow> Quant option" where
  "quant_of kind =
     (if kind = TokKind.Forall then Some Quant.Forall
      else if kind = TokKind.Exists then Some Quant.Exists else None)"

definition parse_quantifier :: "Expr parser \<Rightarrow> Expr parser" where
  "parse_quantifier E =
     pa_bind (eat_map quant_of) (\<lambda>m. case m of
         None \<Rightarrow> unexpected ''`forall` or `exists`''
       | Some quant \<Rightarrow>
           pa_bind (consume LParen ''`(` to open the quantifier binder'') (\<lambda>_.
           pa_bind (take_ident ''a bound variable name'') (\<lambda>var.
           pa_bind (consume Colon ''`:` between the bound variable and its sort'') (\<lambda>_.
           pa_bind (take_ident ''a sort name'') (\<lambda>sort.
           pa_bind (consume RParen ''`)` to close the quantifier binder'') (\<lambda>_.
           pa_bind (take_ident ''`in` after the quantifier binder'') (\<lambda>in_kw.
             if in_kw \<noteq> ''in'' then unexpected ''`in` after the quantifier binder''
             else
               pa_bind (with_no_dot E) (\<lambda>domain.
               pa_bind (consume Dot ''`.` separating the quantifier domain from its body'') (\<lambda>_.
               pa_bind E (\<lambda>body. pa_ret (Quantifier quant var sort domain body)))))))))))"

definition parse_struct_lit :: "Expr parser \<Rightarrow> Ident list \<Rightarrow> Expr parser" where
  "parse_struct_lit E path =
     pa_bind (consume LBrace ''`{`'') (\<lambda>_.
     pa_bind (pa_get (check RBrace)) (\<lambda>empty.
     pa_bind
       (if empty then pa_ret [] else
          with_struct_literal (comma_list RBrace
            (pa_bind (take_ident ''a field name'') (\<lambda>name.
             pa_bind (consume Colon ''`:`'') (\<lambda>_.
             pa_bind E (\<lambda>value. pa_ret (name, value))))))) (\<lambda>fs.
     pa_bind (consume RBrace ''`}`'') (\<lambda>_. pa_ret (StructLit path fs)))))"

definition parse_path_expr :: "Expr parser \<Rightarrow> Expr parser" where
  "parse_path_expr E =
     pa_bind (parse_path_segments ''a path'' ''a path segment'') (\<lambda>segments.
     pa_bind (pa_get (\<lambda>st. \<not> ps_no_struct_literal st \<and> check LBrace st)) (\<lambda>lit.
       if lit then parse_struct_lit E segments else pa_ret (Path segments)))"

definition closure_body :: "Expr parser \<Rightarrow> Ident list \<Rightarrow> Expr parser" where
  "closure_body E params = pa_bind E (\<lambda>body. pa_ret (Closure params body))"

definition parse_closure :: "Expr parser \<Rightarrow> Expr parser" where
  "parse_closure E =
     pa_bind (eat OrOr) (\<lambda>none.
       if none then closure_body E []
       else
         pa_bind (consume Pipe ''`|`'') (\<lambda>_.
         pa_bind (pa_get (check Pipe)) (\<lambda>empty.
         pa_bind (if empty then pa_ret [] else strict_comma_list (take_ident ''a closure parameter'')) (\<lambda>params.
         pa_bind (consume Pipe ''`|`'') (\<lambda>_. closure_body E params)))))"

definition parse_match_arm :: "Expr parser \<Rightarrow> Expr MatchArm parser" where
  "parse_match_arm E =
     pa_bind parse_pattern (\<lambda>pattern.
     pa_bind (eat TokKind.If) (\<lambda>guarded.
     pa_bind (pa_when guarded (with_no_struct_literal E)) (\<lambda>guard.
     pa_bind (consume FatArrow ''`=>`'') (\<lambda>_.
     pa_bind (with_struct_literal E) (\<lambda>body. pa_ret (MatchArm pattern guard body))))))"

definition parse_match :: "Expr parser \<Rightarrow> Expr parser" where
  "parse_match E =
     pa_bind (consume TokKind.Match ''`match`'') (\<lambda>_.
     pa_bind (with_no_struct_literal E) (\<lambda>scrutinee.
     pa_bind (consume LBrace ''`{`'') (\<lambda>_.
     pa_bind
       (pa_while (\<lambda>arms.
          pa_bind (pa_get (\<lambda>st. check RBrace st \<or> at_eof st)) (\<lambda>stop.
            if stop then pa_ret (arms, False)
            else pa_bind (parse_match_arm E) (\<lambda>arm. pa_bind (eat Comma) (\<lambda>comma. pa_ret (arms @ [arm], comma))))) [])
       (\<lambda>arms.
     pa_bind (consume RBrace ''`}`'') (\<lambda>_. pa_ret (Expr.Match scrutinee arms))))))"

definition parse_if_expr :: "Expr parser \<Rightarrow> Block parser \<Rightarrow> Expr parser" where
  "parse_if_expr E B =
     pa_bind (consume TokKind.If ''`if`'') (\<lambda>_.
     pa_bind (with_no_struct_literal E) (\<lambda>cond.
     pa_bind B (\<lambda>thn.
     pa_bind (consume Else ''`else` (an `if` expression must have one)'') (\<lambda>_.
     pa_bind B (\<lambda>els. pa_ret (Expr.If cond thn els))))))"

definition parse_paren_expr :: "Expr parser \<Rightarrow> Expr parser" where
  "parse_paren_expr E =
     pa_bind (pa_get (check RParen)) (\<lambda>empty.
       if empty then unexpected ''an expression (an empty `()` is not a value form)''
       else
         pa_bind E (\<lambda>first.
         pa_bind (pa_get (check Comma)) (\<lambda>comma.
           if \<not> comma then pa_bind (consume RParen ''`)`'') (\<lambda>_. pa_ret first)
           else
             pa_bind (tuple_rest RParen E [first]) (\<lambda>elems.
             pa_bind (consume RParen (''`)` to close the tuple `(a, b, '' @ ellipsis @ '')`'')) (\<lambda>_.
               pa_ret (Expr.Tuple elems))))))"

definition parse_primary :: "Expr parser \<Rightarrow> Block parser \<Rightarrow> Expr parser" where
  "parse_primary E B =
     pa_bind (eat_map int_of) (\<lambda>m. case m of Some (value, raw) \<Rightarrow> pa_ret (IntLit value raw) | None \<Rightarrow>
     pa_bind (eat_map bool_of) (\<lambda>m. case m of Some b \<Rightarrow> pa_ret (BoolLit b) | None \<Rightarrow>
     pa_bind (eat_map str_of) (\<lambda>m. case m of Some s \<Rightarrow> pa_ret (StrLit s) | None \<Rightarrow>
     pa_bind (pa_get peek) (\<lambda>kind.
       if ident_of kind \<noteq> None then parse_path_expr E
       else if kind = Pipe \<or> kind = OrOr then parse_closure E
       else if kind = TokKind.Match then parse_match E
       else if kind = TokKind.If then parse_if_expr E B
       else if kind = TokKind.Forall \<or> kind = TokKind.Exists then parse_quantifier E
       else
         pa_bind (eat LParen) (\<lambda>paren.
           if paren then with_struct_literal (parse_paren_expr E) else unexpected ''an expression'')))))"


text \<open>What follows a dot: a tuple index, a method call or a field.\<close>

definition parse_dot :: "Expr parser \<Rightarrow> Expr \<Rightarrow> Expr parser" where
  "parse_dot E expr =
     pa_bind (eat_map int_of) (\<lambda>m. case m of
         Some (value, raw) \<Rightarrow>
           (if unat value < 2 ^ 64 then pa_ret (TupleProj expr (unat value))
            else unexpected ''a tuple projection index within `usize`'')
       | None \<Rightarrow>
           pa_bind (take_ident ''a field or method name'') (\<lambda>name.
           pa_bind (pa_get (check LParen)) (\<lambda>paren.
             if paren then pa_bind (parse_call_args E) (\<lambda>args. pa_ret (MethodCall expr name args))
             else pa_ret (Field expr name))))"

definition postfix_step :: "Expr parser \<Rightarrow> Expr \<Rightarrow> (Expr \<times> bool) parser" where
  "postfix_step E expr =
     pa_bind (pa_get (\<lambda>st. check Dot st \<and> ps_no_dot st)) (\<lambda>stop.
       if stop then pa_ret (expr, False) else
     pa_bind (eat Dot) (\<lambda>dot.
       if dot then pa_bind (parse_dot E expr) (\<lambda>e. pa_ret (e, True)) else
     pa_bind (eat LBracket) (\<lambda>bracket.
       if bracket then
         pa_bind (parse_index_arg E) (\<lambda>index.
         pa_bind (consume RBracket ''`]`'') (\<lambda>_. pa_ret (Index expr index, True))) else
     pa_bind (pa_get (check LParen)) (\<lambda>paren.
       if paren then pa_bind (parse_call_args E) (\<lambda>args. pa_ret (Call expr args, True))
       else pa_ret (expr, False)))))"

definition parse_postfix :: "Expr parser \<Rightarrow> Block parser \<Rightarrow> Expr parser" where
  "parse_postfix E B = pa_bind (parse_primary E B) (pa_while (postfix_step E))"

text \<open>The two prefix levels call themselves; each call has taken a token.\<close>

fun parse_ref_fuel :: "nat \<Rightarrow> Expr parser \<Rightarrow> Expr parser" where
  "parse_ref_fuel 0 p st = None"
| "parse_ref_fuel (Suc n) p st =
     pa_bind (eat Amp) (\<lambda>amp.
       if amp then
         pa_bind (eat Mut) (\<lambda>mutable. pa_bind (parse_ref_fuel n p) (\<lambda>expr. pa_ret (Expr.Ref mutable expr)))
       else pa_bind (eat Star) (\<lambda>star.
         if star then pa_bind (parse_ref_fuel n p) (\<lambda>expr. pa_ret (Deref expr)) else p)) st"

definition parse_ref :: "Expr parser \<Rightarrow> Block parser \<Rightarrow> Expr parser" where
  "parse_ref E B st = parse_ref_fuel (Suc (remaining st)) (parse_postfix E B) st"

fun parse_unary_fuel :: "nat \<Rightarrow> Expr parser \<Rightarrow> Expr parser" where
  "parse_unary_fuel 0 p st = None"
| "parse_unary_fuel (Suc n) p st =
     pa_bind (eat Bang) (\<lambda>bang.
       if bang then pa_bind (parse_unary_fuel n p) (\<lambda>expr. pa_ret (Unary Not expr)) else p) st"

definition parse_unary :: "Expr parser \<Rightarrow> Block parser \<Rightarrow> Expr parser" where
  "parse_unary E B st = parse_unary_fuel (Suc (remaining st)) (parse_ref E B) st"

definition parse_cast :: "Expr parser \<Rightarrow> Block parser \<Rightarrow> Expr parser" where
  "parse_cast E B =
     pa_bind (parse_unary E B) (pa_while (\<lambda>expr.
       pa_bind (eat As) (\<lambda>as_kw.
         if as_kw then pa_bind parse_type (\<lambda>ty. pa_ret (Cast expr ty, True)) else pa_ret (expr, False))))"

text \<open>The levels of left-associative operators differ in their operators and in the level below.\<close>

definition left_assoc :: "(TokKind \<Rightarrow> BinOp option) \<Rightarrow> Expr parser \<Rightarrow> Expr parser" where
  "left_assoc op sub =
     pa_bind sub (pa_while (\<lambda>lhs.
       pa_bind (eat_map op) (\<lambda>m. case m of
           None \<Rightarrow> pa_ret (lhs, False)
         | Some op \<Rightarrow> pa_bind sub (\<lambda>rhs. pa_ret (Binary op lhs rhs, True)))))"

definition parse_mul :: "Expr parser \<Rightarrow> Block parser \<Rightarrow> Expr parser" where
  "parse_mul E B = left_assoc (map_of [(Star, Mul), (Slash, Div), (Percent, Rem)]) (parse_cast E B)"

definition parse_add :: "Expr parser \<Rightarrow> Block parser \<Rightarrow> Expr parser" where
  "parse_add E B = left_assoc (map_of [(Plus, Add), (Minus, Sub)]) (parse_mul E B)"

definition parse_shift :: "Expr parser \<Rightarrow> Block parser \<Rightarrow> Expr parser" where
  "parse_shift E B = left_assoc (map_of [(TokKind.Shl, BinOp.Shl), (TokKind.Shr, BinOp.Shr)]) (parse_add E B)"

definition parse_bitand :: "Expr parser \<Rightarrow> Block parser \<Rightarrow> Expr parser" where
  "parse_bitand E B = left_assoc (map_of [(Amp, BitAnd)]) (parse_shift E B)"

definition parse_bitxor :: "Expr parser \<Rightarrow> Block parser \<Rightarrow> Expr parser" where
  "parse_bitxor E B = left_assoc (map_of [(Caret, BitXor)]) (parse_bitand E B)"

definition parse_bitor :: "Expr parser \<Rightarrow> Block parser \<Rightarrow> Expr parser" where
  "parse_bitor E B = left_assoc (map_of [(Pipe, BitOr)]) (parse_bitxor E B)"

definition parse_is :: "Expr parser \<Rightarrow> Block parser \<Rightarrow> Expr parser" where
  "parse_is E B =
     pa_bind (parse_bitor E B) (\<lambda>scrutinee.
     pa_bind (eat TokKind.Is) (\<lambda>is_kw.
       if is_kw then
         pa_bind (parse_path_segments ''a variant name after `is`'' ''a variant path segment'') (\<lambda>variant.
           pa_ret (Expr.Is scrutinee variant))
       else pa_ret scrutinee))"

definition cmp_of :: "TokKind \<Rightarrow> BinOp option" where
  "cmp_of = map_of [(EqEq, BinOp.Eq), (TokKind.Ne, BinOp.Ne), (TokKind.Lt, BinOp.Lt), (TokKind.Le, BinOp.Le),
     (TokKind.Gt, BinOp.Gt), (TokKind.Ge, BinOp.Ge)]"

definition parse_cmp :: "Expr parser \<Rightarrow> Block parser \<Rightarrow> Expr parser" where
  "parse_cmp E B =
     pa_bind (parse_is E B) (\<lambda>lhs.
     pa_bind (eat_map cmp_of) (\<lambda>m. case m of
         Some op \<Rightarrow> pa_bind (parse_is E B) (\<lambda>rhs. pa_ret (Binary op lhs rhs))
       | None \<Rightarrow> pa_ret lhs))"

definition parse_and :: "Expr parser \<Rightarrow> Block parser \<Rightarrow> Expr parser" where
  "parse_and E B = left_assoc (map_of [(AndAnd, BinOp.And)]) (parse_cmp E B)"

definition parse_or :: "Expr parser \<Rightarrow> Block parser \<Rightarrow> Expr parser" where
  "parse_or E B = left_assoc (map_of [(OrOr, BinOp.Or)]) (parse_and E B)"


section \<open>Statements\<close>

definition binding_name :: "Ident option parser" where
  "binding_name =
     pa_bind (eat_map ident_of) (\<lambda>m. case m of
         Some name \<Rightarrow> pa_ret (if name = ''_'' then None else Some name)
       | None \<Rightarrow> unexpected (''a binding name or `_` in a tuple-destructuring `let` (v0.1 admits only flat names ''
           @ em_dash @ '' a nested pattern is out of scope)''))"

text \<open>The bindings of a destructuring \<open>let\<close>: the tuple under a fresh name, then its components.\<close>

definition destructure :: "bool \<Rightarrow> Ident \<Rightarrow> Expr \<Rightarrow> Ident option list \<Rightarrow> Stmt list" where
  "destructure mutable temp init elems =
     Stmt.Let False temp None init
     # concat (map (\<lambda>(i, elem). case elem of
           None \<Rightarrow> []
         | Some name \<Rightarrow> [Stmt.Let mutable name None (TupleProj (Path [temp]) i)]) (enumerate 0 elems))"

definition parse_let_tuple_destructure :: "Expr parser \<Rightarrow> bool \<Rightarrow> Stmt list parser" where
  "parse_let_tuple_destructure E mutable =
     pa_bind (pa_get peek_span) (\<lambda>start.
     pa_bind (consume LParen ''`(` to open a tuple-destructuring `let`'') (\<lambda>_.
     pa_bind (opt_comma_list RParen binding_name) (\<lambda>elems.
     pa_bind (consume RParen ''`)` to close the tuple-destructuring `let`'') (\<lambda>_.
     pa_bind (consume TokKind.Eq ''`=` after a tuple-destructuring `let`'') (\<lambda>_.
     pa_bind E (\<lambda>init.
     pa_bind (consume Semi ''`;`'') (\<lambda>_.
       pa_ret (destructure mutable (''__td'' @ show_nat (sp_start start)) init elems))))))))"

definition parse_let :: "Expr parser \<Rightarrow> Stmt list parser" where
  "parse_let E =
     pa_bind (consume TokKind.Let ''`let`'') (\<lambda>_.
     pa_bind (eat Mut) (\<lambda>mutable.
     pa_bind (pa_get (check LParen)) (\<lambda>paren.
       if paren then parse_let_tuple_destructure E mutable
       else
         pa_bind (take_ident ''a binding name'') (\<lambda>name.
         pa_bind (eat Colon) (\<lambda>colon.
         pa_bind (pa_when colon parse_type) (\<lambda>ty.
         pa_bind (consume TokKind.Eq ''`=`'') (\<lambda>_.
         pa_bind E (\<lambda>init.
         pa_bind (consume Semi ''`;`'') (\<lambda>_. pa_ret [Stmt.Let mutable name ty init]))))))))) "

definition for_range :: "Expr parser \<Rightarrow> (Expr \<times> Expr) parser" where
  "for_range E =
     pa_bind E (\<lambda>lo.
     pa_bind (consume DotDot ''`..` in the `for` range `lo..hi` (only an exclusive integer range is admitted)'') (\<lambda>_.
     pa_bind E (\<lambda>hi. pa_ret (lo, hi))))"

text \<open>The \<open>while\<close> loop a \<open>for\<close> loop stands for.\<close>

definition for_loop :: "Span \<Rightarrow> Ident \<Rightarrow> Expr \<Rightarrow> Expr \<Rightarrow> Expr Clause list \<Rightarrow> Block \<Rightarrow> Span \<Rightarrow> Stmt list" where
  "for_loop start var lo hi invs body end_span =
     [Stmt.Let True var None lo,
      Stmt.Loop (LoopNode (LoopKind.While (Binary BinOp.Lt (Path [var]) hi)) invs
        (Clause (Binary Sub hi (Path [var])) ''hi - i'' start None)
        (Block (block_stmts body @ [Assign (Path [var]) (Binary Add (Path [var]) (IntLit 1 ''1''))])
          (block_tail body))
        (Span_to start end_span))]"

definition parse_for :: "bool \<Rightarrow> Expr parser \<Rightarrow> Block parser \<Rightarrow> Stmt list parser" where
  "parse_for bv E B =
     pa_bind (pa_get peek_span) (\<lambda>start.
     pa_bind (take_ident ''`for`'') (\<lambda>kw.
       if kw \<noteq> ''for'' then unexpected ''`for`'' else
     pa_bind (take_ident ''a `for` loop variable'') (\<lambda>var.
     pa_bind (take_ident ''`in` after the `for` loop variable'') (\<lambda>in_kw.
       if in_kw \<noteq> ''in'' then unexpected ''`in` after the `for` loop variable'' else
     pa_bind (with_no_struct_literal (for_range E)) (\<lambda>(lo, hi).
     pa_bind (some_clauses ''for'' ''inv'' TokKind.Inv (parse_clause bv E TokKind.Inv)) (\<lambda>invs.
     pa_bind (pa_get (\<lambda>st. (check Dec st, describe (peek st), peek_span st))) (\<lambda>(dec, found, span).
       if dec then
         pa_err (Unexpected (''the loop body `{` (a `for` loop'' @ [CHR 0x27] @ ''s `dec` is automatic '' @ em_dash @
           '' `dec hi - i` '' @ em_dash @ '' so the user writes no `dec`)'') found span)
       else
         pa_bind (in_loop_body B) (\<lambda>body.
         pa_bind (pa_get prev_span) (\<lambda>end_span.
           pa_ret (for_loop start var lo hi invs body end_span))))))))))"

definition block_into_arm_body :: "Block \<Rightarrow> string \<Rightarrow> Expr parser" where
  "block_into_arm_body block what =
     pa_bind (pa_get peek_span) (\<lambda>span.
       if block_stmts block \<noteq> [] then
         pa_err (Unexpected (''a single value expression in '' @ what @
           '' (a v0.1 `if let` branch is `{ value }` '' @ em_dash @ '' no leading statements)'') ''a statement'' span)
       else case block_tail block of
           Some tail \<Rightarrow> pa_ret tail
         | None \<Rightarrow>
             pa_err (Unexpected (''a value expression in '' @ what @ '' (its branch must produce a value)'')
               ''an empty/value-less block'' span))"

definition parse_if_let :: "Expr parser \<Rightarrow> Block parser \<Rightarrow> (Expr \<times> bool) parser" where
  "parse_if_let E B =
     pa_bind (consume TokKind.If ''`if`'') (\<lambda>_.
     pa_bind (consume TokKind.Let ''`let`'') (\<lambda>_.
     pa_bind parse_pattern (\<lambda>pattern.
     pa_bind (consume TokKind.Eq ''`=` in `if let P = e`'') (\<lambda>_.
     pa_bind (with_no_struct_literal E) (\<lambda>scrutinee.
     pa_bind B (\<lambda>thn.
     pa_bind (consume Else (''`else` (a v0.1 `if let` requires an `else` '' @ em_dash @
       '' its branches must produce a value)'')) (\<lambda>_.
     pa_bind B (\<lambda>els.
     pa_bind (block_into_arm_body thn ''the `if let` then-branch'') (\<lambda>then_body.
     pa_bind (block_into_arm_body els ''the `if let` else-branch'') (\<lambda>else_body.
       pa_ret (Expr.Match scrutinee [MatchArm pattern None then_body, MatchArm Wildcard None else_body], True)))))))))))"

definition pattern_path :: "Expr Pattern \<Rightarrow> Ident list option" where
  "pattern_path p =
     (case p of Pattern.Enum path _ \<Rightarrow> Some path | Pattern.Struct path _ _ \<Rightarrow> Some path | _ \<Rightarrow> None)"

text \<open>The mandatory clauses of a loop, with the keyword the diagnostics name.\<close>

definition parse_loop_clauses :: "bool \<Rightarrow> Expr parser \<Rightarrow> string \<Rightarrow> (Expr Clause list \<times> Expr Clause) parser" where
  "parse_loop_clauses bv E item =
     pa_bind (some_clauses item ''inv'' TokKind.Inv (parse_clause bv E TokKind.Inv)) (\<lambda>invs.
     pa_bind (pa_get (\<lambda>st. (check Dec st, peek_span st))) (\<lambda>(dec, span).
       if \<not> dec then pa_err (MissingClause item ''dec'' span)
       else pa_bind (parse_dec_clause E) (\<lambda>dec. pa_ret (invs, dec))))"

definition parse_while_let :: "bool \<Rightarrow> Expr parser \<Rightarrow> Block parser \<Rightarrow> (Expr, Block) LoopNode parser" where
  "parse_while_let bv E B =
     pa_bind (pa_get peek_span) (\<lambda>start.
     pa_bind (consume TokKind.While ''`while`'') (\<lambda>_.
     pa_bind (consume TokKind.Let ''`let`'') (\<lambda>_.
     pa_bind parse_pattern (\<lambda>pattern.
       case pattern_path pattern of
         None \<Rightarrow> unexpected (''a variant pattern after `while let` (e.g. `Some(_)` '' @ em_dash @
           '' v0.1 admits a payload-free variant; the loop runs while `e is Variant`)'')
       | Some variant \<Rightarrow>
           pa_bind (consume TokKind.Eq ''`=` in `while let P = e`'') (\<lambda>_.
           pa_bind (with_no_struct_literal E) (\<lambda>scrutinee.
           pa_bind (parse_loop_clauses bv E ''while'') (\<lambda>(invs, dec).
           pa_bind (in_loop_body B) (\<lambda>body.
           pa_bind (pa_get prev_span) (\<lambda>end_span.
             pa_ret (LoopNode (LoopKind.While (Expr.Is scrutinee variant)) invs dec body (Span_to start end_span)))))))))))"

definition parse_break_continue :: "bool \<Rightarrow> Stmt parser" where
  "parse_break_continue is_break =
     (let keyword = (if is_break then ''break'' else ''continue'') in
      pa_bind (pa_get peek_span) (\<lambda>span.
      pa_bind (consume (if is_break then TokKind.Break else TokKind.Continue) (''`'' @ keyword @ ''`'')) (\<lambda>_.
      pa_bind (pa_get ps_loop_depth) (\<lambda>depth.
        if depth = 0 then pa_err (BreakContinueOutsideLoop keyword span)
        else pa_bind (consume Semi ''`;`'') (\<lambda>_. pa_ret (if is_break then Stmt.Break else Stmt.Continue))))))"

definition push_hole :: "Hole \<Rightarrow> unit parser" where
  "push_hole h st = Some (Ok (), st\<lparr>ps_pending_holes := ps_pending_holes st @ [h]\<rparr>)"

definition parse_hole :: "unit parser" where
  "parse_hole =
     pa_bind (pa_get (\<lambda>st. (peek_span st, describe (peek st)))) (\<lambda>(span, found).
     pa_bind (eat_map hole_of) (\<lambda>m. case m of
         None \<Rightarrow> pa_err (Unexpected ''a hole `?N`'' found span)
       | Some (number, proof) \<Rightarrow>
           if proof then pa_err (ProofHoleOutsideProofBlock number span)
           else
             pa_bind (pa_get ps_fn_body_depth) (\<lambda>depth.
               if depth = 0 then pa_err (HoleOutsideFnBody number span)
               else push_hole \<lparr>ho_number = number, ho_span = span, ho_context = HoleContext.Body\<rparr>)))"

definition parse_return :: "Expr parser \<Rightarrow> Stmt parser" where
  "parse_return E =
     pa_bind (consume TokKind.Return ''`return`'') (\<lambda>_.
     pa_bind (eat Semi) (\<lambda>semi.
       if semi then pa_ret (Stmt.Return None)
       else pa_bind E (\<lambda>expr. pa_bind (consume Semi ''`;`'') (\<lambda>_. pa_ret (Stmt.Return (Some expr))))))"

definition parse_if_parts :: "Expr parser \<Rightarrow> Block parser \<Rightarrow> (Expr \<times> Block \<times> Block option) parser" where
  "parse_if_parts E B = guard_recursion
     (pa_bind (consume TokKind.If ''`if`'') (\<lambda>_.
      pa_bind (with_no_struct_literal E) (\<lambda>cond.
      pa_bind B (\<lambda>thn.
      pa_bind (eat Else) (\<lambda>els.
      pa_bind (pa_when els B) (\<lambda>els. pa_ret (cond, thn, els)))))))"

definition parse_loop_kind :: "Expr parser \<Rightarrow> Expr LoopKind parser" where
  "parse_loop_kind E =
     pa_bind (eat TokKind.Loop) (\<lambda>b.
       if b then pa_ret LoopKind.Loop
       else
         pa_bind (consume TokKind.While ''`loop` or `while`'') (\<lambda>_.
         pa_bind (with_no_struct_literal E) (\<lambda>cond. pa_ret (LoopKind.While cond))))"

definition parse_loop :: "bool \<Rightarrow> Expr parser \<Rightarrow> Block parser \<Rightarrow> (Expr, Block) LoopNode parser" where
  "parse_loop bv E B = guard_recursion
     (pa_bind (pa_get peek_span) (\<lambda>start.
      pa_bind (parse_loop_kind E) (\<lambda>kind.
      pa_bind (parse_loop_clauses bv E ''loop'') (\<lambda>(invs, dec).
      pa_bind (pa_get (\<lambda>st. (check Dec st, peek_span st))) (\<lambda>(again, span).
        if again then pa_err (ClauseOrder ''loop'' ''dec'' span)
        else
          pa_bind (in_loop_body B) (\<lambda>body.
          pa_bind (pa_get prev_span) (\<lambda>end_span.
            pa_ret (LoopNode kind invs dec body (Span_to start end_span)))))))))"

text \<open>A statement that starts with an expression, and the tail expression of a block.\<close>

definition parse_expr_stmt ::
  "Expr parser \<Rightarrow> Stmt list \<Rightarrow> ((Stmt list \<times> Expr option) \<times> bool) parser" where
  "parse_expr_stmt E stmts =
     pa_bind E (\<lambda>expr.
     pa_bind (eat TokKind.Eq) (\<lambda>eq.
       if eq then
         pa_bind E (\<lambda>value.
         pa_bind (consume Semi ''`;`'') (\<lambda>_. pa_ret ((stmts @ [Assign expr value], None), True)))
       else
         pa_bind (eat Semi) (\<lambda>semi.
           if semi then pa_ret ((stmts @ [Stmt.Expr expr], None), True)
           else pa_ret ((stmts, Some expr), False))))"

definition parse_if_stmt ::
  "Expr parser \<Rightarrow> Block parser \<Rightarrow> Stmt list \<Rightarrow> ((Stmt list \<times> Expr option) \<times> bool) parser" where
  "parse_if_stmt E B stmts =
     pa_bind (parse_if_parts E B) (\<lambda>(cond, thn, els).
     pa_bind (pa_get (check RBrace)) (\<lambda>closing.
       case els of
         Some else_block \<Rightarrow>
           (if closing \<and> block_tail thn \<noteq> None
            then pa_ret ((stmts, Some (Expr.If cond thn else_block)), False)
            else pa_ret ((stmts @ [Stmt.If cond thn (Some else_block)], None), True))
       | None \<Rightarrow> pa_ret ((stmts @ [Stmt.If cond thn None], None), True)))"

definition block_step ::
  "bool \<Rightarrow> Expr parser \<Rightarrow> Block parser \<Rightarrow> Stmt list \<times> Expr option \<Rightarrow>
     ((Stmt list \<times> Expr option) \<times> bool) parser" where
  "block_step bv E B acc =
     (case acc of (stmts, tail) \<Rightarrow>
       pa_bind (pa_get (\<lambda>st. (check RBrace st \<or> at_eof st, peek st, peek_nth st 1))) (\<lambda>(stop, kind, after).
         if stop then pa_ret ((stmts, tail), False)
         else if kind = TokKind.Let then
           pa_bind (parse_let E) (\<lambda>lets. pa_ret ((stmts @ lets, None), True))
         else if kind = TokKind.Return then
           pa_bind (parse_return E) (\<lambda>s. pa_ret ((stmts @ [s], None), True))
         else if kind = TokKind.Loop \<or> kind = TokKind.While \<and> after \<noteq> TokKind.Let then
           pa_bind (parse_loop bv E B) (\<lambda>l. pa_ret ((stmts @ [Stmt.Loop l], None), True))
         else if kind = TokKind.While then
           pa_bind (parse_while_let bv E B) (\<lambda>l. pa_ret ((stmts @ [Stmt.Loop l], None), True))
         else if kind = Ident ''for'' then
           pa_bind (parse_for bv E B) (\<lambda>ss. pa_ret ((stmts @ ss, None), True))
         else if kind = TokKind.Break then
           pa_bind (parse_break_continue True) (\<lambda>s. pa_ret ((stmts @ [s], None), True))
         else if kind = TokKind.Continue then
           pa_bind (parse_break_continue False) (\<lambda>s. pa_ret ((stmts @ [s], None), True))
         else if hole_of kind \<noteq> None then
           pa_bind parse_hole (\<lambda>_. pa_ret ((stmts, None), True))
         else if kind = TokKind.If \<and> after = TokKind.Let then
           pa_bind (parse_if_let E B) (\<lambda>(e, value_tail).
           pa_bind (pa_get (check RBrace)) (\<lambda>closing.
             if value_tail \<and> closing then pa_ret ((stmts, Some e), False)
             else pa_ret ((stmts @ [Stmt.Expr e], None), True)))
         else if kind = TokKind.If then parse_if_stmt E B stmts
         else parse_expr_stmt E stmts))"

definition parse_block_with :: "bool \<Rightarrow> Expr parser \<Rightarrow> Block parser \<Rightarrow> Block parser" where
  "parse_block_with bv E B =
     pa_bind (consume LBrace ''`{`'') (\<lambda>_.
     pa_bind (pa_while (block_step bv E B) ([], None)) (\<lambda>(stmts, tail).
     pa_bind (consume RBrace ''`}`'') (\<lambda>_. pa_ret (Block stmts tail))))"

fun parse_expr_fuel :: "bool \<Rightarrow> nat \<Rightarrow> Expr parser"
  and parse_block_fuel :: "bool \<Rightarrow> nat \<Rightarrow> Block parser" where
  "parse_expr_fuel bv 0 st = None"
| "parse_expr_fuel bv (Suc n) st = guard_recursion (parse_or (parse_expr_fuel bv n) (parse_block_fuel bv n)) st"
| "parse_block_fuel bv 0 st = None"
| "parse_block_fuel bv (Suc n) st = parse_block_with bv (parse_expr_fuel bv n) (parse_block_fuel bv n) st"

definition parse_expr :: "bool \<Rightarrow> Expr parser" where
  "parse_expr bv st = parse_expr_fuel bv (Suc (remaining st)) st"

definition parse_block :: "bool \<Rightarrow> Block parser" where
  "parse_block bv st = parse_block_fuel bv (Suc (remaining st)) st"

end
