(* ===== verification/Parser_Total.thy ===== *)
theory Parser_Total
  imports Parser_Expr
begin

text \<open>
  The expression and statement grammar in the logic of parsers: every function answers when the
  fuel covers the tokens left, and what it answers is well formed. \<open>bv\<close> is the feature for
  bit-vector tags and \<open>d\<close> the number of loops around the construct.
\<close>

section \<open>Well-formed syntax\<close>

function (sequential) wf_expr :: "bool \<Rightarrow> nat \<Rightarrow> Expr \<Rightarrow> bool"
  and wf_block :: "bool \<Rightarrow> nat \<Rightarrow> Block \<Rightarrow> bool"
  and wf_stmt :: "bool \<Rightarrow> nat \<Rightarrow> Stmt \<Rightarrow> bool" where
  "wf_expr bv d (Path path) = (path \<noteq> [])"
| "wf_expr bv d (Call f args) = (wf_expr bv d f \<and> list_all (\<lambda>a. wf_expr bv d a) args)"
| "wf_expr bv d (MethodCall r _ args) = (wf_expr bv d r \<and> list_all (\<lambda>a. wf_expr bv d a) args)"
| "wf_expr bv d (Field r _) = wf_expr bv d r"
| "wf_expr bv d (Closure _ body) = wf_expr bv d body"
| "wf_expr bv d (Expr.Match scrutinee arms) =
     (wf_expr bv d scrutinee \<and>
      list_all (\<lambda>arm. wf_pattern (arm_pattern arm) \<and> wf_expr bv d (arm_body arm) \<and>
        (case arm_guard arm of None \<Rightarrow> True | Some g \<Rightarrow> wf_expr bv d g)) arms)"
| "wf_expr bv d (Expr.If c t e) = (wf_expr bv d c \<and> wf_block bv d t \<and> wf_block bv d e)"
| "wf_expr bv d (Binary _ l r) = (wf_expr bv d l \<and> wf_expr bv d r)"
| "wf_expr bv d (Unary _ e) = wf_expr bv d e"
| "wf_expr bv d (Index b (Single i)) = (wf_expr bv d b \<and> wf_expr bv d i)"
| "wf_expr bv d (Index b (RangeTo i)) = (wf_expr bv d b \<and> wf_expr bv d i)"
| "wf_expr bv d (Index b (RangeFrom i)) = (wf_expr bv d b \<and> wf_expr bv d i)"
| "wf_expr bv d (Index b (Range i j)) = (wf_expr bv d b \<and> wf_expr bv d i \<and> wf_expr bv d j)"
| "wf_expr bv d (Cast e t) = (wf_expr bv d e \<and> wf_type t)"
| "wf_expr bv d (Expr.Ref _ e) = wf_expr bv d e"
| "wf_expr bv d (StructLit path fs) = (path \<noteq> [] \<and> list_all (\<lambda>f. wf_expr bv d (snd f)) fs)"
| "wf_expr bv d (Expr.Is e variant) = (wf_expr bv d e \<and> variant \<noteq> [])"
| "wf_expr bv d (Deref e) = wf_expr bv d e"
| "wf_expr bv d (Expr.Tuple es) = (es \<noteq> [] \<and> list_all (\<lambda>e. wf_expr bv d e) es)"
| "wf_expr bv d (TupleProj e _) = wf_expr bv d e"
| "wf_expr bv d (Quantifier _ _ _ domain body) = (wf_expr bv d domain \<and> wf_expr bv d body)"
| "wf_expr bv d _ = True"
| "wf_block bv d (Block stmts tail) =
     (list_all (\<lambda>s. wf_stmt bv d s) stmts \<and> (case tail of None \<Rightarrow> True | Some e \<Rightarrow> wf_expr bv d e))"
| "wf_stmt bv d (Stmt.Let _ _ ty init) = (pred_option wf_type ty \<and> wf_expr bv d init)"
| "wf_stmt bv d (Assign target val) = (wf_expr bv d target \<and> wf_expr bv d val)"
| "wf_stmt bv d (Stmt.Return e) = (case e of None \<Rightarrow> True | Some e \<Rightarrow> wf_expr bv d e)"
| "wf_stmt bv d (Stmt.If c t e) =
     (wf_expr bv d c \<and> wf_block bv d t \<and> (case e of None \<Rightarrow> True | Some b \<Rightarrow> wf_block bv d b))"
| "wf_stmt bv d (Stmt.Loop l) =
     ((case loop_kind l of LoopKind.Loop \<Rightarrow> True | LoopKind.While c \<Rightarrow> wf_expr bv d c) \<and>
      loop_invs l \<noteq> [] \<and> list_all (\<lambda>c. wf_expr bv d (cl_expr c) \<and> (bv \<or> cl_bv c = None)) (loop_invs l) \<and>
      wf_expr bv d (cl_expr (loop_dec l)) \<and> cl_bv (loop_dec l) = None \<and> wf_block bv (Suc d) (loop_body l))"
| "wf_stmt bv d (Stmt.Expr e) = wf_expr bv d e"
| "wf_stmt bv d _ = (d > 0)"
  by pat_completeness auto
termination
  by (relation "measure (\<lambda>x. case x of
        Inl (_, _, e) \<Rightarrow> size e | Inr (Inl (_, _, b)) \<Rightarrow> size b | Inr (Inr (_, _, s)) \<Rightarrow> size s)")
     (auto dest: ast_sizes simp: less_Suc_eq_le size_of_loop_parts)

definition wf_clause :: "bool \<Rightarrow> nat \<Rightarrow> Expr Clause \<Rightarrow> bool" where
  "wf_clause bv d c \<longleftrightarrow> wf_expr bv d (cl_expr c) \<and> (bv \<or> cl_bv c = None)"

definition wf_dec :: "bool \<Rightarrow> nat \<Rightarrow> Expr Clause \<Rightarrow> bool" where
  "wf_dec bv d c \<longleftrightarrow> wf_expr bv d (cl_expr c) \<and> cl_bv c = None"

definition wf_arm :: "bool \<Rightarrow> nat \<Rightarrow> Expr MatchArm \<Rightarrow> bool" where
  "wf_arm bv d arm \<longleftrightarrow> wf_pattern (arm_pattern arm) \<and> wf_expr bv d (arm_body arm) \<and>
     pred_option (wf_expr bv d) (arm_guard arm)"

definition wf_index :: "bool \<Rightarrow> nat \<Rightarrow> Expr IndexArg \<Rightarrow> bool" where
  "wf_index bv d ix \<longleftrightarrow> (\<forall>e. wf_expr bv d e \<longrightarrow> wf_expr bv d (Index e ix))"

definition wf_loop :: "bool \<Rightarrow> nat \<Rightarrow> (Expr, Block) LoopNode \<Rightarrow> bool" where
  "wf_loop bv d l = wf_stmt bv d (Stmt.Loop l)"

lemma pred_option_case: "(case m of None \<Rightarrow> True | Some x \<Rightarrow> Q x) = pred_option Q m"
  by (cases m) simp_all

declare wf_expr.simps(6) [simp del] wf_stmt.simps(5) [simp del]

lemma wf_Match [simp]:
  "wf_expr bv d (Expr.Match e arms) \<longleftrightarrow> wf_expr bv d e \<and> list_all (wf_arm bv d) arms"
  by (simp add: wf_expr.simps(6) wf_arm_def [abs_def] pred_option_case)

lemma wf_Loop:
  "wf_stmt bv d (Stmt.Loop (LoopNode kind invs dec body span)) \<longleftrightarrow>
     (case kind of LoopKind.Loop \<Rightarrow> True | LoopKind.While c \<Rightarrow> wf_expr bv d c) \<and>
     invs \<noteq> [] \<and> list_all (wf_clause bv d) invs \<and> wf_dec bv d dec \<and> wf_block bv (Suc d) body"
  by (auto simp: wf_stmt.simps(5) wf_clause_def [abs_def] wf_dec_def)



section \<open>Steps that look at the depth or collect a hole\<close>

lemma parses_get_depth: "parses S d k Q (f d) \<Longrightarrow> parses S d k Q (pa_bind (pa_get ps_loop_depth) f)"
  unfolding parses_def by (auto simp: pa_bind_def pa_get_def)

lemma parses_break_continue: "parses S d k (wf_stmt bv d) (parse_break_continue b)"
  unfolding parse_break_continue_def
  by (rule parses_Let, rule parses_get, rule parses_bind_consume, simp)
    (rule parses_get_depth, intro parses_if parses_err parses_bind_consume parses_ret, simp_all)

lemma parses_push_hole:
  "parses never d k any (pa_bind (pa_get ps_fn_body_depth) (\<lambda>depth. if depth = 0 then pa_err e else push_hole h))"
  by (auto intro!: parsesI simp: pa_bind_def pa_get_def pa_err_def push_hole_def same_flags_def wf_ps_def)

lemma parses_hole: "parses S d k any parse_hole"
  unfolding parse_hole_def
  by (rule parses_get, rule parses_prod, rule parses_bind_eat_map)
    (auto intro!: parses_if parses_err parses_push_hole simp: hole_of_def)


section \<open>The functions of the grammar\<close>

text \<open>
  What the grammar asks of the parsers it calls back: with fewer than \<open>k\<close> tokens left they take a
  token and answer something well formed, at every loop depth.
\<close>

locale grammar_below =
  fixes bv :: bool and k :: nat and E :: "Expr parser" and B :: "Block parser"
  assumes expr: "j < k \<Longrightarrow> parses any d j (wf_expr bv d) E"
    and block: "j < k \<Longrightarrow> parses any d j (wf_block bv d) B"
begin

lemmas expr_binds = parses_bind_strict [OF expr] parses_bind_strict [OF parses_no_struct [OF expr]]
  parses_bind_strict [OF parses_struct [OF expr]] parses_bind_strict [OF parses_no_dot [OF expr]]
  parses_bind_strict [OF block] parses_bind_strict [OF parses_in_loop [OF block]]
  parses_bind_strict [OF parses_pattern] parses_bind_strict [OF parses_type]
  parses_bind_strict [OF parses_path_segments] parses_bind [OF parses_bump]

lemma bv_tag: "parses never d i (\<lambda>tag. bv \<or> tag = None) (parse_bv_tag bv)"
proof -
  have width: "parses never d j any parse_bv_width" for j
    unfolding parse_bv_width_def by (intro parses_rules expr_binds) simp_all
  have "parses never d j any parse_nowrap" for j
    unfolding parse_nowrap_def by (intro parses_rules) simp_all
  then show ?thesis
    unfolding parse_bv_tag_def by (intro parses_rules expr_binds parses_bind [OF width] parses_bind) simp_all
qed

lemma spanned_clause:
  assumes "parses never d i (wf_expr bv d) p" "bv \<or> tag = None"
  shows "parses never d i (\<lambda>c. wf_clause bv d c \<and> cl_bv c = tag) (spanned_clause start tag p)"
  unfolding spanned_clause_def using assms(2)
  by (intro parses_bind [OF assms(1)] parses_rules) (simp_all add: wf_clause_def)

lemma no_struct_expr: "j < k \<Longrightarrow> parses never d j (wf_expr bv d) (with_no_struct_literal E)"
  by (rule parses_no_struct, rule parses_mono [OF expr order_refl]) simp_all

lemma clause:
  assumes "i \<le> k" "keyword \<noteq> Eof"
  shows "parses S d i (\<lambda>c. wf_clause bv d c \<and> (keyword = Req \<longrightarrow> cl_bv c = None)) (parse_clause bv E keyword)"
  unfolding parse_clause_def using assms
  by (intro parses_rules parses_bind [OF bv_tag] parses_mono [OF spanned_clause [OF no_struct_expr] order_refl]) auto

lemma dec_clause:
  assumes "i \<le> k"
  shows "parses S d i (wf_dec bv d) (parse_dec_clause E)"
proof -
  have "parses never d j (wf_expr bv d)
      (pa_bind (with_no_struct_literal E) (\<lambda>rel. pa_ret (Call (Path [''wf'']) [rel])))" if "j < k" for j
    using that by (intro parses_rules expr_binds) simp_all
  note clauses = spanned_clause [OF this] spanned_clause [OF no_struct_expr]
  have "parses never d j (wf_dec bv d) (spanned_clause start None (with_no_struct_literal E))"
    "parses never d j (wf_dec bv d) (spanned_clause start None
        (pa_bind (with_no_struct_literal E) (\<lambda>rel. pa_ret (Call (Path [''wf'']) [rel]))))" if "j < k" for j start
    by (rule parses_mono [OF clauses(2) order_refl] parses_mono [OF clauses(1) order_refl];
        use that in \<open>simp add: wf_clause_def wf_dec_def\<close>)+
  then show ?thesis
    unfolding parse_dec_clause_def using assms by (intro parses_rules expr_binds) simp_all
qed

lemma call_args: "i \<le> k \<Longrightarrow> parses S d i (list_all (wf_expr bv d)) (parse_call_args E)"
proof -
  have "parses never d j (list_all (wf_expr bv d))
      (if empty then pa_ret [] else with_struct_literal (comma_list RParen E))" if "j < k" for j empty
    using that
    by (intro parses_if parses_ret parses_struct parses_mono [OF parses_comma_list [OF _ expr] order_refl]) auto
  note args = parses_bind [OF this]
  show ?thesis if "i \<le> k" unfolding parse_call_args_def using that by (intro parses_rules args) simp_all
qed

lemma index_arg: "i < k \<Longrightarrow> parses S d i (wf_index bv d) (parse_index_arg E)"
  unfolding parse_index_arg_def parse_index_arg_inner_def
  by (intro parses_struct parses_rules expr_binds) (simp_all add: wf_index_def)

lemma quantifier: "i \<le> k \<Longrightarrow> parses S d i (wf_expr bv d) (parse_quantifier E)"
  unfolding parse_quantifier_def
  by (intro parses_rules expr_binds) (simp_all add: quant_of_def)

lemma struct_lit: "i \<le> k \<Longrightarrow> path \<noteq> [] \<Longrightarrow> parses S d i (wf_expr bv d) (parse_struct_lit E path)"
proof -
  let ?elem = "pa_bind (take_ident ''a field name'') (\<lambda>name.
     pa_bind (consume Colon ''`:`'') (\<lambda>_. pa_bind E (\<lambda>val. pa_ret (name, val))))"
  have elem: "parses any d j (\<lambda>f. wf_expr bv d (snd f)) ?elem" if "j < k" for j
    using that by (intro parses_rules expr_binds) simp_all
  have "parses never d j (list_all (\<lambda>f. wf_expr bv d (snd f)))
      (if empty then pa_ret [] else with_struct_literal (comma_list RBrace ?elem))" if "j < k" for j empty
    using that
    by (intro parses_if parses_ret parses_struct parses_mono [OF parses_comma_list [OF _ elem] order_refl]) auto
  note fs = parses_bind [OF this]
  show ?thesis if "i \<le> k" "path \<noteq> []"
    unfolding parse_struct_lit_def using that by (intro parses_rules fs) simp_all
qed

lemma path_expr: "i \<le> k \<Longrightarrow> parses S d i (wf_expr bv d) (parse_path_expr E)"
  unfolding parse_path_expr_def by (intro parses_rules expr_binds struct_lit) simp_all

lemma closure: "i \<le> k \<Longrightarrow> parses S d i (wf_expr bv d) (parse_closure E)"
proof -
  have "parses never d j any (if empty then pa_ret [] else strict_comma_list (take_ident w))" for j empty w
    by (intro parses_if parses_ret parses_mono [OF parses_strict_comma_list [OF parses_take_ident] order_refl]) auto
  note params = parses_bind [OF this]
  show ?thesis if "i \<le> k"
    unfolding parse_closure_def closure_body_def using that by (intro parses_rules params expr_binds) simp_all
qed


lemma match_arm: "i \<le> k \<Longrightarrow> parses S d i (wf_arm bv d) (parse_match_arm E)"
proof -
  have "parses never d j (pred_option (wf_expr bv d)) (pa_when b (with_no_struct_literal E))" if "j < k" for j b
    using that by (intro parses_when no_struct_expr)
  note guard = parses_bind [OF this]
  show ?thesis if "i \<le> k"
    unfolding parse_match_arm_def using that by (intro parses_rules guard expr_binds) (simp_all add: wf_arm_def)
qed

lemma match_expr: "i \<le> k \<Longrightarrow> parses S d i (wf_expr bv d) (parse_match E)"
proof -
  have "parses never d j (list_all (wf_arm bv d)) (pa_while (\<lambda>arms.
          pa_bind (pa_get (\<lambda>st. check RBrace st \<or> at_eof st)) (\<lambda>stop.
            if stop then pa_ret (arms, False)
            else pa_bind (parse_match_arm E) (\<lambda>arm. pa_bind (eat Comma) (\<lambda>comma. pa_ret (arms @ [arm], comma))))) [])"
    if "j < k" for j
    by (rule parses_while [where I = "list_all (wf_arm bv d)"])
      (use that in \<open>auto intro!: parses_rules parses_bind_strict [OF match_arm]\<close>)
  note arms = parses_bind [OF this]
  show ?thesis if "i \<le> k"
    unfolding parse_match_def using that by (intro parses_rules arms expr_binds) simp_all
qed

lemma if_expr: "i \<le> k \<Longrightarrow> parses S d i (wf_expr bv d) (parse_if_expr E B)"
  unfolding parse_if_expr_def by (intro parses_rules expr_binds) simp_all

lemma paren_expr: "i < k \<Longrightarrow> parses never d i (wf_expr bv d) (parse_paren_expr E)"
  unfolding parse_paren_expr_def
  by (intro parses_rules expr_binds parses_bind [OF parses_tuple_rest [OF expr]]) auto

lemma primary: "i \<le> k \<Longrightarrow> parses S d i (wf_expr bv d) (parse_primary E B)"
  unfolding parse_primary_def
  by (intro parses_rules path_expr closure match_expr if_expr quantifier parses_struct paren_expr)
    (auto simp: int_of_def bool_of_def str_of_def)

lemma dot: "i < k \<Longrightarrow> wf_expr bv d e \<Longrightarrow> parses never d i (wf_expr bv d) (parse_dot E e)"
  unfolding parse_dot_def
  by (intro parses_rules parses_bind_strict [OF call_args]) (auto simp: int_of_def)

lemma postfix_step:
  "i \<le> k \<Longrightarrow> wf_expr bv d e \<Longrightarrow>
     parses snd d i (\<lambda>(a, more). if more then wf_expr bv d a else wf_expr bv d a) (postfix_step E e)"
  unfolding postfix_step_def
  by (intro parses_rules parses_bind [OF dot] parses_bind_strict [OF index_arg] parses_bind_strict [OF call_args])
    (simp_all add: wf_index_def)

lemma postfix: "i \<le> k \<Longrightarrow> parses S d i (wf_expr bv d) (parse_postfix E B)"
  unfolding parse_postfix_def
  by (intro parses_bind_strict [OF primary] parses_while [where I = "wf_expr bv d"] postfix_step) simp_all

lemma ref_fuel:
  assumes "\<And>j T. j \<le> i \<Longrightarrow> parses T d j (wf_expr bv d) p"
  shows "i < n \<Longrightarrow> parses S d i (wf_expr bv d) (parse_ref_fuel n p)"
  using assms
proof (induction n arbitrary: i S)
  case (Suc n)
  have "parses any d j (wf_expr bv d) (parse_ref_fuel n p)" if "j < i" for j
    using Suc.prems that by (intro Suc.IH) simp_all
  note below = parses_bind_strict [OF this]
  have "parses S d i (wf_expr bv d) (pa_bind (eat Amp) (\<lambda>amp.
       if amp then
         pa_bind (eat Mut) (\<lambda>mutable. pa_bind (parse_ref_fuel n p) (\<lambda>expr. pa_ret (Expr.Ref mutable expr)))
       else pa_bind (eat Star) (\<lambda>star.
         if star then pa_bind (parse_ref_fuel n p) (\<lambda>expr. pa_ret (Deref expr)) else p)))"
    by (intro parses_rules below Suc.prems(2)) simp_all
  then show ?case by (simp add: parses_def)
qed simp

lemma unary_fuel:
  assumes "\<And>j T. j \<le> i \<Longrightarrow> parses T d j (wf_expr bv d) p"
  shows "i < n \<Longrightarrow> parses S d i (wf_expr bv d) (parse_unary_fuel n p)"
  using assms
proof (induction n arbitrary: i S)
  case (Suc n)
  have "parses any d j (wf_expr bv d) (parse_unary_fuel n p)" if "j < i" for j
    using Suc.prems that by (intro Suc.IH) simp_all
  note below = parses_bind_strict [OF this]
  have "parses S d i (wf_expr bv d) (pa_bind (eat Bang) (\<lambda>bang.
       if bang then pa_bind (parse_unary_fuel n p) (\<lambda>expr. pa_ret (Unary Not expr)) else p))"
    by (intro parses_rules below Suc.prems(2)) simp_all
  then show ?case by (simp add: parses_def)
qed simp

lemma ref_expr: "i \<le> k \<Longrightarrow> parses S d i (wf_expr bv d) (parse_ref E B)"
  using ref_fuel [OF postfix] unfolding parses_def [of S d i] parse_ref_def
  by (metis le_trans lessI order_refl parses_def)

lemma unary: "i \<le> k \<Longrightarrow> parses S d i (wf_expr bv d) (parse_unary E B)"
  using unary_fuel [OF ref_expr] unfolding parses_def [of S d i] parse_unary_def
  by (metis le_trans lessI order_refl parses_def)

lemma cast_expr: "i \<le> k \<Longrightarrow> parses S d i (wf_expr bv d) (parse_cast E B)"
  unfolding parse_cast_def
  by (intro parses_bind_strict [OF unary] parses_while [where I = "wf_expr bv d"] parses_rules expr_binds) simp_all

lemma left_assoc_levels:
  assumes "\<And>j T. j \<le> i \<Longrightarrow> parses T d j (wf_expr bv d) sub" "op Eof = None"
  shows "parses S d i (wf_expr bv d) (left_assoc op sub)"
  unfolding left_assoc_def
  by (intro parses_bind_strict [OF assms(1)] parses_while [where I = "wf_expr bv d"] parses_rules) (simp_all add: assms(2))

lemma mul: "i \<le> k \<Longrightarrow> parses S d i (wf_expr bv d) (parse_mul E B)"
  unfolding parse_mul_def by (intro left_assoc_levels cast_expr) simp_all

lemma add_expr: "i \<le> k \<Longrightarrow> parses S d i (wf_expr bv d) (parse_add E B)"
  unfolding parse_add_def by (intro left_assoc_levels mul) simp_all

lemma shift: "i \<le> k \<Longrightarrow> parses S d i (wf_expr bv d) (parse_shift E B)"
  unfolding parse_shift_def by (intro left_assoc_levels add_expr) simp_all

lemma bitand: "i \<le> k \<Longrightarrow> parses S d i (wf_expr bv d) (parse_bitand E B)"
  unfolding parse_bitand_def by (intro left_assoc_levels shift) simp_all

lemma bitxor: "i \<le> k \<Longrightarrow> parses S d i (wf_expr bv d) (parse_bitxor E B)"
  unfolding parse_bitxor_def by (intro left_assoc_levels bitand) simp_all

lemma bitor: "i \<le> k \<Longrightarrow> parses S d i (wf_expr bv d) (parse_bitor E B)"
  unfolding parse_bitor_def by (intro left_assoc_levels bitxor) simp_all

lemma is_expr: "i \<le> k \<Longrightarrow> parses S d i (wf_expr bv d) (parse_is E B)"
  unfolding parse_is_def by (intro parses_bind_strict [OF bitor] parses_rules expr_binds) simp_all

lemma cmp: "i \<le> k \<Longrightarrow> parses S d i (wf_expr bv d) (parse_cmp E B)"
  unfolding parse_cmp_def by (intro parses_bind_strict [OF is_expr] parses_rules) (simp_all add: cmp_of_def)

lemma and_expr: "i \<le> k \<Longrightarrow> parses S d i (wf_expr bv d) (parse_and E B)"
  unfolding parse_and_def by (intro left_assoc_levels cmp) simp_all

lemma or_expr: "i \<le> k \<Longrightarrow> parses S d i (wf_expr bv d) (parse_or E B)"
  unfolding parse_or_def by (intro left_assoc_levels and_expr) simp_all


lemma destructure_wf:
  assumes "wf_expr bv d init"
  shows "list_all (wf_stmt bv d) (destructure mutable temp init elems)"
proof -
  have "list_all (wf_stmt bv d) (concat (map (\<lambda>(i, elem). case elem of
           None \<Rightarrow> []
         | Some name \<Rightarrow> [Stmt.Let mutable name None (TupleProj (Path [temp]) i)]) (enumerate n elems)))" for n
    by (induction elems arbitrary: n) (auto split: option.split)
  then show ?thesis using assms by (simp add: destructure_def)
qed

lemma let_stmt: "i \<le> k \<Longrightarrow> parses S d i (list_all (wf_stmt bv d)) (parse_let E)"
proof -
  have "parses any d j any binding_name" for j
    unfolding binding_name_def by (intro parses_rules) (simp_all add: ident_of_def)
  note names = parses_bind [OF parses_opt_comma_list [OF _ this]]
  have tuple: "parses T d j (list_all (wf_stmt bv d)) (parse_let_tuple_destructure E mutable)"
    if "j \<le> k" for j T mutable
    unfolding parse_let_tuple_destructure_def using that
    by (intro parses_rules names expr_binds) (simp_all add: destructure_wf)
  have "parses never d j (pred_option wf_type) (pa_when b parse_type)" for j b
    by (intro parses_when parses_type)
  note ty = parses_bind [OF this]
  show ?thesis if "i \<le> k"
    unfolding parse_let_def using that by (intro parses_rules tuple ty expr_binds) simp_all
qed

lemma invs:
  assumes "i \<le> k"
  shows "parses S d i (\<lambda>cs. cs \<noteq> [] \<and> list_all (wf_clause bv d) cs)
    (some_clauses item ''inv'' TokKind.Inv (parse_clause bv E TokKind.Inv))"
proof (rule parses_some_clauses)
  fix j
  assume "j \<le> i"
  with assms show "parses any d j (wf_clause bv d) (parse_clause bv E TokKind.Inv)"
    by (intro parses_mono [OF clause order_refl]) simp_all
qed simp

lemma for_stmt: "i \<le> k \<Longrightarrow> parses S d i (list_all (wf_stmt bv d)) (parse_for bv E B)"
proof -
  have "parses any d j (\<lambda>(lo, hi). wf_expr bv d lo \<and> wf_expr bv d hi) (with_no_struct_literal (for_range E))"
    if "j < k" for j
    unfolding for_range_def using that by (intro parses_no_struct parses_rules expr_binds) simp_all
  note range = parses_bind_strict [OF this]
  have body: "list_all (wf_stmt bv d) (for_loop start var lo hi invs body e)"
    if "wf_expr bv d lo" "wf_expr bv d hi" "invs \<noteq> [] \<and> list_all (wf_clause bv d) invs" "wf_block bv (Suc d) body"
    for start var lo hi invs body e
    using that by (cases body) (simp add: for_loop_def wf_Loop wf_dec_def)
  show ?thesis if "i \<le> k"
    unfolding parse_for_def using that
    by (intro parses_rules range expr_binds parses_bind_strict [OF invs]) (auto intro: body)
qed

lemma arm_body:
  "wf_block bv d b \<Longrightarrow> parses never d i (wf_expr bv d) (block_into_arm_body b what)"
  unfolding block_into_arm_body_def by (cases b) (intro parses_rules, simp_all)

lemma if_let: "i \<le> k \<Longrightarrow> parses S d i (\<lambda>(e, _). wf_expr bv d e) (parse_if_let E B)"
  unfolding parse_if_let_def
  by (intro parses_rules expr_binds parses_bind [OF arm_body]) (simp_all add: wf_arm_def)

lemma loop_clauses:
  "i \<le> k \<Longrightarrow> parses S d i (\<lambda>(cs, dec). cs \<noteq> [] \<and> list_all (wf_clause bv d) cs \<and> wf_dec bv d dec)
     (parse_loop_clauses bv E item)"
  unfolding parse_loop_clauses_def
  by (intro parses_rules parses_bind_strict [OF invs] parses_bind_strict [OF dec_clause]) simp_all

lemma pattern_path_wf: "wf_pattern p \<Longrightarrow> pattern_path p = Some path \<Longrightarrow> path \<noteq> []"
  by (auto simp: pattern_path_def split: Pattern.splits)

lemma while_let: "i \<le> k \<Longrightarrow> parses S d i (wf_loop bv d) (parse_while_let bv E B)"
  unfolding parse_while_let_def
  by (intro parses_rules expr_binds parses_bind_strict [OF loop_clauses])
    (auto simp: wf_loop_def wf_Loop dest: pattern_path_wf)

lemma loop_kind:
  "i \<le> k \<Longrightarrow> parses S d i (\<lambda>kind. case kind of LoopKind.Loop \<Rightarrow> True | LoopKind.While c \<Rightarrow> wf_expr bv d c)
     (parse_loop_kind E)"
  unfolding parse_loop_kind_def by (intro parses_rules expr_binds) simp_all

lemma loop_stmt: "i \<le> k \<Longrightarrow> parses S d i (wf_loop bv d) (parse_loop bv E B)"
  unfolding parse_loop_def
  by (intro parses_guard parses_rules expr_binds parses_bind_strict [OF loop_kind] parses_bind_strict [OF loop_clauses])
    (auto simp: wf_loop_def wf_Loop)

lemma return_stmt: "i \<le> k \<Longrightarrow> parses S d i (wf_stmt bv d) (parse_return E)"
  unfolding parse_return_def by (intro parses_rules expr_binds) simp_all

lemma if_parts:
  "i \<le> k \<Longrightarrow> parses S d i (\<lambda>(c, t, e). wf_expr bv d c \<and> wf_block bv d t \<and> pred_option (wf_block bv d) e)
     (parse_if_parts E B)"
proof -
  have "parses never d j (pred_option (wf_block bv d)) (pa_when b B)" if "j < k" for j b
    using that by (intro parses_when parses_mono [OF block order_refl]) simp_all
  note els = parses_bind [OF this]
  show ?thesis if "i \<le> k"
    unfolding parse_if_parts_def using that by (intro parses_guard parses_rules els expr_binds) simp_all
qed


lemma expr_stmt:
  assumes "i \<le> k" "i < k" "list_all (wf_stmt bv d) stmts"
  shows "parses snd d i (\<lambda>((ss, t), _). list_all (wf_stmt bv d) ss \<and> pred_option (wf_expr bv d) t)
     (parse_expr_stmt E stmts)"
  unfolding parse_expr_stmt_def using assms by (intro parses_rules expr_binds) simp_all

lemma if_stmt:
  assumes "i \<le> k" "list_all (wf_stmt bv d) stmts"
  shows "parses snd d i (\<lambda>((ss, t), _). list_all (wf_stmt bv d) ss \<and> pred_option (wf_expr bv d) t)
     (parse_if_stmt E B stmts)"
  unfolding parse_if_stmt_def using assms
  by (intro parses_bind_strict [OF if_parts] parses_rules) auto

lemma block_step:
  assumes "i < k" "list_all (wf_stmt bv d) (fst acc)" "pred_option (wf_expr bv d) (snd acc)"
  shows "parses snd d i (\<lambda>((ss, t), _). list_all (wf_stmt bv d) ss \<and> pred_option (wf_expr bv d) t)
     (block_step bv E B acc)"
proof -
  have lists: "parses any d i (list_all (wf_stmt bv d)) (parse_let E)"
    "parses any d i (list_all (wf_stmt bv d)) (parse_for bv E B)"
    using assms(1) by (simp_all add: let_stmt for_stmt)
  have stmts: "parses any d i (wf_stmt bv d) (parse_return E)"
    "parses any d i (wf_loop bv d) (parse_loop bv E B)" "parses any d i (wf_loop bv d) (parse_while_let bv E B)"
    "parses any d i (\<lambda>(e, _). wf_expr bv d e) (parse_if_let E B)"
    using assms(1) by (simp_all add: return_stmt loop_stmt while_let if_let)
  note steps = lists [THEN parses_bind_strict] stmts [THEN parses_bind_strict]
    parses_bind_strict [OF parses_break_continue] parses_bind_strict [OF parses_hole]
  obtain ss t where acc: "acc = (ss, t)" by (cases acc)
  show ?thesis unfolding block_step_def acc prod.case using assms acc
    by (intro parses_rules steps if_stmt expr_stmt) (simp_all add: wf_loop_def)
qed

lemma block_with: "i \<le> k \<Longrightarrow> parses S d i (wf_block bv d) (parse_block_with bv E B)"
proof -
  let ?I = "\<lambda>acc. list_all (wf_stmt bv d) (fst acc) \<and> pred_option (wf_expr bv d) (snd acc)"
  have "parses never d j ?I (pa_while (block_step bv E B) ([], None))" if "j < k" for j
  proof (rule parses_while [where I = ?I])
    fix a i
    assume "?I a" "i \<le> j"
    then show "parses snd d i (\<lambda>(a, more). if more then ?I a else ?I a) (block_step bv E B a)"
      using that by (intro parses_mono [OF block_step order_refl]) auto
  qed simp
  note loop = parses_bind [OF this]
  show ?thesis if "i \<le> k"
    unfolding parse_block_with_def using that
    by (intro parses_rules loop) (auto simp: pred_option_case)
qed

end


section \<open>Closing the recursion\<close>

lemma grammar_fuel:
  "(\<forall>d. \<forall>j<n. parses any d j (wf_expr bv d) (parse_expr_fuel bv n)) \<and>
   (\<forall>d. \<forall>j<n. parses any d j (wf_block bv d) (parse_block_fuel bv n))"
proof (induction n)
  case (Suc n)
  then have below: "grammar_below bv n (parse_expr_fuel bv n) (parse_block_fuel bv n)"
    by unfold_locales blast+
  have "parses any d j (wf_expr bv d) (guard_recursion (parse_or (parse_expr_fuel bv n) (parse_block_fuel bv n)))"
    "parses any d j (wf_block bv d) (parse_block_with bv (parse_expr_fuel bv n) (parse_block_fuel bv n))"
    if "j \<le> n" for d j
    using parses_guard [OF grammar_below.or_expr [OF below that]] grammar_below.block_with [OF below that] by blast+
  then show ?case by (simp add: parses_def less_Suc_eq_le)
qed simp

lemma parses_expr: "parses S d k (wf_expr bv d) (parse_expr bv)"
proof (rule parses_mono [where S = any and k = k])
  show "parses any d k (wf_expr bv d) (parse_expr bv)"
    using grammar_fuel [of "Suc (remaining st)" bv for st] unfolding parses_def parse_expr_def by blast
qed simp_all

lemma parses_block: "parses S d k (wf_block bv d) (parse_block bv)"
proof (rule parses_mono [where S = any and k = k])
  show "parses any d k (wf_block bv d) (parse_block bv)"
    using grammar_fuel [of "Suc (remaining st)" bv for st] unfolding parses_def parse_block_def by blast
qed simp_all

text \<open>The items call the grammar through these two, whatever the number of tokens left.\<close>

interpretation items: grammar_below bv k "parse_expr bv" "parse_block bv" for bv k
  by unfold_locales (rule parses_expr parses_block)+

end
