(* ===== verification/Parser_Item.thy ===== *)
theory Parser_Item
  imports Parser_Total
begin

text \<open>
  Items, programs and the entry point of \<open>thermite-syntax/src/parser.rs\<close>: attributes, parameters,
  contracts, effect rows, functions, type definitions, the items of the proof tier, the loop over the
  items of a file and the recovery after an error.
\<close>

section \<open>Attributes\<close>

datatype ParsedAttr = Slag SlagAttr | Boundary BoundaryAttr | Sealed

definition parse_boundary_body :: "Span \<Rightarrow> BoundaryAttr parser" where
  "parse_boundary_body start =
     pa_bind (consume LParen ''`(`'') (\<lambda>_.
     pa_bind (take_string (''a foreign-target string `'' @ [CHR 0x22] @ ''crate::path'' @ [CHR 0x22] @ ''`'')) (\<lambda>target.
     pa_bind (pa_get peek_span) (\<lambda>end_span.
     pa_bind (consume RParen ''`)`'') (\<lambda>_.
     pa_bind (consume RBracket ''`]`'') (\<lambda>_.
       pa_ret \<lparr>bo_target = target, bo_span = Span_to start end_span\<rparr>)))))"

text \<open>A field given twice keeps its last value; a field of another name is read and dropped.\<close>

definition parse_slag_body :: "Span \<Rightarrow> SlagAttr parser" where
  "parse_slag_body start =
     pa_bind (consume LParen ''`(`'') (\<lambda>_.
     pa_bind (opt_comma_list RParen
       (pa_bind (take_ident ''a slag field name'') (\<lambda>field.
        pa_bind (consume TokKind.Eq ''`=`'') (\<lambda>_.
        pa_bind (take_string ''a string value'') (\<lambda>val. pa_ret (field, val)))))) (\<lambda>fs.
     pa_bind (pa_get peek_span) (\<lambda>end_span.
     pa_bind (consume RParen ''`)`'') (\<lambda>_.
     pa_bind (consume RBracket ''`]`'') (\<lambda>_.
       pa_ret \<lparr>sl_reason = map_of (rev fs) ''reason'', sl_owner = map_of (rev fs) ''owner'',
               sl_review = map_of (rev fs) ''review'', sl_span = Span_to start end_span\<rparr>)))))"

definition parse_attribute :: "ParsedAttr parser" where
  "parse_attribute =
     pa_bind (pa_get peek_span) (\<lambda>start.
     pa_bind (consume HashBracket ''`#[`'') (\<lambda>_.
     pa_bind (take_ident ''`slag` or `boundary`'') (\<lambda>name.
       if name = ''slag'' then pa_bind (parse_slag_body start) (\<lambda>a. pa_ret (Slag a))
       else if name = ''boundary'' then pa_bind (parse_boundary_body start) (\<lambda>a. pa_ret (Boundary a))
       else if name = ''sealed'' then pa_bind (consume RBracket ''`]`'') (\<lambda>_. pa_ret Sealed)
       else pa_err (Unexpected ''`slag`, `boundary`, or `sealed`'' (''identifier `'' @ name @ ''`'') start))))"


section \<open>Signatures and contracts\<close>

definition parse_refinement_clause :: "Expr parser \<Rightarrow> Expr Clause parser" where
  "parse_refinement_clause E =
     pa_bind (consume LBrace ''`{` to open a refinement predicate'') (\<lambda>_.
     pa_bind (pa_get peek_span) (\<lambda>start.
     pa_bind (spanned_clause start None (with_no_struct_literal E)) (\<lambda>pred.
     pa_bind (consume RBrace ''`}` to close the refinement predicate'') (\<lambda>_. pa_ret pred))))"

definition parse_param :: "Expr parser \<Rightarrow> bool \<Rightarrow> (Param \<times> Refinement option) parser" where
  "parse_param E refine =
     pa_bind (take_ident ''a parameter name'') (\<lambda>name.
     pa_bind (consume Colon ''`:`'') (\<lambda>_.
     pa_bind parse_type (\<lambda>ty.
     pa_bind (pa_get (check LBrace)) (\<lambda>brace.
     pa_bind (pa_when (refine \<and> brace) (parse_refinement_clause E)) (\<lambda>m.
       pa_ret (\<lparr>par_name = name, par_ty = ty\<rparr>,
         map_option (\<lambda>pred. \<lparr>re_target = RefinementTarget.Param name, re_pred = pred\<rparr>) m))))))"

text \<open>The flag says whether the caller collects refinements.\<close>

definition parse_params_inner :: "Expr parser \<Rightarrow> bool \<Rightarrow> (Param list \<times> Refinement list) parser" where
  "parse_params_inner E refine =
     pa_bind (consume LParen ''`(`'') (\<lambda>_.
     pa_bind (opt_comma_list RParen (parse_param E refine)) (\<lambda>ps.
     pa_bind (consume RParen ''`)`'') (\<lambda>_.
       pa_ret (map fst ps, concat (map (\<lambda>p. case snd p of None \<Rightarrow> [] | Some r \<Rightarrow> [r]) ps)))))"

definition parse_params :: "Expr parser \<Rightarrow> Param list parser" where
  "parse_params E = pa_bind (parse_params_inner E False) (\<lambda>(params, _). pa_ret params)"

definition parse_effect :: "Effect parser" where
  "parse_effect =
     pa_bind (take_ident ''an effect name'') (\<lambda>name.
       if name \<in> {''read'', ''write'', ''net''} then
         pa_bind (consume LParen ''`(`'') (\<lambda>_.
         pa_bind (take_ident ''an effect path argument'') (\<lambda>arg.
         pa_bind (consume RParen ''`)`'') (\<lambda>_.
           pa_ret (if name = ''read'' then Effect.Read arg
                   else if name = ''write'' then Effect.Write arg else Effect.Net arg))))
       else if name = ''alloc'' then pa_ret Effect.Alloc
       else if name = ''time'' then pa_ret Effect.Time
       else if name = ''rand'' then pa_ret Effect.Rand
       else if name = ''panic'' then pa_ret Effect.Panic
       else if name = ''diverge'' then pa_ret Effect.Diverge
       else if name = ''term'' then pa_ret Effect.Term
       else if name = ''platform'' then
         pa_bind (consume LParen ''`(` after `platform`'') (\<lambda>_.
         pa_bind (pa_get peek_span) (\<lambda>span.
         pa_bind (take_ident ''a platform domain'') (\<lambda>domain.
         pa_bind (consume RParen ''`)` after the platform domain'') (\<lambda>_.
           case domain_from_surface domain of
             None \<Rightarrow> pa_err (Unexpected
               ''a platform domain (boot/memory/mmio/pio/irq/cpu/atomic/smp/dma/clock/entropy/power)''
               (''identifier `'' @ domain @ ''`'') span)
           | Some dm \<Rightarrow> pa_ret (Effect.Platform dm)))))
       else
         pa_bind (pa_get prev_span) (\<lambda>span.
           pa_err (Unexpected ''an effect (read/write/net/alloc/time/rand/panic/diverge/term/platform)''
             (''identifier `'' @ name @ ''`'') span)))"

definition parse_effect_row :: "EffectRow parser" where
  "parse_effect_row =
     pa_bind (consume Fx ''`fx`'') (\<lambda>_.
     pa_bind (eat TokKind.Pure) (\<lambda>pure.
       if pure then pa_ret EffectRow.Pure
       else pa_bind (strict_comma_list parse_effect) (\<lambda>effects. pa_ret (EffectRow.Set effects))))"

definition parse_contract :: "bool \<Rightarrow> Expr parser \<Rightarrow> Ident \<Rightarrow> Contract parser" where
  "parse_contract bv E item =
     pa_bind (pa_get (\<lambda>st. (peek st, peek_span st))) (\<lambda>(kind, span).
       if kind \<noteq> Req then
         (if kind = Ens \<or> kind = Fx then pa_err (ClauseOrder item ''req'' span)
          else pa_err (MissingClause item ''req'' span))
       else
         pa_bind (parse_clause bv E Req) (\<lambda>req.
         pa_bind (some_clauses item ''ens'' Ens (parse_clause bv E Ens)) (\<lambda>ens.
         pa_bind (pa_get (\<lambda>st. (peek st, peek_span st))) (\<lambda>(kind, span).
           if kind = Req then pa_err (ClauseOrder item ''req'' span)
           else if kind \<noteq> Fx then pa_err (MissingClause item ''fx'' span)
           else pa_bind parse_effect_row (\<lambda>fx. pa_ret \<lparr>ct_req = req, ct_ens = ens, ct_fx = fx\<rparr>)))))"

text \<open>
  The body of a function is read with an empty list of pending holes and one level deeper; both are
  put back whatever it answers, and the holes it met are handed out.
\<close>

definition in_fn_body :: "'a parser \<Rightarrow> ('a \<times> Hole list) parser" where
  "in_fn_body p st =
     (case p (st\<lparr>ps_pending_holes := [], ps_fn_body_depth := ps_fn_body_depth st + 1\<rparr>) of
        None \<Rightarrow> None
      | Some (r, st') \<Rightarrow>
          Some (case r of Err e \<Rightarrow> Err e | Ok x \<Rightarrow> Ok (x, ps_pending_holes st'),
            st'\<lparr>ps_fn_body_depth := ps_fn_body_depth st' - 1, ps_pending_holes := ps_pending_holes st\<rparr>))"

definition parse_fn_body :: "Block parser \<Rightarrow> bool \<Rightarrow> (Block option \<times> Hole list) parser" where
  "parse_fn_body B boundary =
     pa_bind (pa_get (\<lambda>st. (peek st, peek_span st))) (\<lambda>(kind, span).
       if boundary then
         (if kind = LBrace then
            pa_err (Unexpected (''`;` (a `#[boundary]` fn is bodyless '' @ em_dash @ '' its body is foreign)'')
              (describe kind) span)
          else
            pa_bind (consume Semi ''`;` to end the bodyless `#[boundary]` fn (its body is foreign)'') (\<lambda>_.
              pa_ret (None, [])))
       else if kind = Semi then
         pa_err (Unexpected (''`{` (a non-`#[boundary]` fn requires a `{ }` body; only a `#[boundary('' @
           [CHR 0x22] @ ''...'' @ [CHR 0x22] @ '')]` fn is bodyless)'') (describe kind) span)
       else pa_bind (in_fn_body B) (\<lambda>(body, holes). pa_ret (Some body, holes)))"

definition parse_fn :: "bool \<Rightarrow> SlagAttr option \<Rightarrow> BoundaryAttr option \<Rightarrow> Span \<Rightarrow> Item parser" where
  "parse_fn bv slag boundary start_span =
     pa_bind (consume TokKind.Fn ''`fn`'') (\<lambda>_.
     pa_bind (take_ident ''a function name'') (\<lambda>name.
     pa_bind (parse_params_inner (parse_expr bv) True) (\<lambda>(params, refs).
     pa_bind (consume Arrow ''`->`'') (\<lambda>_.
     pa_bind parse_type (\<lambda>ret.
     pa_bind (pa_get (check LBrace)) (\<lambda>brace.
     pa_bind (pa_when brace (parse_refinement_clause (parse_expr bv))) (\<lambda>result.
     pa_bind (parse_contract bv (parse_expr bv) name) (\<lambda>contract.
     pa_bind (pa_get (check Dec)) (\<lambda>dec.
     pa_bind (pa_when dec (parse_dec_clause (parse_expr bv))) (\<lambda>dec.
     pa_bind (parse_fn_body (parse_block bv) (boundary \<noteq> None)) (\<lambda>(body, holes).
     pa_bind (pa_get prev_span) (\<lambda>end_span.
       pa_ret (Item.Fn \<lparr>fn_slag = slag, fn_boundary = boundary, fn_name = name, fn_params = params, fn_ret = ret,
         fn_contract = contract, fn_dec = dec, fn_body = body, fn_holes = holes,
         fn_refinements = refs @ (case result of None \<Rightarrow> []
           | Some pred \<Rightarrow> [\<lparr>re_target = RefinementTarget.Result, re_pred = pred\<rparr>]),
         fn_span = Span_to start_span end_span\<rparr>)))))))))))))"

definition parse_spec_fn :: "bool \<Rightarrow> Span \<Rightarrow> Item parser" where
  "parse_spec_fn bv start_span =
     pa_bind (consume Spec ''`spec`'') (\<lambda>_.
     pa_bind (consume TokKind.Fn ''`fn`'') (\<lambda>_.
     pa_bind (take_ident ''a function name'') (\<lambda>name.
     pa_bind (parse_params (parse_expr bv)) (\<lambda>params.
     pa_bind (consume Arrow ''`->`'') (\<lambda>_.
     pa_bind parse_type (\<lambda>ret.
     pa_bind (pa_get (\<lambda>st. (check Dec st, peek_span st))) (\<lambda>(dec, span).
       if \<not> dec then pa_err (MissingClause name ''dec'' span)
       else
         pa_bind (parse_dec_clause (parse_expr bv)) (\<lambda>dec.
         pa_bind (parse_block bv) (\<lambda>body.
         pa_bind (pa_get prev_span) (\<lambda>end_span.
           pa_ret (SpecFn \<lparr>sf_name = name, sf_params = params, sf_ret = ret, sf_dec = dec, sf_body = body,
             sf_span = Span_to start_span end_span\<rparr>)))))))))))"

definition parse_field_defs :: "FieldDef list parser" where
  "parse_field_defs =
     pa_bind (consume LBrace ''`{`'') (\<lambda>_.
     pa_bind (opt_comma_list RBrace
       (pa_bind (take_ident ''a field name'') (\<lambda>name.
        pa_bind (consume Colon ''`:`'') (\<lambda>_.
        pa_bind parse_type (\<lambda>ty. pa_ret \<lparr>fd_name = name, fd_ty = ty\<rparr>))))) (\<lambda>fs.
     pa_bind (consume RBrace ''`}`'') (\<lambda>_. pa_ret fs)))"

definition parse_struct :: "bool \<Rightarrow> Span \<Rightarrow> bool \<Rightarrow> Item parser" where
  "parse_struct bv start_span sealed =
     pa_bind (consume TokKind.Struct ''`struct`'') (\<lambda>_.
     pa_bind (take_ident ''a struct name'') (\<lambda>name.
     pa_bind parse_field_defs (\<lambda>fs.
     pa_bind (pa_get (check TokKind.Inv)) (\<lambda>inv.
     pa_bind (pa_when inv (parse_clause bv (parse_expr bv) TokKind.Inv)) (\<lambda>inv.
     pa_bind (pa_get prev_span) (\<lambda>end_span.
       pa_ret (Item.Struct \<lparr>st_name = name, st_fields = fs, st_inv = inv, st_sealed = sealed,
         st_span = Span_to start_span end_span\<rparr>)))))))"

definition parse_variant :: "VariantDef parser" where
  "parse_variant =
     pa_bind (take_ident ''a variant name'') (\<lambda>name.
     pa_bind (eat LParen) (\<lambda>paren.
       if paren then
         pa_bind (opt_comma_list RParen parse_type) (\<lambda>tys.
         pa_bind (consume RParen ''`)`'') (\<lambda>_. pa_ret \<lparr>va_name = name, va_shape = VariantShape.Tuple tys\<rparr>))
       else pa_bind (pa_get (check LBrace)) (\<lambda>brace.
         if brace then
           pa_bind parse_field_defs (\<lambda>fs. pa_ret \<lparr>va_name = name, va_shape = VariantShape.Struct fs\<rparr>)
         else pa_ret \<lparr>va_name = name, va_shape = VariantShape.Unit\<rparr>)))"

definition parse_enum :: "Span \<Rightarrow> Item parser" where
  "parse_enum start_span =
     pa_bind (consume TokKind.Enum ''`enum`'') (\<lambda>_.
     pa_bind (take_ident ''an enum name'') (\<lambda>name.
     pa_bind (consume LBrace ''`{`'') (\<lambda>_.
     pa_bind (opt_comma_list RBrace parse_variant) (\<lambda>variants.
     pa_bind (consume RBrace ''`}`'') (\<lambda>_.
     pa_bind (pa_get prev_span) (\<lambda>end_span.
       pa_ret (Item.Enum \<lparr>en_name = name, en_variants = variants, en_span = Span_to start_span end_span\<rparr>)))))))"



section \<open>The proof tier\<close>

definition parse_prop_fn :: "bool \<Rightarrow> Span \<Rightarrow> PropFnItem parser" where
  "parse_prop_fn bv start_span =
     pa_bind (expect_contextual ''prop'') (\<lambda>_.
     pa_bind (consume TokKind.Fn ''`fn`'') (\<lambda>_.
     pa_bind (take_ident ''a prop fn name'') (\<lambda>name.
     pa_bind (parse_params (parse_expr bv)) (\<lambda>params.
     pa_bind (consume Arrow ''`->`'') (\<lambda>_.
     pa_bind parse_type (\<lambda>ret.
     pa_bind (pa_get (check Dec)) (\<lambda>dec.
     pa_bind (pa_when dec (parse_dec_clause (parse_expr bv))) (\<lambda>dec.
     pa_bind (parse_block bv) (\<lambda>body.
     pa_bind (pa_get prev_span) (\<lambda>end_span.
       pa_ret \<lparr>pf_name = name, pf_params = params, pf_ret = ret, pf_dec = dec, pf_body = body,
         pf_span = Span_to start_span end_span\<rparr>))))))))))"

text \<open>A token that is not the end of the input.\<close>

definition next_token :: "string \<Rightarrow> Token parser" where
  "next_token what st = (if at_eof st then unexpected what st else bump st)"

text \<open>
  One round over a proof block: the depth of open braces, the holes so far, and the closed block. The
  spans of tokens are ordered, so the subtractions of the source do not underflow.
\<close>

definition proof_block_step ::
  "Token \<Rightarrow> nat \<times> Hole list \<times> ProofBlock option \<Rightarrow> ((nat \<times> Hole list \<times> ProofBlock option) \<times> bool) parser" where
  "proof_block_step open_tok acc =
     (case acc of (depth, holes, closed) \<Rightarrow>
       pa_bind (next_token ''`}` to close the proof block'') (\<lambda>tok.
         if tok_kind tok = LBrace then pa_ret ((depth + 1, holes, None), True)
         else if tok_kind tok = RBrace then
           (if depth - 1 = 0 then
              (let inner_start = Span_end (tok_span open_tok);
                   inner = \<lparr>sp_start = inner_start, sp_len = sp_start (tok_span tok) - inner_start\<rparr>;
                   span = \<lparr>sp_start = sp_start (tok_span open_tok),
                           sp_len = Span_end (tok_span tok) - sp_start (tok_span open_tok)\<rparr>
               in pa_bind (pa_get (span_text inner)) (\<lambda>text.
                    pa_ret ((0, holes, Some \<lparr>pb_text = text, pb_holes = holes, pb_span = span\<rparr>), False)))
            else pa_ret ((depth - 1, holes, None), True))
         else case hole_of (tok_kind tok) of
             Some (number, proof) \<Rightarrow>
               (if proof then
                  pa_ret ((depth, holes @ [\<lparr>ho_number = number, ho_span = tok_span tok, ho_context = HoleContext.Proof\<rparr>],
                    None), True)
                else pa_err (BodyHoleInProofBlock number (tok_span tok)))
           | None \<Rightarrow> pa_ret ((depth, holes, None), True)))"

definition scan_proof_block :: "ProofBlock parser" where
  "scan_proof_block =
     pa_bind (consume LBrace ''`{` to open the proof block'') (\<lambda>open_tok.
     pa_bind (pa_while (proof_block_step open_tok) (1, [], None)) (\<lambda>(_, _, closed).
       case closed of Some b \<Rightarrow> pa_ret b | None \<Rightarrow> unexpected ''`}` to close the proof block''))"

definition parse_lemma :: "bool \<Rightarrow> Span \<Rightarrow> LemmaItem parser" where
  "parse_lemma bv start_span =
     pa_bind (expect_contextual ''lemma'') (\<lambda>_.
     pa_bind (take_ident ''a lemma name'') (\<lambda>name.
     pa_bind (parse_params (parse_expr bv)) (\<lambda>params.
     pa_bind (pa_get (\<lambda>st. (check Req st, peek_span st))) (\<lambda>(req, span).
       if \<not> req then pa_err (MissingClause name ''req'' span)
       else
         pa_bind (parse_clause bv (parse_expr bv) Req) (\<lambda>req.
         pa_bind (some_clauses name ''ens'' Ens (parse_clause bv (parse_expr bv) Ens)) (\<lambda>ens.
         pa_bind (eat_contextual ''proof'') (\<lambda>proof_kw.
           if \<not> proof_kw then unexpected (''`proof { '' @ ellipsis @ '' }` to discharge the lemma'')
           else
             pa_bind scan_proof_block (\<lambda>block.
             pa_bind (pa_get prev_span) (\<lambda>end_span.
               pa_ret \<lparr>le_name = name, le_params = params, le_req = req, le_ens = ens, le_proof = block,
                 le_span = Span_to start_span end_span\<rparr>)))))))))"

definition parse_clause_index :: "u32 option parser" where
  "parse_clause_index =
     pa_bind (eat Hash) (\<lambda>hash.
       if \<not> hash then pa_ret None
       else pa_bind (eat_map int_of) (\<lambda>m. case m of
           Some (val, raw) \<Rightarrow> pa_ret (Some (ucast val))
         | None \<Rightarrow> unexpected ''a clause ordinal `#k` after `#`''))"

definition clause_family :: "TokKind \<Rightarrow> string option" where
  "clause_family = map_of [(Ens, ''ens''), (Req, ''req''), (TokKind.Inv, ''inv'')]"

definition parse_clause_selector :: "ClauseSelector parser" where
  "parse_clause_selector =
     pa_bind (eat_map clause_family) (\<lambda>m. case m of
         None \<Rightarrow> unexpected ''a clause family (`ens`/`req`/`inv`)''
       | Some keyword \<Rightarrow>
           pa_bind parse_clause_index (\<lambda>index. pa_ret \<lparr>cs_keyword = keyword, cs_index = index\<rparr>))"

definition parse_obligation :: "ProofObligation parser" where
  "parse_obligation =
     pa_bind (pa_get peek_span) (\<lambda>start.
     pa_bind parse_clause_selector (\<lambda>clause.
     pa_bind (eat_contextual ''by'') (\<lambda>by_kw.
       if \<not> by_kw then unexpected (''`by { '' @ ellipsis @ '' }` to discharge the clause'')
       else
         pa_bind scan_proof_block (\<lambda>block.
         pa_bind (pa_get prev_span) (\<lambda>end_span.
           pa_ret \<lparr>ob_clause = clause, ob_proof = block, ob_span = Span_to start end_span\<rparr>)))))"

text \<open>\<open>while !self.check(&TokKind::RBrace) && !self.at_eof()\<close> around a list of directives.\<close>

definition until_brace :: "('a \<Rightarrow> 'a parser) \<Rightarrow> 'a \<Rightarrow> 'a parser" where
  "until_brace step =
     pa_while (\<lambda>acc.
       pa_bind (pa_get (\<lambda>st. check RBrace st \<or> at_eof st)) (\<lambda>stop.
         if stop then pa_ret (acc, False) else pa_bind (step acc) (\<lambda>acc. pa_ret (acc, True))))"

definition parse_proof_item :: "Span \<Rightarrow> ProofItem parser" where
  "parse_proof_item start_span =
     pa_bind (expect_contextual ''proof'') (\<lambda>_.
     pa_bind (expect_contextual ''for'') (\<lambda>_.
     pa_bind (take_ident ''the target function name of `proof for`'') (\<lambda>target.
     pa_bind (consume LBrace ''`{`'') (\<lambda>_.
     pa_bind (until_brace (\<lambda>obs. pa_bind parse_obligation (\<lambda>ob. pa_ret (obs @ [ob]))) []) (\<lambda>obs.
     pa_bind (consume RBrace ''`}`'') (\<lambda>_.
     pa_bind (pa_get prev_span) (\<lambda>end_span.
       pa_ret \<lparr>pi_target = target, pi_obligations = obs, pi_span = Span_to start_span end_span\<rparr>)))))))"

definition parse_directive ::
  "Expr parser \<Rightarrow> Inhabit list \<times> Falsify list \<Rightarrow> (Inhabit list \<times> Falsify list) parser" where
  "parse_directive E acc =
     (case acc of (inhabits, falsifies) \<Rightarrow>
       pa_bind (pa_get peek_span) (\<lambda>start.
       pa_bind (eat_contextual ''inhabit'') (\<lambda>inhabit.
         if inhabit then
           pa_bind (consume LParen ''`(`'') (\<lambda>_.
           pa_bind (opt_comma_list RParen E) (\<lambda>args.
           pa_bind (consume RParen ''`)`'') (\<lambda>_.
           pa_bind (consume Semi ''`;` to end the `inhabit` directive'') (\<lambda>_.
           pa_bind (pa_get prev_span) (\<lambda>end_span.
             pa_ret (inhabits @ [\<lparr>ih_args = args, ih_span = Span_to start end_span\<rparr>], falsifies))))))
         else
           pa_bind (eat_contextual ''falsify'') (\<lambda>falsify.
             if falsify then
               pa_bind (eat_map int_of) (\<lambda>m. case m of
                   None \<Rightarrow> unexpected ''a `falsify` budget integer''
                 | Some (val, raw) \<Rightarrow>
                     pa_bind (consume Semi ''`;` to end the `falsify` directive'') (\<lambda>_.
                     pa_bind (pa_get prev_span) (\<lambda>end_span.
                       pa_ret (inhabits, falsifies @ [\<lparr>fa_budget = ucast val, fa_span = Span_to start end_span\<rparr>]))))
             else unexpected (''`inhabit ('' @ ellipsis @ '');` or `falsify N;` in a `witness` block'')))))"

definition parse_witness :: "bool \<Rightarrow> Span \<Rightarrow> WitnessBlock parser" where
  "parse_witness bv start_span =
     pa_bind (expect_contextual ''witness'') (\<lambda>_.
     pa_bind (consume LBrace ''`{`'') (\<lambda>_.
     pa_bind (until_brace (parse_directive (parse_expr bv)) ([], [])) (\<lambda>(inhabits, falsifies).
     pa_bind (consume RBrace ''`}`'') (\<lambda>_.
     pa_bind (pa_get prev_span) (\<lambda>end_span.
       pa_ret \<lparr>wb_inhabits = inhabits, wb_falsifies = falsifies, wb_span = Span_to start_span end_span\<rparr>)))))"


section \<open>Items and programs\<close>

definition bad_attr :: "ParsedAttr \<Rightarrow> 'a parser" where
  "bad_attr attr =
     (case attr of
        Slag _ \<Rightarrow> unexpected ''`fn` after `#[slag(...)]`''
      | Boundary _ \<Rightarrow> unexpected (''`fn` after `#[boundary('' @ [CHR 0x22] @ ''...'' @ [CHR 0x22] @ '')]`'')
      | Sealed \<Rightarrow> unexpected ''`struct` after `#[sealed]`'')"

definition forge_kind :: "Parser \<Rightarrow> string option" where
  "forge_kind st =
     (case ident_of (peek st) of
        None \<Rightarrow> None
      | Some w \<Rightarrow>
          if w = ''prop'' \<and> peek_nth st 1 = TokKind.Fn then Some ''prop''
          else if w = ''lemma'' then Some ''lemma''
          else if w = ''proof'' then Some ''proof''
          else if w = ''witness'' then Some ''witness''
          else None)"

definition parse_forge_item :: "bool \<Rightarrow> string \<Rightarrow> Span \<Rightarrow> Item parser" where
  "parse_forge_item bv kind start_span =
     (if kind = ''prop'' then pa_bind (parse_prop_fn bv start_span) (\<lambda>p. pa_ret (Forge (PropFn p)))
      else if kind = ''lemma'' then pa_bind (parse_lemma bv start_span) (\<lambda>l. pa_ret (Forge (Lemma l)))
      else if kind = ''proof'' then pa_bind (parse_proof_item start_span) (\<lambda>p. pa_ret (Forge (ForgeItem.Proof p)))
      else pa_bind (parse_witness bv start_span) (\<lambda>w. pa_ret (Forge (Witness w))))"

definition parse_item_after :: "bool \<Rightarrow> Span \<Rightarrow> ParsedAttr option \<Rightarrow> Item parser" where
  "parse_item_after bv start_span attr =
     pa_bind (pa_get (\<lambda>st. (peek st, forge_kind st))) (\<lambda>(kind, forge).
       if kind = TokKind.Struct then
         (case attr of
            None \<Rightarrow> parse_struct bv start_span False
          | Some a \<Rightarrow> if a = Sealed then parse_struct bv start_span True else bad_attr a)
       else if kind = TokKind.Enum then
         (case attr of None \<Rightarrow> parse_enum start_span | Some a \<Rightarrow> bad_attr a)
       else case forge of
         Some fk \<Rightarrow>
           (if attr \<noteq> None then
              unexpected ''a forge-tier item (`prop fn`/`lemma`/`proof`/`witness`) takes no attribute''
            else parse_forge_item bv fk start_span)
       | None \<Rightarrow>
           if kind = Spec then (case attr of None \<Rightarrow> parse_spec_fn bv start_span | Some a \<Rightarrow> bad_attr a)
           else if kind = TokKind.Fn then
             (case attr of
                None \<Rightarrow> parse_fn bv None None start_span
              | Some a \<Rightarrow>
                  (case a of
                     Slag s \<Rightarrow> parse_fn bv (Some s) None start_span
                   | Boundary b \<Rightarrow> parse_fn bv None (Some b) start_span
                   | Sealed \<Rightarrow> bad_attr a))
           else unexpected (''`fn`, `spec fn`, `#[slag(...)]`, `#[boundary('' @ [CHR 0x22] @ ''...'' @ [CHR 0x22] @
             '')]`, or `#[sealed] struct`''))"

definition parse_item :: "bool \<Rightarrow> Item parser" where
  "parse_item bv =
     pa_bind (pa_get (\<lambda>st. (peek_span st, check HashBracket st))) (\<lambda>(start_span, attributed).
     pa_bind (pa_when attributed parse_attribute) (\<lambda>attr. parse_item_after bv start_span attr))"

definition item_start :: "TokKind \<Rightarrow> bool" where
  "item_start kind = (kind \<in> {TokKind.Fn, Spec, HashBracket, TokKind.Struct, TokKind.Enum})"

text \<open>The loop stops at the end of the input, which is the last token.\<close>

function resync_skip :: "Parser \<Rightarrow> Parser" where
  "resync_skip st =
     (if at_eof st \<or> item_start (peek st) \<or> remaining st = 0 then st else resync_skip (advance st))"
  by pat_completeness auto
termination by (relation "measure remaining") (auto simp: remaining_def advance_def)

declare resync_skip.simps [simp del]

definition resync_to_item_boundary :: "nat \<Rightarrow> Parser \<Rightarrow> Parser" where
  "resync_to_item_boundary min_start st =
     resync_skip (if ps_pos st = min_start \<and> \<not> at_eof st then advance st else st)"

fun program_loop :: "bool \<Rightarrow> nat \<Rightarrow> Parser \<Rightarrow> Parser option" where
  "program_loop bv 0 st = None"
| "program_loop bv (Suc n) st =
     (if at_eof st then Some st
      else case parse_item bv st of
          None \<Rightarrow> None
        | Some (Ok item, st') \<Rightarrow> program_loop bv n (st'\<lparr>ps_items := ps_items st' @ [item]\<rparr>)
        | Some (Err e, st') \<Rightarrow>
            program_loop bv n (resync_to_item_boundary (ps_pos st) (st'\<lparr>ps_errors := ps_errors st' @ [e]\<rparr>)))"

definition parse_program :: "bool \<Rightarrow> Parser \<Rightarrow> Parser option" where
  "parse_program bv st = program_loop bv (Suc (remaining st)) st"

definition Parser_new :: "string \<Rightarrow> Token list \<Rightarrow> SyntaxError list \<Rightarrow> Parser" where
  "Parser_new src tokens lex_errors =
     \<lparr>ps_src = src, ps_tokens = tokens, ps_pos = 0, ps_items = [], ps_errors = lex_errors,
      ps_recursion_depth = 0, ps_no_struct_literal = False, ps_no_dot = False, ps_loop_depth = 0,
      ps_fn_body_depth = 0, ps_pending_holes = []\<rparr>"

record ParseResult =
  prs_program :: Program
  prs_errors :: "SyntaxError list"

definition is_clean :: "ParseResult \<Rightarrow> bool" where
  "is_clean r = (prs_errors r = [])"

definition parse :: "bool \<Rightarrow> string \<Rightarrow> ParseResult option" where
  "parse bv src =
     (case tokenize src of
        None \<Rightarrow> None
      | Some (tokens, lex_errors) \<Rightarrow>
          (case parse_program bv (Parser_new src tokens lex_errors) of
             None \<Rightarrow> None
           | Some st \<Rightarrow>
               Some \<lparr>prs_program = desugar \<lparr>pr_items = ps_items st\<rparr>, prs_errors = ps_errors st\<rparr>))"

end
