(* ===== verification/Parser_Program.thy ===== *)
theory Parser_Program
  imports Parser_Item
begin

text \<open>
  What the parser promises of whole programs: it answers for every source that scans, every item it
  collects is well formed, and reading one item leaves nothing behind for the next but the cursor.
\<close>

section \<open>Well-formed items\<close>

definition wf_params :: "Param list \<Rightarrow> bool" where
  "wf_params ps = list_all (\<lambda>p. wf_type (par_ty p)) ps"

definition wf_refinement :: "bool \<Rightarrow> Refinement \<Rightarrow> bool" where
  "wf_refinement bv r = wf_dec bv 0 (re_pred r)"

definition wf_row :: "EffectRow \<Rightarrow> bool" where
  "wf_row row = (case row of EffectRow.Pure \<Rightarrow> True | EffectRow.Set es \<Rightarrow> es \<noteq> [])"

definition wf_contract :: "bool \<Rightarrow> Contract \<Rightarrow> bool" where
  "wf_contract bv c \<longleftrightarrow> wf_dec bv 0 (ct_req c) \<and> ct_ens c \<noteq> [] \<and> list_all (wf_clause bv 0) (ct_ens c) \<and>
     wf_row (ct_fx c)"

definition wf_fn :: "bool \<Rightarrow> FnItem \<Rightarrow> bool" where
  "wf_fn bv f \<longleftrightarrow> wf_params (fn_params f) \<and> wf_type (fn_ret f) \<and> wf_contract bv (fn_contract f) \<and>
     pred_option (wf_dec bv 0) (fn_dec f) \<and> pred_option (wf_block bv 0) (fn_body f) \<and>
     (fn_boundary f \<noteq> None \<longleftrightarrow> fn_body f = None) \<and> (fn_slag f = None \<or> fn_boundary f = None) \<and>
     list_all (wf_refinement bv) (fn_refinements f)"

definition wf_fields :: "FieldDef list \<Rightarrow> bool" where
  "wf_fields fs = list_all (\<lambda>f. wf_type (fd_ty f)) fs"

definition wf_variant :: "VariantDef \<Rightarrow> bool" where
  "wf_variant v =
     (case va_shape v of
        VariantShape.Unit \<Rightarrow> True
      | VariantShape.Tuple ts \<Rightarrow> list_all wf_type ts
      | VariantShape.Struct fs \<Rightarrow> wf_fields fs)"

definition wf_prop_fn :: "bool \<Rightarrow> PropFnItem \<Rightarrow> bool" where
  "wf_prop_fn bv p \<longleftrightarrow> wf_params (pf_params p) \<and> wf_type (pf_ret p) \<and> pred_option (wf_dec bv 0) (pf_dec p) \<and>
     wf_block bv 0 (pf_body p)"

definition wf_lemma :: "bool \<Rightarrow> LemmaItem \<Rightarrow> bool" where
  "wf_lemma bv l \<longleftrightarrow> wf_params (le_params l) \<and> wf_dec bv 0 (le_req l) \<and> le_ens l \<noteq> [] \<and>
     list_all (wf_clause bv 0) (le_ens l)"

definition wf_forge :: "bool \<Rightarrow> ForgeItem \<Rightarrow> bool" where
  "wf_forge bv item =
     (case item of
        PropFn p \<Rightarrow> wf_prop_fn bv p
      | Lemma l \<Rightarrow> wf_lemma bv l
      | ForgeItem.Proof p \<Rightarrow> list_all (\<lambda>ob. cs_keyword (ob_clause ob) \<in> {''ens'', ''req'', ''inv''}) (pi_obligations p)
      | Witness w \<Rightarrow> list_all (\<lambda>i. list_all (wf_expr bv 0) (ih_args i)) (wb_inhabits w))"

definition wf_item :: "bool \<Rightarrow> Item \<Rightarrow> bool" where
  "wf_item bv item =
     (case item of
        Item.Fn f \<Rightarrow> wf_fn bv f
      | SpecFn s \<Rightarrow> wf_params (sf_params s) \<and> wf_type (sf_ret s) \<and> wf_dec bv 0 (sf_dec s) \<and> wf_block bv 0 (sf_body s)
      | Item.Struct s \<Rightarrow> wf_fields (st_fields s) \<and> pred_option (wf_clause bv 0) (st_inv s)
      | Item.Enum e \<Rightarrow> list_all wf_variant (en_variants e)
      | Forge f \<Rightarrow> wf_forge bv f)"


section \<open>The functions for items\<close>

lemmas item_clause = items.clause [OF order_refl]
lemmas item_dec = items.dec_clause [OF order_refl]

lemmas item_binds = parses_bind_strict [OF parses_type] parses_bind_strict [OF parses_block]

lemma parses_attribute: "parses S d k any parse_attribute"
proof -
  have "parses any d j any (pa_bind (take_ident w) (\<lambda>field. pa_bind (consume TokKind.Eq w') (\<lambda>_.
        pa_bind (take_string w'') (\<lambda>val. pa_ret (field, val)))))" for j w w' w''
    by (intro parses_rules) simp_all
  note fs = parses_bind [OF parses_opt_comma_list [OF _ this]]
  have slag: "parses any d j any (parse_slag_body start)" for j start
    unfolding parse_slag_body_def by (intro parses_rules fs) simp_all
  have boundary: "parses any d j any (parse_boundary_body start)" for j start
    unfolding parse_boundary_body_def by (intro parses_rules) simp_all
  show ?thesis unfolding parse_attribute_def
    by (intro parses_rules parses_bind_strict [OF slag] parses_bind_strict [OF boundary]) simp_all
qed

lemma parses_refinement: "parses S 0 k (wf_dec bv 0) (parse_refinement_clause (parse_expr bv))"
proof -
  have "parses never 0 j (wf_dec bv 0) (spanned_clause start None (with_no_struct_literal (parse_expr bv)))" for j start
    by (rule parses_mono [OF items.spanned_clause [OF parses_no_struct [OF parses_expr]] order_refl])
      (simp_all add: wf_clause_def wf_dec_def)
  note pred = parses_bind [OF this]
  show ?thesis unfolding parse_refinement_clause_def by (intro parses_rules pred) simp_all
qed

lemma parses_params_inner:
  "parses S 0 k (\<lambda>(ps, rs). wf_params ps \<and> list_all (wf_refinement bv) rs) (parse_params_inner (parse_expr bv) refine)"
proof -
  let ?Q = "\<lambda>(p, m). wf_type (par_ty p) \<and> pred_option (wf_refinement bv) m"
  have "parses never 0 j (pred_option (wf_dec bv 0)) (pa_when b (parse_refinement_clause (parse_expr bv)))" for j b
    by (intro parses_when parses_refinement)
  note when_refined = parses_bind [OF this]
  have "parses any 0 j ?Q (parse_param (parse_expr bv) refine)" for j
    unfolding parse_param_def
    by (intro parses_rules item_binds when_refined) (auto simp: wf_refinement_def option.pred_map comp_def)
  note ps = parses_bind [OF parses_opt_comma_list [OF _ this]]
  have "wf_params (map fst ps) \<and> list_all (wf_refinement bv)
      (concat (map (\<lambda>p. case snd p of None \<Rightarrow> [] | Some r \<Rightarrow> [r]) ps))" if "list_all ?Q ps" for ps
    using that by (induction ps) (auto simp: wf_params_def split: option.splits)
  then show ?thesis unfolding parse_params_inner_def by (intro parses_rules ps) auto
qed

lemma parses_params: "parses S 0 k wf_params (parse_params (parse_expr bv))"
  unfolding parse_params_def
  by (intro parses_bind_strict [OF parses_params_inner [where bv = bv]] parses_rules) simp_all

lemma parses_effect: "parses S d k any parse_effect"
  unfolding parse_effect_def by (intro parses_rules) simp_all

lemma parses_effect_row: "parses S d k wf_row parse_effect_row"
  unfolding parse_effect_row_def
  by (intro parses_rules parses_bind [OF parses_strict_comma_list [OF parses_effect]]) (simp_all add: wf_row_def)

lemma parses_ens:
  "parses S 0 k (\<lambda>cs. cs \<noteq> [] \<and> list_all (wf_clause bv 0) cs)
     (some_clauses item clause Ens (parse_clause bv (parse_expr bv) Ens))"
  by (intro parses_some_clauses parses_mono [OF item_clause order_refl]) auto

lemma parses_req: "parses S 0 k (wf_dec bv 0) (parse_clause bv (parse_expr bv) Req)"
  by (intro parses_mono [OF item_clause order_refl]) (auto simp: wf_clause_def wf_dec_def)

lemma parses_contract: "parses S 0 k (wf_contract bv) (parse_contract bv (parse_expr bv) item)"
  unfolding parse_contract_def
  by (intro parses_rules parses_bind_strict [OF parses_req] parses_bind_strict [OF parses_ens]
      parses_bind_strict [OF parses_effect_row]) (simp_all add: wf_contract_def)

lemma parses_in_fn_body:
  assumes "parses S d k Q p"
  shows "parses (S \<circ> fst) d k (Q \<circ> fst) (in_fn_body p)"
proof (rule parsesI)
  fix st :: Parser
  let ?st = "st\<lparr>ps_pending_holes := [], ps_fn_body_depth := ps_fn_body_depth st + 1\<rparr>"
  assume st: "wf_ps st" "remaining st \<le> k" "ps_loop_depth st = d"
  then have "wf_ps ?st" "remaining ?st \<le> k" "ps_loop_depth ?st = d" by (simp_all add: wf_ps_def remaining_def)
  with assms show "\<exists>r st'. in_fn_body p st = Some (r, st') \<and> outcome_ok (S \<circ> fst) (Q \<circ> fst) st (r, st')"
    by (rule parsesE) (auto simp: in_fn_body_def same_flags_def wf_ps_def)
qed

lemma parses_fn_body:
  "parses S 0 k (\<lambda>(body, _). pred_option (wf_block bv 0) body \<and> (boundary \<longleftrightarrow> body = None))
     (parse_fn_body (parse_block bv) boundary)"
proof -
  have "parses any 0 j (wf_block bv 0 \<circ> fst) (in_fn_body (parse_block bv))" for j
    using parses_in_fn_body [OF parses_block [where S = any]] by (simp add: comp_def)
  note body = parses_bind_strict [OF this]
  show ?thesis unfolding parse_fn_body_def by (intro parses_rules body) simp_all
qed


lemma parses_fn:
  assumes "slag = None \<or> boundary = None"
  shows "parses S 0 k (wf_item bv) (parse_fn bv slag boundary start)"
proof -
  have "parses never 0 j (pred_option (wf_dec bv 0)) (pa_when b (parse_refinement_clause (parse_expr bv)))"
    "parses never 0 j (pred_option (wf_dec bv 0)) (pa_when b (parse_dec_clause (parse_expr bv)))" for j b
    by (intro parses_when parses_refinement item_dec)+
  note options = this [THEN parses_bind]
  show ?thesis unfolding parse_fn_def using assms
    by (intro parses_rules item_binds options parses_bind_strict [OF parses_params_inner [where bv = bv]]
        parses_bind_strict [OF parses_contract] parses_bind_strict [OF parses_fn_body])
      (auto simp: wf_item_def wf_fn_def wf_refinement_def split: option.splits)
qed

lemma parses_spec_fn: "parses S 0 k (wf_item bv) (parse_spec_fn bv start)"
  unfolding parse_spec_fn_def
  by (intro parses_rules item_binds parses_bind_strict [OF parses_params] parses_bind_strict [OF item_dec])
    (simp_all add: wf_item_def)

lemma parses_field_defs: "parses S d k wf_fields parse_field_defs"
proof -
  have "parses any d j (\<lambda>f. wf_type (fd_ty f)) (pa_bind (take_ident w) (\<lambda>name. pa_bind (consume Colon w') (\<lambda>_.
        pa_bind parse_type (\<lambda>ty. pa_ret \<lparr>fd_name = name, fd_ty = ty\<rparr>))))" for j w w'
    by (intro parses_rules item_binds) simp_all
  note fs = parses_bind [OF parses_opt_comma_list [OF _ this]]
  show ?thesis unfolding parse_field_defs_def by (intro parses_rules fs) (simp_all add: wf_fields_def)
qed

lemma parses_struct_item: "parses S 0 k (wf_item bv) (parse_struct bv start sealed)"
proof -
  have "parses never 0 j (pred_option (wf_clause bv 0)) (pa_when b (parse_clause bv (parse_expr bv) TokKind.Inv))" for j b
    by (intro parses_when parses_mono [OF item_clause order_refl]) auto
  note inv = parses_bind [OF this]
  show ?thesis unfolding parse_struct_def
    by (intro parses_rules parses_bind_strict [OF parses_field_defs] inv) (simp_all add: wf_item_def)
qed

lemma parses_enum: "parses S d k (wf_item bv) (parse_enum start)"
proof -
  have "parses any d j wf_variant parse_variant" for j
    unfolding parse_variant_def
    by (intro parses_rules parses_bind [OF parses_opt_comma_list [OF _ parses_type]]
        parses_bind_strict [OF parses_field_defs]) (simp_all add: wf_variant_def)
  note variants = parses_bind [OF parses_opt_comma_list [OF _ this]]
  show ?thesis unfolding parse_enum_def by (intro parses_rules variants) (simp_all add: wf_item_def)
qed

lemma parses_prop_fn: "parses S 0 k (wf_prop_fn bv) (parse_prop_fn bv start)"
proof -
  have "parses never 0 j (pred_option (wf_dec bv 0)) (pa_when b (parse_dec_clause (parse_expr bv)))" for j b
    by (intro parses_when item_dec)
  note dec = parses_bind [OF this]
  show ?thesis unfolding parse_prop_fn_def
    by (intro parses_rules item_binds parses_bind_strict [OF parses_params] dec) (simp_all add: wf_prop_fn_def)
qed

lemma parses_next_token: "parses S d k any (next_token what)"
  using advance_ok advance_strict
  by (intro parsesI) (auto simp: next_token_def at_eof_def unexpected_def bump_def)

lemma parses_proof_block_step: "parses snd d k any (proof_block_step t acc)"
proof (cases acc)
  case (fields depth holes closed)
  show ?thesis unfolding fields proof_block_step_def prod.case
    by (intro parses_bind_strict [OF parses_next_token] parses_rules) simp_all
qed

lemma parses_scan_proof_block: "parses S d k any scan_proof_block"
proof -
  have "parses never d j any (pa_while (proof_block_step t) acc)" for j t acc
    by (rule parses_while [where I = any]) (auto intro: parses_mono [OF parses_proof_block_step])
  note loop = parses_bind [OF this]
  show ?thesis unfolding scan_proof_block_def by (intro parses_rules loop) simp_all
qed

lemma parses_lemma: "parses S 0 k (wf_lemma bv) (parse_lemma bv start)"
  unfolding parse_lemma_def
  by (intro parses_rules parses_bind_strict [OF parses_params] parses_bind_strict [OF parses_req]
      parses_bind_strict [OF parses_ens] parses_bind_strict [OF parses_scan_proof_block])
    (simp_all add: wf_lemma_def)

lemma parses_until_brace:
  assumes "\<And>a j. j \<le> k \<Longrightarrow> I a \<Longrightarrow> parses any d j I (step a)" "I a"
  shows "parses never d k I (until_brace step a)"
  unfolding until_brace_def
  by (rule parses_while [where I = I], rule assms(2))
    (intro parses_rules parses_bind_strict [OF assms(1)], simp_all)

lemma parses_obligation:
  "parses S d k (\<lambda>ob. cs_keyword (ob_clause ob) \<in> {''ens'', ''req'', ''inv''}) parse_obligation"
proof -
  have index: "parses never d j any parse_clause_index" for j
    unfolding parse_clause_index_def by (intro parses_rules) (auto simp: int_of_def)
  have "parses any d j (\<lambda>c. cs_keyword c \<in> {''ens'', ''req'', ''inv''}) parse_clause_selector" for j
    unfolding parse_clause_selector_def
    by (intro parses_rules parses_bind [OF index]) (auto simp: clause_family_def split: if_splits)
  note selector = parses_bind_strict [OF this]
  show ?thesis unfolding parse_obligation_def
    by (intro parses_rules selector parses_bind_strict [OF parses_scan_proof_block]) simp_all
qed

lemma parses_proof_item:
  "parses S d k (\<lambda>p. list_all (\<lambda>ob. cs_keyword (ob_clause ob) \<in> {''ens'', ''req'', ''inv''}) (pi_obligations p))
     (parse_proof_item start)"
proof -
  let ?Q = "\<lambda>ob. cs_keyword (ob_clause ob) \<in> {''ens'', ''req'', ''inv''}"
  have "parses any d j (list_all ?Q) (pa_bind parse_obligation (\<lambda>ob. pa_ret (obs @ [ob])))"
    if "list_all ?Q obs" for j obs
    using that by (intro parses_bind_strict [OF parses_obligation] parses_rules) simp_all
  note obs = parses_bind [OF parses_until_brace [where I = "list_all ?Q", OF this]]
  show ?thesis unfolding parse_proof_item_def by (intro parses_rules obs) simp_all
qed

lemma parses_witness:
  "parses S 0 k (\<lambda>w. list_all (\<lambda>i. list_all (wf_expr bv 0) (ih_args i)) (wb_inhabits w)) (parse_witness bv start)"
proof -
  let ?I = "\<lambda>acc. list_all (\<lambda>i. list_all (wf_expr bv 0) (ih_args i)) (fst acc)"
  have "parses any 0 j ?I (parse_directive (parse_expr bv) acc)" if "?I acc" for j acc
    unfolding parse_directive_def using that
    by (cases acc) (simp only: prod.case, intro parses_rules parses_bind [OF parses_opt_comma_list [OF _ parses_expr]],
      auto simp: int_of_def)
  note directives = parses_bind [OF parses_until_brace [where I = ?I, OF this]]
  show ?thesis unfolding parse_witness_def by (intro parses_rules directives) auto
qed


lemma parses_forge_item: "parses S 0 k (wf_item bv) (parse_forge_item bv kind start)"
  unfolding parse_forge_item_def
  by (intro parses_rules parses_bind_strict [OF parses_prop_fn] parses_bind_strict [OF parses_lemma]
      parses_bind_strict [OF parses_proof_item] parses_bind_strict [OF parses_witness [where bv = bv]])
    (simp_all add: wf_item_def wf_forge_def)

lemma parses_bad_attr: "parses S d k Q (bad_attr a)"
  unfolding bad_attr_def by (cases a) (simp_all add: parses_unexpected)

lemma parses_item_after: "parses S 0 k (wf_item bv) (parse_item_after bv start attr)"
proof -
  have "parses S 0 k (wf_item bv) (case a of
      Slag s \<Rightarrow> parse_fn bv (Some s) None start
    | Boundary b \<Rightarrow> parse_fn bv None (Some b) start
    | Sealed \<Rightarrow> bad_attr a)" for a
    by (cases a) (simp_all add: parses_fn parses_bad_attr)
  then show ?thesis unfolding parse_item_after_def
    by (intro parses_rules parses_struct_item parses_enum parses_forge_item parses_spec_fn parses_bad_attr parses_fn)
      simp_all
qed

lemma parses_item: "parses S 0 k (wf_item bv) (parse_item bv)"
  unfolding parse_item_def
  by (rule parses_get, rule parses_prod, rule parses_bind [OF parses_when [OF parses_attribute]])
    (rule parses_item_after)


section \<open>Programs\<close>

lemma resync_skip_ok:
  "wf_ps st \<Longrightarrow> same_flags st (resync_skip st) \<and> wf_ps (resync_skip st) \<and> ps_pos st \<le> ps_pos (resync_skip st)"
proof (induction st rule: resync_skip.induct)
  case (1 st)
  show ?case
  proof (cases "at_eof st \<or> item_start (peek st) \<or> remaining st = 0")
    case False
    with 1(1) [OF False] advance_ok [OF 1(2)] show ?thesis
      by (subst (1 2 3) resync_skip.simps) (auto intro: same_flags_trans)
  qed (use 1 in \<open>simp add: resync_skip.simps\<close>)
qed

text \<open>The recovery always moves on: it skips the token at which the item failed.\<close>

lemma resync_ok:
  assumes "wf_ps st" "\<not> at_eof st \<or> ps_pos st \<noteq> start" "start \<le> ps_pos st"
  shows "same_flags st (resync_to_item_boundary start st) \<and> wf_ps (resync_to_item_boundary start st) \<and>
    start < ps_pos (resync_to_item_boundary start st)"
proof -
  let ?st = "if ps_pos st = start \<and> \<not> at_eof st then advance st else st"
  have "same_flags st ?st \<and> wf_ps ?st \<and> start < ps_pos ?st"
    using advance_ok [OF assms(1)] advance_strict [OF assms(1)] assms by (auto simp: at_eof_def)
  then show ?thesis
    using resync_skip_ok [of ?st] unfolding resync_to_item_boundary_def by (auto intro: same_flags_trans)
qed

lemma at_eof_pos: "same_flags st st' \<Longrightarrow> ps_pos st' = ps_pos st \<Longrightarrow> at_eof st' = at_eof st"
  by (simp add: at_eof_def peek_def token_under_def same_flags_def)

definition fresh_flags :: "Parser \<Rightarrow> bool" where
  "fresh_flags st \<longleftrightarrow> wf_ps st \<and> ps_loop_depth st = 0"

lemma program_loop_ok:
  assumes "fresh_flags st" "remaining st < n" "list_all (wf_item bv) (ps_items st)"
  shows "\<exists>st'. program_loop bv n st = Some st' \<and> list_all (wf_item bv) (ps_items st') \<and>
    (\<exists>es. ps_errors st' = ps_errors st @ es \<and>
      length (ps_items st') + length es \<le> length (ps_items st) + remaining st)"
  using assms
proof (induction n arbitrary: st)
  case (Suc n)
  show ?case
  proof (cases "at_eof st")
    case False
    have st: "wf_ps st" "ps_loop_depth st = 0" using Suc.prems(1) by (simp_all add: fresh_flags_def)
    from parses_item [where S = any] st(1) order_refl st(2) show ?thesis
    proof (rule parsesE)
      fix item st'
      assume item: "parse_item bv st = Some (Ok item, st')" "outcome_ok any (wf_item bv) st (Ok item, st')"
      let ?st = "st'\<lparr>ps_items := ps_items st' @ [item]\<rparr>"
      have "remaining st' < remaining st" "ps_items st' = ps_items st" "ps_errors st' = ps_errors st"
        "fresh_flags ?st" "wf_item bv item"
        using item(2) remaining_strict [of st st'] st(2) by (auto simp: same_flags_def fresh_flags_def wf_ps_def)
      then show ?thesis
        using Suc.IH [of ?st] Suc.prems(2,3) False item(1) by (fastforce simp: remaining_def)
    next
      fix e st'
      assume item: "parse_item bv st = Some (Err e, st')" "outcome_ok any (wf_item bv) st (Err e, st')"
      let ?er = "st'\<lparr>ps_errors := ps_errors st' @ [e]\<rparr>"
      let ?st = "resync_to_item_boundary (ps_pos st) ?er"
      have er: "wf_ps ?er" "ps_pos st \<le> ps_pos ?er" "\<not> at_eof ?er \<or> ps_pos ?er \<noteq> ps_pos st"
        using item(2) False at_eof_pos [of st st'] by (auto simp: wf_ps_def at_eof_def peek_def token_under_def)
      note sync = resync_ok [OF er(1,3,2)]
      have flags: "same_flags st st'" using item(2) by simp
      have "ps_items ?st = ps_items st" "ps_errors ?st = ps_errors st @ [e]" "ps_tokens ?st = ps_tokens st"
        "ps_loop_depth ?st = 0"
        using sync flags st(2) by (simp_all add: same_flags_def)
      moreover have "fresh_flags ?st" using sync calculation(4) by (simp add: fresh_flags_def)
      moreover have "remaining ?st < remaining st"
        using sync calculation(3) st(1) by (auto simp: remaining_def wf_ps_def simp del: length_greater_0_conv)
      ultimately have "remaining ?st < remaining st" "ps_items ?st = ps_items st"
        "ps_errors ?st = ps_errors st @ [e]" "fresh_flags ?st" by blast+
      then show ?thesis using Suc.IH [of ?st] Suc.prems(2,3) False item(1) by fastforce
    qed
  qed (use Suc.prems in auto)
qed simp


lemma Parser_new_fresh:
  assumes "tokenize src = Some (tokens, lex_errors)"
  shows "fresh_flags (Parser_new src tokens lex_errors)" "remaining (Parser_new src tokens lex_errors) < length tokens"
  using assms by (auto simp: fresh_flags_def wf_ps_def Parser_new_def remaining_def tokenize_def token_at_def)

lemma parse_outcome:
  assumes "tokenize src = Some (tokens, lex_errors)"
  obtains items es where
    "parse bv src = Some \<lparr>prs_program = desugar \<lparr>pr_items = items\<rparr>, prs_errors = lex_errors @ es\<rparr>"
    "list_all (wf_item bv) items" "length items + length es < length tokens"
proof -
  let ?st = "Parser_new src tokens lex_errors"
  have "fresh_flags ?st" "remaining ?st < Suc (remaining ?st)" "list_all (wf_item bv) (ps_items ?st)"
    using Parser_new_fresh [OF assms] by (simp_all add: Parser_new_def)
  from program_loop_ok [OF this] obtain st' es where
    "parse_program bv ?st = Some st'" "list_all (wf_item bv) (ps_items st')" "ps_errors st' = lex_errors @ es"
    "length (ps_items st') + length es \<le> remaining ?st"
    unfolding parse_program_def by (auto simp: Parser_new_def)
  then show thesis using assms Parser_new_fresh(2) [OF assms]
    by (intro that [of "ps_items st'" es]) (auto simp: parse_def)
qed

lemma conjoin_wf: "wf_dec bv 0 c \<Longrightarrow> list_all (wf_dec bv 0) cs \<Longrightarrow> wf_dec bv 0 (foldl conjoin c cs)"
  by (induction cs arbitrary: c) (auto simp: conjoin_def wf_dec_def)

lemma desugar_item_wf:
  assumes "wf_item bv item"
  shows "wf_item bv (desugar_item item)"
proof (cases item)
  case (Fn f)
  have refs: "list_all (wf_dec bv 0) (params_of (fn_refinements f))"
    "list_all (wf_clause bv 0) (results_of (fn_refinements f))"
    using assms Fn
    by (auto simp: wf_item_def wf_fn_def params_of_def results_of_def list_all_iff wf_refinement_def wf_dec_def wf_clause_def)
  show ?thesis using assms Fn refs
    by (auto simp: desugar_item_Fn wf_item_def wf_fn_def wf_contract_def foldl_refinement_parts conjoin_wf)
qed (use assms in \<open>simp_all add: desugar_item_def\<close>)

text \<open>
  C38: the parser answers for every source. It answers unless the scan panics; its errors are
  those of the scan followed by its own, and every item it collects and every error it
  reports has taken at least one token of the source.
\<close>

theorem parse_returns:
  "case tokenize src of
     None \<Rightarrow> parse bv src = None
   | Some (tokens, lex_errors) \<Rightarrow>
       \<exists>r es. parse bv src = Some r \<and> prs_errors r = lex_errors @ es \<and>
         length (pr_items (prs_program r)) + length es < length tokens"
proof (cases "tokenize src")
  case None
  then show ?thesis by (simp add: parse_def)
next
  case (Some a)
  obtain tokens lex_errors where a: "a = (tokens, lex_errors)" by (cases a)
  obtain items es where "parse bv src = Some \<lparr>prs_program = desugar \<lparr>pr_items = items\<rparr>, prs_errors = lex_errors @ es\<rparr>"
    "length items + length es < length tokens"
    using Some unfolding a by (rule parse_outcome)
  then show ?thesis by (simp add: Some a desugar_def desugar_refinements_def)
qed

text \<open>
  C37: whatever the source, errors or not, the program the parser hands out is well formed. Every
  function has a precondition without a bit-vector tag, a postcondition and a non-empty effect
  row, and has a body exactly when it is not a boundary; every loop has an invariant and a
  measure; \<open>break\<close> and \<open>continue\<close> stand inside loops; slice types stand behind references, and
  built-in type names are never taken for user types; no bit-vector tag appears unless the feature is
  built in.
\<close>

theorem parsed_program_well_formed:
  "case parse bv src of
     None \<Rightarrow> True
   | Some r \<Rightarrow> list_all (wf_item bv) (pr_items (prs_program r))"
proof (cases "tokenize src")
  case None
  then show ?thesis by (simp add: parse_def)
next
  case (Some a)
  obtain tokens lex_errors where "tokenize src = Some (tokens, lex_errors)" using Some by (cases a) simp
  then show ?thesis
    by (elim parse_outcome [where bv = bv])
      (auto simp: desugar_def desugar_refinements_def list_all_iff desugar_item_wf)
qed

text \<open>
  C39: an item that fails to parse leaves no trace. Outside a function body, reading an item, with
  or without success, changes nothing of the parser but moves the cursor forward: recursion depth,
  loop depth, the literal and dot flags and the pending holes are as before.
\<close>

theorem item_leaves_no_trace:
  assumes "parse_item bv st = Some (r, st')" "wf_ps st" "ps_loop_depth st = 0" "ps_fn_body_depth st = 0"
  shows "st' = st\<lparr>ps_pos := ps_pos st'\<rparr> \<and> ps_pos st \<le> ps_pos st'"
proof -
  have "outcome_ok any (wf_item bv) st (r, st')"
    by (rule parsesE [OF parses_item [where S = any and bv = bv] assms(2) order_refl assms(3)]) (use assms(1) in auto)
  then show ?thesis using assms(4) by (cases r) (auto simp: same_flags_def)
qed

text \<open>A function whose signature is complete and whose contract starts with the wrong clause.\<close>

lemmas expr_eval =
  Span_end_def Span_to_def sample_span_def parse_path_segments_def starts_uppercase_def parse_nowrap_def
  parse_bv_tag_def spanned_clause_def parse_clause_def quant_of_def parse_path_expr_def
  parse_paren_expr_def parse_primary_def parse_dot_def postfix_step_def parse_postfix_def parse_ref_def
  parse_unary_def parse_cast_def left_assoc_def parse_mul_def parse_add_def parse_shift_def parse_bitand_def
  parse_bitxor_def parse_bitor_def parse_is_def cmp_of_def parse_cmp_def parse_and_def parse_or_def
  parse_return_def nth_starts_expr_def parse_expr_stmt_def block_step_def parse_block_with_def parse_expr_def
  parse_block_def

lemmas item_eval =
  parse_params_inner_def parse_effect_row_def parse_contract_def in_fn_body_def parse_fn_body_def parse_fn_def
  forge_kind_def parse_item_after_def parse_item_def parse_program_def Parser_new_def

definition demo_tokens :: "TokKind list \<Rightarrow> Token list" where
  "demo_tokens kinds = map (\<lambda>k. \<lparr>tok_kind = k, tok_span = sample_span\<rparr>) kinds"

definition demo_broken_fn :: Parser where
  "demo_broken_fn = Parser_new [] (demo_tokens
     [TokKind.Fn, Ident ''f'', LParen, RParen, Arrow, Amp, LParen, RParen, Ens, Eof]) []"

lemma demo_broken_fn_fails:
  "parse_item False demo_broken_fn
     = Some (Err (ClauseOrder ''f'' ''req'' sample_span), demo_broken_fn\<lparr>ps_pos := 8\<rparr>)"
  by (simp add: cursor_eval type_eval item_eval demo_broken_fn_def demo_tokens_def)

theorem item_leaves_no_trace_witness:
  "\<exists>e st'. parse_item False demo_broken_fn = Some (Err e, st') \<and> st' = demo_broken_fn\<lparr>ps_pos := 8\<rparr>
     \<and> st' = demo_broken_fn\<lparr>ps_pos := ps_pos st'\<rparr> \<and> ps_pos demo_broken_fn \<le> ps_pos st'"
proof -
  have "wf_ps demo_broken_fn" "ps_loop_depth demo_broken_fn = 0" "ps_fn_body_depth demo_broken_fn = 0"
    by (simp_all add: wf_ps_def Parser_new_def demo_broken_fn_def demo_tokens_def)
  from item_leaves_no_trace [OF demo_broken_fn_fails this] demo_broken_fn_fails show ?thesis by simp
qed

text \<open>A complete function is accepted.\<close>

lemma demo_fn_accepted:
  "case parse_program False (Parser_new [] (demo_tokens
      [TokKind.Fn, Ident ''f'', LParen, RParen, Arrow, LParen, RParen, Req, TokKind.Bool True, Ens,
       TokKind.Bool True, Fx, TokKind.Pure, LBrace, RBrace, Eof]) []) of
     Some st \<Rightarrow> ps_errors st = [] \<and> length (ps_items st) = 1
   | None \<Rightarrow> False"
  by (simp add: cursor_eval type_eval expr_eval item_eval demo_tokens_def)

end
