(* ===== verification/Parser_Roundtrip.thy ===== *)
theory Parser_Roundtrip
  imports Parser_Type
begin

text \<open>
  The parser of types accepts what it should: the tokens of a well-formed type, nested no deeper
  than the recursion limit, are read back as that type, and no token more is taken.
\<close>

section \<open>The tokens of a type\<close>

fun prim_word :: "PrimType \<Rightarrow> string" where
  "prim_word U8 = ''u8''"
| "prim_word U16 = ''u16''"
| "prim_word U32 = ''u32''"
| "prim_word U64 = ''u64''"
| "prim_word Usize = ''usize''"
| "prim_word PrimType.Bool = ''bool''"

definition mut_tokens :: "bool \<Rightarrow> TokKind list" where
  "mut_tokens m = (if m then [Mut] else [])"

fun type_tokens :: "Type \<Rightarrow> TokKind list" where
  "type_tokens (Prim p) = [Ident (prim_word p)]"
| "type_tokens Type.Unit = [LParen, RParen]"
| "type_tokens (Type.Ref m (Type.Slice t)) = Amp # mut_tokens m @ LBracket # type_tokens t @ [RBracket]"
| "type_tokens (Type.Ref m t) = Amp # mut_tokens m @ type_tokens t"
| "type_tokens (Type.Slice t) = LBracket # type_tokens t @ [RBracket]"
| "type_tokens (Type.Generic name t) = Ident name # TokKind.Lt # type_tokens t @ [TokKind.Gt]"
| "type_tokens (Type.Named name) = [Ident name]"
| "type_tokens (Type.Box t) = Ident ''Box'' # TokKind.Lt # type_tokens t @ [TokKind.Gt]"
| "type_tokens (Type.Vec t) = Ident ''Vec'' # TokKind.Lt # type_tokens t @ [TokKind.Gt]"
| "type_tokens Type.String = [Ident ''String'']"
| "type_tokens (Type.Option t) = Ident ''Option'' # TokKind.Lt # type_tokens t @ [TokKind.Gt]"
| "type_tokens (Type.Result t u) =
     Ident ''Result'' # TokKind.Lt # type_tokens t @ Comma # type_tokens u @ [TokKind.Gt]"
| "type_tokens (Type.Map t u) =
     Ident ''Map'' # TokKind.Lt # type_tokens t @ Comma # type_tokens u @ [TokKind.Gt]"
| "type_tokens (Type.Tuple ts) = LParen # concat (map (\<lambda>t. type_tokens t @ [Comma]) ts) @ [RParen]"

text \<open>The calls of \<open>parse_type\<close> that are open at the deepest point.\<close>

fun type_depth :: "Type \<Rightarrow> nat" where
  "type_depth (Type.Ref _ (Type.Slice t)) = Suc (type_depth t)"
| "type_depth (Type.Ref _ t) = Suc (type_depth t)"
| "type_depth (Type.Slice t) = Suc (type_depth t)"
| "type_depth (Type.Generic _ t) = Suc (type_depth t)"
| "type_depth (Type.Box t) = Suc (type_depth t)"
| "type_depth (Type.Vec t) = Suc (type_depth t)"
| "type_depth (Type.Option t) = Suc (type_depth t)"
| "type_depth (Type.Result t u) = Suc (max (type_depth t) (type_depth u))"
| "type_depth (Type.Map t u) = Suc (max (type_depth t) (type_depth u))"
| "type_depth (Type.Tuple ts) = Suc (Max (set (0 # map type_depth ts)))"
| "type_depth _ = 1"


section \<open>Running on a known stretch of tokens\<close>

definition kinds_from :: "Parser \<Rightarrow> TokKind list" where
  "kinds_from st = map tok_kind (drop (ps_pos st) (ps_tokens st))"

definition skip :: "nat \<Rightarrow> Parser \<Rightarrow> Parser" where
  "skip n st = st\<lparr>ps_pos := ps_pos st + n\<rparr>"

lemma skip_simps [simp]:
  "skip m (skip n st) = skip (n + m) st" "skip 0 st = st" "kinds_from (skip n st) = drop n (kinds_from st)"
  "ps_recursion_depth (skip n st) = ps_recursion_depth st"
  "kinds_from (st\<lparr>ps_recursion_depth := r\<rparr>) = kinds_from st"
  "skip n (st\<lparr>ps_recursion_depth := r\<rparr>) = (skip n st)\<lparr>ps_recursion_depth := r\<rparr>"
  by (simp_all add: skip_def kinds_from_def drop_map add.commute add.left_commute)

lemma peek_kinds: "kinds_from st \<noteq> [] \<Longrightarrow> peek st = hd (kinds_from st)"
  by (cases "length (ps_tokens st)")
    (auto simp: kinds_from_def peek_def token_under_def hd_map hd_drop_conv_nth min_def)

lemma tl_nonempty: "tl xs \<noteq> [] \<Longrightarrow> xs \<noteq> []"
  by auto

lemma advance_kinds: "tl (kinds_from st) \<noteq> [] \<Longrightarrow> advance st = skip 1 st"
  by (auto simp: kinds_from_def advance_def skip_def tl_drop simp flip: drop_map drop_Suc map_tl)

lemma remaining_kinds: "remaining st = length (kinds_from st) - 1"
  by (simp add: remaining_def kinds_from_def)

lemma run_bind: "p st = Some (Ok x, st') \<Longrightarrow> pa_bind p f st = f x st'"
  by (simp add: pa_bind_def)

lemma run_eat:
  "kinds_from st \<noteq> [] \<Longrightarrow> hd (kinds_from st) \<noteq> kind \<Longrightarrow> pa_bind (eat kind) f st = f False st"
  "tl (kinds_from st) \<noteq> [] \<Longrightarrow> hd (kinds_from st) = kind \<Longrightarrow> pa_bind (eat kind) f st = f True (skip 1 st)"
  "tl (kinds_from st) \<noteq> [] \<Longrightarrow> hd (kinds_from st) = kind \<Longrightarrow> pa_bind (consume kind what) g st = g (token_under st 0) (skip 1 st)"
  "kinds_from st \<noteq> [] \<Longrightarrow> pa_bind (pa_get (check kind)) f st = f (hd (kinds_from st) = kind) st"
  by (simp_all add: pa_bind_def eat_def check_def peek_kinds tl_nonempty consume_def bump_def advance_kinds pa_get_def)

lemma run_ident:
  "tl (kinds_from st) \<noteq> [] \<Longrightarrow> ident_of (hd (kinds_from st)) = Some name \<Longrightarrow>
     pa_bind (eat_map ident_of) f st = f (Some name) (skip 1 st)"
  by (simp add: pa_bind_def eat_map_def peek_kinds tl_nonempty advance_kinds)

lemma run_ret: "pa_ret x st = Some (Ok x, st)"
  by (simp add: pa_ret_def)

lemmas run_simps = run_eat run_ident run_ret ident_of_def


lemma run_guard:
  assumes "ps_recursion_depth st < MAX_RECURSION_DEPTH"
    "inner (st\<lparr>ps_recursion_depth := Suc (ps_recursion_depth st)\<rparr>)
       = Some (Ok x, skip m (st\<lparr>ps_recursion_depth := Suc (ps_recursion_depth st)\<rparr>))"
  shows "guard_recursion inner st = Some (Ok x, skip m st)"
  using assms by (simp add: guard_recursion_def under_def skip_def)

text \<open>A parser that reads the tokens of a type, from any state that has them next.\<close>

definition reads_type :: "Type parser \<Rightarrow> nat \<Rightarrow> Type \<Rightarrow> bool" where
  "reads_type T depth t \<longleftrightarrow> (\<forall>st rest. kinds_from st = type_tokens t @ rest \<and> rest \<noteq> [] \<and> hd rest \<noteq> TokKind.Lt \<and>
     ps_recursion_depth st = depth \<longrightarrow> T st = Some (Ok t, skip (length (type_tokens t)) st))"

lemma reads_bind:
  assumes "reads_type T (ps_recursion_depth st) t" "kinds_from st = type_tokens t @ rest" "rest \<noteq> []" "hd rest \<noteq> TokKind.Lt"
  shows "pa_bind T f st = f t (skip (length (type_tokens t)) st)"
  using assms by (intro run_bind) (simp add: reads_type_def)

lemma tokens_start: "wf_type t \<Longrightarrow> type_tokens t \<noteq> [] \<and> hd (type_tokens t) \<notin> {RParen, Mut, LBracket}"
  by (cases t rule: type_tokens.cases) auto


lemma run_arg:
  assumes "reads_type T (ps_recursion_depth st) t" "kinds_from st = TokKind.Lt # type_tokens t @ TokKind.Gt # rest" "rest \<noteq> []"
  shows "parse_type_arg T name mk st = Some (Ok (mk t), skip (length (type_tokens t) + 2) st)"
  unfolding parse_type_arg_def using assms
  by (simp add: run_simps reads_bind [where t = t and st = "skip (Suc 0) st" and rest = "TokKind.Gt # rest"])

lemma run_args2:
  assumes "reads_type T (ps_recursion_depth st) t" "reads_type T (ps_recursion_depth st) u"
    "kinds_from st = TokKind.Lt # type_tokens t @ Comma # type_tokens u @ TokKind.Gt # rest" "rest \<noteq> []"
  shows "parse_type_args2 T name args mk st
    = Some (Ok (mk t u), skip (Suc (Suc (Suc (length (type_tokens t) + length (type_tokens u))))) st)"
  unfolding parse_type_args2_def using assms
  by (simp add: run_simps reads_bind [where t = t and st = "skip (Suc 0) st" and
          rest = "Comma # type_tokens u @ TokKind.Gt # rest"]
      reads_bind [where t = u and st = "skip (Suc (Suc (length (type_tokens t)))) st" and rest = "TokKind.Gt # rest"])

lemma run_generic:
  assumes "reads_type T (ps_recursion_depth st) t" "kinds_from st = TokKind.Lt # type_tokens t @ TokKind.Gt # rest" "rest \<noteq> []"
    "name \<notin> set type_words"
  shows "parse_named_type T name st = Some (Ok (Type.Generic name t), skip (length (type_tokens t) + 2) st)"
  unfolding parse_named_type_def using assms
  by (simp add: type_words_def run_simps
      reads_bind [where t = t and st = "skip (Suc 0) st" and rest = "TokKind.Gt # rest"])

lemma run_ref:
  assumes "reads_type T (ps_recursion_depth st) t" "kinds_from st = mut_tokens m @ type_tokens t @ rest" "rest \<noteq> []"
    "hd rest \<noteq> TokKind.Lt" "wf_type t"
  shows "parse_ref_type T st = Some (Ok (Type.Ref m t), skip (length (mut_tokens m) + length (type_tokens t)) st)"
  unfolding parse_ref_type_def using assms(1-4) tokens_start [OF assms(5)]
  by (cases m) (auto simp: mut_tokens_def run_simps hd_append
      reads_bind [where t = t and st = "skip (Suc 0) st" and rest = rest] reads_bind [where t = t and st = st and rest = rest])

lemma run_slice:
  assumes "reads_type T (ps_recursion_depth st) t" "kinds_from st = mut_tokens m @ LBracket # type_tokens t @ RBracket # rest"
    "rest \<noteq> []"
  shows "parse_ref_type T st
    = Some (Ok (Type.Ref m (Type.Slice t)), skip (length (mut_tokens m) + length (type_tokens t) + 2) st)"
  unfolding parse_ref_type_def using assms
  by (cases m) (simp_all add: mut_tokens_def run_simps
      reads_bind [where t = t and st = "skip (Suc (Suc 0)) st" and rest = "RBracket # rest"]
      reads_bind [where t = t and st = "skip (Suc 0) st" and rest = "RBracket # rest"])

lemma run_tuple_loop:
  assumes "list_all (reads_type T (ps_recursion_depth st)) ts" "list_all wf_type ts"
    "kinds_from st = Comma # concat (map (\<lambda>t. type_tokens t @ [Comma]) ts) @ RParen # rest" "rest \<noteq> []"
    "length ts < n"
  shows "pa_loop n (\<lambda>acc. pa_bind (eat Comma) (\<lambda>comma.
       if \<not> comma then pa_ret (acc, False)
       else pa_bind (pa_get (check RParen)) (\<lambda>closing.
         if closing then pa_ret (acc, False) else pa_bind T (\<lambda>x. pa_ret (acc @ [x], True))))) acc st
    = Some (Ok (acc @ ts), skip (Suc (length (concat (map (\<lambda>t. type_tokens t @ [Comma]) ts)))) st)"
  using assms
proof (induction ts arbitrary: acc st n)
  case Nil
  then show ?case by (cases n) (simp_all add: run_simps pa_bind_def [of "pa_bind _ _"])
next
  case (Cons t ts)
  let ?rest = "concat (map (\<lambda>t. type_tokens t @ [Comma]) ts) @ RParen # rest"
  obtain m where n: "n = Suc m" using Cons.prems(5) by (cases n) auto
  have "pa_bind T f (skip (Suc 0) st) = f t (skip (Suc (length (type_tokens t))) st)" for f :: "Type \<Rightarrow> (Type list \<times> bool) parser"
    using Cons.prems by (subst reads_bind [where t = t and rest = "Comma # ?rest"]) simp_all
  then show ?case
    using Cons.prems tokens_start [of t] Cons.IH [of "skip (Suc (length (type_tokens t))) st" m "acc @ [t]"]
    by (simp add: n run_simps hd_append pa_bind_def [of "pa_bind _ _"])
qed


lemma run_tuple:
  assumes "list_all (reads_type T (ps_recursion_depth st)) ts" "list_all wf_type ts" "ts \<noteq> []"
    "kinds_from st = concat (map (\<lambda>t. type_tokens t @ [Comma]) ts) @ RParen # rest" "rest \<noteq> []"
  shows "parse_paren_type T st
    = Some (Ok (Type.Tuple ts), skip (Suc (length (concat (map (\<lambda>t. type_tokens t @ [Comma]) ts)))) st)"
proof -
  obtain t us where ts: "ts = t # us" using assms(3) by (cases ts) auto
  let ?us = "concat (map (\<lambda>t. type_tokens t @ [Comma]) us)"
  let ?st = "skip (length (type_tokens t)) st"
  have first: "pa_bind T f st = f t ?st" for f :: "Type \<Rightarrow> Type parser"
    using assms ts by (subst reads_bind [where t = t and rest = "Comma # ?us @ RParen # rest"]) simp_all
  have "length us \<le> length ?us" by (induction us) auto
  then have "length us < Suc (remaining ?st)"
    using assms(4) ts by (simp add: remaining_kinds)
  then have "tuple_rest RParen T [t] ?st = Some (Ok ts, skip (Suc (length ?us)) ?st)"
    unfolding tuple_rest_def pa_while_def using assms ts
    by (subst run_tuple_loop [where rest = rest]) simp_all
  note rest = run_bind [where p = "tuple_rest RParen T [t]" and st = ?st, OF this]
  show ?thesis unfolding parse_paren_type_def using assms(4,5) tokens_start [of t] assms(2)
    by (simp add: ts run_simps hd_append first rest [unfolded ts])
qed

lemma depth_of_member: "t \<in> set ts \<Longrightarrow> type_depth t \<le> Max (set (0 # map type_depth ts))"
  by (rule Max_ge) auto

lemma ref_tokens:
  "wf_type u \<Longrightarrow> type_tokens (Type.Ref m u) = Amp # mut_tokens m @ type_tokens u"
  "wf_type u \<Longrightarrow> type_depth (Type.Ref m u) = Suc (type_depth u)"
  by (cases u; simp)+

lemma ref_cases:
  assumes "wf_type (Type.Ref m t)"
  obtains "wf_type t" | u where "t = Type.Slice u" "wf_type u"
  using assms by (cases t) auto

lemma inner_dispatch:
  "tl (kinds_from st) \<noteq> [] \<Longrightarrow> hd (kinds_from st) = LParen \<Longrightarrow> parse_type_inner T st = parse_paren_type T (skip 1 st)"
  "tl (kinds_from st) \<noteq> [] \<Longrightarrow> hd (kinds_from st) = Amp \<Longrightarrow> parse_type_inner T st = parse_ref_type T (skip 1 st)"
  "tl (kinds_from st) \<noteq> [] \<Longrightarrow> hd (kinds_from st) = Ident name \<Longrightarrow>
     parse_type_inner T st = parse_named_type T name (skip 1 st)"
  unfolding parse_type_inner_def by (simp_all add: run_simps tl_nonempty)

lemma inner_reads:
  assumes "wf_type t" and sub: "\<And>u. size u < size t \<Longrightarrow> wf_type u \<Longrightarrow> type_depth u < type_depth t \<Longrightarrow>
      reads_type T (ps_recursion_depth st) u"
    and st: "kinds_from st = type_tokens t @ rest" "rest \<noteq> []" "hd rest \<noteq> TokKind.Lt"
  shows "parse_type_inner T st = Some (Ok t, skip (length (type_tokens t)) st)"
proof (cases t)
  case (Prim p)
  then show ?thesis using st by (cases p) (simp_all add: inner_dispatch parse_named_type_def run_simps)
next
  case Unit
  then show ?thesis using st by (simp add: inner_dispatch parse_paren_type_def run_simps)
next
  case (Ref m u)
  show ?thesis
  proof (cases rule: ref_cases [OF assms(1) [unfolded Ref]])
    case 1
    then have "reads_type T (ps_recursion_depth st) u" by (intro sub) (simp_all add: Ref ref_tokens)
    then show ?thesis using st 1 run_ref [of T "skip 1 st" u m rest] by (simp add: Ref ref_tokens inner_dispatch)
  next
    case (2 v)
    then have "reads_type T (ps_recursion_depth st) v" by (intro sub) (simp_all add: Ref)
    then show ?thesis using st 2 run_slice [of T "skip 1 st" v m rest] by (simp add: Ref inner_dispatch)
  qed
next
  case (Generic name u)
  then have "reads_type T (ps_recursion_depth st) u" using assms(1) by (intro sub) simp_all
  then show ?thesis using st assms(1) run_generic [of T "skip 1 st" u rest name] by (simp add: Generic inner_dispatch)
next
  case (Named name)
  then show ?thesis using st assms(1) by (simp add: inner_dispatch parse_named_type_def type_words_def run_simps)
next
  case (Box u)
  then have "reads_type T (ps_recursion_depth st) u" using assms(1) by (intro sub) simp_all
  then show ?thesis using st run_arg [of T "skip 1 st" u rest] by (simp add: Box inner_dispatch parse_named_type_def)
next
  case (Vec u)
  then have "reads_type T (ps_recursion_depth st) u" using assms(1) by (intro sub) simp_all
  then show ?thesis using st run_arg [of T "skip 1 st" u rest] by (simp add: Vec inner_dispatch parse_named_type_def)
next
  case String
  then show ?thesis using st by (simp add: inner_dispatch parse_named_type_def run_simps)
next
  case (Option u)
  then have "reads_type T (ps_recursion_depth st) u" using assms(1) by (intro sub) simp_all
  then show ?thesis using st run_arg [of T "skip 1 st" u rest] by (simp add: Option inner_dispatch parse_named_type_def)
next
  case (Result u v)
  then have "reads_type T (ps_recursion_depth st) u" "reads_type T (ps_recursion_depth st) v"
    using assms(1) by (intro sub; simp)+
  then show ?thesis using st run_args2 [of T "skip 1 st" u v rest]
    by (simp add: Result inner_dispatch parse_named_type_def)
next
  case (Map u v)
  then have "reads_type T (ps_recursion_depth st) u" "reads_type T (ps_recursion_depth st) v"
    using assms(1) by (intro sub; simp)+
  then show ?thesis using st run_args2 [of T "skip 1 st" u v rest]
    by (simp add: Map inner_dispatch parse_named_type_def)
next
  case (Tuple ts)
  have "reads_type T (ps_recursion_depth st) u" if "u \<in> set ts" for u
    using assms(1) that Tuple depth_of_member [OF that] size_list_member [OF that, of size]
    by (intro sub) (auto simp: list_all_iff less_Suc_eq_le)
  then show ?thesis using st assms(1) run_tuple [of T "skip 1 st" ts rest]
    by (simp add: Tuple inner_dispatch list_all_iff)
qed (use assms(1) in simp)

lemma type_depth_pos: "0 < type_depth t"
  by (cases t rule: type_depth.cases) auto

lemma fuel_reads:
  "wf_type t \<Longrightarrow> size t < n \<Longrightarrow> r + type_depth t \<le> MAX_RECURSION_DEPTH \<Longrightarrow> reads_type (parse_type_fuel n) r t"
proof (induction n arbitrary: t r)
  case (Suc n)
  show ?case unfolding reads_type_def
  proof (intro allI impI, elim conjE)
    fix st rest
    assume st: "kinds_from st = type_tokens t @ rest" "rest \<noteq> []" "hd rest \<noteq> TokKind.Lt" "ps_recursion_depth st = r"
    have "parse_type_inner (parse_type_fuel n) (st\<lparr>ps_recursion_depth := Suc r\<rparr>)
        = Some (Ok t, skip (length (type_tokens t)) (st\<lparr>ps_recursion_depth := Suc r\<rparr>))"
      by (rule inner_reads [where rest = rest]) (use Suc st in simp_all)
    then show "parse_type_fuel (Suc n) st = Some (Ok t, skip (length (type_tokens t)) st)"
      using Suc.prems(3) type_depth_pos [of t] st(4) by (simp add: run_guard)
  qed
qed simp


lemma size_tokens: "size t \<le> length (type_tokens t)"
proof (induction t rule: type_tokens.induct)
  case (14 ts)
  then have "size_list size ts \<le> length (concat (map (\<lambda>t. type_tokens t @ [Comma]) ts))"
    by (induction ts) (auto simp: add_mono)
  then show ?case by simp
qed (auto simp: mut_tokens_def)

text \<open>
  C40: reading back the tokens of a type gives the type. When the next tokens are those of a
  well-formed type, nested within the recursion limit, and what follows is no \<open><\<close>, then \<open>parse_type\<close>
  answers that type and moves the cursor exactly past its tokens; nothing else of the parser changes.
\<close>

theorem type_round_trip:
  assumes "wf_type t" "kinds_from st = type_tokens t @ rest" "rest \<noteq> []" "hd rest \<noteq> TokKind.Lt"
    "ps_recursion_depth st + type_depth t \<le> MAX_RECURSION_DEPTH"
  shows "parse_type st = Some (Ok t, st\<lparr>ps_pos := ps_pos st + length (type_tokens t)\<rparr>)"
proof -
  have "length (type_tokens t) \<le> remaining st" using assms(2,3) by (cases rest) (simp_all add: remaining_kinds)
  with size_tokens [of t] have "size t < Suc (remaining st)" by simp
  from fuel_reads [OF assms(1) this assms(5)] assms(2-4) show ?thesis
    by (simp add: reads_type_def parse_type_def skip_def)
qed

definition demo_type :: Type where
  "demo_type = Type.Ref True (Type.Slice (Type.Vec (Type.Tuple [Prim U8, Type.Named ''Cell''])))"

definition demo_type_parser :: "TokKind list \<Rightarrow> Parser" where
  "demo_type_parser kinds =
     \<lparr>ps_src = [], ps_tokens = map (\<lambda>k. \<lparr>tok_kind = k, tok_span = sample_span\<rparr>) kinds, ps_pos = 0, ps_items = [],
      ps_errors = [], ps_recursion_depth = 0, ps_no_struct_literal = False, ps_no_dot = False, ps_loop_depth = 0,
      ps_fn_body_depth = 0, ps_pending_holes = []\<rparr>"

theorem type_round_trip_witness:
  "parse_type (demo_type_parser (type_tokens demo_type @ [LBrace, Eof]))
     = Some (Ok demo_type, (demo_type_parser (type_tokens demo_type @ [LBrace, Eof]))\<lparr>ps_pos := 13\<rparr>)"
  using type_round_trip [of demo_type "demo_type_parser (type_tokens demo_type @ [LBrace, Eof])" "[LBrace, Eof]"]
  by (simp add: demo_type_def demo_type_parser_def type_words_def kinds_from_def mut_tokens_def MAX_RECURSION_DEPTH_def
      comp_def)

text \<open>
  The scanner makes one token of two closing angle brackets, and the parser of types never splits
  it: the tokens the scanner gives for \<open>Vec<Vec<u8>>\<close> are refused.
\<close>

lemma adjacent_brackets_refused:
  "parse_type (demo_type_parser [Ident ''Vec'', TokKind.Lt, Ident ''Vec'', TokKind.Lt, Ident ''u8'', TokKind.Shr, Eof])
     = Some (Err (Unexpected (''`>` to close `Vec<'' @ ellipsis @ ''>`'') ''`>>`'' sample_span),
         (demo_type_parser [Ident ''Vec'', TokKind.Lt, Ident ''Vec'', TokKind.Lt, Ident ''u8'', TokKind.Shr, Eof])
           \<lparr>ps_pos := 5\<rparr>)"
  by (simp add: cursor_eval type_eval demo_type_parser_def)

end
