(* ===== verification/Spec_Classifier.thy ===== *)
theory Spec_Classifier
  imports Rust_Text
begin

text \<open>
  The fragment classifier of \<open>thermite-spec/src/classifier.rs\<close>: sorted formulas, the finite-carrier
  check, the index grammar, negation normal form, the sort graph with its cycle search, the
  verdict, and the wire format with its parser. The lemmas show that the verdict is exact (a
  rejection names a gate that fails and the gates before it hold; the cycle search decides the
  transitive closure), that negation normal form keeps the meaning of a formula under every
  interpretation of sorts and atoms, and that every formula survives the trip over the wire.
\<close>

section \<open>Sorts, terms and formulas\<close>

datatype Mach = U8 | U16 | U32 | U64 | Usize | Bool

fun mach_width :: "Mach \<Rightarrow> nat" where
  "mach_width U8 = 8"
| "mach_width U16 = 16"
| "mach_width U32 = 32"
| "mach_width U64 = 64"
| "mach_width Usize = 64"
| "mach_width Bool = 1"

fun mach_wire :: "Mach \<Rightarrow> string" where
  "mach_wire U8 = ''u8''"
| "mach_wire U16 = ''u16''"
| "mach_wire U32 = ''u32''"
| "mach_wire U64 = ''u64''"
| "mach_wire Usize = ''usize''"
| "mach_wire Bool = ''bool''"

definition mach_from_wire :: "string \<Rightarrow> Mach option" where
  "mach_from_wire tok = map_of [(''u8'', U8), (''u16'', U16), (''u32'', U32), (''u64'', U64),
     (''usize'', Usize), (''bool'', Bool)] tok"

datatype Sort2 = Mach Mach | Seq Sort2 | Opaque u32

definition usize_s :: Sort2 where
  "usize_s = Mach Usize"

datatype ScalarValue = IntValue "128 word" | BoolValue bool

datatype Tm =
    Var Sort2 u32
  | Const Sort2 u32
  | Lit Sort2 ScalarValue
  | Read Sort2 Tm Tm
  | Len Tm
  | Cast Sort2 Tm
  | IdxOp Tm "64 word"
  | Mul Tm Tm
  | App1 Sort2 Sort2 u32 Tm

fun sort_of :: "Tm \<Rightarrow> Sort2" where
  "sort_of (Var s _) = s"
| "sort_of (Const s _) = s"
| "sort_of (Lit s _) = s"
| "sort_of (Read elem _ _) = elem"
| "sort_of (Len _) = usize_s"
| "sort_of (Cast t _) = t"
| "sort_of (IdxOp t _) = sort_of t"
| "sort_of (Mul t _) = sort_of t"
| "sort_of (App1 _ res _ _) = res"

datatype Rel = Eq | Ne | Lt | Le | Gt | Ge

fun rel_wire :: "Rel \<Rightarrow> string" where
  "rel_wire Eq = ''eq''"
| "rel_wire Ne = ''ne''"
| "rel_wire Lt = ''lt''"
| "rel_wire Le = ''le''"
| "rel_wire Gt = ''gt''"
| "rel_wire Ge = ''ge''"

definition rel_from_wire :: "string \<Rightarrow> Rel option" where
  "rel_from_wire tok = map_of [(''eq'', Eq), (''ne'', Ne), (''lt'', Lt), (''le'', Le), (''gt'', Gt),
     (''ge'', Ge)] tok"

datatype Atom = Rel Rel Tm Tm | QFree u32

datatype Frm = Atom Atom | Neg Frm | Conj Frm Frm | Disj Frm Frm | Imp Frm Frm | All Sort2 Frm | Ex Sort2 Frm


section \<open>Finite carriers and the index grammar\<close>

fun fin_sort :: "Sort2 \<Rightarrow> bool" where
  "fin_sort (Mach _) = True"
| "fin_sort (Opaque _) = True"
| "fin_sort (Seq _) = False"

fun fin_carrier :: "Frm \<Rightarrow> (unit, Sort2) result" where
  "fin_carrier (Atom _) = Ok ()"
| "fin_carrier (Neg p) = fin_carrier p"
| "fin_carrier (Conj p q) = (case fin_carrier p of Err s \<Rightarrow> Err s | Ok _ \<Rightarrow> fin_carrier q)"
| "fin_carrier (Disj p q) = (case fin_carrier p of Err s \<Rightarrow> Err s | Ok _ \<Rightarrow> fin_carrier q)"
| "fin_carrier (Imp p q) = (case fin_carrier p of Err s \<Rightarrow> Err s | Ok _ \<Rightarrow> fin_carrier q)"
| "fin_carrier (All s p) = (if fin_sort s then fin_carrier p else Err s)"
| "fin_carrier (Ex s p) = (if fin_sort s then fin_carrier p else Err s)"

fun same_width :: "Sort2 \<Rightarrow> Sort2 \<Rightarrow> bool" where
  "same_width (Mach m) (Mach m2) = (mach_width m = mach_width m2)"
| "same_width _ _ = False"

text \<open>Binder depths are small numbers: the depth counts the binders above a term.\<close>

fun has_bound_var :: "nat \<Rightarrow> Tm \<Rightarrow> bool" where
  "has_bound_var depth (Var _ i) = (unat i < depth)"
| "has_bound_var depth (Const _ _) = False"
| "has_bound_var depth (Lit _ _) = False"
| "has_bound_var depth (Read _ sq ix) = (has_bound_var depth sq \<or> has_bound_var depth ix)"
| "has_bound_var depth (Len sq) = has_bound_var depth sq"
| "has_bound_var depth (Cast _ t) = has_bound_var depth t"
| "has_bound_var depth (IdxOp t _) = has_bound_var depth t"
| "has_bound_var depth (Mul t u) = (has_bound_var depth t \<or> has_bound_var depth u)"
| "has_bound_var depth (App1 _ _ _ t) = has_bound_var depth t"

fun idx_ok_tm :: "nat \<Rightarrow> Tm \<Rightarrow> bool" where
  "idx_ok_tm depth (Var _ _) = True"
| "idx_ok_tm depth (Const _ _) = True"
| "idx_ok_tm depth (Lit _ _) = True"
| "idx_ok_tm depth (Read _ sq ix) = (idx_ok_tm depth sq \<and> idx_ok_tm depth ix)"
| "idx_ok_tm depth (Len sq) = idx_ok_tm depth sq"
| "idx_ok_tm depth (Cast s t) =
     ((\<not> has_bound_var depth t \<or> same_width (sort_of t) s) \<and> idx_ok_tm depth t)"
| "idx_ok_tm depth (IdxOp t _) = idx_ok_tm depth t"
| "idx_ok_tm depth (Mul t u) =
     (\<not> has_bound_var depth t \<and> \<not> has_bound_var depth u \<and> idx_ok_tm depth t \<and> idx_ok_tm depth u)"
| "idx_ok_tm depth (App1 _ _ _ t) = idx_ok_tm depth t"

fun idx_grammar_at :: "nat \<Rightarrow> Frm \<Rightarrow> bool" where
  "idx_grammar_at depth (Atom (Rel _ t u)) = (idx_ok_tm depth t \<and> idx_ok_tm depth u)"
| "idx_grammar_at depth (Atom (QFree _)) = True"
| "idx_grammar_at depth (Neg p) = idx_grammar_at depth p"
| "idx_grammar_at depth (Conj p q) = (idx_grammar_at depth p \<and> idx_grammar_at depth q)"
| "idx_grammar_at depth (Disj p q) = (idx_grammar_at depth p \<and> idx_grammar_at depth q)"
| "idx_grammar_at depth (Imp p q) = (idx_grammar_at depth p \<and> idx_grammar_at depth q)"
| "idx_grammar_at depth (All _ p) = idx_grammar_at (depth + 1) p"
| "idx_grammar_at depth (Ex _ p) = idx_grammar_at (depth + 1) p"

definition idx_grammar :: "Frm \<Rightarrow> bool" where
  "idx_grammar phi = idx_grammar_at 0 phi"


section \<open>Negation normal form\<close>

fun nnf :: "Frm \<Rightarrow> Frm"
  and nnf_neg :: "Frm \<Rightarrow> Frm" where
  "nnf (Atom a) = Atom a"
| "nnf (Neg p) = nnf_neg p"
| "nnf (Conj p q) = Conj (nnf p) (nnf q)"
| "nnf (Disj p q) = Disj (nnf p) (nnf q)"
| "nnf (Imp p q) = Disj (nnf_neg p) (nnf q)"
| "nnf (All s p) = All s (nnf p)"
| "nnf (Ex s p) = Ex s (nnf p)"
| "nnf_neg (Atom a) = Neg (Atom a)"
| "nnf_neg (Neg p) = nnf p"
| "nnf_neg (Conj p q) = Disj (nnf_neg p) (nnf_neg q)"
| "nnf_neg (Disj p q) = Conj (nnf_neg p) (nnf_neg q)"
| "nnf_neg (Imp p q) = Conj (nnf p) (nnf_neg q)"
| "nnf_neg (All s p) = Ex s (nnf_neg p)"
| "nnf_neg (Ex s p) = All s (nnf_neg p)"


section \<open>The sort graph\<close>

record Graph =
  gr_nodes :: "Sort2 list"
  gr_edges :: "(Sort2 \<times> Sort2) list"

text \<open>The stack has its top first; the scan over the edges pushes every successor of the node.\<close>

definition push_successors :: "(Sort2 \<times> Sort2) list \<Rightarrow> Sort2 \<Rightarrow> Sort2 list \<Rightarrow> Sort2 list" where
  "push_successors edges node stack = foldl (\<lambda>st e. if fst e = node then snd e # st else st) stack edges"

lemma set_push_successors:
  "set (push_successors edges node stack) = {b. (node, b) \<in> set edges} \<union> set stack"
proof -
  have "set (foldl (\<lambda>st e. if fst e = node then snd e # st else st) st es)
      = {b. (node, b) \<in> set es} \<union> set st" for es st
    by (induction es arbitrary: st) (auto simp: image_iff)
  then show ?thesis by (simp add: push_successors_def)
qed

function (sequential) reaches_loop :: "(Sort2 \<times> Sort2) list \<Rightarrow> Sort2 \<Rightarrow> Sort2 list \<Rightarrow> Sort2 list \<Rightarrow> bool" where
  "reaches_loop edges s visited [] = False"
| "reaches_loop edges s visited (node # stack) =
     (if node = s then True
      else if node \<in> set visited then reaches_loop edges s visited stack
      else reaches_loop edges s (visited @ [node]) (push_successors edges node stack))"
  by pat_completeness auto
termination
proof (relation "measures [\<lambda>(edges, s, visited, stack). card ((set stack \<union> snd ` set edges) - set visited),
    \<lambda>(edges, s, visited, stack). length stack]", goal_cases)
  case (2 edges s visited node stack)
  have "(set stack \<union> snd ` set edges) - set visited = (set (node # stack) \<union> snd ` set edges) - set visited"
    using 2 by auto
  then show ?case by simp
next
  case (3 edges s visited node stack)
  have "(set (push_successors edges node stack) \<union> snd ` set edges) - set (visited @ [node])
      \<subset> (set (node # stack) \<union> snd ` set edges) - set visited"
    using 3 by (force simp: set_push_successors)
  then show ?case by (simp add: psubset_card_mono)
qed simp

definition reaches_self :: "Graph \<Rightarrow> Sort2 \<Rightarrow> bool" where
  "reaches_self g s = reaches_loop (gr_edges g) s [] (push_successors (gr_edges g) s [])"

fun first_cycle :: "Graph \<Rightarrow> Sort2 list \<Rightarrow> (unit, Sort2) result" where
  "first_cycle g [] = Ok ()"
| "first_cycle g (s # ss) = (if reaches_self g s then Err s else first_cycle g ss)"

definition graph_acyclic :: "Graph \<Rightarrow> (unit, Sort2) result" where
  "graph_acyclic g = first_cycle g (gr_nodes g)"

type_synonym Ctx = "(bool \<times> Sort2) list"

fun has_scoped_var :: "Ctx \<Rightarrow> Tm \<Rightarrow> bool" where
  "has_scoped_var ctx (Var _ i) = (unat i < length ctx)"
| "has_scoped_var ctx (Const _ _) = False"
| "has_scoped_var ctx (Lit _ _) = False"
| "has_scoped_var ctx (Read _ sq ix) = (has_scoped_var ctx sq \<or> has_scoped_var ctx ix)"
| "has_scoped_var ctx (Len sq) = has_scoped_var ctx sq"
| "has_scoped_var ctx (Cast _ t) = has_scoped_var ctx t"
| "has_scoped_var ctx (IdxOp t _) = has_scoped_var ctx t"
| "has_scoped_var ctx (Mul t u) = (has_scoped_var ctx t \<or> has_scoped_var ctx u)"
| "has_scoped_var ctx (App1 _ _ _ t) = has_scoped_var ctx t"

text \<open>The edges a call appends to its output vector.\<close>

fun edges_tm :: "Ctx \<Rightarrow> Tm \<Rightarrow> (Sort2 \<times> Sort2) list" where
  "edges_tm ctx (Var _ _) = []"
| "edges_tm ctx (Const _ _) = []"
| "edges_tm ctx (Lit _ _) = []"
| "edges_tm ctx (Read elem sq ix) =
     (if has_scoped_var ctx ix then [(usize_s, elem)] else []) @ edges_tm ctx sq @ edges_tm ctx ix"
| "edges_tm ctx (Len sq) =
     (if has_scoped_var ctx sq then [(sort_of sq, usize_s)] else []) @ edges_tm ctx sq"
| "edges_tm ctx (Cast s t) = (if has_scoped_var ctx t then [(sort_of t, s)] else []) @ edges_tm ctx t"
| "edges_tm ctx (IdxOp t _) = edges_tm ctx t"
| "edges_tm ctx (Mul t u) = edges_tm ctx t @ edges_tm ctx u"
| "edges_tm ctx (App1 arg res _ t) = (if has_scoped_var ctx t then [(arg, res)] else []) @ edges_tm ctx t"

fun edges_atom :: "Ctx \<Rightarrow> Atom \<Rightarrow> (Sort2 \<times> Sort2) list" where
  "edges_atom ctx (Rel _ t u) = edges_tm ctx t @ edges_tm ctx u"
| "edges_atom ctx (QFree _) = []"

definition univ_sorts :: "Ctx \<Rightarrow> Sort2 list" where
  "univ_sorts ctx = map snd (filter fst ctx)"

fun edges_frm :: "Ctx \<Rightarrow> Frm \<Rightarrow> (Sort2 \<times> Sort2) list" where
  "edges_frm ctx (Atom a) = edges_atom ctx a"
| "edges_frm ctx (Neg p) = edges_frm ctx p"
| "edges_frm ctx (Conj p q) = edges_frm ctx p @ edges_frm ctx q"
| "edges_frm ctx (Disj p q) = edges_frm ctx p @ edges_frm ctx q"
| "edges_frm ctx (Imp p q) = edges_frm ctx p @ edges_frm ctx q"
| "edges_frm ctx (All s p) = edges_frm ((True, s) # ctx) p"
| "edges_frm ctx (Ex s p) = map (\<lambda>big_s. (big_s, s)) (univ_sorts ctx) @ edges_frm ((False, s) # ctx) p"

definition sort_graph :: "Frm \<Rightarrow> Graph" where
  "sort_graph phi =
     (let edges = edges_frm [] phi
      in \<lparr>gr_nodes = concat (map (\<lambda>(a, b). [a, b]) edges), gr_edges = edges\<rparr>)"


section \<open>The verdict\<close>

datatype RejectReason = SeqQuantifier Sort2 | IndexGrammar | SortGraphCycle Sort2

fun reject_tag :: "RejectReason \<Rightarrow> string" where
  "reject_tag (SeqQuantifier _) = ''seq-quantifier''"
| "reject_tag IndexGrammar = ''index-grammar''"
| "reject_tag (SortGraphCycle _) = ''sort-graph-cycle''"

datatype Verdict = Admitted | Rejected RejectReason | Unknown string

definition is_admitted :: "Verdict \<Rightarrow> bool" where
  "is_admitted v = (v = Admitted)"

definition classify :: "Frm \<Rightarrow> Verdict" where
  "classify phi =
     (case fin_carrier phi of Err s \<Rightarrow> Rejected (SeqQuantifier s)
      | Ok _ \<Rightarrow>
          if \<not> idx_grammar phi then Rejected IndexGrammar
          else case graph_acyclic (sort_graph (nnf phi)) of
              Err cycle \<Rightarrow> Rejected (SortGraphCycle cycle)
            | Ok _ \<Rightarrow> Admitted)"

definition admitted :: "Frm \<Rightarrow> bool" where
  "admitted phi = is_admitted (classify phi)"

section \<open>The cycle search\<close>

definition closed_under :: "('a \<times> 'a) set \<Rightarrow> 'a set \<Rightarrow> 'a set \<Rightarrow> bool" where
  "closed_under r V F \<longleftrightarrow> (\<forall>v w. v \<in> V \<and> (v, w) \<in> r \<longrightarrow> w \<in> V \<union> F)"

lemma leaves_closed:
  assumes "closed_under r V F" "(n, s) \<in> r\<^sup>*" "n \<in> V" "s \<notin> V"
  shows "\<exists>w\<in>F - V. (w, s) \<in> r\<^sup>*"
  using assms(2-)
proof (induction rule: converse_rtrancl_induct)
  case (step n m)
  then show ?case using assms(1) by (cases "m \<in> V") (auto simp: closed_under_def)
qed simp

lemma reaches_loop_exact:
  "closed_under (set edges) (set visited) (set stack) \<Longrightarrow> s \<notin> set visited \<Longrightarrow>
     reaches_loop edges s visited stack \<longleftrightarrow> (\<exists>n\<in>set stack. (n, s) \<in> (set edges)\<^sup>*)"
proof (induction edges s visited stack rule: reaches_loop.induct)
  case (2 edges s visited node stack)
  consider "node = s" | (seen) "node \<noteq> s" "node \<in> set visited" | (new) "node \<noteq> s" "node \<notin> set visited" by blast
  then show ?case
  proof cases
    case seen
    have cl: "closed_under (set edges) (set visited) (set stack)"
      using 2(3) seen by (auto simp: closed_under_def)
    have "(\<exists>n\<in>set (node # stack). (n, s) \<in> (set edges)\<^sup>*) \<longleftrightarrow> (\<exists>n\<in>set stack. (n, s) \<in> (set edges)\<^sup>*)"
      using leaves_closed [OF cl _ seen(2) 2(4)] by auto
    then show ?thesis using 2(1) [OF seen cl 2(4)] seen by simp
  next
    case new
    let ?st = "push_successors edges node stack"
    have cl: "closed_under (set edges) (set (visited @ [node])) (set ?st)"
      using 2(3) by (auto simp: closed_under_def set_push_successors)
    have "(\<exists>n\<in>set (node # stack). (n, s) \<in> (set edges)\<^sup>*) \<longleftrightarrow> (\<exists>n\<in>set ?st. (n, s) \<in> (set edges)\<^sup>*)"
      using new(1) by (auto simp: set_push_successors intro: converse_rtrancl_into_rtrancl elim: converse_rtranclE)
    then show ?thesis using 2(2) [OF new cl] 2(4) new by simp
  qed auto
qed simp

lemma reaches_self_exact: "reaches_self g s \<longleftrightarrow> (s, s) \<in> (set (gr_edges g))\<^sup>+"
proof -
  have "reaches_self g s \<longleftrightarrow> (\<exists>b. (s, b) \<in> set (gr_edges g) \<and> (b, s) \<in> (set (gr_edges g))\<^sup>*)"
    unfolding reaches_self_def
    by (subst reaches_loop_exact) (auto simp: closed_under_def set_push_successors)
  then show ?thesis by (auto simp: trancl_unfold_left)
qed

lemma first_cycle_exact:
  "case first_cycle g ss of
     Ok _ \<Rightarrow> \<forall>s\<in>set ss. (s, s) \<notin> (set (gr_edges g))\<^sup>+
   | Err s \<Rightarrow> s \<in> set ss \<and> (s, s) \<in> (set (gr_edges g))\<^sup>+"
  by (induction ss) (auto simp: reaches_self_exact split: result.splits)

lemma graph_acyclic_exact:
  "case graph_acyclic (sort_graph phi) of
     Ok _ \<Rightarrow> acyclic (set (edges_frm [] phi))
   | Err s \<Rightarrow> (s, s) \<in> (set (edges_frm [] phi))\<^sup>+"
proof -
  let ?E = "set (edges_frm [] phi)"
  have edges: "gr_edges (sort_graph phi) = edges_frm [] phi" by (simp add: sort_graph_def Let_def)
  have nodes: "s \<in> set (gr_nodes (sort_graph phi))" if "(s, s) \<in> ?E\<^sup>+" for s
  proof -
    from that obtain z where z: "(z, s) \<in> ?E" by (blast dest: tranclD2)
    show ?thesis unfolding sort_graph_def Let_def by (simp, rule bexI [OF _ z], simp)
  qed
  show ?thesis
    using first_cycle_exact [where g = "sort_graph phi" and ss = "gr_nodes (sort_graph phi)"] nodes
    by (auto simp: graph_acyclic_def acyclic_def edges split: result.splits)
qed


section \<open>The verdict is exact\<close>

fun binders :: "Frm \<Rightarrow> Sort2 list" where
  "binders (Atom _) = []"
| "binders (Neg p) = binders p"
| "binders (Conj p q) = binders p @ binders q"
| "binders (Disj p q) = binders p @ binders q"
| "binders (Imp p q) = binders p @ binders q"
| "binders (All s p) = s # binders p"
| "binders (Ex s p) = s # binders p"

lemma fin_carrier_binders:
  "fin_carrier phi = (case filter (\<lambda>s. \<not> fin_sort s) (binders phi) of [] \<Rightarrow> Ok () | s # _ \<Rightarrow> Err s)"
  by (induction phi) (auto split: list.splits result.splits)

text \<open>The index grammar in terms of the subterms of the atoms and the binders above them.\<close>

fun subterms :: "Tm \<Rightarrow> Tm set" where
  "subterms (Read s a b) = {Read s a b} \<union> subterms a \<union> subterms b"
| "subterms (Len a) = {Len a} \<union> subterms a"
| "subterms (Cast s a) = {Cast s a} \<union> subterms a"
| "subterms (IdxOp a k) = {IdxOp a k} \<union> subterms a"
| "subterms (Mul a b) = {Mul a b} \<union> subterms a \<union> subterms b"
| "subterms (App1 x y f a) = {App1 x y f a} \<union> subterms a"
| "subterms t = {t}"

fun linear_index :: "nat \<Rightarrow> Tm \<Rightarrow> bool" where
  "linear_index d (Mul a b) = (\<forall>s i. Var s i \<in> subterms a \<union> subterms b \<longrightarrow> d \<le> unat i)"
| "linear_index d (Cast s a) = (same_width (sort_of a) s \<or> (\<forall>s i. Var s i \<in> subterms a \<longrightarrow> d \<le> unat i))"
| "linear_index d _ = True"

fun terms_at :: "nat \<Rightarrow> Frm \<Rightarrow> (nat \<times> Tm) set" where
  "terms_at d (Atom (Rel _ t u)) = {(d, t), (d, u)}"
| "terms_at d (Atom (QFree _)) = {}"
| "terms_at d (Neg p) = terms_at d p"
| "terms_at d (Conj p q) = terms_at d p \<union> terms_at d q"
| "terms_at d (Disj p q) = terms_at d p \<union> terms_at d q"
| "terms_at d (Imp p q) = terms_at d p \<union> terms_at d q"
| "terms_at d (All _ p) = terms_at (d + 1) p"
| "terms_at d (Ex _ p) = terms_at (d + 1) p"

lemma has_bound_var_iff: "has_bound_var d t \<longleftrightarrow> (\<exists>s i. Var s i \<in> subterms t \<and> unat i < d)"
  by (induction t) auto

lemma idx_ok_tm_iff: "idx_ok_tm d t \<longleftrightarrow> (\<forall>u\<in>subterms t. linear_index d u)"
  by (induction t) (auto simp: has_bound_var_iff not_less)

lemma idx_grammar_at_iff: "idx_grammar_at d phi \<longleftrightarrow> (\<forall>(d, t)\<in>terms_at d phi. \<forall>u\<in>subterms t. linear_index d u)"
  by (induction d phi rule: idx_grammar_at.induct) (simp_all add: ball_Un idx_ok_tm_iff)

definition well_indexed :: "Frm \<Rightarrow> bool" where
  "well_indexed phi \<longleftrightarrow> (\<forall>(d, t)\<in>terms_at 0 phi. \<forall>u\<in>subterms t. linear_index d u)"

text \<open>
  C34: the verdict of the classifier is exact. A formula is admitted exactly when every binder
  ranges over a finite sort, no variable bound above a term occurs under a product or a cast that
  changes the width, and the sort graph of its negation normal form has no cycle. A rejection names
  the first gate that fails: a sequence sort that is the first such binder, the index grammar, or
  a sort that lies on a cycle. The classifier never answers that it does not know.
\<close>

theorem verdict_exact:
  "case classify phi of
     Admitted \<Rightarrow> list_all fin_sort (binders phi) \<and> well_indexed phi \<and>
       acyclic (set (edges_frm [] (nnf phi)))
   | Rejected (SeqQuantifier s) \<Rightarrow>
       \<exists>xs ys. binders phi = xs @ s # ys \<and> list_all fin_sort xs \<and> \<not> fin_sort s
   | Rejected IndexGrammar \<Rightarrow> list_all fin_sort (binders phi) \<and> \<not> well_indexed phi
   | Rejected (SortGraphCycle s) \<Rightarrow> list_all fin_sort (binders phi) \<and> well_indexed phi \<and>
       (s, s) \<in> (set (edges_frm [] (nnf phi)))\<^sup>+
   | Unknown _ \<Rightarrow> False"
proof (cases "filter (\<lambda>s. \<not> fin_sort s) (binders phi)")
  case Nil
  then have "fin_carrier phi = Ok ()" "list_all fin_sort (binders phi)"
    by (simp_all add: fin_carrier_binders filter_empty_conv list_all_iff)
  moreover have "idx_grammar phi \<longleftrightarrow> well_indexed phi"
    by (simp add: idx_grammar_def idx_grammar_at_iff well_indexed_def)
  ultimately show ?thesis
    using graph_acyclic_exact [of "nnf phi"] by (auto simp: classify_def split: result.splits)
next
  case (Cons s rest)
  then have "classify phi = Rejected (SeqQuantifier s)" by (simp add: classify_def fin_carrier_binders)
  moreover obtain xs ys where "binders phi = xs @ s # ys" "\<forall>x\<in>set xs. fin_sort x" "\<not> fin_sort s"
    using Cons by (auto simp: filter_eq_Cons_iff)
  ultimately show ?thesis by (auto simp: list_all_iff)
qed


section \<open>Negation normal form keeps the meaning\<close>

text \<open>
  A formula under an interpretation: the carrier of each sort and the truth of the atoms under an
  assignment of the de Bruijn variables.
\<close>

fun sem :: "(Sort2 \<Rightarrow> 'v set) \<Rightarrow> ('v list \<Rightarrow> Atom \<Rightarrow> bool) \<Rightarrow> 'v list \<Rightarrow> Frm \<Rightarrow> bool" where
  "sem D A env (Atom a) = A env a"
| "sem D A env (Neg p) = (\<not> sem D A env p)"
| "sem D A env (Conj p q) = (sem D A env p \<and> sem D A env q)"
| "sem D A env (Disj p q) = (sem D A env p \<or> sem D A env q)"
| "sem D A env (Imp p q) = (sem D A env p \<longrightarrow> sem D A env q)"
| "sem D A env (All s p) = (\<forall>v\<in>D s. sem D A (v # env) p)"
| "sem D A env (Ex s p) = (\<exists>v\<in>D s. sem D A (v # env) p)"

fun is_nnf :: "Frm \<Rightarrow> bool" where
  "is_nnf (Atom _) = True"
| "is_nnf (Neg (Atom _)) = True"
| "is_nnf (Neg _) = False"
| "is_nnf (Conj p q) = (is_nnf p \<and> is_nnf q)"
| "is_nnf (Disj p q) = (is_nnf p \<and> is_nnf q)"
| "is_nnf (Imp p q) = False"
| "is_nnf (All _ p) = is_nnf p"
| "is_nnf (Ex _ p) = is_nnf p"

lemma nnf_shape: "is_nnf (nnf phi) \<and> is_nnf (nnf_neg phi)"
  by (induction phi) auto

lemma nnf_sem:
  "(sem D A env (nnf phi) \<longleftrightarrow> sem D A env phi) \<and> (sem D A env (nnf_neg phi) \<longleftrightarrow> \<not> sem D A env phi)"
  by (induction phi arbitrary: env) auto

lemma nnf_idem: "is_nnf phi \<Longrightarrow> nnf phi = phi"
  by (induction phi rule: is_nnf.induct) simp_all

text \<open>
  C35: negation normal form, on which the sort graph is computed, is a normal form and loses
  nothing: no implication is left, negation stands only before atoms, the normal form is its own
  normal form, and under every interpretation of the sorts and atoms and every assignment the
  formula and its normal form agree.
\<close>

theorem nnf_preserves_meaning:
  "is_nnf (nnf phi) \<and> nnf (nnf phi) = nnf phi \<and> sem D A env (nnf phi) = sem D A env phi"
  using nnf_shape [of phi] nnf_sem [of D A env phi] nnf_idem by blast

section \<open>The wire format\<close>

fun write_sort :: "Sort2 \<Rightarrow> string" where
  "write_sort (Mach m) = ''(m '' @ mach_wire m @ '')''"
| "write_sort (Seq s) = ''(s '' @ write_sort s @ '')''"
| "write_sort (Opaque k) = ''(o '' @ show_nat (unat k) @ '')''"

fun write_tm :: "Tm \<Rightarrow> string" where
  "write_tm (Var s i) = ''(v '' @ write_sort s @ '' '' @ show_nat (unat i) @ '')''"
| "write_tm (Const s i) = ''(c '' @ write_sort s @ '' '' @ show_nat (unat i) @ '')''"
| "write_tm (Lit s v) = ''(l '' @ write_sort s @
     (case v of IntValue n \<Rightarrow> '' (i '' @ show_int (sint n) @ '')''
      | BoolValue b \<Rightarrow> '' (b '' @ (if b then ''1'' else ''0'') @ '')'') @ '')''"
| "write_tm (Read elem sq ix) = ''(rd '' @ write_sort elem @ '' '' @ write_tm sq @ '' '' @ write_tm ix @ '')''"
| "write_tm (Len sq) = ''(ln '' @ write_tm sq @ '')''"
| "write_tm (Cast s t) = ''(ct '' @ write_sort s @ '' '' @ write_tm t @ '')''"
| "write_tm (IdxOp t k) = ''(ix '' @ write_tm t @ '' '' @ show_int (sint k) @ '')''"
| "write_tm (Mul t u) = ''(ml '' @ write_tm t @ '' '' @ write_tm u @ '')''"
| "write_tm (App1 arg res f a) =
     ''(a1 '' @ write_sort arg @ '' '' @ write_sort res @ '' '' @ show_nat (unat f) @ '' '' @ write_tm a @ '')''"

fun write_atom :: "Atom \<Rightarrow> string" where
  "write_atom (Rel r t u) = ''(r '' @ rel_wire r @ '' '' @ write_tm t @ '' '' @ write_tm u @ '')''"
| "write_atom (QFree i) = ''(qf '' @ show_nat (unat i) @ '')''"

fun write_frm :: "Frm \<Rightarrow> string" where
  "write_frm (Atom a) = ''(at '' @ write_atom a @ '')''"
| "write_frm (Neg p) = ''(ng '' @ write_frm p @ '')''"
| "write_frm (Conj p q) = ''(cj '' @ write_frm p @ '' '' @ write_frm q @ '')''"
| "write_frm (Disj p q) = ''(dj '' @ write_frm p @ '' '' @ write_frm q @ '')''"
| "write_frm (Imp p q) = ''(im '' @ write_frm p @ '' '' @ write_frm q @ '')''"
| "write_frm (All s p) = ''(al '' @ write_sort s @ '' '' @ write_frm p @ '')''"
| "write_frm (Ex s p) = ''(ex '' @ write_sort s @ '' '' @ write_frm p @ '')''"

definition to_wire :: "Frm \<Rightarrow> string" where
  "to_wire phi = write_frm phi"

definition flush_token :: "string \<Rightarrow> string list" where
  "flush_token cur = (if cur = [] then [] else [cur])"

fun tokenize_loop :: "string \<Rightarrow> string \<Rightarrow> string list" where
  "tokenize_loop cur [] = flush_token cur"
| "tokenize_loop cur (ch # cs) =
     (if ch = CHR ''('' \<or> ch = CHR '')'' then flush_token cur @ [[ch]] @ tokenize_loop [] cs
      else if is_whitespace ch then flush_token cur @ tokenize_loop [] cs
      else tokenize_loop (cur @ [ch]) cs)"

definition tokenize :: "string \<Rightarrow> string list" where
  "tokenize wire = tokenize_loop [] wire"

text \<open>\<open>str::parse\<close> for the unsigned and the signed integers of a width.\<close>

definition parse_digits :: "string \<Rightarrow> nat option" where
  "parse_digits s = (if s \<noteq> [] \<and> list_all is_ascii_digit s then Some (read_digits s) else None)"

definition parse_unsigned :: "string \<Rightarrow> 'a::len word option" where
  "parse_unsigned s =
     (case parse_digits (case s of c # cs \<Rightarrow> if c = CHR ''+'' then cs else s | [] \<Rightarrow> []) of
        None \<Rightarrow> None
      | Some n \<Rightarrow> if n < 2 ^ LENGTH('a) then Some (of_nat n) else None)"

definition in_signed_range :: "nat \<Rightarrow> int \<Rightarrow> bool" where
  "in_signed_range w i = (- (2 ^ (w - 1)) \<le> i \<and> i < 2 ^ (w - 1))"

definition parse_signed :: "string \<Rightarrow> 'a::len word option" where
  "parse_signed s =
     (case (case s of
              c # cs \<Rightarrow> if c = CHR ''+'' then map_option int (parse_digits cs)
                        else if c = CHR ''-'' then map_option (\<lambda>n. - int n) (parse_digits cs)
                        else map_option int (parse_digits s)
            | [] \<Rightarrow> None) of
        None \<Rightarrow> None
      | Some i \<Rightarrow> if in_signed_range LENGTH('a) i then Some (word_of_int i) else None)"

text \<open>A parser step: the value and the remaining tokens, or the message.\<close>

type_synonym 'a parsed = "('a \<times> string list, string) result"

definition pbind :: "'a parsed \<Rightarrow> ('a \<Rightarrow> string list \<Rightarrow> 'b parsed) \<Rightarrow> 'b parsed" where
  "pbind r f = (case r of Err e \<Rightarrow> Err e | Ok (x, ts) \<Rightarrow> f x ts)"

lemma pbind_cong [fundef_cong]:
  "r = r' \<Longrightarrow> (\<And>x ts. r' = Ok (x, ts) \<Longrightarrow> f x ts = g x ts) \<Longrightarrow> pbind r f = pbind r' g"
  by (auto simp: pbind_def split: result.splits)

lemma pbind_simps [simp]: "pbind (Ok (x, ts)) f = f x ts" "pbind (Err e) f = Err e"
  by (simp_all add: pbind_def)

lemma pbind_OkE:
  assumes "pbind r f = Ok (y, ts')"
  obtains x ts where "r = Ok (x, ts)" "f x ts = Ok (y, ts')"
  using assms by (auto simp: pbind_def split: result.splits)

fun p_next :: "string list \<Rightarrow> string parsed" where
  "p_next [] = Err ''unexpected end of wire input''"
| "p_next (t # ts) = Ok (t, ts)"

definition quoted :: "string \<Rightarrow> string" where
  "quoted s = ''`'' @ s @ ''`''"

definition p_expect :: "string \<Rightarrow> string list \<Rightarrow> unit parsed" where
  "p_expect want ts = pbind (p_next ts) (\<lambda>got ts.
     if got = want then Ok ((), ts) else Err (''expected '' @ quoted want @ '', found '' @ quoted got))"

definition p_open :: "string list \<Rightarrow> string parsed" where
  "p_open ts = pbind (p_expect ''('' ts) (\<lambda>_ ts. p_next ts)"

definition p_unsigned :: "string list \<Rightarrow> 'a::len word parsed" where
  "p_unsigned ts = pbind (p_next ts) (\<lambda>t ts.
     case parse_unsigned t of Some n \<Rightarrow> Ok (n, ts) | None \<Rightarrow> Err (''expected an integer, found '' @ quoted t))"

definition p_signed :: "string list \<Rightarrow> 'a::len word parsed" where
  "p_signed ts = pbind (p_next ts) (\<lambda>t ts.
     case parse_signed t of Some n \<Rightarrow> Ok (n, ts) | None \<Rightarrow> Err (''expected an integer, found '' @ quoted t))"

text \<open>The closing parenthesis of a node.\<close>

definition p_close :: "'a parsed \<Rightarrow> 'a parsed" where
  "p_close r = pbind r (\<lambda>x ts. pbind (p_expect '')'' ts) (\<lambda>_ ts. Ok (x, ts)))"

lemma p_close_cong [fundef_cong]: "r = r' \<Longrightarrow> p_close r = p_close r'"
  by simp

lemma p_next_shorter: "p_next ts = Ok (t, r) \<Longrightarrow> length r < length ts"
  by (cases ts) auto

lemma p_expect_shorter: "p_expect w ts = Ok (u, r) \<Longrightarrow> length r < length ts"
  by (auto simp: p_expect_def elim!: pbind_OkE dest!: p_next_shorter split: if_splits)

lemma p_open_shorter: "p_open ts = Ok (t, r) \<Longrightarrow> length r < length ts"
  by (auto simp: p_open_def elim!: pbind_OkE dest!: p_next_shorter p_expect_shorter)

lemma p_unsigned_shorter: "p_unsigned ts = Ok (n, r) \<Longrightarrow> length r < length ts"
  by (auto simp: p_unsigned_def elim!: pbind_OkE dest!: p_next_shorter split: option.splits)

lemma p_signed_shorter: "p_signed ts = Ok (n, r) \<Longrightarrow> length r < length ts"
  by (auto simp: p_signed_def elim!: pbind_OkE dest!: p_next_shorter split: option.splits)

lemma p_close_OkE:
  assumes "p_close p = Ok (x, ts')"
  obtains ts where "p = Ok (x, ts)" "length ts' < length ts"
  using assms by (auto simp: p_close_def elim!: pbind_OkE dest!: p_expect_shorter)

function p_sort :: "string list \<Rightarrow> Sort2 parsed" where
  "p_sort ts = pbind (p_open ts) (\<lambda>tag ts. p_close
     (if tag = ''m'' then pbind (p_next ts) (\<lambda>w ts.
        case mach_from_wire w of Some m \<Rightarrow> Ok (Mach m, ts) | None \<Rightarrow> Err (''bad mach width '' @ quoted w))
      else if tag = ''s'' then pbind (p_sort ts) (\<lambda>s ts. Ok (Seq s, ts))
      else if tag = ''o'' then pbind (p_unsigned ts) (\<lambda>k ts. Ok (Opaque k, ts))
      else Err (''bad sort tag '' @ quoted tag)))"
  by pat_completeness auto
termination by (relation "measure length") (auto dest: p_open_shorter)

declare p_sort.simps [simp del]

lemma p_sort_shorter: "p_sort ts = Ok (s, r) \<Longrightarrow> length r < length ts"
proof (induction ts arbitrary: s r rule: p_sort.induct)
  case (1 ts)
  then show ?case
    by (subst (asm) (2) p_sort.simps)
       (fastforce elim!: pbind_OkE p_close_OkE dest: p_open_shorter p_next_shorter p_unsigned_shorter
          split: if_splits option.splits)
qed

definition p_literal :: "string list \<Rightarrow> ScalarValue parsed" where
  "p_literal ts = pbind (p_open ts) (\<lambda>tag ts. p_close
     (if tag = ''i'' then pbind (p_signed ts) (\<lambda>n ts. Ok (IntValue n, ts))
      else if tag = ''b'' then pbind (p_unsigned ts) (\<lambda>n ts.
        if n = (0 :: u8) then Ok (BoolValue False, ts)
        else if n = 1 then Ok (BoolValue True, ts)
        else Err (''bad boolean literal '' @ quoted (show_nat (unat n))))
      else Err (''bad literal tag '' @ quoted tag)))"

lemma p_literal_shorter: "p_literal ts = Ok (v, r) \<Longrightarrow> length r < length ts"
  by (fastforce simp: p_literal_def elim!: pbind_OkE p_close_OkE
      dest: p_open_shorter p_signed_shorter p_unsigned_shorter split: if_splits)

text \<open>
  Terms and formulas call themselves again on what an earlier call left over, so the recursion is
  nested: that a call shortens the tokens is shown first on the domain of the recursion.
\<close>

function p_tm :: "string list \<Rightarrow> Tm parsed" where
  "p_tm ts = pbind (p_open ts) (\<lambda>tag ts. p_close
     (if tag = ''v'' then pbind (p_sort ts) (\<lambda>s ts. pbind (p_unsigned ts) (\<lambda>i ts. Ok (Var s i, ts)))
      else if tag = ''c'' then pbind (p_sort ts) (\<lambda>s ts. pbind (p_unsigned ts) (\<lambda>i ts. Ok (Const s i, ts)))
      else if tag = ''l'' then pbind (p_sort ts) (\<lambda>s ts. pbind (p_literal ts) (\<lambda>v ts. Ok (Lit s v, ts)))
      else if tag = ''rd'' then pbind (p_sort ts) (\<lambda>elem ts. pbind (p_tm ts) (\<lambda>sq ts.
        pbind (p_tm ts) (\<lambda>ix ts. Ok (Read elem sq ix, ts))))
      else if tag = ''ln'' then pbind (p_tm ts) (\<lambda>sq ts. Ok (Len sq, ts))
      else if tag = ''ct'' then pbind (p_sort ts) (\<lambda>s ts. pbind (p_tm ts) (\<lambda>t ts. Ok (Cast s t, ts)))
      else if tag = ''ix'' then pbind (p_tm ts) (\<lambda>t ts. pbind (p_signed ts) (\<lambda>k ts. Ok (IdxOp t k, ts)))
      else if tag = ''ml'' then pbind (p_tm ts) (\<lambda>t ts. pbind (p_tm ts) (\<lambda>u ts. Ok (Mul t u, ts)))
      else if tag = ''a1'' then pbind (p_sort ts) (\<lambda>arg ts. pbind (p_sort ts) (\<lambda>res ts.
        pbind (p_unsigned ts) (\<lambda>f ts. pbind (p_tm ts) (\<lambda>a ts. Ok (App1 arg res f a, ts)))))
      else Err (''bad term tag '' @ quoted tag)))"
  by pat_completeness auto

lemmas shorter = p_open_shorter p_next_shorter p_unsigned_shorter p_signed_shorter p_sort_shorter
  p_literal_shorter

definition shrinks :: "nat \<Rightarrow> 'a parsed \<Rightarrow> bool" where
  "shrinks n r \<longleftrightarrow> (\<forall>x ts. r = Ok (x, ts) \<longrightarrow> length ts < n)"

lemma shrinks_pbind:
  "shrinks n r \<Longrightarrow> (\<And>x ts. r = Ok (x, ts) \<Longrightarrow> length ts < n \<Longrightarrow> shrinks n (f x ts)) \<Longrightarrow> shrinks n (pbind r f)"
  by (auto simp: shrinks_def elim!: pbind_OkE)

lemma shrinks_close: "shrinks n r \<Longrightarrow> shrinks n (p_close r)"
  by (fastforce simp: shrinks_def elim!: p_close_OkE)

lemma shrinks_if: "(b \<Longrightarrow> shrinks n x) \<Longrightarrow> (\<not> b \<Longrightarrow> shrinks n y) \<Longrightarrow> shrinks n (if b then x else y)"
  by simp

lemma shrinks_Ok: "length ts < n \<Longrightarrow> shrinks n (Ok (x, ts))"
  by (simp add: shrinks_def)

lemma shrinks_Err: "shrinks n (Err e)"
  by (simp add: shrinks_def)

lemma shrinks_weaken: "shrinks (length ts) r \<Longrightarrow> length ts < n \<Longrightarrow> shrinks n r"
  by (fastforce simp: shrinks_def)

lemma shrinks_leaves:
  "length ts < n \<Longrightarrow> shrinks n (p_sort ts)"
  "length ts < n \<Longrightarrow> shrinks n (p_unsigned ts)"
  "length ts < n \<Longrightarrow> shrinks n (p_signed ts)"
  "length ts < n \<Longrightarrow> shrinks n (p_literal ts)"
  "length ts < n \<Longrightarrow> shrinks n (p_next ts)"
  "shrinks (length ts) (p_open ts)"
  by (fastforce simp: shrinks_def dest: shorter)+

lemmas shrinks_intros = shrinks_pbind shrinks_close shrinks_if shrinks_Ok shrinks_Err shrinks_leaves

lemma p_tm_shrinks_dom: "p_tm_dom ts \<Longrightarrow> shrinks (length ts) (p_tm ts)"
proof (induction ts rule: p_tm.pinduct)
  case (1 ts)
  note IH = 1(2-9) [THEN shrinks_weaken]
  show ?case
    unfolding p_tm.psimps [OF 1(1)] by (intro shrinks_intros) (assumption | rule IH; assumption)+
qed

lemma shrinksD: "shrinks n r \<Longrightarrow> r = Ok (x, ts) \<Longrightarrow> length ts < n"
  by (simp add: shrinks_def)

termination p_tm
  by (relation "measure length")
     (auto dest!: shorter shrinksD [OF p_tm_shrinks_dom])

declare p_tm.simps [simp del]

lemma p_tm_shrinks: "length ts < n \<Longrightarrow> shrinks n (p_tm ts)"
proof (induction ts arbitrary: n rule: p_tm.induct)
  case (1 ts)
  have "shrinks (length ts) (p_tm ts)"
    unfolding p_tm.simps [of ts] by (intro shrinks_intros) (assumption | rule 1(1-8); assumption)+
  then show ?case using 1(9) by (rule shrinks_weaken)
qed

definition p_atom :: "string list \<Rightarrow> Atom parsed" where
  "p_atom ts = pbind (p_open ts) (\<lambda>tag ts. p_close
     (if tag = ''r'' then pbind (p_next ts) (\<lambda>w ts.
        case rel_from_wire w of None \<Rightarrow> Err ''bad rel'' | Some r \<Rightarrow>
          pbind (p_tm ts) (\<lambda>t ts. pbind (p_tm ts) (\<lambda>u ts. Ok (Rel r t u, ts))))
      else if tag = ''qf'' then pbind (p_unsigned ts) (\<lambda>i ts. Ok (QFree i, ts))
      else Err (''bad atom tag '' @ quoted tag)))"

lemma p_atom_shrinks: "length ts < n \<Longrightarrow> shrinks n (p_atom ts)"
proof -
  have "shrinks (length ts) (p_atom ts)"
    unfolding p_atom_def
    by (intro shrinks_intros) (auto intro!: shrinks_pbind shrinks_Ok shrinks_Err p_tm_shrinks split: option.split)
  then show "length ts < n \<Longrightarrow> shrinks n (p_atom ts)" by (rule shrinks_weaken)
qed

function p_frm :: "string list \<Rightarrow> Frm parsed" where
  "p_frm ts = pbind (p_open ts) (\<lambda>tag ts. p_close
     (if tag = ''at'' then pbind (p_atom ts) (\<lambda>a ts. Ok (Atom a, ts))
      else if tag = ''ng'' then pbind (p_frm ts) (\<lambda>p ts. Ok (Neg p, ts))
      else if tag = ''cj'' then pbind (p_frm ts) (\<lambda>p ts. pbind (p_frm ts) (\<lambda>q ts. Ok (Conj p q, ts)))
      else if tag = ''dj'' then pbind (p_frm ts) (\<lambda>p ts. pbind (p_frm ts) (\<lambda>q ts. Ok (Disj p q, ts)))
      else if tag = ''im'' then pbind (p_frm ts) (\<lambda>p ts. pbind (p_frm ts) (\<lambda>q ts. Ok (Imp p q, ts)))
      else if tag = ''al'' then pbind (p_sort ts) (\<lambda>s ts. pbind (p_frm ts) (\<lambda>p ts. Ok (All s p, ts)))
      else if tag = ''ex'' then pbind (p_sort ts) (\<lambda>s ts. pbind (p_frm ts) (\<lambda>p ts. Ok (Ex s p, ts)))
      else Err (''bad formula tag '' @ quoted tag)))"
  by pat_completeness auto

lemma p_frm_shrinks_dom: "p_frm_dom ts \<Longrightarrow> shrinks (length ts) (p_frm ts)"
proof (induction ts rule: p_frm.pinduct)
  case (1 ts)
  note IH = 1(2-10) [THEN shrinks_weaken]
  show ?case
    unfolding p_frm.psimps [OF 1(1)]
    by (intro shrinks_intros p_atom_shrinks) (assumption | rule IH; assumption)+
qed

termination p_frm
  by (relation "measure length") (auto dest!: shorter shrinksD [OF p_frm_shrinks_dom])

declare p_frm.simps [simp del]

definition parse_frm :: "string \<Rightarrow> (Frm, string) result" where
  "parse_frm wire =
     (let toks = tokenize wire in
      case p_frm toks of Err e \<Rightarrow> Err e
      | Ok (f, rest) \<Rightarrow>
          if rest \<noteq> [] then Err (''trailing tokens after formula at '' @ show_nat (length toks - length rest))
          else Ok f)"


section \<open>The wire round trip\<close>

text \<open>The tokens of a written node.\<close>

fun sort_toks :: "Sort2 \<Rightarrow> string list" where
  "sort_toks (Mach m) = [''('', ''m'', mach_wire m, '')'']"
| "sort_toks (Seq s) = [''('', ''s''] @ sort_toks s @ ['')'']"
| "sort_toks (Opaque k) = [''('', ''o'', show_nat (unat k), '')'']"

fun lit_toks :: "ScalarValue \<Rightarrow> string list" where
  "lit_toks (IntValue n) = [''('', ''i'', show_int (sint n), '')'']"
| "lit_toks (BoolValue b) = [''('', ''b'', if b then ''1'' else ''0'', '')'']"

fun tm_toks :: "Tm \<Rightarrow> string list" where
  "tm_toks (Var s i) = [''('', ''v''] @ sort_toks s @ [show_nat (unat i), '')'']"
| "tm_toks (Const s i) = [''('', ''c''] @ sort_toks s @ [show_nat (unat i), '')'']"
| "tm_toks (Lit s v) = [''('', ''l''] @ sort_toks s @ lit_toks v @ ['')'']"
| "tm_toks (Read s a b) = [''('', ''rd''] @ sort_toks s @ tm_toks a @ tm_toks b @ ['')'']"
| "tm_toks (Len a) = [''('', ''ln''] @ tm_toks a @ ['')'']"
| "tm_toks (Cast s a) = [''('', ''ct''] @ sort_toks s @ tm_toks a @ ['')'']"
| "tm_toks (IdxOp a k) = [''('', ''ix''] @ tm_toks a @ [show_int (sint k), '')'']"
| "tm_toks (Mul a b) = [''('', ''ml''] @ tm_toks a @ tm_toks b @ ['')'']"
| "tm_toks (App1 x y f a) = [''('', ''a1''] @ sort_toks x @ sort_toks y @ [show_nat (unat f)] @ tm_toks a @ ['')'']"

fun atom_toks :: "Atom \<Rightarrow> string list" where
  "atom_toks (Rel r a b) = [''('', ''r'', rel_wire r] @ tm_toks a @ tm_toks b @ ['')'']"
| "atom_toks (QFree i) = [''('', ''qf'', show_nat (unat i), '')'']"

fun frm_toks :: "Frm \<Rightarrow> string list" where
  "frm_toks (Atom a) = [''('', ''at''] @ atom_toks a @ ['')'']"
| "frm_toks (Neg p) = [''('', ''ng''] @ frm_toks p @ ['')'']"
| "frm_toks (Conj p q) = [''('', ''cj''] @ frm_toks p @ frm_toks q @ ['')'']"
| "frm_toks (Disj p q) = [''('', ''dj''] @ frm_toks p @ frm_toks q @ ['')'']"
| "frm_toks (Imp p q) = [''('', ''im''] @ frm_toks p @ frm_toks q @ ['')'']"
| "frm_toks (All s p) = [''('', ''al''] @ sort_toks s @ frm_toks p @ ['')'']"
| "frm_toks (Ex s p) = [''('', ''ex''] @ sort_toks s @ frm_toks p @ ['')'']"

text \<open>Words: non-empty runs without parentheses and white space.\<close>

definition word_char :: "char \<Rightarrow> bool" where
  "word_char c \<longleftrightarrow> c \<noteq> CHR ''('' \<and> c \<noteq> CHR '')'' \<and> \<not> is_whitespace c"

lemma tokenize_word: "list_all word_char w \<Longrightarrow> tokenize_loop cur (w @ s) = tokenize_loop (cur @ w) s"
  by (induction w arbitrary: cur) (auto simp: word_char_def)

lemma tokenize_word_space:
  "list_all word_char w \<Longrightarrow> w \<noteq> [] \<Longrightarrow> tokenize_loop [] (w @ CHR '' '' # s) = w # tokenize_loop [] s"
  by (simp add: tokenize_word flush_token_def is_whitespace_def)

lemma tokenize_word_close:
  "list_all word_char w \<Longrightarrow> w \<noteq> [] \<Longrightarrow> tokenize_loop [] (w @ CHR '')'' # s) = w # '')'' # tokenize_loop [] s"
  by (simp add: tokenize_word flush_token_def)

lemma digit_word: "is_ascii_digit c \<Longrightarrow> word_char c \<and> c \<noteq> CHR ''+'' \<and> c \<noteq> CHR ''-''"
  by (auto simp: word_char_def is_whitespace_def is_ascii_digit_def Let_def)

lemma digit_char_word: "n < 10 \<Longrightarrow> word_char (digit_char n) \<and> is_ascii_digit (digit_char n)"
  using digit_word [of "digit_char n"] digit_char_decimal [of n] by (simp add: is_ascii_digit_def)

lemma show_nat_digits: "show_nat n \<noteq> [] \<and> list_all word_char (show_nat n) \<and> list_all is_ascii_digit (show_nat n)"
proof -
  have "digits_in 10 n \<noteq> [] \<and> list_all word_char (digits_in 10 n) \<and> list_all is_ascii_digit (digits_in 10 n)"
  proof (induction "10 :: nat" n rule: digits_in.induct)
    case (1 n)
    then show ?case using digit_char_word [of n] digit_char_word [of "n mod 10"]
      by (subst (1 2 3) digits_in.simps) auto
  qed
  then show ?thesis by (simp add: show_nat_def)
qed

lemma show_int_word: "show_int i \<noteq> [] \<and> list_all word_char (show_int i)"
  using show_nat_digits by (simp add: show_int_def word_char_def is_whitespace_def)

lemma parse_digits_show: "parse_digits (show_nat n) = Some n"
  using show_nat_digits by (simp add: parse_digits_def read_digits_show_nat)

lemma show_nat_head:
  obtains c cs where "show_nat n = c # cs" "c \<noteq> CHR ''+''" "c \<noteq> CHR ''-''"
  using show_nat_digits [of n] digit_word by (cases "show_nat n") auto

lemma parse_unsigned_show: "parse_unsigned (show_nat (unat w)) = Some w"
  using unat_lt_exp [of w] parse_digits_show [of "unat w"]
  by (rule_tac n = "unat w" in show_nat_head) (simp add: parse_unsigned_def)

lemma parse_signed_show: "parse_signed (show_int (sint w)) = Some w" for w :: "'a::len word"
proof -
  have "in_signed_range LENGTH('a) (sint w)"
    using sint_greater_eq [of w] sint_less [of w] by (simp add: in_signed_range_def)
  then show ?thesis
    using parse_digits_show [of "nat (- sint w)"] parse_digits_show [of "nat (sint w)"]
    by (rule_tac n = "nat (sint w)" in show_nat_head) (auto simp: parse_signed_def show_int_def)
qed

lemma tokenize_space [simp]: "tokenize_loop [] (CHR '' '' # s) = tokenize_loop [] s"
  by (simp add: flush_token_def is_whitespace_def)

lemma tokenize_paren [simp]:
  "tokenize_loop [] (CHR ''('' # s) = ''('' # tokenize_loop [] s"
  "tokenize_loop [] (CHR '')'' # s) = '')'' # tokenize_loop [] s"
  by (simp_all add: flush_token_def)

lemma tokenize_tag1:
  "word_char a \<Longrightarrow> tokenize_loop [] (a # CHR '' '' # s) = [a] # tokenize_loop [] s"
  using tokenize_word_space [of "[a]" s] by simp

lemma tokenize_tag2:
  "word_char a \<Longrightarrow> word_char b \<Longrightarrow> tokenize_loop [] (a # b # CHR '' '' # s) = [a, b] # tokenize_loop [] s"
  using tokenize_word_space [of "[a, b]" s] by simp

lemma wire_words:
  "mach_wire m \<noteq> [] \<and> list_all word_char (mach_wire m)" "rel_wire r \<noteq> [] \<and> list_all word_char (rel_wire r)"
  by (cases m; simp add: word_char_def is_whitespace_def) (cases r; simp add: word_char_def is_whitespace_def)

lemma tag_chars:
  "word_char CHR ''m''" "word_char CHR ''s''" "word_char CHR ''o''" "word_char CHR ''v''" "word_char CHR ''c''"
  "word_char CHR ''l''" "word_char CHR ''i''" "word_char CHR ''b''" "word_char CHR ''r''" "word_char CHR ''d''"
  "word_char CHR ''n''" "word_char CHR ''t''" "word_char CHR ''x''" "word_char CHR ''a''" "word_char CHR ''1''"
  "word_char CHR ''0''" "word_char CHR ''q''" "word_char CHR ''f''" "word_char CHR ''g''" "word_char CHR ''j''"
  "word_char CHR ''e''"
  by (simp_all add: word_char_def is_whitespace_def)

lemmas wire_simps = tokenize_tag1 tokenize_tag2 tag_chars tokenize_word_space tokenize_word_close wire_words
  show_nat_digits show_int_word

declare tokenize_loop.simps(2) [simp del]

lemma tokenize_sort [simp]: "tokenize_loop [] (write_sort s @ rest) = sort_toks s @ tokenize_loop [] rest"
  by (induction s arbitrary: rest) (simp_all add: wire_simps)

lemma tokenize_bit:
  "tokenize_loop [] (CHR ''1'' # CHR '')'' # s) = ''1'' # '')'' # tokenize_loop [] s"
  "tokenize_loop [] (CHR ''0'' # CHR '')'' # s) = ''0'' # '')'' # tokenize_loop [] s"
  using tokenize_word_close [of "''1''" s] tokenize_word_close [of "''0''" s] by (simp_all add: tag_chars)

lemma tokenize_tm [simp]: "tokenize_loop [] (write_tm t @ rest) = tm_toks t @ tokenize_loop [] rest"
  by (induction t arbitrary: rest) (simp_all add: wire_simps tokenize_bit split: ScalarValue.split)

lemma tokenize_atom [simp]: "tokenize_loop [] (write_atom a @ rest) = atom_toks a @ tokenize_loop [] rest"
  by (cases a) (simp_all add: wire_simps)

lemma tokenize_frm: "tokenize_loop [] (write_frm f @ rest) = frm_toks f @ tokenize_loop [] rest"
  by (induction f arbitrary: rest) (simp_all add: wire_simps)

lemma mach_round: "mach_from_wire (mach_wire m) = Some m"
  by (cases m) (simp_all add: mach_from_wire_def)

lemma rel_round: "rel_from_wire (rel_wire r) = Some r"
  by (cases r) (simp_all add: rel_from_wire_def)

lemma p_open_simp [simp]: "p_open (''('' # t # ts) = Ok (t, ts)"
  by (simp add: p_open_def p_expect_def)

lemma p_close_simp [simp]: "p_close (Ok (x, '')'' # ts)) = Ok (x, ts)"
  by (simp add: p_close_def p_expect_def)

lemma p_number_simps [simp]:
  "p_unsigned (show_nat (unat w) # ts) = Ok (w, ts)"
  "p_signed (show_int (sint v) # ts) = Ok (v, ts)"
  by (simp_all add: p_unsigned_def p_signed_def parse_unsigned_show parse_signed_show)

lemma p_sort_toks [simp]: "p_sort (sort_toks s @ rest) = Ok (s, rest)"
proof (induction s arbitrary: rest)
  case (Seq s)
  then show ?case by (subst p_sort.simps) simp
qed (simp_all add: p_sort.simps [of "''('' # _"] mach_round)

lemma p_bit [simp]:
  "p_unsigned (''1'' # ts) = Ok (1 :: u8, ts)" "p_unsigned (''0'' # ts) = Ok (0 :: u8, ts)"
  by (simp_all add: p_unsigned_def parse_unsigned_def parse_digits_def read_digits_def is_ascii_digit_def)

lemma p_literal_toks [simp]: "p_literal (lit_toks v @ rest) = Ok (v, rest)"
  by (cases v) (auto simp: p_literal_def)

lemma p_tm_toks [simp]: "p_tm (tm_toks t @ rest) = Ok (t, rest)"
  by (induction t arbitrary: rest) (simp_all add: p_tm.simps [of "''('' # _"])

lemma p_atom_toks [simp]: "p_atom (atom_toks a @ rest) = Ok (a, rest)"
  by (cases a) (simp_all add: p_atom_def rel_round)

lemma p_frm_toks: "p_frm (frm_toks f @ rest) = Ok (f, rest)"
  by (induction f arbitrary: rest) (simp_all add: p_frm.simps [of "''('' # _"])

text \<open>
  C36: every formula survives the wire: parsing the text a formula is written to gives back that
  formula, with its sorts, identifiers, literal values and offsets, for every formula.
\<close>

theorem wire_round_trip: "parse_frm (to_wire phi) = Ok phi"
  using tokenize_frm [of phi "[]"] p_frm_toks [of phi "[]"]
  by (simp add: parse_frm_def to_wire_def tokenize_def flush_token_def)

end
