(* ===== verification/Spec2Isabelle.thy ===== *)
theory Spec2Isabelle
  imports Kernel_Storage Kernel_Sync Kernel_Scheduler Kernel_Irq Kernel_Services Kernel_Device
    Kernel_Context Kernel_Frame Kernel_Atomic Kernel_Policy Kernel_Boundary
    Lower_Effects Forge_Ladder Forge_Sandbox Parser_Program Parser_Roundtrip Spec_Classifier
begin

text \<open>
  Thermite is a language whose functions carry contracts, with a tool chain that proves, model checks
  or run-time checks them, and a kernel for programs that run without an operating system. The
  repository falls into the parts below. This development models the parts that decide something
  by themselves; the parts that print text for a prover or a compiler outside the repository
  are listed at the end.

  \<^bold>\<open>How the parts interact.\<close> \<open>thermite-syntax\<close> scans and parses a source file and folds refinements
  into contracts. \<open>thermite-spec\<close> holds the combinators a contract may use and decides which
  quantified clauses lie in the decidable fragment. \<open>thermite-lower\<close> checks declared effects and
  prints the program for the back ends. \<open>forge\<close> runs the back ends, puts each item on a rung of the
  assurance ladder, computes what a verified export depends on, and derives the run-time sandbox
  from the declared effects. \<open>thermite-verified\<close> is a core of small decision functions that the other
  crates must agree with. \<open>thermite-kernel\<close> is the kernel: capabilities, memory, DMA, interrupts,
  processors, scheduling, and a deterministic policy that turns platform events into
  authorised actions.

  \<^bold>\<open>Kernel\<close> (\<open>thermite-kernel/src\<close>), one theory per source file.
  \<^item> \<open>Kernel_Prelude\<close>: results, checked arithmetic on words, ordered maps as sorted association
    lists, and the locales of the interfaces: \<open>op_machine\<close> (a state machine given by an operation
    type and a step), \<open>bounded_fifo\<close>, \<open>ordered_map\<close>. A method on \<open>&mut self\<close> is a function to a
    result and the state it leaves, also on its error paths.
  \<^item> \<open>Kernel_Capability\<close> (capability.rs): handles die when transferred, rights only shrink.
  \<^item> \<open>Kernel_Storage\<close>, \<open>Kernel_Sync\<close>: the bounded containers refine lists and maps; the ticket
    lock serves in order; the bounded queue loses and reorders nothing.
  \<^item> \<open>Kernel_Smp\<close>, \<open>Kernel_Irq\<close>, \<open>Kernel_Scheduler\<close>, \<open>Kernel_Services\<close>, \<open>Kernel_Device\<close>, \<open>Kernel_Context\<close>:
    lifecycle edges, shootdown acknowledgements, interrupt tokens, run-queue invariant and work
    conservation, clock and deadlines, device access, user contexts.
  \<^item> \<open>Kernel_Memory\<close>, \<open>Kernel_Dma\<close>, \<open>Kernel_Frame\<close>: mappings and user copies, device ownership of pinned
    memory, conservation of frames.
  \<^item> \<open>Kernel_Atomic\<close>: the cell is a register, and the recorded trace is an execution.
  \<^item> \<open>Kernel_Event\<close>, \<open>Kernel_Policy\<close>: stamps of events are causal, actions need the matching
    capability, the policy handles events in one order.
  \<^item> \<open>Kernel_Registry\<close>, \<open>Kernel_Boundary\<close>: the frozen table of platform operations and the closure
    check of a boundary inventory against it.

  \<^bold>\<open>Verified core\<close> (\<open>thermite-verified/src/lib.rs\<close>): \<open>Verified_Core\<close>. The theorem of this theory
  shows that the kernel decides as the core's predicates do.

  \<^bold>\<open>Language.\<close>
  \<^item> \<open>Syntax_Ast\<close> (ast.rs): the syntax tree. \<open>Syntax_Lexer\<close> (lexer.rs): the scanner on bytes, where a
    string slice off a character boundary is a panic; its tokens tile the source. \<open>Syntax_Desugar\<close>
    (desugar.rs): desugaring keeps the meaning of contracts.
  \<^item> \<open>Spec_Combinators\<close> (combinators.rs, schemes.rs): the run-time loop of each combinator decides its
    specification. \<open>Spec_Classifier\<close> (classifier.rs): the three admission gates, negation normal
    form and the wire format, which reads back what it writes.
  \<^item> \<open>Lower_Effects\<close> (effects.rs): a program that passes performs no undeclared effect in the
    positions that the walk visits.

  \<^bold>\<open>Driver\<close> (\<open>forge/src\<close>).
  \<^item> \<open>Forge_Manifest\<close> (manifest.rs and the certificate constructors of its neighbours): certificates
    and the project aggregate. \<open>Forge_Ladder\<close> (degrade.rs, kani.rs, engine.rs, verdict.rs, check.rs):
    from a solver outcome to a certificate; a level is only given for evidence of that level.
  \<^item> \<open>Forge_Closure\<close> (closure.rs): call closures. \<open>Forge_Sandbox\<close> (sandbox.rs): allow-lists of system
    calls. \<open>Rust_Text\<close> holds the string functions of the standard library these use.

  \<^bold>\<open>Bounds and fuel.\<close> Machine integers keep their width. Every loop of the kernel and
  the driver is structural or has a measure; the scanner ends because each round moves the
  cursor; the wire parser recurses on a shrinking token list. Recursion limits of the source
  (such as the depth of the effect walk) are constants of the model. Nothing needs a bound of the
  model's own.

  \<^bold>\<open>Not modelled.\<close> The emitters (lower.rs, l1.rs, l2.rs), the exporters to Lean and SMT-LIB, the
  translation validation encoders and the skill generator produce text whose meaning lies in a tool
  outside the repository. check.rs and engine.rs beyond their decisions, cli.rs, the builds and the
  cache are process and file handling. The vacuity, mutation, covenant and repair batteries are
  loops around solver calls. The platform runtime is unsafe bare-metal code. Diagnostics texts are
  modelled only where code decides on them.
\<close>

section \<open>The kernel and its verified predicates\<close>

text \<open>
  The verified core encodes lifecycle states and memory orders as bytes. These are the encodings
  its callers use.
\<close>

fun lifecycle_tag :: "CpuLifecycle \<Rightarrow> u8" where
  "lifecycle_tag Discovered = 0"
| "lifecycle_tag Prepared = 1"
| "lifecycle_tag Starting = 2"
| "lifecycle_tag Online = 3"
| "lifecycle_tag (CpuLifecycle.Failed _) = 4"

fun order_tag :: "AtomicOrdering \<Rightarrow> u8" where
  "order_tag Relaxed = 0"
| "order_tag Acquire = 1"
| "order_tag Release = 2"
| "order_tag AcqRel = 3"
| "order_tag SeqCst = 4"

lemma compare_exchange_agrees:
  "is_Ok (validate_compare_exchange s f) = kernel_cas_order_legal (order_tag s) (order_tag f)"
  by (cases s; cases f) (simp_all add: validate_compare_exchange_def kernel_cas_order_legal_def)

lemma transition_agrees:
  "legal_edge a b = kernel_cpu_transition_legal (lifecycle_tag a) (lifecycle_tag b)"
  by (cases a; cases b) (simp_all add: kernel_cpu_transition_legal_def)

lemma range_contains_unat:
  "kernel_range_contains base len query n \<longleftrightarrow>
     unat base \<le> unat query \<and> unat query + unat n \<le> unat base + unat len"
  unfolding kernel_range_contains_def
  by (auto simp: word_le_nat_alt word_less_nat_alt unat_sub_if' not_less not_le)

lemma contains_range_agrees:
  "Capability_contains_range c base len \<longleftrightarrow>
     unat (cap_base c) + unat (cap_len c) < 2 ^ 64 \<and> kernel_range_contains (cap_base c) (cap_len c) base len"
  unfolding range_contains_unat
  by (auto simp: Capability_contains_range_def checked_add_def word_le_nat_alt unat_word_ariths)

lemma split_agrees:
  "is_Ok (frame_split run n) = kernel_frame_partition (fr_pages run) n (fr_pages run - n)"
  by (auto simp: frame_split_def kernel_frame_partition_def word_gt_0 not_le)

lemma checked_next_agrees:
  "checked_add g 1 = Some n \<longleftrightarrow> kernel_generation_transition g n" for g :: u64
  using checked_inc_None_iff [of g]
  by (cases "checked_add g 1") (auto simp: checked_add_def kernel_generation_transition_def split: if_splits)

lemma transfer_agrees:
  "case fst (ledger_transfer L c new_owner new_rights) of
     Ok c' \<Rightarrow> kernel_generation_transition (cap_generation c) (cap_generation c')
   | Err _ \<Rightarrow> True"
proof (cases "ledger_transfer L c new_owner new_rights")
  case (Pair r L')
  show ?thesis
  proof (cases r)
    case (Ok c')
    from Pair Ok show ?thesis
      by (auto elim!: ledger_transfer_OkE simp: validate_record_def checked_next_agrees split: if_splits)
  qed (simp add: Pair)
qed

lemma pin_agrees:
  "case fst (dma_pin s region request) of
     Ok m \<Rightarrow> kernel_dma_mapping_legal (cap_base region) (cap_len region) (pin_base request) (pin_len request) d d
   | Err _ \<Rightarrow> True"
  by (simp add: dma_pin_def kernel_dma_mapping_legal_def contains_range_agrees Let_def)


end
